(* ===== verification/Kernel_Prelude.thy ===== *)
theory Kernel_Prelude
  imports Main "HOL-Library.Word"
begin

text \<open>
  Shared vocabulary of the VenomOS verification library: the machine types of
  \<^verbatim>\<open>include/stdint.hpp\<close>, the lemmas that move unsigned word comparisons to \<open>nat\<close>, facts on
  loops written as \<open>fold\<close> over an index range, and the byte-bitmap interface that both the
  physical memory manager (\<^verbatim>\<open>kernel/pmm.cpp\<close>) and VenomFS (\<^verbatim>\<open>kernel/fs.cpp\<close>) implement.
\<close>

unbundle bit_operations_syntax

section \<open>Machine types\<close>

type_synonym u8 = "8 word"
type_synonym u16 = "16 word"
type_synonym u32 = "32 word"
type_synonym u64 = "64 word"

text \<open>A C array of bytes is a total function from the index; every use is proved in range.\<close>

type_synonym bytes = "nat \<Rightarrow> u8"

named_theorems word_to_nat \<open>rules that move unsigned word facts to natural numbers\<close>
named_theorems word_bits \<open>rules that compute single bits of words\<close>

lemmas word_cmp_nat [word_to_nat] = word_less_nat_alt word_le_nat_alt unat_div unat_mod_distrib

lemma unat_u64_less [simp]: "unat (x :: u64) < 18446744073709551616"
  using unsigned_less [of x] by simp

lemma unat_u32_less [simp]: "unat (x :: u32) < 4294967296"
  using unsigned_less [of x] by simp

lemma unat_u8_less [simp]: "unat (x :: u8) < 256"
  using unsigned_less [of x] by simp

lemma unat_add_no_wrap:
  "unat a + unat b < 18446744073709551616 \<Longrightarrow> unat (a + b :: u64) = unat a + unat b"
  by (simp add: unat_word_ariths)

lemma unat_sub_no_wrap: "b \<le> a \<Longrightarrow> unat (a - b :: 'a::len word) = unat a - unat b"
  by (rule unat_sub)

lemma unat_minus_one_pos: "0 < unat (a :: u64) \<Longrightarrow> unat (a - 1) = unat a - 1"
  by (rule unat_minus_one) auto

lemma unat_plus_one_bound: "unat (a :: u64) < 18446744073709551615 \<Longrightarrow> unat (a + 1) = unat a + 1"
  by (simp add: unat_word_ariths)

lemma multiple_div_pos: "(n :: nat) mod d = 0 \<Longrightarrow> n \<noteq> 0 \<Longrightarrow> n div d \<noteq> 0"
  by (metis add.right_neutral div_mult_mod_eq mult_zero_left)

lemma clear_low_bits: "(x :: 'a :: len word) AND NOT (mask n) = push_bit n (drop_bit n x)"
  by (auto intro!: bit_eqI simp: bit_simps)

lemma unat_clear_low_bits: "unat ((x :: 'a :: len word) AND NOT (mask n)) = unat x div 2 ^ n * 2 ^ n"
proof -
  have "unat x div 2 ^ n * 2 ^ n < 2 ^ LENGTH('a)"
    using unsigned_less [of x] by (rule le_less_trans [OF div_times_less_eq_dividend])
  then show ?thesis
    unfolding clear_low_bits unsigned_push_bit_eq unsigned_drop_bit_eq
    by (simp add: take_bit_eq_mod drop_bit_eq_div push_bit_eq_mult)
qed

lemma and_one_nonzero [word_bits]: "(x AND 1 \<noteq> 0) = bit (x :: 'a::len word) 0"
  by (simp add: and_one_eq bit_0 odd_iff_mod_2_eq_one)

lemma bit_ucast_one_hot [word_bits]:
  "bit (ucast (push_bit n (1 :: u32)) :: u8) m \<longleftrightarrow> m = n \<and> m < 8"
  by (auto simp: bit_simps)

lemma bit_ucast_one_cold [word_bits]:
  "bit (ucast (NOT (push_bit n (1 :: u32))) :: u8) m \<longleftrightarrow> m \<noteq> n \<and> m < 8"
  by (auto simp: bit_simps)

section \<open>Counting in an index range\<close>

text \<open>The loops that keep a counter beside a bitmap change one element at a time.\<close>

lemma card_range_remove:
  fixes n :: nat
  assumes "i < n" "P i"
  shows "card {j. j < n \<and> P j \<and> j \<noteq> i} = card {j. j < n \<and> P j} - 1"
proof -
  have "{j. j < n \<and> P j \<and> j \<noteq> i} = {j. j < n \<and> P j} - {i}" by auto
  then show ?thesis using assms by (simp add: card_Diff_singleton)
qed

lemma card_range_insert:
  fixes n :: nat
  assumes "i < n" "\<not> P i"
  shows "card {j. j < n \<and> (P j \<or> j = i)} = Suc (card {j. j < n \<and> P j})"
proof -
  have "{j. j < n \<and> (P j \<or> j = i)} = insert i {j. j < n \<and> P j}" using assms by auto
  then show ?thesis using assms by (simp add: card_insert_disjoint)
qed

lemma card_range_le: "card {j. j < n \<and> P j} \<le> (n :: nat)"
proof -
  have "card {j. j < n \<and> P j} \<le> card {..<n}" by (rule card_mono) auto
  then show ?thesis by simp
qed

lemma card_range_pos: "i < n \<Longrightarrow> P i \<Longrightarrow> 0 < card {j. j < (n :: nat) \<and> P j}"
  by (auto simp: card_gt_0_iff)

section \<open>The byte-bitmap interface\<close>

text \<open>
  Both bitmaps of the kernel keep one bit per object in an array of bytes. What their clients
  rely on is how a test sees a later set or clear, and that a clear undoes a set and conversely.
\<close>

locale byte_bitmap =
  fixes tst :: "bytes \<Rightarrow> nat \<Rightarrow> bool"
    and sett :: "bytes \<Rightarrow> nat \<Rightarrow> bytes"
    and clr :: "bytes \<Rightarrow> nat \<Rightarrow> bytes"
  assumes tst_sett: "tst (sett b i) j \<longleftrightarrow> j = i \<or> tst b j"
    and tst_clr: "tst (clr b i) j \<longleftrightarrow> j \<noteq> i \<and> tst b j"
    and clr_sett: "\<not> tst b i \<Longrightarrow> clr (sett b i) i = b"
    and sett_clr: "tst b i \<Longrightarrow> sett (clr b i) i = b"
    and sett_byte: "k \<noteq> i div 8 \<Longrightarrow> sett b i k = b k"
    and clr_byte: "k \<noteq> i div 8 \<Longrightarrow> clr b i k = b k"
begin

lemma tst_fold_sett: "tst (fold (\<lambda>i b. sett b i) is b) j \<longleftrightarrow> j \<in> set is \<or> tst b j"
  by (induction "is" arbitrary: b) (auto simp: tst_sett)

lemma tst_fold_clr: "tst (fold (\<lambda>i b. clr b i) is b) j \<longleftrightarrow> j \<notin> set is \<and> tst b j"
  by (induction "is" arbitrary: b) (auto simp: tst_clr)

lemma card_clear_sett:
  assumes "i < n" "\<not> tst b i"
  shows "card {j. j < n \<and> \<not> tst (sett b i) j} = card {j. j < n \<and> \<not> tst b j} - 1"
  using card_range_remove [where P = "\<lambda>j. \<not> tst b j", OF assms]
  by (simp add: tst_sett conj_commute)

lemma card_clear_clr:
  assumes "i < n" "tst b i"
  shows "card {j. j < n \<and> \<not> tst (clr b i) j} = Suc (card {j. j < n \<and> \<not> tst b j})"
  using card_range_insert [where P = "\<lambda>j. \<not> tst b j", of i n] assms
  by (simp add: tst_clr disj_commute)

lemma fold_sett_byte: "\<forall>i\<in>set is. i div 8 \<noteq> k \<Longrightarrow> fold (\<lambda>i b. sett b i) is b k = b k"
  by (induction "is" arbitrary: b) (auto simp: sett_byte)

lemma fold_clr_byte: "\<forall>i\<in>set is. i div 8 \<noteq> k \<Longrightarrow> fold (\<lambda>i b. clr b i) is b k = b k"
  by (induction "is" arbitrary: b) (auto simp: clr_byte)

end

text \<open>The byte operations both files write out satisfy these laws.\<close>

lemma byte_index_split: "i div 8 = j div 8 \<Longrightarrow> (i mod 8 = j mod 8) \<longleftrightarrow> i = (j :: nat)"
  by (metis div_mult_mod_eq)

lemma byte_bitmap_standard:
  "byte_bitmap (\<lambda>b i. drop_bit (i mod 8) (b (i div 8)) AND 1 \<noteq> 0)
     (\<lambda>b i. b(i div 8 := b (i div 8) OR ucast (push_bit (i mod 8) (1 :: u32))))
     (\<lambda>b i. b(i div 8 := b (i div 8) AND ucast (NOT (push_bit (i mod 8) (1 :: u32)))))"
proof (unfold_locales, goal_cases)
  case (1 b i j)
  show ?case
    by (cases "i div 8 = j div 8")
      (auto simp: and_one_nonzero bit_simps byte_index_split)
next
  case (2 b i j)
  show ?case
    by (cases "i div 8 = j div 8")
      (auto simp: and_one_nonzero bit_simps byte_index_split)
next
  case (3 b i)
  then have "\<not> bit (b (i div 8)) (i mod 8)" by (simp add: and_one_nonzero bit_simps)
  then show ?case by (intro ext) (auto intro!: bit_word_eqI simp: bit_simps)
next
  case (4 b i)
  then have "bit (b (i div 8)) (i mod 8)" by (simp add: and_one_nonzero bit_simps)
  then show ?case by (intro ext) (auto intro!: bit_word_eqI simp: bit_simps)
qed auto

section \<open>The frame-allocator interface\<close>

text \<open>
  What \<^verbatim>\<open>kernel/heap.cpp\<close>, \<^verbatim>\<open>kernel/paging.cpp\<close> and \<^verbatim>\<open>kernel/process.cpp\<close> rely on when they call
  \<open>pmm::alloc_frame\<close> and \<open>pmm::free_frame\<close>: address 0 means "out of memory" and changes nothing,
  every other answer is a page-aligned frame below the managed limit that nobody else holds, and a
  released frame can be handed out again.
\<close>

locale frame_allocator =
  fixes alloc :: "'s \<Rightarrow> u64 \<times> 's"
    and release :: "u64 \<Rightarrow> 's \<Rightarrow> 's"
    and avail :: "'s \<Rightarrow> u64 set"
    and ok :: "'s \<Rightarrow> bool"
  assumes avail_frame: "ok s \<Longrightarrow> a \<in> avail s \<Longrightarrow>
      a \<noteq> 0 \<and> unat a mod 4096 = 0 \<and> unat a + 4096 \<le> 1073741824"
    and alloc_none: "ok s \<Longrightarrow> avail s = {} \<Longrightarrow> alloc s = (0, s)"
    and alloc_some: "ok s \<Longrightarrow> avail s \<noteq> {} \<Longrightarrow> fst (alloc s) \<in> avail s"
    and alloc_takes: "ok s \<Longrightarrow> avail (snd (alloc s)) = avail s - {fst (alloc s)}"
    and alloc_ok: "ok s \<Longrightarrow> ok (snd (alloc s))"
    and release_gives: "ok s \<Longrightarrow> a \<noteq> 0 \<Longrightarrow> unat a mod 4096 = 0 \<Longrightarrow> unat a < 1073741824 \<Longrightarrow>
      avail (release a s) = insert a (avail s)"
    and release_ok: "ok s \<Longrightarrow> a \<noteq> 0 \<Longrightarrow> ok (release a s)"
begin

lemma alloc_fails_iff: "ok s \<Longrightarrow> fst (alloc s) = 0 \<longleftrightarrow> avail s = {}"
  using alloc_none alloc_some avail_frame by fastforce

lemma alloc_failed_unchanged: "ok s \<Longrightarrow> fst (alloc s) = 0 \<Longrightarrow> snd (alloc s) = s"
  using alloc_fails_iff alloc_none by simp

lemma alloc_frame_shape:
  assumes "ok s" "alloc s = (a, s')" "a \<noteq> 0"
  shows "a \<in> avail s" "a \<notin> avail s'" "unat a mod 4096 = 0" "unat a + 4096 \<le> 1073741824"
proof -
  have "avail s \<noteq> {}" using assms alloc_fails_iff [of s] by simp
  then show a: "a \<in> avail s" using alloc_some [of s] assms by simp
  show "a \<notin> avail s'" using alloc_takes [of s] assms by simp
  show "unat a mod 4096 = 0" "unat a + 4096 \<le> 1073741824" using avail_frame [of s a] a assms by auto
qed

lemma alloc_twice_distinct:
  assumes "ok s" "alloc s = (a, s')" "alloc s' = (b, s'')" "a \<noteq> 0" "b \<noteq> 0"
  shows "a \<noteq> b"
proof -
  have "ok s'" using alloc_ok [OF assms(1)] assms(2) by simp
  then have "b \<in> avail s'" using alloc_frame_shape(1) assms(3,5) by blast
  then show ?thesis using alloc_frame_shape(2) [OF assms(1,2,4)] by blast
qed

lemma alloc_release_avail:
  assumes "ok s" "alloc s = (a, s')" "a \<noteq> 0"
  shows "avail (release a s') = avail s"
proof -
  note shape = alloc_frame_shape [OF assms]
  have "ok s'" using alloc_ok [OF assms(1)] assms(2) by simp
  then have "avail (release a s') = insert a (avail s')" using shape assms(3) by (intro release_gives) auto
  then show ?thesis using alloc_takes [OF assms(1)] shape(1) assms(2) by auto
qed

end

section \<open>The interface of a memory allocator\<close>

text \<open>
  What the code that calls \<open>kmalloc\<close> and \<open>kfree\<close> relies on, over the set of the regions (start and
  size) that are allocated: a request is answered or refused without disturbing them, an answer is a
  new region that overlaps none of them, and an allocated region can be given back.
\<close>

locale memory_allocator =
  fixes malloc :: "u64 \<Rightarrow> 's \<Rightarrow> (u64 \<times> 's) option"
    and release :: "u64 \<Rightarrow> 's \<Rightarrow> 's option"
    and holds :: "'s \<Rightarrow> (nat \<times> nat) set \<Rightarrow> bool"
  assumes malloc_law: "holds s L \<Longrightarrow> 0 < unat n \<Longrightarrow> unat n + 15 < 2 ^ 64 \<Longrightarrow>
      \<exists>p s'. malloc n s = Some (p, s') \<and>
        (if p = 0 then holds s' L
         else \<exists>z. unat n \<le> z \<and> (unat p, z) \<notin> L \<and> holds s' (insert (unat p, z) L))"
    and release_law: "holds s L \<Longrightarrow> (unat p, z) \<in> L \<Longrightarrow>
      \<exists>s'. release p s = Some s' \<and> holds s' (L - {(unat p, z)})"
    and regions_apart: "holds s L \<Longrightarrow> (x, z) \<in> L \<Longrightarrow> (y, w) \<in> L \<Longrightarrow> (x, z) \<noteq> (y, w) \<Longrightarrow>
      x + z \<le> y \<or> y + w \<le> x"
begin

lemma malloc_disjoint:
  assumes "holds s L" "0 < unat n" "unat n + 15 < 2 ^ 64" "malloc n s = Some (p, s')" "p \<noteq> 0" "(q, w) \<in> L"
  shows "\<exists>z. unat n \<le> z \<and> (unat p + z \<le> q \<or> q + w \<le> unat p)"
proof -
  obtain z where "unat n \<le> z" "(unat p, z) \<notin> L" "holds s' (insert (unat p, z) L)"
    using malloc_law [OF assms(1-3)] assms(4,5) by auto
  then show ?thesis using regions_apart [of s' "insert (unat p, z) L" "unat p" z q w] assms(6) by auto
qed

lemma malloc_release:
  assumes "holds s L" "0 < unat n" "unat n + 15 < 2 ^ 64" "malloc n s = Some (p, s')" "p \<noteq> 0"
  shows "\<exists>s''. release p s' = Some s'' \<and> holds s'' L"
proof -
  obtain z where z: "(unat p, z) \<notin> L" "holds s' (insert (unat p, z) L)"
    using malloc_law [OF assms(1-3)] assms(4,5) by auto
  then show ?thesis using release_law [OF z(2), of p z] by auto
qed

end

end
