(* ===== verification/Pmm.thy ===== *)
theory Pmm
  imports Kernel_Prelude
begin

text \<open>
  The physical memory manager of \<^verbatim>\<open>kernel/pmm.cpp\<close>: a bitmap over the 4 KiB frames of the first
  1 GiB (a set bit is a used frame) and the counter of free frames, initialised from the E820 map
  the boot loader leaves in memory. The state is a record, so that later components extend it with
  their own globals and call these operations on the whole kernel state.
\<close>

section \<open>State and constants\<close>

definition FRAME_SIZE :: u64 where "FRAME_SIZE = 4096"
definition MANAGED_LIMIT :: u64 where "MANAGED_LIMIT = 0x40000000"
definition MANAGED_FRAMES :: u64 where "MANAGED_FRAMES = MANAGED_LIMIT div FRAME_SIZE"
definition E820_TYPE_USABLE :: u32 where "E820_TYPE_USABLE = 1"

record E820Entry =
  e820_base :: u64
  e820_length :: u64
  e820_type :: u32
  e820_acpi_attributes :: u32

record pmm_state =
  pmm_bitmap :: bytes
  free_count :: u64

section \<open>Operations\<close>

definition pmm_test_bit :: "bytes \<Rightarrow> nat \<Rightarrow> bool" where
  "pmm_test_bit bitmap frame_index \<longleftrightarrow>
     drop_bit (frame_index mod 8) (bitmap (frame_index div 8)) AND 1 \<noteq> 0"

definition pmm_set_bit :: "bytes \<Rightarrow> nat \<Rightarrow> bytes" where
  "pmm_set_bit bitmap frame_index = bitmap(frame_index div 8 :=
     bitmap (frame_index div 8) OR ucast (push_bit (frame_index mod 8) (1 :: u32)))"

definition pmm_clear_bit :: "bytes \<Rightarrow> nat \<Rightarrow> bytes" where
  "pmm_clear_bit bitmap frame_index = bitmap(frame_index div 8 :=
     bitmap (frame_index div 8) AND ucast (NOT (push_bit (frame_index mod 8) (1 :: u32))))"

definition mark_frame_used :: "nat \<Rightarrow> 'a pmm_state_scheme \<Rightarrow> 'a pmm_state_scheme" where
  "mark_frame_used frame s =
     (if pmm_test_bit (pmm_bitmap s) frame then s
      else s\<lparr>pmm_bitmap := pmm_set_bit (pmm_bitmap s) frame, free_count := free_count s - 1\<rparr>)"

definition mark_range_used :: "u64 \<Rightarrow> u64 \<Rightarrow> 'a pmm_state_scheme \<Rightarrow> 'a pmm_state_scheme" where
  "mark_range_used start end0 s =
     (let end = (if end0 > MANAGED_LIMIT then MANAGED_LIMIT else end0) in
      if start \<ge> end then s
      else
        let first_frame = start div FRAME_SIZE;
            last_frame = (end + FRAME_SIZE - 1) div FRAME_SIZE
        in fold mark_frame_used [unat first_frame..<unat last_frame] s)"

definition mark_frame_free :: "nat \<Rightarrow> 'a pmm_state_scheme \<Rightarrow> 'a pmm_state_scheme" where
  "mark_frame_free frame s =
     (if \<not> pmm_test_bit (pmm_bitmap s) frame then s
      else s\<lparr>pmm_bitmap := pmm_clear_bit (pmm_bitmap s) frame, free_count := free_count s + 1\<rparr>)"

definition mark_range_free :: "u64 \<Rightarrow> u64 \<Rightarrow> 'a pmm_state_scheme \<Rightarrow> 'a pmm_state_scheme" where
  "mark_range_free start end0 s =
     (let end = (if end0 > MANAGED_LIMIT then MANAGED_LIMIT else end0) in
      if start \<ge> end then s
      else
        let first_frame = start div FRAME_SIZE;
            last_frame = (end + FRAME_SIZE - 1) div FRAME_SIZE
        in fold mark_frame_free [unat first_frame..<unat last_frame] s)"

text \<open>One iteration of the E820 loop of \<open>init\<close>; the sum wraps as the C++ one does.\<close>

definition init_entry_step :: "E820Entry \<Rightarrow> 'a pmm_state_scheme \<Rightarrow> 'a pmm_state_scheme" where
  "init_entry_step entry s =
     (if e820_type entry \<noteq> E820_TYPE_USABLE then s
      else if e820_base entry \<ge> MANAGED_LIMIT then s
      else
        let region_end = e820_base entry + e820_length entry
        in mark_range_free (e820_base entry) region_end s)"

definition pmm_init :: "u64 \<Rightarrow> E820Entry list \<Rightarrow> 'a pmm_state_scheme \<Rightarrow> 'a pmm_state_scheme" where
  "pmm_init kernel_end_addr entries s =
     (let s = s\<lparr>pmm_bitmap := (\<lambda>_. 0xFF), free_count := 0\<rparr>;
          s = fold init_entry_step entries s;
          s = mark_range_used 0x0 0x100000 s
      in mark_range_used 0x100000 kernel_end_addr s)"

function alloc_frame_from :: "nat \<Rightarrow> 'a pmm_state_scheme \<Rightarrow> u64 \<times> 'a pmm_state_scheme" where
  "alloc_frame_from frame s =
     (if frame < unat MANAGED_FRAMES then
        if \<not> pmm_test_bit (pmm_bitmap s) frame then
          (of_nat frame * FRAME_SIZE,
           s\<lparr>pmm_bitmap := pmm_set_bit (pmm_bitmap s) frame, free_count := free_count s - 1\<rparr>)
        else alloc_frame_from (Suc frame) s
      else (0, s))"
  by pat_completeness auto
termination
  by (relation "measure (\<lambda>(frame, s). unat MANAGED_FRAMES - frame)") auto

declare alloc_frame_from.simps [simp del]

definition alloc_frame :: "'a pmm_state_scheme \<Rightarrow> u64 \<times> 'a pmm_state_scheme" where
  "alloc_frame s = alloc_frame_from 0 s"

definition free_frame :: "u64 \<Rightarrow> 'a pmm_state_scheme \<Rightarrow> 'a pmm_state_scheme" where
  "free_frame phys_addr s =
     (if phys_addr \<ge> MANAGED_LIMIT then s
      else if phys_addr mod FRAME_SIZE \<noteq> 0 then s
      else
        let frame = unat (phys_addr div FRAME_SIZE) in
        if \<not> pmm_test_bit (pmm_bitmap s) frame then s
        else s\<lparr>pmm_bitmap := pmm_clear_bit (pmm_bitmap s) frame, free_count := free_count s + 1\<rparr>)"

definition total_frames :: u64 where
  "total_frames = MANAGED_FRAMES"

definition free_frames :: "'a pmm_state_scheme \<Rightarrow> u64" where
  "free_frames s = free_count s"

definition used_frames :: "'a pmm_state_scheme \<Rightarrow> u64" where
  "used_frames s = MANAGED_FRAMES - free_count s"

section \<open>Specification vocabulary\<close>

text \<open>The free frames, as indices; the counter must always be their number.\<close>

definition free_set :: "'a pmm_state_scheme \<Rightarrow> nat set" where
  "free_set s = {f. f < 262144 \<and> \<not> pmm_test_bit (pmm_bitmap s) f}"

definition pmm_inv :: "'a pmm_state_scheme \<Rightarrow> bool" where
  "pmm_inv s \<longleftrightarrow> unat (free_count s) = card (free_set s)"

text \<open>Address 0 doubles as the failure answer, so frame 0 must stay reserved.\<close>

definition pmm_ok :: "'a pmm_state_scheme \<Rightarrow> bool" where
  "pmm_ok s \<longleftrightarrow> pmm_inv s \<and> 0 \<notin> free_set s"

definition frame_addr :: "nat \<Rightarrow> u64" where
  "frame_addr f = of_nat f * FRAME_SIZE"

definition pmm_avail :: "'a pmm_state_scheme \<Rightarrow> u64 set" where
  "pmm_avail s = frame_addr ` free_set s"

text \<open>The frames that a half-open byte range touches, after the clamp to the managed limit.\<close>

definition touched :: "u64 \<Rightarrow> u64 \<Rightarrow> nat set" where
  "touched start end0 =
     {f. unat start < min (unat end0) 1073741824 \<and>
         unat start < (f + 1) * 4096 \<and> f * 4096 < min (unat end0) 1073741824}"

definition usable_entry :: "E820Entry \<Rightarrow> bool" where
  "usable_entry e \<longleftrightarrow> e820_type e = E820_TYPE_USABLE \<and> e820_base e < MANAGED_LIMIT"

inductive pmm_reachable :: "u64 \<Rightarrow> E820Entry list \<Rightarrow> 'a pmm_state_scheme \<Rightarrow> bool"
  for kernel_end_addr entries where
  boot: "pmm_reachable kernel_end_addr entries (pmm_init kernel_end_addr entries s)"
| alloc: "pmm_reachable kernel_end_addr entries s \<Longrightarrow>
     pmm_reachable kernel_end_addr entries (snd (alloc_frame s))"
| free: "pmm_reachable kernel_end_addr entries s \<Longrightarrow>
     pmm_reachable kernel_end_addr entries (free_frame a s)"

text \<open>
  Concrete states for the examples: an address map with a reserved hole, the state it initialises,
  and a state with the single free frame 287.
\<close>

definition sample_entries :: "E820Entry list" where
  "sample_entries =
     [\<lparr>e820_base = 0, e820_length = 0x9FC00, e820_type = 1, e820_acpi_attributes = 1\<rparr>,
      \<lparr>e820_base = 0x100000, e820_length = 0x1F800, e820_type = 1, e820_acpi_attributes = 1\<rparr>,
      \<lparr>e820_base = 0x11F800, e820_length = 0x10000, e820_type = 2, e820_acpi_attributes = 1\<rparr>]"

definition sample_pmm :: pmm_state where
  "sample_pmm = pmm_init 0x11E000 sample_entries \<lparr>pmm_bitmap = (\<lambda>_. 0), free_count = 7\<rparr>"

definition sample_one_free :: pmm_state where
  "sample_one_free = \<lparr>pmm_bitmap = pmm_clear_bit (\<lambda>_. 0xFF) 287, free_count = 1\<rparr>"

section \<open>The bitmap\<close>

interpretation pmm_bits: byte_bitmap pmm_test_bit pmm_set_bit pmm_clear_bit
  unfolding pmm_test_bit_def [abs_def] pmm_set_bit_def [abs_def] pmm_clear_bit_def [abs_def]
  by (rule byte_bitmap_standard)

lemmas pmm_consts = FRAME_SIZE_def MANAGED_LIMIT_def MANAGED_FRAMES_def E820_TYPE_USABLE_def

lemma unat_MANAGED_FRAMES [simp]: "unat MANAGED_FRAMES = 262144"
  by (simp add: pmm_consts)

lemma finite_free_set [simp]: "finite (free_set s)"
  by (simp add: free_set_def)

lemma free_set_bound: "f \<in> free_set s \<Longrightarrow> f < 262144"
  by (simp add: free_set_def)

lemma card_free_set_le: "card (free_set s) \<le> 262144"
  by (simp add: free_set_def card_range_le)

lemma free_set_update [simp]: "free_set (s\<lparr>free_count := c\<rparr>) = free_set s"
  by (simp add: free_set_def)

lemma free_set_set: "free_set (s\<lparr>pmm_bitmap := pmm_set_bit (pmm_bitmap s) f\<rparr>) = free_set s - {f}"
  by (auto simp: free_set_def pmm_bits.tst_sett)

lemma free_set_clear:
  "f < 262144 \<Longrightarrow> free_set (s\<lparr>pmm_bitmap := pmm_clear_bit (pmm_bitmap s) f\<rparr>) = insert f (free_set s)"
  by (auto simp: free_set_def pmm_bits.tst_clr)

lemma unat_frame_addr: "f < 262144 \<Longrightarrow> unat (frame_addr f) = f * 4096"
  by (simp add: frame_addr_def FRAME_SIZE_def unat_word_ariths unat_of_nat)

lemma frame_addr_inj:
  assumes "f < 262144" "g < 262144"
  shows "frame_addr f = frame_addr g \<longleftrightarrow> f = g"
proof
  assume "frame_addr f = frame_addr g"
  then have "f * 4096 = g * 4096" using unat_frame_addr assms by metis
  then show "f = g" by simp
qed simp

section \<open>Taking and giving back one frame\<close>

text \<open>Every operation of the module is made of these two state changes.\<close>

lemma pmm_inv_take:
  assumes "pmm_inv s" "f \<in> free_set s"
  shows "pmm_inv (s\<lparr>pmm_bitmap := pmm_set_bit (pmm_bitmap s) f, free_count := free_count s - 1\<rparr>)"
proof -
  have "0 < card (free_set s)" using assms(2) by (auto simp: card_gt_0_iff)
  then have "unat (free_count s - 1) = card (free_set s) - 1"
    using assms(1) by (simp add: pmm_inv_def unat_minus_one_pos)
  then show ?thesis using assms(2)
    by (simp add: pmm_inv_def free_set_set card_Diff_singleton)
qed

lemma pmm_inv_give:
  assumes "pmm_inv s" "f < 262144" "f \<notin> free_set s"
  shows "pmm_inv (s\<lparr>pmm_bitmap := pmm_clear_bit (pmm_bitmap s) f, free_count := free_count s + 1\<rparr>)"
proof -
  have "unat (free_count s + 1) = Suc (card (free_set s))"
    using assms(1) card_free_set_le [of s] by (simp add: pmm_inv_def unat_plus_one_bound)
  then show ?thesis using assms(2,3) by (simp add: pmm_inv_def free_set_clear)
qed

section \<open>Range marking and initialisation\<close>

lemma mark_frame_used_effect:
  "pmm_inv s \<Longrightarrow> f < 262144 \<Longrightarrow>
     pmm_inv (mark_frame_used f s) \<and> free_set (mark_frame_used f s) = free_set s - {f}"
  using pmm_inv_take [of s f] pmm_bits.tst_sett by (auto simp: mark_frame_used_def free_set_def)

lemma mark_frame_free_effect:
  "pmm_inv s \<Longrightarrow> f < 262144 \<Longrightarrow>
     pmm_inv (mark_frame_free f s) \<and> free_set (mark_frame_free f s) = insert f (free_set s)"
  using pmm_inv_give [of s f] pmm_bits.tst_clr by (auto simp: mark_frame_free_def free_set_def)

lemma fold_mark_used:
  "pmm_inv s \<Longrightarrow> \<forall>f\<in>set fs. f < 262144 \<Longrightarrow>
     pmm_inv (fold mark_frame_used fs s) \<and> free_set (fold mark_frame_used fs s) = free_set s - set fs"
  by (induction fs arbitrary: s) (auto simp: mark_frame_used_effect)

lemma fold_mark_free:
  "pmm_inv s \<Longrightarrow> \<forall>f\<in>set fs. f < 262144 \<Longrightarrow>
     pmm_inv (fold mark_frame_free fs s) \<and> free_set (fold mark_frame_free fs s) = free_set s \<union> set fs"
  by (induction fs arbitrary: s) (auto simp: mark_frame_free_effect)

lemma touched_bound: "f \<in> touched a b \<Longrightarrow> f < 262144"
  by (auto simp: touched_def)

lemma unat_clamp: "unat (if e > MANAGED_LIMIT then MANAGED_LIMIT else e) = min (unat e) 1073741824"
  by (auto simp: MANAGED_LIMIT_def word_to_nat)

lemma frame_range:
  assumes "start < e" "unat e = min (unat end0) 1073741824"
  shows "set [unat (start div FRAME_SIZE)..<unat ((e + FRAME_SIZE - 1) div FRAME_SIZE)] = touched start end0"
proof -
  have e: "unat e \<le> 1073741824" and lt: "unat start < unat e"
    using assms by (auto simp: word_to_nat)
  have "unat (e + FRAME_SIZE - 1) = unat e + 4095"
  proof -
    have "e + FRAME_SIZE - 1 = e + 4095" by (simp add: FRAME_SIZE_def)
    moreover have "unat (e + 4095) = unat e + 4095" using e by (simp add: unat_word_ariths)
    ultimately show ?thesis by (simp only:)
  qed
  then have *: "unat ((e + FRAME_SIZE - 1) div FRAME_SIZE) = (unat e + 4095) div 4096"
    by (simp add: unat_div FRAME_SIZE_def)
  have **: "unat (start div FRAME_SIZE) = unat start div 4096"
    by (simp add: unat_div FRAME_SIZE_def)
  have "f \<in> touched start end0 \<longleftrightarrow> unat start div 4096 \<le> f \<and> f < (unat e + 4095) div 4096" for f
    unfolding touched_def using lt assms(2) by auto
  then have "touched start end0 = {unat start div 4096..<(unat e + 4095) div 4096}"
    by (intro set_eqI) (simp only: atLeastLessThan_iff)
  then show ?thesis unfolding * ** by (simp only: set_upt)
qed

lemma touched_empty: "\<not> start < (if e > MANAGED_LIMIT then MANAGED_LIMIT else e) \<Longrightarrow> touched start e = {}"
  by (auto simp: touched_def MANAGED_LIMIT_def word_to_nat split: if_splits)

lemma mark_range_used_effect:
  assumes "pmm_inv s"
  shows "pmm_inv (mark_range_used a b s) \<and> free_set (mark_range_used a b s) = free_set s - touched a b"
proof -
  let ?e = "if b > MANAGED_LIMIT then MANAGED_LIMIT else b"
  let ?fs = "[unat (a div FRAME_SIZE)..<unat ((?e + FRAME_SIZE - 1) div FRAME_SIZE)]"
  show ?thesis
  proof (cases "?e \<le> a")
    case False
    then have eq: "mark_range_used a b s = fold mark_frame_used ?fs s"
      by (simp only: mark_range_used_def Let_def if_False)
    have fs: "set ?fs = touched a b" using False by (intro frame_range unat_clamp) (simp only: not_le)
    then have "\<forall>f\<in>set ?fs. f < 262144" using touched_bound by blast
    from fold_mark_used [OF assms this] show ?thesis unfolding eq fs .
  next
    case True
    then have "mark_range_used a b s = s" by (simp only: mark_range_used_def Let_def if_True)
    moreover have "touched a b = {}" using True by (intro touched_empty) (simp only: not_less)
    ultimately show ?thesis using assms by simp
  qed
qed

lemma mark_range_free_effect:
  assumes "pmm_inv s"
  shows "pmm_inv (mark_range_free a b s) \<and> free_set (mark_range_free a b s) = free_set s \<union> touched a b"
proof -
  let ?e = "if b > MANAGED_LIMIT then MANAGED_LIMIT else b"
  let ?fs = "[unat (a div FRAME_SIZE)..<unat ((?e + FRAME_SIZE - 1) div FRAME_SIZE)]"
  show ?thesis
  proof (cases "?e \<le> a")
    case False
    then have eq: "mark_range_free a b s = fold mark_frame_free ?fs s"
      by (simp only: mark_range_free_def Let_def if_False)
    have fs: "set ?fs = touched a b" using False by (intro frame_range unat_clamp) (simp only: not_le)
    then have "\<forall>f\<in>set ?fs. f < 262144" using touched_bound by blast
    from fold_mark_free [OF assms this] show ?thesis unfolding eq fs .
  next
    case True
    then have "mark_range_free a b s = s" by (simp only: mark_range_free_def Let_def if_True)
    moreover have "touched a b = {}" using True by (intro touched_empty) (simp only: not_less)
    ultimately show ?thesis using assms by simp
  qed
qed

lemma init_entry_step_effect:
  "pmm_inv s \<Longrightarrow> pmm_inv (init_entry_step e s) \<and> free_set (init_entry_step e s) =
     free_set s \<union> (if usable_entry e then touched (e820_base e) (e820_base e + e820_length e) else {})"
  by (auto simp: init_entry_step_def usable_entry_def mark_range_free_effect not_le Let_def)

lemma fold_init_entry_effect:
  "pmm_inv s \<Longrightarrow> pmm_inv (fold init_entry_step es s) \<and> free_set (fold init_entry_step es s) =
     free_set s \<union> (\<Union>e\<in>{e\<in>set es. usable_entry e}. touched (e820_base e) (e820_base e + e820_length e))"
proof (induction es arbitrary: s)
  case (Cons e es)
  show ?case using init_entry_step_effect [OF Cons.prems, of e] Cons.IH [of "init_entry_step e s"] by auto
qed simp

lemma blank_pmm:
  "pmm_inv (s\<lparr>pmm_bitmap := (\<lambda>_. 0xFF), free_count := 0\<rparr>)"
  "free_set (s\<lparr>pmm_bitmap := (\<lambda>_. 0xFF), free_count := 0\<rparr>) = {}"
proof -
  have "pmm_test_bit (\<lambda>_. 0xFF) f" for f
  proof -
    have "(0xFF :: u8) = NOT 0" by simp
    then show ?thesis by (simp only: pmm_test_bit_def and_one_nonzero) (simp add: bit_simps)
  qed
  then show "free_set (s\<lparr>pmm_bitmap := (\<lambda>_. 0xFF), free_count := 0\<rparr>) = {}" by (simp add: free_set_def)
  then show "pmm_inv (s\<lparr>pmm_bitmap := (\<lambda>_. 0xFF), free_count := 0\<rparr>)" by (simp add: pmm_inv_def)
qed

lemma pmm_init_effect:
  shows pmm_init_inv: "pmm_inv (pmm_init kend es s)"
    and free_set_init: "free_set (pmm_init kend es s) =
     (\<Union>e\<in>{e\<in>set es. usable_entry e}. touched (e820_base e) (e820_base e + e820_length e))
       - touched 0 0x100000 - touched 0x100000 kend"
proof -
  let ?s0 = "s\<lparr>pmm_bitmap := (\<lambda>_. 0xFF), free_count := 0\<rparr>"
  let ?s1 = "fold init_entry_step es ?s0"
  let ?s2 = "mark_range_used 0 0x100000 ?s1"
  have eq: "pmm_init kend es s = mark_range_used 0x100000 kend ?s2"
    by (simp only: pmm_init_def Let_def)
  note e1 = fold_init_entry_effect [OF blank_pmm(1), where es = es]
  note e2 = mark_range_used_effect [OF e1 [THEN conjunct1]]
  note e3 = mark_range_used_effect [OF e2 [THEN conjunct1]]
  show "pmm_inv (pmm_init kend es s)" unfolding eq by (rule e3 [THEN conjunct1])
  show "free_set (pmm_init kend es s) =
     (\<Union>e\<in>{e\<in>set es. usable_entry e}. touched (e820_base e) (e820_base e + e820_length e))
       - touched 0 0x100000 - touched 0x100000 kend"
    unfolding eq e3 [THEN conjunct2] e2 [THEN conjunct2] e1 [THEN conjunct2] blank_pmm(2) by simp
qed

section \<open>Allocation and release\<close>

lemma alloc_frame_from_spec:
  "alloc_frame_from f s =
     (if {g \<in> free_set s. f \<le> g} = {} then (0, s)
      else let g = Min {g \<in> free_set s. f \<le> g} in
        (frame_addr g, s\<lparr>pmm_bitmap := pmm_set_bit (pmm_bitmap s) g, free_count := free_count s - 1\<rparr>))"
proof (induction f s rule: alloc_frame_from.induct)
  case (1 f s)
  consider (past) "\<not> f < 262144" | (hit) "f \<in> free_set s" | (miss) "f < 262144" "f \<notin> free_set s"
    by blast
  then show ?case
  proof cases
    case past
    then have "{g \<in> free_set s. f \<le> g} = {}" using free_set_bound by force
    with past show ?thesis by (simp add: alloc_frame_from.simps [of f s])
  next
    case hit
    then have "Min {g \<in> free_set s. f \<le> g} = f" by (intro Min_eqI) auto
    moreover have "{g \<in> free_set s. f \<le> g} \<noteq> {}" using hit by auto
    moreover have "alloc_frame_from f s = (frame_addr f,
        s\<lparr>pmm_bitmap := pmm_set_bit (pmm_bitmap s) f, free_count := free_count s - 1\<rparr>)"
      using hit by (simp add: alloc_frame_from.simps [of f s] free_set_def frame_addr_def)
    ultimately show ?thesis by (auto simp: Let_def)
  next
    case miss
    then have "{g \<in> free_set s. f \<le> g} = {g \<in> free_set s. Suc f \<le> g}"
      by (metis (mono_tags, opaque_lifting) Suc_leD Suc_leI le_neq_implies_less)
    moreover have "alloc_frame_from f s = alloc_frame_from (Suc f) s" and "pmm_test_bit (pmm_bitmap s) f"
      using miss by (simp_all add: alloc_frame_from.simps [of f s] free_set_def)
    ultimately show ?thesis using 1 miss(1) by auto
  qed
qed

lemma alloc_frame_spec:
  "alloc_frame s =
     (if free_set s = {} then (0, s)
      else (frame_addr (Min (free_set s)),
            s\<lparr>pmm_bitmap := pmm_set_bit (pmm_bitmap s) (Min (free_set s)), free_count := free_count s - 1\<rparr>))"
  by (simp add: alloc_frame_def alloc_frame_from_spec Let_def)

lemma alloc_frame_take:
  assumes "free_set s \<noteq> {}" "pmm_ok s"
  defines "f \<equiv> Min (free_set s)"
  shows "\<exists>b c. alloc_frame s = (frame_addr f, s\<lparr>pmm_bitmap := b, free_count := c\<rparr>) \<and>
           free_set (s\<lparr>pmm_bitmap := b, free_count := c\<rparr>) = free_set s - {f} \<and>
           pmm_ok (s\<lparr>pmm_bitmap := b, free_count := c\<rparr>) \<and> frame_addr f \<noteq> 0"
proof -
  have f: "f \<in> free_set s" using assms by simp
  then have "f \<noteq> 0" "f < 262144" using assms(2) free_set_bound by (auto simp: pmm_ok_def intro!: gr0I)
  then have "frame_addr f \<noteq> 0" using unat_frame_addr [of f] by auto
  then show ?thesis using f assms pmm_inv_take [of s f] free_set_set [of s f]
    by (auto simp: alloc_frame_spec pmm_ok_def intro!: exI)
qed

lemma alloc_frame_pmm_only:
  "\<exists>b c. snd (alloc_frame s) = s\<lparr>pmm_bitmap := b, free_count := c\<rparr>"
proof (cases "free_set s = {}")
  case True
  then have "snd (alloc_frame s) = s\<lparr>pmm_bitmap := pmm_bitmap s, free_count := free_count s\<rparr>"
    by (simp add: alloc_frame_spec)
  then show ?thesis by blast
qed (auto simp: alloc_frame_spec)

lemma free_frame_cases:
  "free_frame a s =
     (if unat a < 1073741824 \<and> unat a mod 4096 = 0 \<and> unat a div 4096 \<notin> free_set s
      then s\<lparr>pmm_bitmap := pmm_clear_bit (pmm_bitmap s) (unat a div 4096), free_count := free_count s + 1\<rparr>
      else s)"
proof -
  have "(a mod FRAME_SIZE \<noteq> 0) = (unat a mod 4096 \<noteq> 0)"
    by (simp add: FRAME_SIZE_def unat_eq_zero [symmetric] unat_mod_distrib del: unat_eq_zero)
  moreover have "unat a < 1073741824 \<Longrightarrow>
      (unat a div 4096 \<in> free_set s) = (\<not> pmm_test_bit (pmm_bitmap s) (unat a div 4096))"
    by (auto simp: free_set_def)
  moreover have "(a \<ge> MANAGED_LIMIT) = (\<not> unat a < 1073741824)"
    by (auto simp: MANAGED_LIMIT_def word_to_nat)
  moreover have "unat (a div FRAME_SIZE) = unat a div 4096"
    by (simp add: FRAME_SIZE_def unat_div)
  ultimately show ?thesis by (auto simp: free_frame_def Let_def)
qed

lemma frame_addr_div:
  assumes "unat a mod 4096 = 0" "unat a < 1073741824"
  shows "frame_addr (unat a div 4096) = a"
proof -
  have "unat a div 4096 < 262144" using assms(2) by simp
  then have "unat (frame_addr (unat a div 4096)) = unat a div 4096 * 4096" by (rule unat_frame_addr)
  also have "\<dots> = unat a" using assms(1) by (simp add: mod_eq_0_iff_dvd)
  finally show ?thesis by (simp only: word_unat_eq_iff)
qed

lemma pmm_avail_iff: "a \<in> pmm_avail s \<longleftrightarrow>
    unat a mod 4096 = 0 \<and> unat a < 1073741824 \<and> unat a div 4096 \<in> free_set s"
proof
  assume "a \<in> pmm_avail s"
  then obtain f where f: "f \<in> free_set s" "a = frame_addr f" by (auto simp: pmm_avail_def)
  then have "unat a = f * 4096" "f < 262144" using unat_frame_addr free_set_bound by auto
  then show "unat a mod 4096 = 0 \<and> unat a < 1073741824 \<and> unat a div 4096 \<in> free_set s" using f by simp
next
  assume *: "unat a mod 4096 = 0 \<and> unat a < 1073741824 \<and> unat a div 4096 \<in> free_set s"
  then have "frame_addr (unat a div 4096) = a" by (intro frame_addr_div) auto
  then show "a \<in> pmm_avail s" using * unfolding pmm_avail_def by force
qed

lemma pmm_avail_take:
  assumes "f \<in> free_set s"
  shows "pmm_avail (s\<lparr>pmm_bitmap := pmm_set_bit (pmm_bitmap s) f, free_count := c\<rparr>) =
    pmm_avail s - {frame_addr f}"
proof -
  have "inj_on frame_addr (free_set s)" using frame_addr_inj free_set_bound by (auto intro!: inj_onI)
  then have "frame_addr ` (free_set s - {f}) = frame_addr ` free_set s - frame_addr ` {f}"
    using assms by (intro inj_on_image_set_diff) auto
  then show ?thesis by (simp add: pmm_avail_def free_set_set)
qed

lemma free_frame_keeps:
  assumes "pmm_ok s" "a \<noteq> 0"
  shows "pmm_ok (free_frame a s) \<and> pmm_avail (free_frame a s) \<subseteq> insert a (pmm_avail s)"
proof (cases "unat a < 1073741824 \<and> unat a mod 4096 = 0 \<and> unat a div 4096 \<notin> free_set s")
  case True
  define f where "f = unat a div 4096"
  have f: "f < 262144" "f \<notin> free_set s" "frame_addr f = a" using True frame_addr_div by (auto simp: f_def)
  then have "f \<noteq> 0" using assms(2) by (metis frame_addr_def mult_zero_left of_nat_0)
  let ?t = "s\<lparr>pmm_bitmap := pmm_clear_bit (pmm_bitmap s) f, free_count := free_count s + 1\<rparr>"
  have t: "free_frame a s = ?t" using True by (simp add: free_frame_cases f_def)
  have fs: "free_set ?t = insert f (free_set s)" using free_set_clear [OF f(1), of s] by simp
  show ?thesis unfolding t using pmm_inv_give [OF _ f(1,2)] assms(1) fs \<open>f \<noteq> 0\<close> f(3)
    by (simp add: pmm_ok_def pmm_avail_def)
next
  case False
  then have "free_frame a s = s" by (simp only: free_frame_cases if_False)
  then show ?thesis using assms(1) by auto
qed

interpretation pmm_frames: frame_allocator alloc_frame free_frame pmm_avail pmm_ok
proof (unfold_locales, goal_cases)
  case (1 s a)
  then show ?case
    by (auto simp: pmm_avail_iff pmm_ok_def)
next
  case (2 s)
  then show ?case by (simp add: pmm_avail_def alloc_frame_spec)
next
  case (3 s)
  then show ?case by (auto simp: pmm_avail_def alloc_frame_spec)
next
  case (4 s)
  show ?case
    by (cases "free_set s = {}") (simp_all add: alloc_frame_spec pmm_avail_take, simp add: pmm_avail_def)
next
  case (5 s)
  then show ?case
    using pmm_inv_take [of s "Min (free_set s)"]
    by (auto simp: alloc_frame_spec pmm_ok_def free_set_set)
next
  case (6 s a)
  then have "frame_addr (unat a div 4096) = a" by (intro frame_addr_div) auto
  then have "frame_addr ` insert (unat a div 4096) (free_set s) = insert a (frame_addr ` free_set s)" by simp
  with 6 show ?case
    by (cases "unat a div 4096 \<in> free_set s")
      (simp_all add: free_frame_cases pmm_avail_def free_set_clear insert_absorb)
next
  case (7 s a)
  then have "unat a \<noteq> 0" by (metis unat_eq_zero)
  then have "unat a mod 4096 = 0 \<Longrightarrow> unat a div 4096 \<noteq> 0" by (simp add: multiple_div_pos)
  with 7 show ?case
    using pmm_inv_give [of s "unat a div 4096"]
    by (auto simp: free_frame_cases pmm_ok_def free_set_clear)
qed

section \<open>Properties\<close>

text \<open>
  C26. In every state the module can reach from its initialisation by allocations and releases (of
  any address, valid or not), the free-frame counter is the number of clear bits among the managed
  frames, and the three counters the shell prints are consistent.
\<close>

theorem pmm_counter_exact:
  assumes "pmm_reachable kernel_end_addr entries s"
  shows "unat (free_frames s) = card (free_set s) \<and>
    unat (free_frames s) + unat (used_frames s) = unat total_frames"
proof -
  from assms have inv: "pmm_inv s"
  proof (induction rule: pmm_reachable.induct)
    case (boot s)
    show ?case by (rule pmm_init_inv)
  next
    case (alloc s)
    then show ?case using pmm_inv_take [of s "Min (free_set s)"] by (auto simp: alloc_frame_spec)
  next
    case (free s a)
    then show ?case using pmm_inv_give [of s "unat a div 4096"] by (auto simp: free_frame_cases)
  qed
  then have "unat (free_frames s) = card (free_set s)" by (simp add: free_frames_def pmm_inv_def)
  moreover have "free_count s \<le> MANAGED_FRAMES"
    using inv card_free_set_le [of s] by (simp add: word_to_nat pmm_inv_def)
  then have "unat (used_frames s) = 262144 - unat (free_frames s)"
    by (simp add: used_frames_def free_frames_def unat_sub_no_wrap)
  ultimately show ?thesis using card_free_set_le [of s] by (simp add: total_frames_def)
qed


theorem pmm_counter_exact_witness:
  "pmm_reachable 0x11E000 sample_entries (free_frame 0x200000 (snd (alloc_frame sample_pmm))) \<and>
   unat (free_frames (free_frame 0x200000 (snd (alloc_frame sample_pmm)))) =
     card (free_set (free_frame 0x200000 (snd (alloc_frame sample_pmm))))"
proof -
  have "pmm_reachable 0x11E000 sample_entries (free_frame 0x200000 (snd (alloc_frame sample_pmm)))"
    unfolding sample_pmm_def by (intro pmm_reachable.intros)
  then show ?thesis using pmm_counter_exact by blast
qed

text \<open>
  C27. Initialisation makes exactly these frames free: the managed frames touched by a usable E820
  region that starts below the managed limit, except the first megabyte and the frames of the
  kernel image. In particular frame 0 and the whole kernel image are never handed out.
\<close>

theorem pmm_init_free_frames:
  "f \<in> free_set (pmm_init kernel_end_addr entries s) \<longleftrightarrow>
     f < 262144 \<and> 0x100000 \<le> f * 4096 \<and> min (unat kernel_end_addr) 0x40000000 \<le> f * 4096 \<and>
     (\<exists>e\<in>set entries. usable_entry e \<and> f \<in> touched (e820_base e) (e820_base e + e820_length e))"
proof -
  have low: "f \<notin> touched 0 0x100000 \<longleftrightarrow> 0x100000 \<le> f * 4096"
    by (auto simp: touched_def)
  have "0x100000 \<le> f * 4096 \<Longrightarrow>
      f \<notin> touched 0x100000 kernel_end_addr \<longleftrightarrow> min (unat kernel_end_addr) 0x40000000 \<le> f * 4096"
    by (auto simp: touched_def)
  with low show ?thesis using touched_bound by (auto simp: free_set_init)
qed

text \<open>
  C28. Allocation on every branch: with no free frame it answers 0 and changes nothing; otherwise it
  takes the lowest free frame, answers its non-zero page-aligned address, removes exactly that
  frame from the free ones and keeps the module's invariant.
\<close>

theorem alloc_frame_correct:
  assumes "pmm_ok s" and "alloc_frame s = (a, s')"
  shows "if free_set s = {} then a = 0 \<and> s' = s
         else unat a = Min (free_set s) * 4096 \<and> a \<noteq> 0 \<and>
              free_set s' = free_set s - {Min (free_set s)} \<and> pmm_ok s'"
proof (cases "free_set s = {}")
  case False
  then have m: "Min (free_set s) \<in> free_set s" by simp
  then have addr: "unat (frame_addr (Min (free_set s))) = Min (free_set s) * 4096"
    using free_set_bound unat_frame_addr by blast
  have "a = frame_addr (Min (free_set s))" and "free_set s' = free_set s - {Min (free_set s)}"
    using assms(2) False by (auto simp: alloc_frame_spec free_set_set)
  moreover have "Min (free_set s) \<noteq> 0" using m assms(1) by (metis pmm_ok_def)
  then have "frame_addr (Min (free_set s)) \<noteq> 0"
    using addr by (metis mult_eq_0_iff unat_0 zero_neq_numeral)
  moreover have "pmm_ok s'" using pmm_frames.alloc_ok [OF assms(1)] assms(2) by simp
  ultimately show ?thesis using addr False by (simp only: if_False simp_thms)
qed (use assms in \<open>simp add: alloc_frame_spec\<close>)

lemma sample_one_free_ok: "free_set sample_one_free = {287}" "pmm_ok sample_one_free"
proof -
  show fs: "free_set sample_one_free = {287}"
    using free_set_clear [of 287 "\<lparr>pmm_bitmap = (\<lambda>_. 0xFF), free_count = 0\<rparr>"]
      blank_pmm(2) [of "\<lparr>pmm_bitmap = (\<lambda>_. 0xFF), free_count = 0\<rparr>"]
    by (auto simp: sample_one_free_def free_set_def)
  then show "pmm_ok sample_one_free" by (simp add: pmm_ok_def pmm_inv_def sample_one_free_def)
qed

theorem alloc_frame_correct_witness:
  "pmm_ok sample_one_free \<and> unat (fst (alloc_frame sample_one_free)) = 287 * 4096 \<and>
   free_set (snd (alloc_frame sample_one_free)) = {}"
  using alloc_frame_correct [OF sample_one_free_ok(2) surjective_pairing] sample_one_free_ok
  by simp

text \<open>
  Releasing the frame just allocated restores the allocator's state exactly, bitmap and counter
  included, so allocate/release pairs leak nothing.
\<close>

lemma alloc_free_roundtrip:
  assumes "free_set s \<noteq> {}"
  shows "free_frame (fst (alloc_frame s)) (snd (alloc_frame s)) = s"
proof -
  let ?m = "Min (free_set s)"
  have m: "?m \<in> free_set s" using assms by simp
  then have "unat (frame_addr ?m) = ?m * 4096" "?m < 262144"
    using free_set_bound unat_frame_addr by auto
  moreover have "pmm_clear_bit (pmm_set_bit (pmm_bitmap s) ?m) ?m = pmm_bitmap s"
    using m by (intro pmm_bits.clr_sett) (simp add: free_set_def)
  ultimately show ?thesis using assms
    by (simp add: alloc_frame_spec free_frame_cases free_set_set)
qed

lemma alloc_free_roundtrip_witness:
  "free_frame (fst (alloc_frame sample_one_free)) (snd (alloc_frame sample_one_free)) = sample_one_free"
  using alloc_free_roundtrip [of sample_one_free] sample_one_free_ok by simp

text \<open>
  Releasing an address that is misaligned, beyond the managed limit or already free is ignored;
  any other release makes exactly that frame free. A double release is therefore harmless.
\<close>

lemma free_frame_correct:
  "free_set (free_frame a s) =
     (if unat a mod 4096 = 0 \<and> unat a < 0x40000000 then insert (unat a div 4096) (free_set s)
      else free_set s) \<and>
   (unat a mod 4096 \<noteq> 0 \<or> 0x40000000 \<le> unat a \<or> unat a div 4096 \<in> free_set s \<longrightarrow> free_frame a s = s) \<and>
   free_frame a (free_frame a s) = free_frame a s"
  by (auto simp: free_frame_cases free_set_clear)

lemma free_frame_correct_witness:
  "free_set (free_frame 0x100000 sample_one_free) = {256, 287} \<and>
   free_frame 0x100004 sample_one_free = sample_one_free \<and>
   free_frame 0x80000000 sample_one_free = sample_one_free \<and>
   free_frame 0x11F000 sample_one_free = sample_one_free"
  using free_frame_correct [of "0x100000" sample_one_free] free_frame_correct [of "0x100004" sample_one_free]
    free_frame_correct [of "0x80000000" sample_one_free] free_frame_correct [of "0x11F000" sample_one_free]
    sample_one_free_ok(1)
  by simp

text \<open>
  The region marking rounds outwards: a frame only part of which is usable is handed out. With
  the sample map, frame 287 (bytes 0x11F000 to 0x120000) becomes free although its second half
  belongs to a reserved region.
\<close>

lemma pmm_init_frees_partial_frame:
  "287 \<in> free_set sample_pmm \<and>
   (\<exists>e\<in>set sample_entries. e820_type e \<noteq> E820_TYPE_USABLE \<and>
      287 * 4096 < unat (e820_base e) \<and> unat (e820_base e) < 288 * 4096) \<and>
   \<not> (\<exists>e\<in>set sample_entries. usable_entry e \<and> unat (e820_base e) \<le> 287 * 4096 \<and>
      288 * 4096 \<le> unat (e820_base e + e820_length e))"
  unfolding sample_pmm_def free_set_init sample_entries_def
  by (simp add: usable_entry_def pmm_consts touched_def conj_disj_distribR ex_disj_distrib)

end
