(* ===== verification/Heap.thy ===== *)
theory Heap
  imports Pmm
begin

text \<open>
  The kernel heap of \<^verbatim>\<open>kernel/heap.cpp\<close>. Blocks are linked through headers that live in the managed
  memory itself, so the state adds to the frame allocator's globals a store from addresses to block
  headers and the three globals of the module. The list holds every block, free and allocated, in
  address order. Walks along \<open>next\<close> pointers are \<^theory_text>\<open>partial_function (option)\<close>: the value
  \<open>None\<close> is a walk that never ends, which the lemmas below exclude for well-formed heaps.

  \<open>HeapLock\<close> disables interrupts for the whole of each operation, so every operation is one step.
\<close>

section \<open>State and constants\<close>

definition HEAP_ALIGNMENT :: u64 where "HEAP_ALIGNMENT = 16"
definition MIN_SPLIT_REMAINDER :: u64 where "MIN_SPLIT_REMAINDER = 32"
definition MAX_GROW_ATTEMPTS :: nat where "MAX_GROW_ATTEMPTS = 256"
definition MAGIC_ALLOCATED :: u32 where "MAGIC_ALLOCATED = 0xC0FFEE11"
definition MAGIC_FREED :: u32 where "MAGIC_FREED = 0xDEADF4EE"

record BlockHeader =
  bh_size :: u64
  bh_free :: bool
  bh_magic :: u32
  bh_next :: u64
  bh_reserved :: u64

definition SIZEOF_BlockHeader :: u64 where "SIZEOF_BlockHeader = 32"

type_synonym headers = "u64 \<Rightarrow> BlockHeader"

record heap_state = pmm_state +
  hdrs :: headers
  free_list_head :: u64
  heap_min :: u64
  heap_max :: u64

text \<open>What \<open>kfree\<close> does with its argument: nothing, a release, or a report and nothing else.\<close>

datatype kfree_outcome = FreedNull | Freed | Rejected string

section \<open>Operations\<close>

definition align_up :: "u64 \<Rightarrow> u64 \<Rightarrow> u64" where
  "align_up val alignment = (val + alignment - 1) AND NOT (alignment - 1)"

definition data_ptr :: "u64 \<Rightarrow> u64" where
  "data_ptr block = block + SIZEOF_BlockHeader"

definition adjacent :: "headers \<Rightarrow> u64 \<Rightarrow> u64 \<Rightarrow> bool" where
  "adjacent h first second \<longleftrightarrow> data_ptr first + bh_size (h first) = second"

definition in_heap_range :: "u64 \<Rightarrow> 'a heap_state_scheme \<Rightarrow> bool" where
  "in_heap_range addr s \<longleftrightarrow> heap_min s \<noteq> 0 \<and> addr \<ge> heap_min s \<and> addr < heap_max s"

partial_function (option) is_tracked_from :: "headers \<Rightarrow> u64 \<Rightarrow> u64 \<Rightarrow> bool option" where
  "is_tracked_from h b block =
     (if b = 0 then Some False
      else if b = block then Some True
      else is_tracked_from h (bh_next (h b)) block)"

definition is_tracked_block :: "u64 \<Rightarrow> 'a heap_state_scheme \<Rightarrow> bool option" where
  "is_tracked_block block s = is_tracked_from (hdrs s) (free_list_head s) block"

text \<open>The walk of \<open>insert_free_block\<close> to the last block below the new one.\<close>

partial_function (option) insert_walk :: "headers \<Rightarrow> u64 \<Rightarrow> u64 \<Rightarrow> u64 option" where
  "insert_walk h prev block =
     (if bh_next (h prev) \<noteq> 0 \<and> bh_next (h prev) < block
      then insert_walk h (bh_next (h prev)) block
      else Some prev)"

definition insert_free_block :: "u64 \<Rightarrow> 'a heap_state_scheme \<Rightarrow> 'a heap_state_scheme option" where
  "insert_free_block block s =
     (let head = free_list_head s;
          h = (hdrs s)(block := (hdrs s block)\<lparr>bh_free := True, bh_magic := MAGIC_FREED\<rparr>)
      in if head = 0 \<or> block < head then
           let h = (if head \<noteq> 0 \<and> adjacent h block head
                    then h(block := (h block)\<lparr>
                        bh_size := bh_size (h block) + (SIZEOF_BlockHeader + bh_size (h head)),
                        bh_next := bh_next (h head)\<rparr>)
                    else h(block := (h block)\<lparr>bh_next := head\<rparr>))
           in Some (s\<lparr>hdrs := h, free_list_head := block\<rparr>)
         else
           case insert_walk h head block of
             None \<Rightarrow> None
           | Some prev \<Rightarrow>
               let h = h(block := (h block)\<lparr>bh_next := bh_next (h prev)\<rparr>);
                   nxt = bh_next (h block);
                   h = (if nxt \<noteq> 0 \<and> adjacent h block nxt
                        then h(block := (h block)\<lparr>
                            bh_size := bh_size (h block) + (SIZEOF_BlockHeader + bh_size (h nxt)),
                            bh_next := bh_next (h nxt)\<rparr>)
                        else h);
                   h = (if adjacent h prev block \<and> bh_free (h prev)
                        then h(prev := (h prev)\<lparr>
                            bh_size := bh_size (h prev) + (SIZEOF_BlockHeader + bh_size (h block)),
                            bh_next := bh_next (h block)\<rparr>)
                        else h(prev := (h prev)\<lparr>bh_next := block\<rparr>))
               in Some (s\<lparr>hdrs := h\<rparr>))"

definition grow_heap :: "'a heap_state_scheme \<Rightarrow> (bool \<times> 'a heap_state_scheme) option" where
  "grow_heap s =
     (case alloc_frame s of (frame, s) \<Rightarrow>
        if frame = 0 then Some (False, s)
        else
          let block = frame;
              s = s\<lparr>hdrs := (hdrs s)(block := (hdrs s block)\<lparr>
                    bh_size := FRAME_SIZE - SIZEOF_BlockHeader, bh_free := True,
                    bh_magic := MAGIC_FREED, bh_next := 0\<rparr>)\<rparr>;
              frame_end = frame + FRAME_SIZE;
              s = (if heap_min s = 0 \<or> frame < heap_min s then s\<lparr>heap_min := frame\<rparr> else s);
              s = (if frame_end > heap_max s then s\<lparr>heap_max := frame_end\<rparr> else s)
          in (case insert_free_block block s of
                None \<Rightarrow> None
              | Some s \<Rightarrow> Some (True, s)))"

definition heap_init :: "'a heap_state_scheme \<Rightarrow> 'a heap_state_scheme" where
  "heap_init s = s\<lparr>free_list_head := 0\<rparr>"

text \<open>The inner loop of \<open>kmalloc\<close>: the first free block that is large enough, 0 if there is none.\<close>

partial_function (option) find_fit :: "headers \<Rightarrow> u64 \<Rightarrow> u64 \<Rightarrow> u64 option" where
  "find_fit h block sz =
     (if block = 0 then Some 0
      else if \<not> bh_free (h block) \<or> bh_size (h block) < sz then find_fit h (bh_next (h block)) sz
      else Some block)"

text \<open>The body of that loop once a block is found: split off the remainder and mark the block.\<close>

definition take_block :: "u64 \<Rightarrow> u64 \<Rightarrow> headers \<Rightarrow> headers" where
  "take_block block sz h =
     (let remainder = bh_size (h block) - sz;
          h = (if remainder \<ge> SIZEOF_BlockHeader + MIN_SPLIT_REMAINDER then
                 let new_block = data_ptr block + sz;
                     h = h(new_block := (h new_block)\<lparr>
                           bh_size := remainder - SIZEOF_BlockHeader, bh_free := True,
                           bh_magic := MAGIC_FREED, bh_next := bh_next (h block)\<rparr>)
                 in h(block := (h block)\<lparr>bh_size := sz, bh_next := new_block\<rparr>)
               else h)
      in h(block := (h block)\<lparr>bh_free := False, bh_magic := MAGIC_ALLOCATED\<rparr>))"

text \<open>The attempts loop; its first argument counts the attempts that are left.\<close>

fun kmalloc_loop :: "nat \<Rightarrow> u64 \<Rightarrow> 'a heap_state_scheme \<Rightarrow> (u64 \<times> 'a heap_state_scheme) option" where
  "kmalloc_loop 0 sz s = Some (0, s)"
| "kmalloc_loop (Suc n) sz s =
     (case find_fit (hdrs s) (free_list_head s) sz of
        None \<Rightarrow> None
      | Some block \<Rightarrow>
          if block \<noteq> 0 then Some (data_ptr block, s\<lparr>hdrs := take_block block sz (hdrs s)\<rparr>)
          else
            (case grow_heap s of
               None \<Rightarrow> None
             | Some (grown, s) \<Rightarrow> if \<not> grown then Some (0, s) else kmalloc_loop n sz s))"

definition kmalloc :: "u64 \<Rightarrow> 'a heap_state_scheme \<Rightarrow> (u64 \<times> 'a heap_state_scheme) option" where
  "kmalloc size0 s =
     (if size0 = 0 then Some (0, s)
      else kmalloc_loop (MAX_GROW_ATTEMPTS + 1) (align_up size0 HEAP_ALIGNMENT) s)"

text \<open>The walk of \<open>kfree\<close> to the predecessor of the block, or to the last block.\<close>

partial_function (option) kfree_walk :: "headers \<Rightarrow> u64 \<Rightarrow> u64 \<Rightarrow> u64 option" where
  "kfree_walk h prev block =
     (if bh_next (h prev) \<noteq> 0 \<and> bh_next (h prev) \<noteq> block
      then kfree_walk h (bh_next (h prev)) block
      else Some prev)"

definition release_block :: "u64 \<Rightarrow> 'a heap_state_scheme \<Rightarrow> 'a heap_state_scheme option" where
  "release_block block s =
     (let h = (hdrs s)(block := (hdrs s block)\<lparr>bh_free := True, bh_magic := MAGIC_FREED\<rparr>);
          nxt = bh_next (h block);
          h = (if nxt \<noteq> 0 \<and> bh_free (h nxt) \<and> adjacent h block nxt
               then h(block := (h block)\<lparr>
                   bh_size := bh_size (h block) + (SIZEOF_BlockHeader + bh_size (h nxt)),
                   bh_next := bh_next (h nxt)\<rparr>)
               else h)
      in if free_list_head s \<noteq> 0 \<and> free_list_head s \<noteq> block then
           (case kfree_walk h (free_list_head s) block of
             None \<Rightarrow> None
           | Some prev \<Rightarrow>
               if bh_next (h prev) = block \<and> bh_free (h prev) \<and> adjacent h prev block
               then Some (s\<lparr>hdrs := h(prev := (h prev)\<lparr>
                   bh_size := bh_size (h prev) + (SIZEOF_BlockHeader + bh_size (h block)),
                   bh_next := bh_next (h block)\<rparr>)\<rparr>)
               else Some (s\<lparr>hdrs := h\<rparr>))
         else Some (s\<lparr>hdrs := h\<rparr>))"

definition kfree :: "u64 \<Rightarrow> 'a heap_state_scheme \<Rightarrow> (kfree_outcome \<times> 'a heap_state_scheme) option" where
  "kfree ptr s =
     (if ptr = 0 then Some (FreedNull, s)
      else if ptr mod HEAP_ALIGNMENT \<noteq> 0 then Some (Rejected ''misaligned pointer'', s)
      else if \<not> in_heap_range ptr s then Some (Rejected ''pointer outside heap range'', s)
      else if ptr < heap_min s + SIZEOF_BlockHeader then
        Some (Rejected ''pointer too low for a valid block header'', s)
      else
        let block = ptr - SIZEOF_BlockHeader in
        case is_tracked_block block s of
          None \<Rightarrow> None
        | Some False \<Rightarrow> Some (Rejected ''pointer is not a tracked heap block'', s)
        | Some True \<Rightarrow>
            if bh_magic (hdrs s block) = MAGIC_FREED then Some (Rejected ''double free detected'', s)
            else if bh_magic (hdrs s block) \<noteq> MAGIC_ALLOCATED \<or> bh_free (hdrs s block) then
              Some (Rejected ''corrupted block header'', s)
            else
              (case release_block block s of
                 None \<Rightarrow> None
               | Some s \<Rightarrow> Some (Freed, s)))"

partial_function (option) sum_sizes :: "bool \<Rightarrow> headers \<Rightarrow> u64 \<Rightarrow> u64 \<Rightarrow> u64 option" where
  "sum_sizes want_free h block acc =
     (if block = 0 then Some acc
      else sum_sizes want_free h (bh_next (h block))
             (if bh_free (h block) = want_free then acc + bh_size (h block) else acc))"

definition bytes_in_use :: "'a heap_state_scheme \<Rightarrow> u64 option" where
  "bytes_in_use s = sum_sizes False (hdrs s) (free_list_head s) 0"

definition bytes_free :: "'a heap_state_scheme \<Rightarrow> u64 option" where
  "bytes_free s = sum_sizes True (hdrs s) (free_list_head s) 0"

end
