(* ===== verification/Block_List.thy ===== *)
theory Block_List
  imports Kernel_Prelude
begin

text \<open>
  The abstract view of the kernel heap: the list of its blocks in address order, each with its
  address, the size of its payload and whether it is free. A block occupies the bytes from its
  address up to its header (32 bytes) and payload. The three operations below say what insertion of
  a fresh block, first-fit allocation and release do to that list; the heap theory shows that the
  pointer code of \<^verbatim>\<open>kernel/heap.cpp\<close> implements them.
\<close>

section \<open>Blocks and layout\<close>

datatype blk = Blk (b_addr: u64) (b_size: u64) (b_free: bool)

definition b_end :: "blk \<Rightarrow> nat" where
  "b_end b = unat (b_addr b) + 32 + unat (b_size b)"

text \<open>The blocks lie in order, without overlap and 16-byte aligned, between two bounds.\<close>

fun laid :: "nat \<Rightarrow> nat \<Rightarrow> blk list \<Rightarrow> bool" where
  "laid lo hi [] \<longleftrightarrow> lo \<le> hi"
| "laid lo hi (b # bs) \<longleftrightarrow> lo \<le> unat (b_addr b) \<and> unat (b_addr b) mod 16 = 0 \<and>
     unat (b_size b) mod 16 = 0 \<and> laid (b_end b) hi bs"

definition cover :: "blk list \<Rightarrow> nat set" where
  "cover bs = (\<Union>b\<in>set bs. {unat (b_addr b)..<b_end b})"

definition live :: "blk list \<Rightarrow> blk set" where
  "live bs = {b \<in> set bs. \<not> b_free b}"

definition used_bytes :: "blk list \<Rightarrow> nat" where
  "used_bytes bs = sum_list (map (\<lambda>b. if b_free b then 0 else unat (b_size b)) bs)"

text \<open>The adjacency test of the code, on machine words.\<close>

definition touches :: "blk \<Rightarrow> blk \<Rightarrow> bool" where
  "touches b c \<longleftrightarrow> b_addr b + 32 + b_size b = b_addr c"

definition fuse :: "blk \<Rightarrow> blk \<Rightarrow> blk" where
  "fuse b c = Blk (b_addr b) (b_size b + (32 + b_size c)) (b_free b)"

text \<open>Two lists describe the same memory: the same bytes, the same allocated blocks.\<close>

definition regroup :: "nat \<Rightarrow> nat \<Rightarrow> blk list \<Rightarrow> blk list \<Rightarrow> bool" where
  "regroup lo hi xs ys \<longleftrightarrow> laid lo hi ys \<and> cover ys = cover xs \<and> live ys = live xs \<and>
     used_bytes ys = used_bytes xs"

section \<open>Operations on block lists\<close>

text \<open>Put a block before the rest of the list, merged with its successor if that one touches it.\<close>

fun push_merge :: "blk \<Rightarrow> blk list \<Rightarrow> blk list" where
  "push_merge n [] = [n]"
| "push_merge n (c # cs) = (if touches n c then fuse n c # cs else n # c # cs)"

text \<open>The same, but only a free successor is merged.\<close>

fun push_merge_free :: "blk \<Rightarrow> blk list \<Rightarrow> blk list" where
  "push_merge_free n [] = [n]"
| "push_merge_free n (c # cs) = (if b_free c \<and> touches n c then fuse n c # cs else n # c # cs)"

text \<open>Merge a free head with its successor if they touch.\<close>

fun join_prev :: "blk \<Rightarrow> blk list \<Rightarrow> blk list" where
  "join_prev p [] = [p]"
| "join_prev p (n # ns) = (if touches p n \<and> b_free p then fuse p n # ns else p # n # ns)"

fun bl_insert :: "blk \<Rightarrow> blk list \<Rightarrow> blk list" where
  "bl_insert n [] = [n]"
| "bl_insert n (b # bs) =
     (if b_addr n < b_addr b then push_merge n (b # bs)
      else if bs \<noteq> [] \<and> b_addr (hd bs) < b_addr n then b # bl_insert n bs
      else join_prev b (push_merge n bs))"

fun bl_alloc :: "u64 \<Rightarrow> blk list \<Rightarrow> (u64 \<times> blk list) option" where
  "bl_alloc sz [] = None"
| "bl_alloc sz (b # bs) =
     (if \<not> b_free b \<or> b_size b < sz then map_option (\<lambda>(a, cs). (a, b # cs)) (bl_alloc sz bs)
      else if b_size b - sz \<ge> 64 then
        Some (b_addr b, Blk (b_addr b) sz False # Blk (b_addr b + 32 + sz) (b_size b - sz - 32) True # bs)
      else Some (b_addr b, Blk (b_addr b) (b_size b) False # bs))"

fun bl_free :: "u64 \<Rightarrow> blk list \<Rightarrow> blk list" where
  "bl_free a [] = []"
| "bl_free a (b # bs) =
     (if b_addr b = a then push_merge_free (Blk (b_addr b) (b_size b) True) bs
      else if bs \<noteq> [] \<and> b_addr (hd bs) = a
        then join_prev b (push_merge_free (Blk (b_addr (hd bs)) (b_size (hd bs)) True) (tl bs))
      else b # bl_free a bs)"

section \<open>Layout lemmas\<close>

lemma b_end_simps [simp]: "b_end (Blk a z f) = unat a + 32 + unat z"
  by (simp add: b_end_def)

lemma laid_le: "laid lo hi bs \<Longrightarrow> lo \<le> hi"
  by (induction bs arbitrary: lo) (fastforce simp: b_end_def)+

lemma laid_lower: "laid lo hi bs \<Longrightarrow> lo' \<le> lo \<Longrightarrow> laid lo' hi bs"
  by (cases bs) auto

lemma laid_upper: "laid lo hi bs \<Longrightarrow> hi \<le> hi' \<Longrightarrow> laid lo hi' bs"
  by (induction bs arbitrary: lo) auto

lemma laid_member:
  "laid lo hi bs \<Longrightarrow> b \<in> set bs \<Longrightarrow> lo \<le> unat (b_addr b) \<and> b_end b \<le> hi \<and>
     unat (b_addr b) mod 16 = 0 \<and> unat (b_size b) mod 16 = 0"
proof (induction bs arbitrary: lo)
  case (Cons c cs)
  then show ?case using laid_le [of "b_end c" hi cs] by (fastforce simp: b_end_def)
qed simp

lemma laid_disjoint:
  assumes "laid lo hi bs" "b \<in> set bs" "c \<in> set bs" "b \<noteq> c"
  shows "b_end b \<le> unat (b_addr c) \<or> b_end c \<le> unat (b_addr b)"
  using assms
proof (induction bs arbitrary: lo)
  case (Cons d ds)
  then show ?case using laid_member [of "b_end d" hi ds] by auto
qed simp

lemma laid_addr_inj:
  "laid lo hi bs \<Longrightarrow> b \<in> set bs \<Longrightarrow> c \<in> set bs \<Longrightarrow> b_addr b = b_addr c \<Longrightarrow> b = c"
  using laid_disjoint [of lo hi bs b c] by (force simp: b_end_def)

lemma laid_distinct: "laid lo hi bs \<Longrightarrow> distinct (map b_addr bs)"
proof (induction bs arbitrary: lo)
  case (Cons b bs)
  then show ?case using laid_member [of "b_end b" hi bs] by (force simp: b_end_def)
qed simp

text \<open>Below the managed limit machine words do not wrap, so the adjacency test means what it says.\<close>

lemma touches_iff:
  "b_end b \<le> 1073741824 \<Longrightarrow> touches b c \<longleftrightarrow> b_end b = unat (b_addr c)"
proof -
  assume "b_end b \<le> 1073741824"
  then have "unat (b_addr b + 32 + b_size b) = b_end b"
    by (simp add: b_end_def unat_word_ariths)
  then show ?thesis by (simp add: touches_def word_unat_eq_iff)
qed

lemma fuse_end:
  assumes "b_end b = unat (b_addr c)" "b_end c \<le> 1073741824"
  shows "b_end (fuse b c) = b_end c" and "unat (b_size (fuse b c)) = unat (b_size b) + 32 + unat (b_size c)"
proof -
  show *: "unat (b_size (fuse b c)) = unat (b_size b) + 32 + unat (b_size c)"
    using assms by (simp add: fuse_def b_end_def unat_word_ariths)
  then show "b_end (fuse b c) = b_end c" using assms by (simp add: b_end_def fuse_def)
qed

lemma fuse_sel [simp]: "b_addr (fuse b c) = b_addr b" "b_free (fuse b c) = b_free b"
  by (simp_all add: fuse_def)

lemma cover_simps [simp]:
  "cover [] = {}" "cover (b # bs) = {unat (b_addr b)..<b_end b} \<union> cover bs"
  by (auto simp: cover_def)

lemma cover_fuse:
  assumes "b_end b = unat (b_addr c)" "b_end c \<le> 1073741824"
  shows "cover (fuse b c # bs) = cover (b # c # bs)"
  using fuse_end [OF assms] assms by (auto simp: b_end_def)

lemma live_simps [simp]:
  "live [] = {}" "live (b # bs) = (if b_free b then live bs else insert b (live bs))"
  by (auto simp: live_def)

lemma used_bytes_simps [simp]:
  "used_bytes [] = 0"
  "used_bytes (b # bs) = (if b_free b then 0 else unat (b_size b)) + used_bytes bs"
  by (simp_all add: used_bytes_def)

section \<open>Merging\<close>

lemma regroup_refl: "laid lo hi xs \<Longrightarrow> regroup lo hi xs xs"
  by (simp add: regroup_def)

lemma regroup_trans: "regroup lo hi xs ys \<Longrightarrow> regroup lo hi ys zs \<Longrightarrow> regroup lo hi xs zs"
  by (simp add: regroup_def)

lemma regroup_Cons:
  "laid lo hi (b # xs) \<Longrightarrow> regroup (b_end b) hi xs ys \<Longrightarrow> regroup lo hi (b # xs) (b # ys)"
  by (auto simp: regroup_def)

lemma regroup_fuse:
  assumes "laid lo hi (b # c # cs)" "hi \<le> 1073741824" "touches b c" "b_free b" "b_free c"
  shows "regroup lo hi (b # c # cs) (fuse b c # cs)"
proof -
  have bounds: "b_end c \<le> 1073741824" "b_end b \<le> 1073741824"
    using laid_member [OF assms(1), of b] laid_member [OF assms(1), of c] assms(2) by auto
  then have adj: "b_end b = unat (b_addr c)" using touches_iff assms(3) by blast
  note f = fuse_end [OF adj bounds(1)]
  have "laid lo hi (fuse b c # cs)" using assms(1) f by (auto simp: mod_add_left_eq [symmetric])
  moreover have "cover (fuse b c # cs) = cover (b # c # cs)" by (rule cover_fuse [OF adj bounds(1)])
  ultimately show ?thesis using assms(4,5) by (simp add: regroup_def)
qed

lemma push_merge_regroup:
  assumes "laid lo hi (n # bs)" "hi \<le> 1073741824" "b_free n"
    and "\<And>c. c \<in> set bs \<Longrightarrow> \<not> b_free c \<Longrightarrow> unat (b_addr c) \<noteq> b_end n"
  shows "regroup lo hi (n # bs) (push_merge n bs)"
proof (cases bs)
  case (Cons c cs)
  have "b_end n \<le> 1073741824" using laid_member [OF assms(1), of n] assms(2) by auto
  then have "touches n c \<Longrightarrow> b_free c" using touches_iff [of n c] assms(4) [of c] Cons by auto
  then show ?thesis using regroup_fuse [of lo hi n c cs] regroup_refl assms Cons by auto
qed (use assms in \<open>simp add: regroup_refl\<close>)

lemma push_merge_free_regroup:
  assumes "laid lo hi (n # bs)" "hi \<le> 1073741824" "b_free n"
  shows "regroup lo hi (n # bs) (push_merge_free n bs)"
  using regroup_fuse [OF _ assms(2) _ assms(3)] regroup_refl assms(1)
  by (cases bs) auto

lemma join_prev_regroup:
  assumes "laid lo hi (p # ns)" "hi \<le> 1073741824" "ns \<noteq> []" "b_free (hd ns)"
  shows "regroup lo hi (p # ns) (join_prev p ns)"
  using regroup_fuse [OF _ assms(2)] regroup_refl assms by (cases ns) auto

lemma push_merge_head: "push_merge n bs \<noteq> [] \<and> b_addr (hd (push_merge n bs)) = b_addr n \<and>
    b_free (hd (push_merge n bs)) = b_free n"
  by (cases bs) auto

lemma push_merge_free_head: "push_merge_free n bs \<noteq> [] \<and> b_addr (hd (push_merge_free n bs)) = b_addr n \<and>
    b_free (hd (push_merge_free n bs)) = b_free n"
  by (cases bs) auto

section \<open>Insertion of a fresh block\<close>

definition apart :: "blk \<Rightarrow> blk \<Rightarrow> bool" where
  "apart n b \<longleftrightarrow> b_end n \<le> unat (b_addr b) \<or> b_end b \<le> unat (b_addr n)"

lemma laid_push_front:
  assumes "laid lo hi bs" "lo' \<le> unat (b_addr n)" "unat (b_addr n) mod 16 = 0" "unat (b_size n) mod 16 = 0"
    and "b_end n \<le> hi" "\<And>b. b \<in> set bs \<Longrightarrow> b_end n \<le> unat (b_addr b)"
  shows "laid lo' hi (n # bs)"
proof -
  have "laid (b_end n) hi bs" using assms(1,5,6) by (cases bs) auto
  then show ?thesis using assms by simp
qed

lemma bl_insert_effect:
  assumes "laid lo hi bs" "hi \<le> 1073741824" "lo \<le> unat (b_addr n)" "b_end n \<le> hi"
    and "unat (b_addr n) mod 16 = 0" "unat (b_size n) mod 16 = 0" "b_free n"
    and "\<forall>b\<in>set bs. apart n b"
    and "\<forall>c\<in>set bs. \<not> b_free c \<longrightarrow> unat (b_addr c) \<noteq> b_end n"
  shows "laid lo hi (bl_insert n bs) \<and> cover (bl_insert n bs) = cover (n # bs) \<and>
         live (bl_insert n bs) = live bs \<and> used_bytes (bl_insert n bs) = used_bytes bs"
  using assms
proof (induction bs arbitrary: lo)
  case (Cons b bs)
  have b: "laid (b_end b) hi bs" using Cons.prems(1) by simp
  have above: "b_end n \<le> unat (b_addr c)"
    if "b_addr n < b_addr d" "d \<in> set (b # bs)" "c \<in> set (b # bs)"
       "c = d \<or> b_end d \<le> unat (b_addr c)" for c d
    using that Cons.prems(8) by (auto simp: apart_def word_less_nat_alt b_end_def)
  consider (front) "b_addr n < b_addr b"
    | (walk) "\<not> b_addr n < b_addr b" "bs \<noteq> [] \<and> b_addr (hd bs) < b_addr n"
    | (here) "\<not> b_addr n < b_addr b" "\<not> (bs \<noteq> [] \<and> b_addr (hd bs) < b_addr n)" by blast
  then show ?case
  proof cases
    case front
    have "b_end n \<le> unat (b_addr c)" if "c \<in> set (b # bs)" for c
      using above [OF front] that laid_member [OF b] by auto
    then have "laid lo hi (n # b # bs)"
      using Cons.prems(1,3-6) by (intro laid_push_front [OF Cons.prems(1)]) auto
    then show ?thesis using push_merge_regroup [of lo hi n "b # bs"] Cons.prems front
      by (simp add: regroup_def)
  next
    case walk
    then have "apart n b" "\<not> b_end n \<le> unat (b_addr b)"
      using Cons.prems(8) by (auto simp: word_less_nat_alt b_end_def)
    then have "b_end b \<le> unat (b_addr n)" by (simp add: apart_def)
    then show ?thesis using Cons.IH [OF b] Cons.prems walk by (auto simp: Un_left_commute)
  next
    case here
    then have bn: "b_end b \<le> unat (b_addr n)"
      using Cons.prems(8) by (auto simp: apart_def word_less_nat_alt b_end_def)
    have hdn: "b_addr n < b_addr (hd bs)" if "bs \<noteq> []"
      using here(2) that Cons.prems(8) by (cases bs) (auto simp: apart_def word_less_nat_alt b_end_def)
    have "b_end n \<le> unat (b_addr c)" if "c \<in> set bs" for c
    proof -
      have ne: "bs \<noteq> []" using that by auto
      then have "c = hd bs \<or> b_end (hd bs) \<le> unat (b_addr c)"
        using that b laid_member [of "b_end (hd bs)" hi "tl bs" c] by (cases bs) auto
      then show ?thesis using above [OF hdn [OF ne]] that ne by auto
    qed
    then have l: "laid (b_end b) hi (n # bs)"
      using Cons.prems bn by (intro laid_push_front [OF b]) auto
    have m: "regroup (b_end b) hi (n # bs) (push_merge n bs)"
      using push_merge_regroup [OF l Cons.prems(2,7)] Cons.prems(9) by auto
    then have lb: "laid lo hi (b # push_merge n bs)" using Cons.prems(1) by (simp add: regroup_def)
    have "regroup lo hi (b # push_merge n bs) (join_prev b (push_merge n bs))"
      using join_prev_regroup [OF lb Cons.prems(2)] push_merge_head [of n bs] Cons.prems(7) by auto
    then show ?thesis using m here Cons.prems(7)
      by (auto simp: regroup_def)
  qed
qed simp

section \<open>First-fit allocation\<close>

lemma bl_alloc_None: "bl_alloc sz bs = None \<longleftrightarrow> (\<forall>b\<in>set bs. b_free b \<longrightarrow> b_size b < sz)"
  by (induction bs) (auto simp: not_less)

lemma bl_alloc_found:
  "bl_alloc sz bs = Some (a, cs) \<Longrightarrow> \<exists>b\<in>set bs. b_addr b = a \<and> b_free b \<and> sz \<le> b_size b"
  by (induction bs arbitrary: cs) (auto split: if_splits simp: not_less)

lemma split_bounds:
  assumes "b_end b \<le> 1073741824" "sz \<le> b_size b" "64 \<le> b_size b - sz"
  shows "unat (b_addr b + 32 + sz) = unat (b_addr b) + 32 + unat sz"
    and "unat (b_size b - sz - 32) = unat (b_size b) - unat sz - 32"
    and "unat sz + 64 \<le> unat (b_size b)"
proof -
  have le: "unat sz \<le> unat (b_size b)" using assms(2) by (simp add: word_le_nat_alt)
  have d: "unat (b_size b - sz) = unat (b_size b) - unat sz" by (rule unat_sub_no_wrap [OF assms(2)])
  then show le64: "unat sz + 64 \<le> unat (b_size b)" using assms(3) le by (simp add: word_le_nat_alt)
  have "32 \<le> b_size b - sz" using assms(3) by (simp add: word_le_nat_alt)
  then show "unat (b_size b - sz - 32) = unat (b_size b) - unat sz - 32"
    using d by (simp add: unat_sub_no_wrap)
  show "unat (b_addr b + 32 + sz) = unat (b_addr b) + 32 + unat sz"
    using assms(1) le by (simp add: b_end_def unat_word_ariths)
qed

text \<open>
  What an allocation gives: a block that was free, turned into an allocated block at the same address
  with at least the requested and less than 64 bytes more than the requested payload.
\<close>

definition alloc_post :: "u64 \<Rightarrow> u64 \<Rightarrow> blk list \<Rightarrow> blk list \<Rightarrow> bool" where
  "alloc_post sz a bs cs \<longleftrightarrow>
     (\<exists>z. unat sz \<le> unat z \<and> unat z < unat sz + 64 \<and>
          (\<exists>b\<in>set bs. b_free b \<and> b_addr b = a) \<and>
          live cs = insert (Blk a z False) (live bs) \<and>
          used_bytes cs = used_bytes bs + unat z)"

lemma alloc_post_Cons:
  "alloc_post sz a bs cs \<Longrightarrow> alloc_post sz a (b # bs) (b # cs)"
  by (auto simp: alloc_post_def insert_commute)

lemma bl_alloc_effect:
  assumes "laid lo hi bs" "hi \<le> 1073741824" "unat sz mod 16 = 0" "bl_alloc sz bs = Some (a, cs)"
  shows "laid lo hi cs \<and> cover cs = cover bs \<and> alloc_post sz a bs cs"
  using assms
proof (induction bs arbitrary: lo cs)
  case (Cons b bs)
  have be: "b_end b \<le> 1073741824" using laid_member [OF Cons.prems(1), of b] Cons.prems(2) by auto
  consider (skip) "\<not> b_free b \<or> b_size b < sz"
    | (split) "b_free b" "sz \<le> b_size b" "64 \<le> b_size b - sz"
    | (whole) "b_free b" "sz \<le> b_size b" "\<not> 64 \<le> b_size b - sz" by force
  then show ?case
  proof cases
    case skip
    then obtain ds where ds: "bl_alloc sz bs = Some (a, ds)" "cs = b # ds"
      using Cons.prems(4) by auto
    then have "laid (b_end b) hi ds \<and> cover ds = cover bs \<and> alloc_post sz a bs ds"
      using Cons.IH [of "b_end b" ds] Cons.prems by auto
    then show ?thesis using ds(2) Cons.prems(1) alloc_post_Cons [of sz a bs ds b] by auto
  next
    case split
    let ?n = "Blk (b_addr b) sz False" and ?r = "Blk (b_addr b + 32 + sz) (b_size b - sz - 32) True"
    note sb = split_bounds [OF be split(2,3)]
    have cs: "cs = ?n # ?r # bs" "a = b_addr b" using split(1,3) leD [OF split(2)] Cons.prems(4) by auto
    have e: "b_end ?r = b_end b" "b_end ?n = unat (b_addr ?r)" using sb by (auto simp: b_end_def)
    have al: "unat (b_addr ?r) mod 16 = 0" "unat (b_size ?r) mod 16 = 0"
      using sb Cons.prems(1,3) by (simp_all add: mod_eq_0_iff_dvd dvd_add dvd_diff_nat)
    have "laid lo hi cs" using cs e al Cons.prems(1,3) by auto
    moreover have "cover cs = cover (b # bs)" using cs(1) e sb by auto
    moreover have "alloc_post sz a (b # bs) cs"
      unfolding alloc_post_def using split(1) cs by (intro exI [of _ sz]) auto
    ultimately show ?thesis by blast
  next
    case whole
    have cs: "cs = Blk (b_addr b) (b_size b) False # bs" "a = b_addr b" using whole(1,3) leD [OF whole(2)] Cons.prems(4) by auto
    have "unat (b_size b) < unat sz + 64" "unat sz \<le> unat (b_size b)"
      using whole(2,3) unat_sub_no_wrap [OF whole(2)] by (auto simp: word_le_nat_alt)
    then have "alloc_post sz a (b # bs) cs"
      unfolding alloc_post_def using whole(1) cs by (intro exI [of _ "b_size b"]) auto
    then show ?thesis using cs Cons.prems(1) by (auto simp: b_end_def)
  qed
qed simp

section \<open>Release\<close>

lemma laid_free_flag: "laid lo hi (Blk (b_addr b) (b_size b) f # bs) = laid lo hi (b # bs)"
  by (simp add: b_end_def)

lemma bl_free_effect:
  assumes "laid lo hi bs" "hi \<le> 1073741824" "Blk a z False \<in> set bs"
  shows "laid lo hi (bl_free a bs) \<and> cover (bl_free a bs) = cover bs \<and>
         live (bl_free a bs) = live bs - {Blk a z False} \<and>
         used_bytes (bl_free a bs) + unat z = used_bytes bs"
  using assms
proof (induction bs arbitrary: lo)
  case (Cons b bs)
  have nin: "Blk a z False \<notin> set cs" if "laid (b_end (Blk a z False)) hi cs" for cs
    using laid_member [OF that, of "Blk a z False"] by auto
  have freed: "regroup l hi (Blk a z True # cs) (push_merge_free (Blk a z True) cs)"
    if "laid l hi (Blk a z False # cs)" for l cs
    using push_merge_free_regroup [of l hi "Blk a z True" cs] that Cons.prems(2) by simp
  consider (head) "b_addr b = a" | (snd) "b_addr b \<noteq> a" "bs \<noteq> [] \<and> b_addr (hd bs) = a"
    | (walk) "b_addr b \<noteq> a" "\<not> (bs \<noteq> [] \<and> b_addr (hd bs) = a)" by blast
  then show ?case
  proof cases
    case head
    then have b: "b = Blk a z False"
      using laid_addr_inj [OF Cons.prems(1), of b "Blk a z False"] Cons.prems(3) by auto
    then show ?thesis using freed [of lo bs] Cons.prems(1) nin [of bs]
      by (auto simp: regroup_def live_def)
  next
    case snd
    then obtain c cs where bs: "bs = c # cs" "b_addr c = a" by (cases bs) auto
    then have c: "c = Blk a z False"
      using laid_addr_inj [OF Cons.prems(1), of c "Blk a z False"] Cons.prems(3) by auto
    have l: "laid (b_end b) hi (Blk a z False # cs)" using Cons.prems(1) bs(1) c by simp
    let ?m = "push_merge_free (Blk a z True) cs"
    have m: "regroup (b_end b) hi (Blk a z True # cs) ?m" by (rule freed [OF l])
    then have "laid lo hi (b # ?m)" using Cons.prems(1) by (simp add: regroup_def)
    then have "regroup lo hi (b # ?m) (join_prev b ?m)"
      using push_merge_free_head [of "Blk a z True" cs] Cons.prems(2) by (intro join_prev_regroup) auto
    then have j: "laid lo hi (join_prev b ?m)" "cover (join_prev b ?m) = cover (b # ?m)"
      "live (join_prev b ?m) = live (b # ?m)" "used_bytes (join_prev b ?m) = used_bytes (b # ?m)"
      by (simp_all add: regroup_def)
    have k: "cover ?m = cover (Blk a z False # cs)" "live ?m = live cs" "used_bytes ?m = used_bytes cs"
      using m by (simp_all add: regroup_def)
    have fr: "bl_free a (b # bs) = join_prev b ?m" using bs snd c by simp
    have new: "Blk a z False \<notin> live cs" "b \<noteq> Blk a z False"
      using nin [of cs] l snd(1) by (auto simp: live_def)
    have "cover (join_prev b ?m) = cover (b # bs)" using j(2) k(1) bs(1) c by simp
    moreover have "live (join_prev b ?m) = live (b # bs) - {Blk a z False}"
      unfolding j(3) using k(2) bs(1) c new by auto
    moreover have "used_bytes (join_prev b ?m) + unat z = used_bytes (b # bs)"
      using j(4) k(3) bs(1) c by simp
    ultimately show ?thesis unfolding fr using j(1) by blast
  next
    case walk
    then have "Blk a z False \<in> set bs" using Cons.prems(3) by auto
    then show ?thesis using Cons.IH [of "b_end b"] Cons.prems walk by auto
  qed
qed simp

end
