(* ===== verification/Heap_Refine.thy ===== *)
theory Heap_Refine
  imports Heap Block_List
begin

text \<open>
  The pointer code of \<^verbatim>\<open>kernel/heap.cpp\<close> implements the operations on block lists: if the headers
  reachable from the list head represent a block list, every walk ends, and after an insertion, an
  allocation or a release the headers represent the list that the abstract operation gives.
\<close>

section \<open>Representation\<close>

fun rel :: "headers \<Rightarrow> u64 \<Rightarrow> blk list \<Rightarrow> bool" where
  "rel h p [] \<longleftrightarrow> p = 0"
| "rel h p (b # bs) \<longleftrightarrow> p = b_addr b \<and> p \<noteq> 0 \<and> bh_size (h p) = b_size b \<and> bh_free (h p) = b_free b \<and>
     bh_magic (h p) = (if b_free b then MAGIC_FREED else MAGIC_ALLOCATED) \<and> rel h (bh_next (h p)) bs"

abbreviation addrs :: "blk list \<Rightarrow> u64 set" where
  "addrs bs \<equiv> b_addr ` set bs"

named_theorems heap_consts
lemmas [heap_consts] = HEAP_ALIGNMENT_def MIN_SPLIT_REMAINDER_def SIZEOF_BlockHeader_def data_ptr_def

lemma magic_distinct [simp]: "MAGIC_FREED \<noteq> MAGIC_ALLOCATED" "MAGIC_ALLOCATED \<noteq> MAGIC_FREED"
  by (simp_all add: MAGIC_FREED_def MAGIC_ALLOCATED_def)

lemma rel_upd [simp]: "a \<notin> addrs bs \<Longrightarrow> rel (h(a := x)) p bs = rel h p bs"
  by (induction bs arbitrary: p) auto

lemma rel_cong: "\<forall>a\<in>addrs bs. h' a = h a \<Longrightarrow> rel h' p bs = rel h p bs"
  by (induction bs arbitrary: p) auto

lemma rel_head: "rel h p bs \<Longrightarrow> p = (if bs = [] then 0 else b_addr (hd bs))"
  by (cases bs) auto

lemma rel_nonzero: "rel h p bs \<Longrightarrow> 0 \<notin> addrs bs"
  by (induction bs arbitrary: p) auto

lemma adjacent_touches:
  "bh_size (h (b_addr b)) = b_size b \<Longrightarrow> adjacent h (b_addr b) (b_addr c) = touches b c"
  by (simp add: adjacent_def touches_def heap_consts)

section \<open>Walks end\<close>

lemma is_tracked_from_rel: "rel h p bs \<Longrightarrow> is_tracked_from h p a = Some (a \<noteq> 0 \<and> a \<in> addrs bs)"
  by (induction bs arbitrary: p) (auto simp: is_tracked_from.simps [of h])

lemma find_fit_rel:
  "rel h p bs \<Longrightarrow> find_fit h p sz = Some (case bl_alloc sz bs of None \<Rightarrow> 0 | Some (a, cs) \<Rightarrow> a)"
proof (induction bs arbitrary: p)
  case (Cons b bs)
  then show ?case by (auto simp: find_fit.simps [of h "b_addr b"] split: option.splits)
qed (simp add: find_fit.simps)

lemma sum_sizes_rel:
  "rel h p bs \<Longrightarrow> sum_sizes w h p acc =
     Some (acc + sum_list (map (\<lambda>b. if b_free b = w then b_size b else 0) bs))"
proof (induction bs arbitrary: p acc)
  case (Cons b bs)
  then have "p = b_addr b" "p \<noteq> 0" "bh_size (h p) = b_size b" "bh_free (h p) = b_free b"
    "rel h (bh_next (h p)) bs" using Cons.prems by auto
  then show ?case by (simp add: sum_sizes.simps [of w h "b_addr b"] Cons.IH)
qed (simp add: sum_sizes.simps)

section \<open>Insertion\<close>

text \<open>The part of \<open>insert_free_block\<close> after its walk.\<close>

definition merge_into :: "u64 \<Rightarrow> u64 \<Rightarrow> headers \<Rightarrow> headers" where
  "merge_into a c h = h(a := (h a)\<lparr>bh_size := bh_size (h a) + (SIZEOF_BlockHeader + bh_size (h c)),
                                  bh_next := bh_next (h c)\<rparr>)"

definition link_after :: "u64 \<Rightarrow> u64 \<Rightarrow> headers \<Rightarrow> headers" where
  "link_after prev block h =
     (let h = h(block := (h block)\<lparr>bh_next := bh_next (h prev)\<rparr>);
          nxt = bh_next (h block);
          h = (if nxt \<noteq> 0 \<and> adjacent h block nxt then merge_into block nxt h else h)
      in if adjacent h prev block \<and> bh_free (h prev) then merge_into prev block h
         else h(prev := (h prev)\<lparr>bh_next := block\<rparr>))"

definition describes :: "headers \<Rightarrow> blk \<Rightarrow> bool" where
  "describes h b \<longleftrightarrow> b_addr b \<noteq> 0 \<and> bh_size (h (b_addr b)) = b_size b \<and> bh_free (h (b_addr b)) = b_free b \<and>
     bh_magic (h (b_addr b)) = (if b_free b then MAGIC_FREED else MAGIC_ALLOCATED)"

lemma rel_Cons: "rel h p (b # bs) \<longleftrightarrow> p = b_addr b \<and> describes h b \<and> rel h (bh_next (h p)) bs"
  by (auto simp: describes_def)

lemma rel_describes: "rel h p bs \<Longrightarrow> b \<in> set bs \<Longrightarrow> describes h b"
  by (induction bs arbitrary: p) (auto simp: describes_def)

lemma merge_into_fuse:
  assumes "rel h p (b # c # cs)" "distinct (map b_addr (b # c # cs))"
  shows "rel (merge_into p (b_addr c) h) p (fuse b c # cs)"
  using assms by (auto simp: merge_into_def fuse_def SIZEOF_BlockHeader_def)

lemma push_merge_rel:
  assumes "rel h (b_addr n) (n # bs)" "distinct (map b_addr (n # bs))"
  shows "rel (if bh_next (h (b_addr n)) \<noteq> 0 \<and> adjacent h (b_addr n) (bh_next (h (b_addr n)))
              then merge_into (b_addr n) (bh_next (h (b_addr n))) h else h) (b_addr n) (push_merge n bs)"
proof (cases bs)
  case (Cons c cs)
  have "bh_next (h (b_addr n)) = b_addr c" "b_addr c \<noteq> 0" "bh_size (h (b_addr n)) = b_size n"
    using assms Cons by auto
  moreover have "rel (merge_into (b_addr n) (b_addr c) h) (b_addr n) (fuse n c # cs)"
    using assms merge_into_fuse [of h "b_addr n" n c cs] Cons by blast
  ultimately show ?thesis using assms(1) Cons by (simp add: adjacent_touches del: rel.simps)
qed (use assms in auto)

lemma join_prev_rel:
  assumes "rel h (b_addr p) (p # ns)" "ns \<noteq> []" "distinct (map b_addr (p # ns))"
  shows "rel (if adjacent h (b_addr p) (b_addr (hd ns)) \<and> bh_free (h (b_addr p))
              then merge_into (b_addr p) (b_addr (hd ns)) h else h) (b_addr p) (join_prev p ns)"
proof (cases ns)
  case (Cons c cs)
  have "bh_size (h (b_addr p)) = b_size p" "bh_free (h (b_addr p)) = b_free p"
    using assms by auto
  moreover have "rel (merge_into (b_addr p) (b_addr c) h) (b_addr p) (fuse p c # cs)"
    using assms merge_into_fuse [of h "b_addr p" p c cs] Cons by blast
  ultimately show ?thesis using assms(1) Cons by (simp add: adjacent_touches del: rel.simps)
qed (use assms in auto)

text \<open>Header updates away from the block they are about are not seen.\<close>

lemma link_after_other: "a \<noteq> prev \<Longrightarrow> a \<noteq> block \<Longrightarrow> link_after prev block h a = h a"
  by (auto simp: link_after_def merge_into_def Let_def)

lemma link_after_rel:
  assumes "rel h (b_addr b) (b # bs)" "describes h n" "distinct (map b_addr (n # b # bs))" "b_free n"
  shows "rel (link_after (b_addr b) (b_addr n) h) (b_addr b) (join_prev b (push_merge n bs))"
proof -
  define h1 where "h1 = h(b_addr n := (h (b_addr n))\<lparr>bh_next := bh_next (h (b_addr b))\<rparr>)"
  define h2 where "h2 = (if bh_next (h1 (b_addr n)) \<noteq> 0 \<and> adjacent h1 (b_addr n) (bh_next (h1 (b_addr n)))
              then merge_into (b_addr n) (bh_next (h1 (b_addr n))) h1 else h1)"
  define h3 where "h3 = h2(b_addr b := (h2 (b_addr b))\<lparr>bh_next := b_addr n\<rparr>)"
  let ?m = "push_merge n bs"
  have ds: "b_addr b \<noteq> b_addr n" "b_addr n \<notin> addrs bs" "distinct (map b_addr (n # bs))" using assms(3) by auto
  have "rel h1 (b_addr n) (n # bs)" unfolding h1_def using assms ds by (auto simp: describes_def)
  then have m: "rel h2 (b_addr n) ?m" unfolding h2_def using ds(3) by (rule push_merge_rel)
  have sub: "addrs ?m \<subseteq> addrs (n # bs)" by (cases bs) auto
  have hd: "?m \<noteq> []" "b_addr (hd ?m) = b_addr n" using push_merge_head [of n bs] by auto
  have dm: "distinct (map b_addr (b # ?m))" using assms(3) sub by (cases bs) auto
  have same: "h2 (b_addr b) = h (b_addr b)" using ds(1) by (auto simp: h2_def h1_def merge_into_def)
  have "rel h3 (b_addr b) (b # ?m)"
    using m dm same assms(1) unfolding h3_def by auto
  then have j: "rel (if adjacent h3 (b_addr b) (b_addr n) \<and> bh_free (h3 (b_addr b))
              then merge_into (b_addr b) (b_addr n) h3 else h3) (b_addr b) (join_prev b ?m)"
    using join_prev_rel [of h3 b ?m] dm unfolding hd(2) using hd(1) by blast
  have "link_after (b_addr b) (b_addr n) h =
     (if adjacent h3 (b_addr b) (b_addr n) \<and> bh_free (h3 (b_addr b))
              then merge_into (b_addr b) (b_addr n) h3 else h3)"
  proof -
    have "adjacent h3 (b_addr b) (b_addr n) = adjacent h2 (b_addr b) (b_addr n)"
      "bh_free (h3 (b_addr b)) = bh_free (h2 (b_addr b))"
      "merge_into (b_addr b) (b_addr n) h3 = merge_into (b_addr b) (b_addr n) h2"
      using ds(1) by (auto simp: h3_def adjacent_def merge_into_def fun_eq_iff)
    moreover have "link_after (b_addr b) (b_addr n) h =
      (if adjacent h2 (b_addr b) (b_addr n) \<and> bh_free (h2 (b_addr b))
              then merge_into (b_addr b) (b_addr n) h2 else h3)"
      unfolding link_after_def h3_def h2_def h1_def Let_def ..
    ultimately show ?thesis by simp
  qed
  then show ?thesis using j by simp
qed

lemma insert_walk_rel:
  assumes "rel h p bs" "bs \<noteq> []" "describes h n" "distinct (map b_addr (n # bs))" "b_free n"
    and "\<not> b_addr n < p"
  shows "\<exists>prev\<in>addrs bs. insert_walk h p (b_addr n) = Some prev \<and>
           rel (link_after prev (b_addr n) h) p (bl_insert n bs)"
  using assms
proof (induction bs arbitrary: p)
  case (Cons b bs)
  have p: "p = b_addr b" and r: "rel h (bh_next (h p)) bs" using Cons.prems(1) by auto
  show ?case
  proof (cases "bs \<noteq> [] \<and> b_addr (hd bs) < b_addr n")
    case True
    then have nx: "bh_next (h p) \<noteq> 0" "bh_next (h p) = b_addr (hd bs)"
      using rel_head [OF r] rel_nonzero [OF r] by auto
    obtain prev where prev: "prev \<in> addrs bs" "insert_walk h (bh_next (h p)) (b_addr n) = Some prev"
      "rel (link_after prev (b_addr n) h) (bh_next (h p)) (bl_insert n bs)"
    proof -
      have "\<not> b_addr n < bh_next (h p)" using True nx(2) by auto
      moreover have "distinct (map b_addr (n # bs))" using Cons.prems(4) by simp
      ultimately show ?thesis
        using Cons.IH [OF r _ Cons.prems(3) _ Cons.prems(5)] True that by blast
    qed
    have "link_after prev (b_addr n) h p = h p"
      using prev(1) Cons.prems(4) p by (intro link_after_other) auto
    then have "rel (link_after prev (b_addr n) h) p (b # bl_insert n bs)"
      using prev(3) Cons.prems(1) by auto
    moreover have "insert_walk h p (b_addr n) = Some prev"
      using prev(2) nx True by (simp add: insert_walk.simps [of h p])
    ultimately show ?thesis using True prev(1) Cons.prems(6) p by auto
  next
    case False
    then have "insert_walk h p (b_addr n) = Some p"
      using rel_head [OF r] by (auto simp: insert_walk.simps [of h p])
    moreover have "rel (link_after p (b_addr n) h) p (join_prev b (push_merge n bs))"
      using link_after_rel [of h b bs n] Cons.prems p by auto
    moreover have "bl_insert n (b # bs) = join_prev b (push_merge n bs)"
      using False Cons.prems(6) p by auto
    ultimately show ?thesis using p by auto
  qed
qed simp

lemma insert_free_block_rel:
  assumes "rel (hdrs s) (free_list_head s) bs" "b_addr n \<noteq> 0" "b_free n"
    and "bh_size (hdrs s (b_addr n)) = b_size n" "distinct (map b_addr (n # bs))"
  shows "\<exists>h p. insert_free_block (b_addr n) s = Some (s\<lparr>hdrs := h, free_list_head := p\<rparr>) \<and>
               rel h p (bl_insert n bs)"
proof -
  let ?a = "b_addr n"
  define h where "h = (hdrs s)(?a := (hdrs s ?a)\<lparr>bh_free := True, bh_magic := MAGIC_FREED\<rparr>)"
  have r: "rel h (free_list_head s) bs" and d: "describes h n"
    using assms by (auto simp: h_def describes_def)
  show ?thesis
  proof (cases "free_list_head s = 0 \<or> ?a < free_list_head s")
    case True
    define h1 where "h1 = h(?a := (h ?a)\<lparr>bh_next := free_list_head s\<rparr>)"
    have "rel h1 ?a (n # bs)" using r d assms(5) by (auto simp: h1_def describes_def)
    note pm = push_merge_rel [OF this assms(5)]
    have "bl_insert n bs = push_merge n bs" using True rel_head [OF r] rel_nonzero [OF r] by (cases bs) auto
    moreover have "insert_free_block ?a s = Some (s\<lparr>hdrs :=
        (if bh_next (h1 ?a) \<noteq> 0 \<and> adjacent h1 ?a (bh_next (h1 ?a))
         then merge_into ?a (bh_next (h1 ?a)) h1 else h1), free_list_head := ?a\<rparr>)"
    proof (cases "free_list_head s = ?a")
      case True
      then show ?thesis using \<open>free_list_head s = 0 \<or> ?a < free_list_head s\<close> assms(2) by auto
    next
      case False
      then show ?thesis using True
        by (simp add: insert_free_block_def Let_def h_def h1_def adjacent_def merge_into_def)
    qed
    ultimately show ?thesis using pm by metis
  next
    case False
    then have "bs \<noteq> []" using r by auto
    then obtain prev where prev: "insert_walk h (free_list_head s) ?a = Some prev"
      "rel (link_after prev ?a h) (free_list_head s) (bl_insert n bs)"
      using insert_walk_rel [OF r _ d assms(5,3)] False by auto
    have "insert_free_block ?a s = Some (s\<lparr>hdrs := link_after prev ?a h, free_list_head := free_list_head s\<rparr>)"
      using False prev(1) unfolding insert_free_block_def link_after_def merge_into_def h_def Let_def
      by simp
    then show ?thesis using prev(2) by blast
  qed
qed

section \<open>Allocation\<close>

lemma take_block_other:
  "a \<noteq> block \<Longrightarrow> a \<noteq> data_ptr block + sz \<Longrightarrow> take_block block sz h a = h a"
  by (simp add: take_block_def Let_def)

lemma take_block_rel:
  assumes "rel h p bs" "laid lo hi bs" "hi \<le> 1073741824" "bl_alloc sz bs = Some (a, cs)"
  shows "rel (take_block a sz h) p cs"
  using assms
proof (induction bs arbitrary: p lo cs)
  case (Cons b bs)
  have p: "p = b_addr b" "b_addr b \<noteq> 0" and r: "rel h (bh_next (h p)) bs"
    and sz: "bh_size (h p) = b_size b" "bh_free (h p) = b_free b" using Cons.prems(1) by auto
  have dis: "b_addr b \<notin> addrs bs" using laid_distinct [OF Cons.prems(2)] by simp
  have be: "b_end b \<le> 1073741824" using laid_member [OF Cons.prems(2), of b] Cons.prems(3) by auto
  have above: "b_end b \<le> unat (b_addr c)" if "c \<in> set bs" for c
    using laid_member [of "b_end b" hi bs c] that Cons.prems(2) by auto
  consider (skip) "\<not> b_free b \<or> b_size b < sz"
    | (split) "b_free b" "sz \<le> b_size b" "64 \<le> b_size b - sz"
    | (whole) "b_free b" "sz \<le> b_size b" "\<not> 64 \<le> b_size b - sz" by force
  then show ?case
  proof cases
    case skip
    then obtain ds where ds: "bl_alloc sz bs = Some (a, ds)" "cs = b # ds" using Cons.prems(4) by auto
    then have ih: "rel (take_block a sz h) (bh_next (h p)) ds"
      using Cons.IH [OF r] Cons.prems(2,3) by auto
    have l: "laid (b_end b) hi bs" using Cons.prems(2) by simp
    obtain c where c: "c \<in> set bs" "b_addr c = a" "b_free c" "sz \<le> b_size c"
      using bl_alloc_found [OF ds(1)] by blast
    have "b_end c \<le> 1073741824" "b_end b \<le> unat a" using laid_member [OF l c(1)] Cons.prems(3) c by auto
    moreover have "unat sz \<le> unat (b_size c)" using c(4) by (simp add: word_le_nat_alt)
    ultimately have "unat (data_ptr a + sz) = unat a + 32 + unat sz"
      using c(2) by (simp add: heap_consts b_end_def unat_word_ariths)
    then have "p \<noteq> data_ptr a + sz" using \<open>b_end b \<le> unat a\<close> p(1) by (auto simp: b_end_def)
    moreover have "p \<noteq> a" using c dis p by auto
    ultimately have "take_block a sz h p = h p" by (rule take_block_other [rotated])
    then show ?thesis using ih ds(2) Cons.prems(1) by auto
  next
    case split
    note sb = split_bounds [OF be split(2,3)]
    let ?n = "b_addr b + 32 + sz"
    have cs: "cs = Blk (b_addr b) sz False # Blk ?n (b_size b - sz - 32) True # bs" "a = b_addr b"
      using split(1,3) leD [OF split(2)] Cons.prems(4) by auto
    have n: "unat (b_addr b) < unat ?n" "unat ?n < b_end b" using sb by (auto simp: b_end_def)
    then have "?n \<noteq> b_addr b" "?n \<noteq> 0" by (metis less_irrefl, metis not_less_zero unat_0)
    moreover have "?n \<notin> addrs bs" using n(2) above by (metis imageE not_less)
    ultimately have "?n \<noteq> b_addr b" "?n \<noteq> 0" "?n \<notin> addrs bs" by blast+
    moreover have "rel (take_block a sz h) (bh_next (h p)) bs"
    proof -
      have "\<forall>x\<in>addrs bs. take_block a sz h x = h x"
        using dis calculation(3) cs(2) take_block_other [of _ a sz h] by (metis data_ptr_def SIZEOF_BlockHeader_def)
      then show ?thesis using r rel_cong by blast
    qed
    moreover have "bh_size (take_block a sz h ?n) = b_size b - sz - 32" "bh_free (take_block a sz h ?n)"
      "bh_magic (take_block a sz h ?n) = MAGIC_FREED" "bh_next (take_block a sz h ?n) = bh_next (h p)"
      "bh_size (take_block a sz h a) = sz" "\<not> bh_free (take_block a sz h a)"
      "bh_magic (take_block a sz h a) = MAGIC_ALLOCATED" "bh_next (take_block a sz h a) = ?n"
      using calculation(1) cs(2) p sz split by (simp_all add: take_block_def heap_consts Let_def)
    ultimately show ?thesis using cs p by simp
  next
    case whole
    then have cs: "cs = Blk (b_addr b) (b_size b) False # bs" "a = b_addr b"
      using leD [OF whole(2)] Cons.prems(4) by auto
    have tb: "take_block a sz h = h(a := (h a)\<lparr>bh_free := False, bh_magic := MAGIC_ALLOCATED\<rparr>)"
      using cs(2) p sz whole by (simp add: take_block_def heap_consts Let_def)
    have "rel (take_block a sz h) (bh_next (h p)) bs" unfolding tb using r dis cs(2) rel_upd by blast
    moreover have "describes (take_block a sz h) (Blk (b_addr b) (b_size b) False)"
      "bh_next (take_block a sz h p) = bh_next (h p)"
      using tb cs p sz by (simp_all add: describes_def)
    ultimately show ?thesis unfolding cs(1) rel_Cons using p by simp
  qed
qed simp

section \<open>Release\<close>

text \<open>The first part of the release: mark the block and merge it with a free successor.\<close>

definition free_and_merge :: "u64 \<Rightarrow> headers \<Rightarrow> headers" where
  "free_and_merge block h0 =
     (let h = h0(block := (h0 block)\<lparr>bh_free := True, bh_magic := MAGIC_FREED\<rparr>);
          nxt = bh_next (h block)
      in if nxt \<noteq> 0 \<and> bh_free (h nxt) \<and> adjacent h block nxt then merge_into block nxt h else h)"

lemma free_and_merge_other [simp]: "a \<noteq> block \<Longrightarrow> free_and_merge block h a = h a"
  by (simp add: free_and_merge_def merge_into_def Let_def)

lemma free_and_merge_rel:
  assumes "rel h p (b # bs)" "distinct (map b_addr (b # bs))"
  shows "rel (free_and_merge p h) p (push_merge_free (Blk (b_addr b) (b_size b) True) bs)"
proof -
  let ?b = "Blk (b_addr b) (b_size b) True"
  define h1 where "h1 = h(p := (h p)\<lparr>bh_free := True, bh_magic := MAGIC_FREED\<rparr>)"
  have r: "rel h1 p (?b # bs)" "distinct (map b_addr (?b # bs))" using assms by (auto simp: h1_def)
  show ?thesis
  proof (cases bs)
    case Nil
    then have "bh_next (h1 p) = 0" using r(1) by auto
    then show ?thesis using r(1) Nil unfolding free_and_merge_def Let_def h1_def [symmetric] by auto
  next
    case (Cons c cs)
    have "bh_next (h1 p) = b_addr c" "b_addr c \<noteq> 0" "bh_free (h1 (b_addr c)) = b_free c"
      "bh_size (h1 (b_addr ?b)) = b_size ?b" "p = b_addr ?b"
      using r(1) Cons by auto
    moreover have "rel (merge_into p (b_addr c) h1) p (fuse ?b c # cs)"
      using r merge_into_fuse Cons by blast
    ultimately show ?thesis using r(1) Cons unfolding free_and_merge_def Let_def h1_def [symmetric]
      by (simp add: adjacent_touches [of _ ?b, simplified] del: rel.simps)
  qed
qed

lemma kfree_walk_rel:
  assumes "rel h p bs" "distinct (map b_addr bs)" "a \<in> addrs bs" "p \<noteq> a"
  shows "\<exists>prev\<in>addrs bs - {a}. kfree_walk (free_and_merge a h) p a = Some prev \<and>
     bh_next (h prev) = a \<and>
     rel (if bh_free (h prev) \<and> adjacent h prev a then merge_into prev a (free_and_merge a h)
          else free_and_merge a h) p (bl_free a bs)"
  using assms
proof (induction bs arbitrary: p)
  case (Cons b bs)
  let ?h = "free_and_merge a h"
  have p: "p = b_addr b" "p \<noteq> 0" and r: "rel h (bh_next (h p)) bs" using Cons.prems(1) by auto
  have dis: "b_addr b \<notin> addrs bs" "distinct (map b_addr bs)" using Cons.prems(2) by auto
  have ne: "bs \<noteq> []" "a \<in> addrs bs" using Cons.prems(3,4) p by auto
  have nx: "bh_next (h p) = b_addr (hd bs)" "bh_next (h p) \<noteq> 0"
    using rel_head [OF r] rel_nonzero [OF r] ne(1) by auto
  have same: "?h p = h p" using Cons.prems(4) by simp
  show ?case
  proof (cases "b_addr (hd bs) = a")
    case True
    obtain c cs where bs: "bs = c # cs" using ne(1) by (cases bs) auto
    let ?m = "push_merge_free (Blk (b_addr c) (b_size c) True) cs"
    have m: "rel ?h a ?m" using free_and_merge_rel [of h a c cs] r dis(2) bs True nx by simp
    have hd: "?m \<noteq> []" "b_addr (hd ?m) = a"
      using push_merge_free_head [of "Blk (b_addr c) (b_size c) True" cs] bs True by auto
    have "rel ?h (b_addr b) (b # ?m)" using m same Cons.prems(1) p nx True by auto
    moreover have "distinct (map b_addr (b # ?m))" using Cons.prems(2) bs by (cases cs) auto
    ultimately have "rel (if adjacent ?h p a \<and> bh_free (?h p) then merge_into p a ?h else ?h) p (join_prev b ?m)"
      using join_prev_rel [of ?h b ?m] unfolding hd(2) p(1) using hd(1) by blast
    moreover have "adjacent ?h p a = adjacent h p a" using same by (simp add: adjacent_def)
    moreover have "kfree_walk ?h p a = Some p" using same nx True by (simp add: kfree_walk.simps [of _ p])
    moreover have "bl_free a (b # bs) = join_prev b ?m" using bs True p Cons.prems(4) by auto
    ultimately show ?thesis using same nx True p Cons.prems(4)
      by (intro bexI [of _ p]) (auto simp: conj_commute split: if_splits)
  next
    case False
    obtain prev where prev: "prev \<in> addrs bs" "prev \<noteq> a" "kfree_walk ?h (bh_next (h p)) a = Some prev"
      "bh_next (h prev) = a"
      "rel (if bh_free (h prev) \<and> adjacent h prev a then merge_into prev a ?h else ?h) (bh_next (h p)) (bl_free a bs)"
      using Cons.IH [OF r dis(2) ne(2)] False nx by auto
    have "kfree_walk ?h p a = Some prev"
      using prev(3) same nx False by (simp add: kfree_walk.simps [of _ p])
    moreover have "p \<noteq> prev" using prev(1) dis(1) p by auto
    then have "(if bh_free (h prev) \<and> adjacent h prev a then merge_into prev a ?h else ?h) p = h p"
      using same by (simp add: merge_into_def)
    then have "rel (if bh_free (h prev) \<and> adjacent h prev a then merge_into prev a ?h else ?h) p (b # bl_free a bs)"
      using prev(5) Cons.prems(1) by (auto simp del: if_split)
    moreover have "bl_free a (b # bs) = b # bl_free a bs" using False Cons.prems(4) p ne by auto
    ultimately show ?thesis using prev by auto
  qed
qed simp

end
