(* ===== verification/Heap_Correct.thy ===== *)
theory Heap_Correct
  imports Heap_Refine
begin

text \<open>
  Correctness of \<open>kmalloc\<close> and \<open>kfree\<close>: the heap invariant relates the globals of the module to a
  block list laid out in memory that the frame allocator has handed out; every operation returns,
  keeps the invariant and does to the set of live blocks exactly what an allocator promises.
\<close>

section \<open>The heap invariant\<close>

text \<open>
  Besides the representation of the block list, no byte of a block may lie in a frame that is still
  free, and no free frame may end where a block begins: a frame grown there would be merged with
  that block by \<open>insert_free_block\<close>, whether the block is free or not.
\<close>

definition heap_rep :: "'a heap_state_scheme \<Rightarrow> blk list \<Rightarrow> bool" where
  "heap_rep s bs \<longleftrightarrow> rel (hdrs s) (free_list_head s) bs \<and>
     laid (unat (heap_min s)) (unat (heap_max s)) bs \<and> unat (heap_max s) \<le> 1073741824 \<and>
     (heap_min s = 0 \<longrightarrow> bs = []) \<and> pmm_ok s \<and>
     (\<forall>x\<in>cover bs. x div 4096 \<notin> free_set s) \<and>
     (\<forall>b\<in>set bs. \<forall>f\<in>free_set s. unat (b_addr b) \<noteq> f * 4096 + 4096) \<and>
     (\<forall>b\<in>set bs. unat (b_addr b) + 32 < unat (heap_max s))"

lemma heap_repD:
  assumes "heap_rep s bs"
  shows "rel (hdrs s) (free_list_head s) bs" "laid (unat (heap_min s)) (unat (heap_max s)) bs"
    "unat (heap_max s) \<le> 1073741824" "pmm_ok s" "\<forall>x\<in>cover bs. x div 4096 \<notin> free_set s"
    "\<forall>b\<in>set bs. \<forall>f\<in>free_set s. unat (b_addr b) \<noteq> f * 4096 + 4096"
    "\<forall>b\<in>set bs. unat (b_addr b) + 32 < unat (heap_max s)"
  using assms by (simp_all add: heap_rep_def)

lemma heap_rep_disjoint:
  "heap_rep s bs \<Longrightarrow> b \<in> set bs \<Longrightarrow> c \<in> set bs \<Longrightarrow> b \<noteq> c \<Longrightarrow>
     b_end b \<le> unat (b_addr c) \<or> b_end c \<le> unat (b_addr b)"
  using laid_disjoint heap_repD(2) by blast

lemma heap_rep_member:
  "heap_rep s bs \<Longrightarrow> b \<in> set bs \<Longrightarrow> unat (heap_min s) \<le> unat (b_addr b) \<and> b_end b \<le> unat (heap_max s) \<and>
     b_end b \<le> 1073741824 \<and> unat (b_addr b) mod 16 = 0"
  using laid_member heap_repD(2,3) by fastforce

lemma heap_rep_data_ptr:
  "heap_rep s bs \<Longrightarrow> b \<in> set bs \<Longrightarrow> unat (data_ptr (b_addr b)) = unat (b_addr b) + 32"
  using heap_rep_member [of s bs b] by (auto simp: heap_consts b_end_def unat_word_ariths)

lemma heap_rep_live_sub: "live bs \<subseteq> set bs"
  by (auto simp: live_def)

lemma live_Blk:
  "b \<in> live bs \<Longrightarrow> Blk (b_addr b) (b_size b) False \<in> set bs \<and> Blk (b_addr b) (b_size b) False = b"
  by (cases b) (auto simp: live_def)

section \<open>Growing\<close>

lemma free_set_hdrs [simp]:
  "free_set (s\<lparr>hdrs := h\<rparr>) = free_set s" "free_set (s\<lparr>free_list_head := p\<rparr>) = free_set s"
  "free_set (s\<lparr>heap_min := m\<rparr>) = free_set s" "free_set (s\<lparr>heap_max := m\<rparr>) = free_set s"
  by (simp_all add: free_set_def)

lemma pmm_ok_hdrs [simp]:
  "pmm_ok (s\<lparr>hdrs := h\<rparr>) = pmm_ok s" "pmm_ok (s\<lparr>free_list_head := p\<rparr>) = pmm_ok s"
  "pmm_ok (s\<lparr>heap_min := m\<rparr>) = pmm_ok s" "pmm_ok (s\<lparr>heap_max := m\<rparr>) = pmm_ok s"
  by (simp_all add: pmm_ok_def pmm_inv_def)

lemma bl_insert_addrs: "addrs (bl_insert n bs) \<subseteq> addrs (n # bs)"
proof (induction bs)
  case (Cons b bs)
  have pm: "addrs (push_merge n cs) \<subseteq> addrs (n # cs)" for cs by (cases cs) auto
  have jp: "addrs (join_prev b cs) \<subseteq> addrs (b # cs)" for cs by (cases cs) auto
  consider "bl_insert n (b # bs) = push_merge n (b # bs)" | "bl_insert n (b # bs) = b # bl_insert n bs"
    | "bl_insert n (b # bs) = join_prev b (push_merge n bs)" by (metis bl_insert.simps(2))
  then show ?case
  proof cases
    case 1
    show ?thesis unfolding 1 by (rule pm)
  next
    case 2
    show ?thesis unfolding 2 using Cons by auto
  next
    case 3
    have "addrs (b # push_merge n bs) \<subseteq> addrs (n # b # bs)" using pm [of bs] by auto
    then show ?thesis unfolding 3 using jp [of "push_merge n bs"] by (rule subset_trans [rotated])
  qed
qed simp

lemma heap_rep_frame_apart:
  assumes "heap_rep s bs" "f \<in> free_set s" "b \<in> set bs"
  shows "f * 4096 + 4096 \<le> unat (b_addr b) \<or> b_end b \<le> f * 4096"
proof (rule ccontr)
  assume n: "\<not> ?thesis"
  define x where "x = max (f * 4096) (unat (b_addr b))"
  have x: "f * 4096 \<le> x" "x < f * 4096 + 4096" "unat (b_addr b) \<le> x" "x < b_end b"
    using n unfolding x_def b_end_def by linarith+
  have "x \<in> cover bs" using x(3,4) assms(3) unfolding cover_def by auto
  moreover have "x div 4096 = f" using x(1,2) by (intro div_nat_eqI) simp_all
  ultimately show False using heap_repD(5) [OF assms(1)] assms(2) by metis
qed

text \<open>The list after an insertion has a free block with room for what was inserted.\<close>

lemma fuse_size:
  "unat (b_size b) \<le> 4294967296 \<Longrightarrow> unat (b_size c) \<le> 4294967296 \<Longrightarrow>
     unat (b_size (fuse b c)) = unat (b_size b) + 32 + unat (b_size c)"
  by (simp add: fuse_def unat_word_ariths)

lemma bl_insert_room:
  assumes "\<forall>b\<in>set bs. unat (b_size b) \<le> 1073741824" "unat (b_size n) \<le> 1073741824" "b_free n"
  shows "\<exists>b\<in>set (bl_insert n bs). b_free b \<and> unat (b_size n) \<le> unat (b_size b)"
  using assms(1)
proof (induction bs)
  case (Cons b bs)
  have pm: "b_free (hd (push_merge n cs)) \<and> unat (b_size n) \<le> unat (b_size (hd (push_merge n cs))) \<and>
      unat (b_size (hd (push_merge n cs))) \<le> 4294967296 \<and> push_merge n cs \<noteq> []"
    if "\<forall>c\<in>set cs. unat (b_size c) \<le> 1073741824" for cs
    using that assms(2,3) fuse_size [of n "hd cs"] by (cases cs) auto
  have jp: "\<exists>c\<in>set (join_prev b cs). b_free c \<and> unat (b_size n) \<le> unat (b_size c)"
    if "cs \<noteq> []" "b_free (hd cs)" "unat (b_size n) \<le> unat (b_size (hd cs))" "unat (b_size (hd cs)) \<le> 4294967296" for cs
    using that fuse_size [of b "hd cs"] Cons.prems by (cases cs) auto
  consider "bl_insert n (b # bs) = push_merge n (b # bs)" | "bl_insert n (b # bs) = b # bl_insert n bs"
    | "bl_insert n (b # bs) = join_prev b (push_merge n bs)" by (metis bl_insert.simps(2))
  then show ?case
  proof cases
    case 1
    show ?thesis unfolding 1 using pm [OF Cons.prems] hd_in_set by blast
  next
    case 2
    show ?thesis unfolding 2 using Cons by auto
  next
    case 3
    show ?thesis unfolding 3 using pm [of bs] Cons.prems by (intro jp) auto
  qed
qed (use assms in auto)

text \<open>What growing the heap by one frame does.\<close>

lemma frame_word_bounds:
  assumes "f < 262144"
  shows "unat (frame_addr f + FRAME_SIZE) = f * 4096 + 4096"
    and "unat (frame_addr f) mod 16 = 0" and "b_end (Blk (frame_addr f) 4064 fr) = f * 4096 + 4096"
  using assms unat_frame_addr [OF assms] by (simp_all add: FRAME_SIZE_def unat_word_ariths mod_eq_0_iff_dvd)

lemma insert_frame_effect:
  assumes "laid lo hi bs" "hi \<le> 1073741824" "f \<in> free_set s" "heap_rep s bs" "f * 4096 + 4096 \<le> hi" "lo \<le> f * 4096"
  defines "n \<equiv> Blk (frame_addr f) 4064 True"
  shows "laid lo hi (bl_insert n bs) \<and> cover (bl_insert n bs) = cover (n # bs) \<and>
         live (bl_insert n bs) = live bs \<and> used_bytes (bl_insert n bs) = used_bytes bs"
proof (rule bl_insert_effect [OF assms(1,2)])
  have fb: "f < 262144" using assms(3) by (rule free_set_bound)
  note fw = frame_word_bounds [OF fb]
  show "lo \<le> unat (b_addr n)" "b_end n \<le> hi" "unat (b_addr n) mod 16 = 0" "unat (b_size n) mod 16 = 0" "b_free n"
    using assms(5,6) fw unat_frame_addr [OF fb] by (simp_all add: n_def)
  have e: "b_end n = f * 4096 + 4096" unfolding n_def by (rule fw(3))
  show "\<forall>b\<in>set bs. apart n b"
    unfolding apart_def e using heap_rep_frame_apart [OF assms(4,3)] unat_frame_addr [OF fb] by (simp add: n_def)
  show "\<forall>c\<in>set bs. \<not> b_free c \<longrightarrow> unat (b_addr c) \<noteq> b_end n"
    unfolding e using heap_repD(6) [OF assms(4)] assms(3) by blast
qed

definition grown :: "'a heap_state_scheme \<Rightarrow> blk list \<Rightarrow> 'a heap_state_scheme \<Rightarrow> blk list \<Rightarrow> bool" where
  "grown s bs s' cs \<longleftrightarrow> heap_rep s' cs \<and> live cs = live bs \<and> used_bytes cs = used_bytes bs \<and>
     free_set s' = free_set s - {Min (free_set s)} \<and>
     (\<exists>b\<in>set cs. b_free b \<and> 4064 \<le> unat (b_size b))"

lemma heap_rep_widen:
  assumes "heap_rep s bs" "f \<in> free_set s"
  defines "m \<equiv> (if heap_min s = 0 \<or> frame_addr f < heap_min s then frame_addr f else heap_min s)"
  defines "M \<equiv> (if frame_addr f + FRAME_SIZE > heap_max s then frame_addr f + FRAME_SIZE else heap_max s)"
  shows "laid (unat m) (unat M) bs \<and> unat M \<le> 1073741824 \<and> f * 4096 + 4096 \<le> unat M \<and> unat m \<le> f * 4096 \<and> m \<noteq> 0"
proof -
  have fb: "f < 262144" using assms(2) by (rule free_set_bound)
  note fw = frame_word_bounds [OF fb] unat_frame_addr [OF fb]
  have f0: "f \<noteq> 0" using heap_repD(4) [OF assms(1)] assms(2) by (auto simp: pmm_ok_def intro!: gr0I)
  have M: "unat M = max (unat (heap_max s)) (f * 4096 + 4096)"
    using fw(1) by (auto simp: M_def word_less_nat_alt max_def)
  have m: "unat m = (if heap_min s = 0 then f * 4096 else min (unat (heap_min s)) (f * 4096))"
    using fw(4) by (auto simp: m_def word_less_nat_alt min_def)
  have hm: "unat (heap_min s) \<noteq> 0" if "heap_min s \<noteq> 0" using that by (simp add: unat_eq_zero)
  have "laid (unat m) (unat M) bs"
  proof (cases "heap_min s = 0")
    case True
    then have "bs = []" using assms(1) by (simp add: heap_rep_def)
    then show ?thesis using True m M by simp
  next
    case False
    then show ?thesis using laid_lower [OF laid_upper [OF heap_repD(2) [OF assms(1)]], of "unat M" "unat m"] m M by simp
  qed
  moreover have "unat M \<le> 1073741824" "f * 4096 + 4096 \<le> unat M" using M heap_repD(3) [OF assms(1)] fb by auto
  moreover have "unat m \<le> f * 4096" "m \<noteq> 0" using m hm f0 by (auto simp: unat_eq_zero [symmetric] simp del: unat_eq_zero split: if_splits)
  ultimately show ?thesis by blast
qed

lemma grow_heap_empty: "free_set s = {} \<Longrightarrow> grow_heap s = Some (False, s)"
  by (simp add: grow_heap_def alloc_frame_spec)

lemma heap_rep_grown:
  assumes "heap_rep s bs" "f = Min (free_set s)" "free_set s \<noteq> {}"
    and "rel (hdrs s') (free_list_head s') (bl_insert (Blk (frame_addr f) 4064 True) bs)"
    and "free_set s' = free_set s - {f}" "pmm_ok s'"
    and "heap_min s' = (if heap_min s = 0 \<or> frame_addr f < heap_min s then frame_addr f else heap_min s)"
    and "heap_max s' = (if frame_addr f + FRAME_SIZE > heap_max s then frame_addr f + FRAME_SIZE else heap_max s)"
  shows "grown s bs s' (bl_insert (Blk (frame_addr f) 4064 True) bs)"
proof -
  let ?n = "Blk (frame_addr f) 4064 True" and ?cs = "bl_insert (Blk (frame_addr f) 4064 True) bs"
  have f: "f \<in> free_set s" "f < 262144" using assms(2,3) free_set_bound [of f s] by auto
  have low: "f < g" if "g \<in> free_set s'" for g
    using that assms(2,5) Min_le [of "free_set s" g] by (metis Diff_iff finite_free_set le_neq_implies_less singletonI)
  note w = heap_rep_widen [OF assms(1) f(1), folded assms(7,8)]
  have ins: "laid (unat (heap_min s')) (unat (heap_max s')) ?cs \<and> cover ?cs = cover (?n # bs) \<and>
         live ?cs = live bs \<and> used_bytes ?cs = used_bytes bs"
    using insert_frame_effect [OF _ _ f(1) assms(1)] w by blast
  have own: "x div 4096 \<notin> free_set s'" if "x \<in> cover ?cs" for x
  proof -
    have "cover (?n # bs) = {f * 4096..<f * 4096 + 4096} \<union> cover bs"
      unfolding cover_simps frame_word_bounds(3) [OF f(2)] using unat_frame_addr [OF f(2)] by simp
    then have "x \<in> {f * 4096..<f * 4096 + 4096} \<union> cover bs" using that ins by blast
    moreover have "x div 4096 = f" if "x \<in> {f * 4096..<f * 4096 + 4096}"
      using that by (intro div_nat_eqI) simp_all
    ultimately show ?thesis using assms(5) heap_repD(5) [OF assms(1)] by blast
  qed
  have gap: "unat a \<noteq> g * 4096 + 4096" if "a \<in> addrs ?cs" "g \<in> free_set s'" for a g
  proof -
    have "a = frame_addr f \<or> a \<in> addrs bs" using bl_insert_addrs [of ?n bs] that(1) by auto
    then show ?thesis
      using heap_repD(6) [OF assms(1)] that(2) low [OF that(2)] assms(5) unat_frame_addr [OF f(2)] by auto
  qed
  have room: "unat a + 32 < unat (heap_max s')" if "a \<in> addrs ?cs" for a
  proof -
    have "a = frame_addr f \<or> a \<in> addrs bs" using bl_insert_addrs [of ?n bs] that by auto
    moreover have "unat (heap_max s) \<le> unat (heap_max s')"
      using assms(8) by (auto simp: word_less_nat_alt)
    ultimately show ?thesis
      using heap_repD(7) [OF assms(1)] w unat_frame_addr [OF f(2)] by fastforce
  qed
  have "\<exists>b\<in>set ?cs. b_free b \<and> unat (b_size ?n) \<le> unat (b_size b)"
  proof (rule bl_insert_room)
    show "\<forall>b\<in>set bs. unat (b_size b) \<le> 1073741824"
      using heap_rep_member [OF assms(1)] by (fastforce simp: b_end_def)
  qed simp_all
  then show ?thesis unfolding grown_def heap_rep_def using assms(2,4,5,6) ins w own gap room by auto
qed

lemma grow_heap_rep:
  assumes "heap_rep s bs" "free_set s \<noteq> {}"
  shows "\<exists>s' cs. grow_heap s = Some (True, s') \<and> grown s bs s' cs"
proof -
  define f where "f = Min (free_set s)"
  have f: "f \<in> free_set s" "f < 262144" using assms(2) free_set_bound [of f s] by (auto simp: f_def)
  obtain b c where al: "alloc_frame s = (frame_addr f, s\<lparr>pmm_bitmap := b, free_count := c\<rparr>)"
    "free_set (s\<lparr>pmm_bitmap := b, free_count := c\<rparr>) = free_set s - {f}"
    "pmm_ok (s\<lparr>pmm_bitmap := b, free_count := c\<rparr>)" "frame_addr f \<noteq> 0"
    using alloc_frame_take [OF assms(2) heap_repD(4) [OF assms(1)]] unfolding f_def by blast
  let ?n = "Blk (frame_addr f) 4064 True"
  let ?m = "if heap_min s = 0 \<or> frame_addr f < heap_min s then frame_addr f else heap_min s"
  let ?M = "if frame_addr f + FRAME_SIZE > heap_max s then frame_addr f + FRAME_SIZE else heap_max s"
  define t where "t = s\<lparr>pmm_bitmap := b, free_count := c,
     hdrs := (hdrs s)(frame_addr f := (hdrs s (frame_addr f))\<lparr>bh_size := FRAME_SIZE - SIZEOF_BlockHeader,
        bh_free := True, bh_magic := MAGIC_FREED, bh_next := 0\<rparr>), heap_min := ?m, heap_max := ?M\<rparr>"
  have fresh: "frame_addr f \<notin> addrs bs"
    using heap_rep_frame_apart [OF assms(1) f(1)] unat_frame_addr [OF f(2)] by (force simp: b_end_def)
  have "rel (hdrs t) (free_list_head t) bs"
    using heap_repD(1) [OF assms(1)] fresh unfolding t_def by simp
  moreover have "distinct (map b_addr (?n # bs))" using fresh laid_distinct [OF heap_repD(2) [OF assms(1)]] by simp
  moreover have "bh_size (hdrs t (b_addr ?n)) = b_size ?n"
    by (simp add: t_def FRAME_SIZE_def SIZEOF_BlockHeader_def)
  ultimately obtain h p where ins: "insert_free_block (frame_addr f) t = Some (t\<lparr>hdrs := h, free_list_head := p\<rparr>)"
    "rel h p (bl_insert ?n bs)"
    using insert_free_block_rel [of t bs ?n] al(4) by auto
  have "grow_heap s = Some (True, t\<lparr>hdrs := h, free_list_head := p\<rparr>)"
  proof -
    have t: "t = (let s = s\<lparr>pmm_bitmap := b, free_count := c\<rparr>;
              s = s\<lparr>hdrs := (hdrs s)(frame_addr f := (hdrs s (frame_addr f))\<lparr>
                    bh_size := FRAME_SIZE - SIZEOF_BlockHeader, bh_free := True,
                    bh_magic := MAGIC_FREED, bh_next := 0\<rparr>)\<rparr>;
              s = (if heap_min s = 0 \<or> frame_addr f < heap_min s then s\<lparr>heap_min := frame_addr f\<rparr> else s)
              in (if frame_addr f + FRAME_SIZE > heap_max s then s\<lparr>heap_max := frame_addr f + FRAME_SIZE\<rparr> else s))"
      by (simp add: t_def Let_def)
    show ?thesis unfolding grow_heap_def al(1) using ins(1) al(4) unfolding t Let_def by simp
  qed
  moreover have "grown s bs (t\<lparr>hdrs := h, free_list_head := p\<rparr>) (bl_insert ?n bs)"
    using al(2,3) ins(2) by (intro heap_rep_grown [OF assms(1) f_def assms(2)]) (simp_all add: t_def)
  ultimately show ?thesis by blast
qed

section \<open>Allocation\<close>

lemma bl_alloc_addrs:
  assumes "laid lo hi bs" "hi \<le> 1073741824" "bl_alloc sz bs = Some (a, cs)" "x \<in> addrs cs"
  shows "x \<in> addrs bs \<or> (0 < unat x \<and> unat x - 1 \<in> cover bs \<and> unat x + 32 < hi)"
  using assms
proof (induction bs arbitrary: lo cs)
  case (Cons b bs)
  have be: "b_end b \<le> 1073741824" using laid_member [OF Cons.prems(1), of b] Cons.prems(2) by auto
  consider (skip) "\<not> b_free b \<or> b_size b < sz"
    | (split) "b_free b" "sz \<le> b_size b" "64 \<le> b_size b - sz"
    | (whole) "b_free b" "sz \<le> b_size b" "\<not> 64 \<le> b_size b - sz" by force
  then show ?case
  proof cases
    case skip
    then obtain ds where "bl_alloc sz bs = Some (a, ds)" "cs = b # ds" using Cons.prems(3) by auto
    then show ?thesis using Cons.IH [of "b_end b" ds] Cons.prems by auto
  next
    case split
    note sb = split_bounds [OF be split(2,3)]
    have "cs = Blk (b_addr b) sz False # Blk (b_addr b + 32 + sz) (b_size b - sz - 32) True # bs"
      using split(1,3) leD [OF split(2)] Cons.prems(3) by auto
    then have "x \<in> addrs (b # bs) \<or> x = b_addr b + 32 + sz" using Cons.prems(4) by auto
    then show ?thesis using sb laid_member [OF Cons.prems(1), of b] by (auto simp: b_end_def)
  next
    case whole
    then show ?thesis using leD [OF whole(2)] Cons.prems(3,4) by auto
  qed
qed simp

lemma heap_rep_take:
  assumes "heap_rep s bs" "bl_alloc sz bs = Some (a, cs)" "unat sz mod 16 = 0"
  shows "heap_rep (s\<lparr>hdrs := take_block a sz (hdrs s)\<rparr>) cs \<and> alloc_post sz a bs cs"
proof -
  note r = heap_repD [OF assms(1)]
  have e: "laid (unat (heap_min s)) (unat (heap_max s)) cs \<and> cover cs = cover bs \<and> alloc_post sz a bs cs"
    by (rule bl_alloc_effect [OF r(2,3) assms(3,2)])
  have t: "rel (take_block a sz (hdrs s)) (free_list_head s) cs"
    by (rule take_block_rel [OF r(1,2,3) assms(2)])
  have gap: "unat x \<noteq> f * 4096 + 4096" if "x \<in> addrs cs" "f \<in> free_set s" for x f
    using bl_alloc_addrs [OF r(2,3) assms(2) that(1)] r(5,6) that(2) by fastforce
  have room: "unat x + 32 < unat (heap_max s)" if "x \<in> addrs cs" for x
    using bl_alloc_addrs [OF r(2,3) assms(2) that] r(7) by auto
  have "bs \<noteq> []" using assms(2) by auto
  then show ?thesis using e t gap room r assms(1) by (auto simp: heap_rep_def)
qed

definition kmalloc_post :: "u64 \<Rightarrow> blk list \<Rightarrow> u64 \<Rightarrow> 'a heap_state_scheme \<Rightarrow> blk list \<Rightarrow> bool" where
  "kmalloc_post sz bs p s' cs \<longleftrightarrow> heap_rep s' cs \<and>
     (if p = 0 then live cs = live bs \<and> used_bytes cs = used_bytes bs
      else \<exists>b. live cs = insert b (live bs) \<and> b \<notin> live bs \<and> p = data_ptr (b_addr b) \<and>
               unat sz \<le> unat (b_size b) \<and> unat (b_size b) < unat sz + 64 \<and>
               used_bytes cs = used_bytes bs + unat (b_size b))"

lemma kmalloc_take:
  assumes "heap_rep s bs" "bl_alloc sz bs = Some (a, cs)" "unat sz mod 16 = 0"
  shows "a \<noteq> 0 \<and> data_ptr a \<noteq> 0 \<and> kmalloc_post sz bs (data_ptr a) (s\<lparr>hdrs := take_block a sz (hdrs s)\<rparr>) cs"
proof -
  note ht = heap_rep_take [OF assms]
  then obtain z b where z: "unat sz \<le> unat z" "unat z < unat sz + 64" "b \<in> set bs" "b_free b" "b_addr b = a"
    "live cs = insert (Blk a z False) (live bs)" "used_bytes cs = used_bytes bs + unat z"
    by (auto simp: alloc_post_def)
  have "Blk a z False \<notin> live bs"
  proof
    assume "Blk a z False \<in> live bs"
    then have "b = Blk a z False"
      using laid_addr_inj [OF heap_repD(2) [OF assms(1)] z(3), of "Blk a z False"] z(5) by (simp add: live_def)
    then show False using z(4) by (metis blk.sel(3))
  qed
  moreover have "unat (data_ptr a) \<noteq> 0" using heap_rep_data_ptr [OF assms(1) z(3)] z(5) by simp
  then have "data_ptr a \<noteq> 0" by (metis unat_0)
  moreover have "a \<noteq> 0" using rel_nonzero [OF heap_repD(1) [OF assms(1)]] z(3,5) by auto
  ultimately show ?thesis unfolding kmalloc_post_def using ht z by auto
qed

lemma kmalloc_loop_correct:
  assumes "heap_rep s bs" "unat sz mod 16 = 0"
  shows "\<exists>p s' cs. kmalloc_loop n sz s = Some (p, s') \<and> kmalloc_post sz bs p s' cs \<and>
    (n \<noteq> 0 \<and> bl_alloc sz bs \<noteq> None \<longrightarrow> p \<noteq> 0) \<and>
    (2 \<le> n \<and> free_set s \<noteq> {} \<and> unat sz \<le> 4064 \<longrightarrow> p \<noteq> 0)"
  using assms
proof (induction n arbitrary: s bs)
  case 0
  then show ?case by (auto simp: kmalloc_post_def)
next
  case (Suc n)
  note ff = find_fit_rel [OF heap_repD(1) [OF Suc.prems(1)], of sz]
  show ?case
  proof (cases "bl_alloc sz bs")
    case None
    show ?thesis
    proof (cases "free_set s = {}")
      case True
      then show ?thesis using ff None grow_heap_empty [OF True] Suc.prems by (auto simp: kmalloc_post_def)
    next
      case False
      then obtain s1 bs1 where g: "grow_heap s = Some (True, s1)" "grown s bs s1 bs1"
        using grow_heap_rep [OF Suc.prems(1)] by blast
      then obtain p s' cs where k: "kmalloc_loop n sz s1 = Some (p, s')" "kmalloc_post sz bs1 p s' cs"
        "n \<noteq> 0 \<and> bl_alloc sz bs1 \<noteq> None \<longrightarrow> p \<noteq> 0"
        using Suc.IH [OF _ Suc.prems(2), of s1 bs1] unfolding grown_def by blast
      have "kmalloc_loop (Suc n) sz s = Some (p, s')" using ff None g(1) k(1) by simp
      moreover have same: "live bs1 = live bs" "used_bytes bs1 = used_bytes bs" using g(2) by (simp_all add: grown_def)
      have "kmalloc_post sz bs p s' cs" using k(2) unfolding kmalloc_post_def same .
      moreover have "bl_alloc sz bs1 \<noteq> None" if "unat sz \<le> 4064"
        using g(2) that unfolding grown_def bl_alloc_None word_less_nat_alt by (meson leD le_trans)
      ultimately show ?thesis using k(3) None by (metis Suc_le_mono numeral_2_eq_2 not_one_le_zero One_nat_def)
    qed
  next
    case (Some r)
    obtain a cs where r: "r = (a, cs)" by (cases r)
    then have "bl_alloc sz bs = Some (a, cs)" using Some by simp
    then show ?thesis using ff kmalloc_take [OF Suc.prems(1) _ Suc.prems(2)] by auto
  qed
qed

lemma unat_align_up:
  assumes "unat n + 15 < 2 ^ 64"
  shows "unat (align_up n HEAP_ALIGNMENT) = (unat n + 15) div 16 * 16"
proof -
  have "unat (n + 15) = unat n + 15" using assms by (simp add: unat_add_no_wrap)
  moreover have "align_up n HEAP_ALIGNMENT = (n + 15) AND NOT (mask 4)"
    by (simp add: align_up_def HEAP_ALIGNMENT_def mask_eq_exp_minus_1 add_diff_eq [symmetric])
  ultimately show ?thesis by (simp only: unat_clear_low_bits) simp
qed

section \<open>Release\<close>

lemma bl_free_addrs: "addrs (bl_free a bs) \<subseteq> addrs bs"
proof (induction bs)
  case (Cons b bs)
  have pm: "addrs (push_merge_free n cs) \<subseteq> addrs (n # cs)" for n cs by (cases cs) auto
  have jp: "addrs (join_prev n cs) \<subseteq> addrs (n # cs)" for n cs by (cases cs) auto
  let ?c = "Blk (b_addr (hd bs)) (b_size (hd bs)) True"
  consider "bl_free a (b # bs) = push_merge_free (Blk (b_addr b) (b_size b) True) bs"
    | "bs \<noteq> []" "bl_free a (b # bs) = join_prev b (push_merge_free ?c (tl bs))"
    | "bl_free a (b # bs) = b # bl_free a bs" by (metis bl_free.simps(2))
  then show ?case
  proof cases
    case 1
    show ?thesis unfolding 1 using pm [of "Blk (b_addr b) (b_size b) True" bs] by auto
  next
    case 2
    have "addrs (b # push_merge_free ?c (tl bs)) \<subseteq> addrs (b # bs)"
      using pm [of ?c "tl bs"] 2(1) by (cases bs) auto
    then show ?thesis unfolding 2(2) by (rule subset_trans [OF jp])
  next
    case 3
    show ?thesis unfolding 3 using Cons by auto
  qed
qed simp

lemma release_block_alt:
  "release_block block s =
     (let h = free_and_merge block (hdrs s) in
      if free_list_head s \<noteq> 0 \<and> free_list_head s \<noteq> block then
        (case kfree_walk h (free_list_head s) block of
           None \<Rightarrow> None
         | Some prev \<Rightarrow>
             Some (s\<lparr>hdrs := (if bh_next (h prev) = block \<and> bh_free (h prev) \<and> adjacent h prev block
                             then merge_into prev block h else h)\<rparr>))
      else Some (s\<lparr>hdrs := h\<rparr>))"
proof -
  define h where "h = free_and_merge block (hdrs s)"
  have "release_block block s =
      (if free_list_head s \<noteq> 0 \<and> free_list_head s \<noteq> block then
         (case kfree_walk h (free_list_head s) block of
            None \<Rightarrow> None
          | Some prev \<Rightarrow>
              if bh_next (h prev) = block \<and> bh_free (h prev) \<and> adjacent h prev block
              then Some (s\<lparr>hdrs := merge_into prev block h\<rparr>) else Some (s\<lparr>hdrs := h\<rparr>))
       else Some (s\<lparr>hdrs := h\<rparr>))"
    unfolding release_block_def h_def free_and_merge_def merge_into_def Let_def by (rule refl)
  then show ?thesis unfolding h_def [symmetric] Let_def by (simp split: option.split)
qed

lemma release_block_rel:
  assumes "rel (hdrs s) (free_list_head s) bs" "distinct (map b_addr bs)" "a \<in> addrs bs"
  shows "\<exists>h. release_block a s = Some (s\<lparr>hdrs := h\<rparr>) \<and> rel h (free_list_head s) (bl_free a bs)"
proof (cases "free_list_head s = a")
  case True
  obtain b cs where bs: "bs = b # cs" using assms(3) by (cases bs) auto
  then have "a = b_addr b" using assms(1) True by simp
  then have "rel (free_and_merge a (hdrs s)) a (bl_free a bs)"
    using free_and_merge_rel [of "hdrs s" a b cs] assms(1,2) True bs by simp
  then show ?thesis using True by (auto simp: release_block_alt)
next
  case False
  let ?h = "free_and_merge a (hdrs s)"
  obtain prev where prev: "prev \<noteq> a" "kfree_walk ?h (free_list_head s) a = Some prev" "bh_next (hdrs s prev) = a"
    "rel (if bh_free (hdrs s prev) \<and> adjacent (hdrs s) prev a then merge_into prev a ?h else ?h)
       (free_list_head s) (bl_free a bs)"
    using kfree_walk_rel [OF assms False] by blast
  have "free_list_head s \<noteq> 0" using assms(1,3) by (cases bs) auto
  moreover have "adjacent ?h prev a = adjacent (hdrs s) prev a" using prev(1) by (simp add: adjacent_def)
  ultimately have "release_block a s = Some (s\<lparr>hdrs :=
      (if bh_free (hdrs s prev) \<and> adjacent (hdrs s) prev a then merge_into prev a ?h else ?h)\<rparr>)"
    using False prev(1-3) by (simp add: release_block_alt Let_def)
  then show ?thesis using prev(4) by blast
qed

lemma heap_rep_release:
  assumes "heap_rep s bs" "Blk a z False \<in> set bs"
  shows "\<exists>s'. release_block a s = Some s' \<and> heap_rep s' (bl_free a bs) \<and> free_set s' = free_set s"
proof -
  note r = heap_repD [OF assms(1)]
  have "a \<in> addrs bs" using assms(2) by force
  then obtain h where h: "release_block a s = Some (s\<lparr>hdrs := h\<rparr>)" "rel h (free_list_head s) (bl_free a bs)"
    using release_block_rel [OF r(1) laid_distinct [OF r(2)]] by blast
  have "\<forall>b\<in>set (bl_free a bs). \<forall>f\<in>free_set s. unat (b_addr b) \<noteq> f * 4096 + 4096"
    using bl_free_addrs [of a bs] r(6) by fastforce
  moreover have "\<forall>b\<in>set (bl_free a bs). unat (b_addr b) + 32 < unat (heap_max s)"
    using bl_free_addrs [of a bs] r(7) by fastforce
  moreover have "bs \<noteq> []" using assms(2) by auto
  ultimately have "heap_rep (s\<lparr>hdrs := h\<rparr>) (bl_free a bs)"
    using bl_free_effect [OF r(2,3) assms(2)] h(2) r assms(1) by (simp add: heap_rep_def)
  then show ?thesis using h(1) by simp
qed

lemma kfree_live:
  assumes "heap_rep s bs" "Blk a z False \<in> set bs"
  shows "\<exists>s'. kfree (data_ptr a) s = Some (Freed, s') \<and> heap_rep s' (bl_free a bs) \<and> free_set s' = free_set s"
proof -
  note r = heap_repD [OF assms(1)]
  note m = heap_rep_member [OF assms]
  note d = heap_rep_data_ptr [OF assms, simplified]
  have nz: "data_ptr a \<noteq> 0" using d by (metis add_is_0 unat_0 zero_neq_numeral)
  have al: "data_ptr a mod HEAP_ALIGNMENT = 0"
    using m d by (simp add: HEAP_ALIGNMENT_def unat_eq_zero [symmetric] unat_mod_distrib mod_eq_0_iff_dvd del: unat_eq_zero)
  have hm: "heap_min s \<noteq> 0" using assms by (auto simp: heap_rep_def)
  have rng: "in_heap_range (data_ptr a) s" using m d hm r(7) assms(2)
    by (force simp: in_heap_range_def word_le_nat_alt word_less_nat_alt)
  have lo: "\<not> data_ptr a < heap_min s + SIZEOF_BlockHeader"
  proof -
    have "unat (heap_min s + SIZEOF_BlockHeader) = unat (heap_min s) + 32"
      using m by (simp add: SIZEOF_BlockHeader_def unat_word_ariths)
    then show ?thesis using m d by (simp add: word_less_nat_alt)
  qed
  have "a \<noteq> 0" "a \<in> addrs bs" using rel_nonzero [OF r(1)] assms(2) by force+
  then have "is_tracked_block a s = Some True" using is_tracked_from_rel [OF r(1)] by (simp add: is_tracked_block_def)
  moreover have "bh_magic (hdrs s a) = MAGIC_ALLOCATED" "\<not> bh_free (hdrs s a)"
    using rel_describes [OF r(1) assms(2)] by (simp_all add: describes_def)
  moreover have "data_ptr a - SIZEOF_BlockHeader = a" by (simp add: heap_consts)
  ultimately show ?thesis using heap_rep_release [OF assms] nz al rng lo by (auto simp: kfree_def Let_def)
qed

lemma kfree_other:
  assumes "heap_rep s bs" "p \<noteq> 0" "\<forall>b\<in>live bs. p \<noteq> data_ptr (b_addr b)"
  shows "\<exists>why. kfree p s = Some (Rejected why, s)"
proof -
  let ?a = "p - SIZEOF_BlockHeader"
  have t: "is_tracked_block ?a s = Some (?a \<noteq> 0 \<and> ?a \<in> addrs bs)"
    using is_tracked_from_rel [OF heap_repD(1) [OF assms(1)]] by (simp add: is_tracked_block_def)
  have "bh_magic (hdrs s ?a) = MAGIC_FREED" if tr: "?a \<in> addrs bs"
  proof -
    obtain b where b: "b \<in> set bs" "?a = b_addr b" using tr by blast
    then have "p = data_ptr (b_addr b)" unfolding data_ptr_def by (metis diff_add_cancel)
    then have "b_free b" using assms(3) b(1) unfolding live_def by blast
    then show ?thesis using rel_describes [OF heap_repD(1) [OF assms(1)] b(1)] unfolding b(2) by (simp add: describes_def)
  qed
  then show ?thesis using t assms(2) by (cases "?a \<noteq> 0 \<and> ?a \<in> addrs bs") (auto simp: kfree_def Let_def)
qed

section \<open>The allocator interface\<close>

definition region :: "blk \<Rightarrow> nat \<times> nat" where
  "region b = (unat (data_ptr (b_addr b)), unat (b_size b))"

definition heap_holds :: "'a heap_state_scheme \<Rightarrow> (nat \<times> nat) set \<Rightarrow> bool" where
  "heap_holds s L \<longleftrightarrow> (\<exists>bs. heap_rep s bs \<and> L = region ` live bs)"

definition kfree_state :: "u64 \<Rightarrow> 'a heap_state_scheme \<Rightarrow> 'a heap_state_scheme option" where
  "kfree_state p s = map_option snd (kfree p s)"

lemma kmalloc_runs:
  assumes "heap_rep s bs" "0 < unat n" "unat n + 15 < 2 ^ 64"
  shows "\<exists>p s' cs. kmalloc n s = Some (p, s') \<and> kmalloc_post (align_up n HEAP_ALIGNMENT) bs p s' cs \<and>
    (free_set s \<noteq> {} \<and> unat n \<le> 4064 \<longrightarrow> p \<noteq> 0)"
proof -
  have n: "n \<noteq> 0" using assms(2) by auto
  have a: "unat (align_up n HEAP_ALIGNMENT) = (unat n + 15) div 16 * 16" by (rule unat_align_up [OF assms(3)])
  have le: "unat n \<le> 4064 \<Longrightarrow> unat (align_up n HEAP_ALIGNMENT) \<le> 4064" unfolding a by arith
  have "kmalloc n s = kmalloc_loop (MAX_GROW_ATTEMPTS + 1) (align_up n HEAP_ALIGNMENT) s"
    using n by (simp add: kmalloc_def)
  moreover have "2 \<le> MAX_GROW_ATTEMPTS + 1" by (simp add: MAX_GROW_ATTEMPTS_def)
  moreover have "unat (align_up n HEAP_ALIGNMENT) mod 16 = 0" unfolding a by simp
  ultimately show ?thesis using kmalloc_loop_correct [OF assms(1)] le by metis
qed

lemma region_inj: "heap_rep s bs \<Longrightarrow> inj_on region (set bs)"
proof (rule inj_onI)
  fix b c assume *: "heap_rep s bs" "b \<in> set bs" "c \<in> set bs" "region b = region c"
  then have "b_addr b = b_addr c" by (simp add: region_def data_ptr_def word_unat_eq_iff [symmetric])
  then show "b = c" using laid_addr_inj [OF heap_repD(2) [OF *(1)] *(2,3)] by blast
qed

lemma region_apart:
  assumes "heap_rep s bs" "b \<in> set bs" "c \<in> set bs" "b \<noteq> c"
  shows "fst (region b) + snd (region b) \<le> fst (region c) \<or> fst (region c) + snd (region c) \<le> fst (region b)"
  using heap_rep_disjoint [OF assms] heap_rep_data_ptr assms by (fastforce simp: region_def b_end_def)

interpretation kernel_heap: memory_allocator kmalloc kfree_state heap_holds
proof (unfold_locales, goal_cases)
  case (1 s L n)
  then obtain bs where bs: "heap_rep s bs" "L = region ` live bs" by (auto simp: heap_holds_def)
  obtain p s' cs where k: "kmalloc n s = Some (p, s')" "kmalloc_post (align_up n HEAP_ALIGNMENT) bs p s' cs"
    using kmalloc_runs [OF bs(1) 1(2,3)] by blast
  have r: "heap_rep s' cs" using k(2) by (simp add: kmalloc_post_def)
  show ?case
  proof (cases "p = 0")
    case True
    then have "L = region ` live cs" using k(2) bs(2) by (simp add: kmalloc_post_def)
    then show ?thesis using k(1) True r by (auto simp: heap_holds_def)
  next
    case False
    then obtain b where b: "live cs = insert b (live bs)" "b \<notin> live bs" "p = data_ptr (b_addr b)"
      "unat (align_up n HEAP_ALIGNMENT) \<le> unat (b_size b)" using k(2) by (auto simp: kmalloc_post_def)
    have i: "inj_on region (insert b (live bs))"
      using region_inj [OF r] heap_rep_live_sub [of cs] unfolding b(1) by (rule inj_on_subset)
    then have "region b \<notin> L" using b(2) unfolding bs(2) by (auto dest: inj_onD)
    moreover have "heap_holds s' (insert (region b) L)" using r b(1) bs(2) unfolding heap_holds_def by (metis image_insert)
    moreover have "unat n \<le> unat (b_size b)" using b(4) unat_align_up [OF 1(3)] by linarith
    ultimately show ?thesis using k(1) False b(3) by (auto simp: region_def)
  qed
next
  case (2 s L p z)
  then obtain bs b where bs: "heap_rep s bs" "L = region ` live bs" "b \<in> live bs" "region b = (unat p, z)"
    by (auto simp: heap_holds_def)
  have b: "b = Blk (b_addr b) (b_size b) False" "b \<in> set bs" using live_Blk [OF bs(3)] by auto
  have p: "p = data_ptr (b_addr b)" using bs(4) by (simp add: region_def word_unat_eq_iff)
  obtain s' where s': "kfree p s = Some (Freed, s')" "heap_rep s' (bl_free (b_addr b) bs)"
    using kfree_live [OF bs(1), of "b_addr b" "b_size b"] b p by auto
  have "live (bl_free (b_addr b) bs) = live bs - {b}"
    using bl_free_effect [OF heap_repD(2,3) [OF bs(1)], of "b_addr b" "b_size b"] b by auto
  moreover have "region ` (live bs - {b}) = L - {(unat p, z)}"
    using inj_on_image_set_diff [OF region_inj [OF bs(1)], of "live bs" "{b}"] heap_rep_live_sub bs by auto
  ultimately have "heap_holds s' (L - {(unat p, z)})" unfolding heap_holds_def using s'(2) by metis
  then show ?case using s'(1) by (simp add: kfree_state_def)
next
  case (3 s L x z y w)
  then obtain bs where bs: "heap_rep s bs" "L = region ` live bs" by (auto simp: heap_holds_def)
  obtain b where b: "b \<in> live bs" "region b = (x, z)" using 3(2) unfolding bs(2) by (metis imageE)
  obtain c where c: "c \<in> live bs" "region c = (y, w)" using 3(3) unfolding bs(2) by (metis imageE)
  show ?case using region_apart [OF bs(1), of b c] b c 3(4) heap_rep_live_sub [of bs] by force
qed

section \<open>Sample heaps\<close>

text \<open>A heap that is still empty with one free frame, and one whose only block is allocated.\<close>

definition blank_header :: BlockHeader where
  "blank_header = \<lparr>bh_size = 0, bh_free = False, bh_magic = 0, bh_next = 0, bh_reserved = 0\<rparr>"

definition sample_heap :: heap_state where
  "sample_heap = \<lparr>pmm_bitmap = pmm_clear_bit (\<lambda>_. 0xFF) 287, free_count = 1, hdrs = (\<lambda>_. blank_header),
     free_list_head = 0, heap_min = 0, heap_max = 0\<rparr>"

definition sample_full_heap :: heap_state where
  "sample_full_heap = \<lparr>pmm_bitmap = (\<lambda>_. 0xFF), free_count = 0,
     hdrs = (\<lambda>_. blank_header)(0x11F000 := \<lparr>bh_size = 4064, bh_free = False, bh_magic = MAGIC_ALLOCATED,
       bh_next = 0, bh_reserved = 0\<rparr>),
     free_list_head = 0x11F000, heap_min = 0x11F000, heap_max = 0x120000\<rparr>"

lemma sample_heap_rep: "heap_rep sample_heap []" "free_set sample_heap = {287}"
proof -
  have f: "free_set sample_heap = free_set sample_one_free" "free_count sample_heap = free_count sample_one_free"
    by (simp_all add: free_set_def sample_heap_def sample_one_free_def)
  then show "free_set sample_heap = {287}" using sample_one_free_ok(1) by simp
  have "pmm_ok sample_heap" using f sample_one_free_ok(2) by (simp add: pmm_ok_def pmm_inv_def)
  then show "heap_rep sample_heap []" by (simp add: heap_rep_def) (simp add: sample_heap_def)
qed

lemma sample_full_heap_rep: "heap_rep sample_full_heap [Blk 0x11F000 4064 False]"
proof -
  have f: "free_set sample_full_heap = {}"
    using blank_pmm(2) [of sample_full_heap] by (simp add: free_set_def sample_full_heap_def)
  then have "pmm_ok sample_full_heap" by (simp add: pmm_ok_def pmm_inv_def sample_full_heap_def)
  then show ?thesis using f by (simp add: heap_rep_def) (simp add: sample_full_heap_def)
qed

section \<open>Properties\<close>

text \<open>
  C3. On a well-formed heap every request of at least one byte whose rounded size fits in 64 bits
  returns, keeps the heap well formed and either refuses (null, the live blocks unchanged) or hands
  out one new 16-byte aligned block with room for the request, less than 79 bytes larger than it,
  which overlaps no block that was live; with a free frame left no request of up to 4064 bytes is
  refused.
\<close>

theorem kmalloc_correct:
  assumes "heap_rep s bs" "0 < unat n" "unat n + 15 < 2 ^ 64"
  shows "\<exists>p s' cs. kmalloc n s = Some (p, s') \<and> heap_rep s' cs \<and>
    (if p = 0 then live cs = live bs \<and> (free_set s = {} \<or> 4064 < unat n)
     else \<exists>b. live cs = insert b (live bs) \<and> b \<notin> live bs \<and> p = data_ptr (b_addr b) \<and> unat p mod 16 = 0 \<and>
            unat n \<le> unat (b_size b) \<and> unat (b_size b) < unat n + 79 \<and>
            (\<forall>c\<in>live bs. b_end b \<le> unat (b_addr c) \<or> b_end c \<le> unat (b_addr b)))"
proof -
  obtain p s' cs where k: "kmalloc n s = Some (p, s')" "kmalloc_post (align_up n HEAP_ALIGNMENT) bs p s' cs"
    "free_set s \<noteq> {} \<and> unat n \<le> 4064 \<longrightarrow> p \<noteq> 0" using kmalloc_runs [OF assms] by blast
  have r: "heap_rep s' cs" using k(2) by (simp add: kmalloc_post_def)
  show ?thesis
  proof (cases "p = 0")
    case True
    then show ?thesis using k r by (auto simp: kmalloc_post_def)
  next
    case False
    then obtain b where b: "live cs = insert b (live bs)" "b \<notin> live bs" "p = data_ptr (b_addr b)"
      "unat (align_up n HEAP_ALIGNMENT) \<le> unat (b_size b)" "unat (b_size b) < unat (align_up n HEAP_ALIGNMENT) + 64"
      using k(2) by (auto simp: kmalloc_post_def)
    have m: "b \<in> set cs" using b(1) heap_rep_live_sub [of cs] by blast
    have "unat p mod 16 = 0" using heap_rep_data_ptr [OF r m] heap_rep_member [OF r m] b(3)
      by (simp add: mod_eq_0_iff_dvd)
    moreover have "unat n \<le> unat (b_size b)" "unat (b_size b) < unat n + 79"
      using b(4,5) unfolding unat_align_up [OF assms(3)] by linarith+
    moreover have "\<forall>c\<in>live bs. b_end b \<le> unat (b_addr c) \<or> b_end c \<le> unat (b_addr b)"
      using heap_rep_disjoint [OF r m] b(1,2) heap_rep_live_sub [of cs] by blast
    ultimately show ?thesis using k(1) r b False by auto
  qed
qed

theorem kmalloc_correct_witness:
  "heap_rep sample_heap [] \<and> (\<exists>p s' cs b. kmalloc 100 sample_heap = Some (p, s') \<and> heap_rep s' cs \<and>
     live cs = {b} \<and> p = data_ptr (b_addr b) \<and> 100 \<le> unat (b_size b))"
  using kmalloc_correct [OF sample_heap_rep(1), of 100] sample_heap_rep by (auto split: if_splits)

text \<open>
  C7. On a well-formed heap \<open>kfree\<close> always returns. A pointer to the payload of a live block is freed:
  that block and no other leaves the set of live blocks and its bytes leave the bytes in use. Every
  other non-null pointer (misaligned, out of range, into the middle of a block, already freed) is
  reported and leaves the state exactly as it was.
\<close>

theorem kfree_exact:
  assumes "heap_rep s bs"
  shows "if p = 0 then kfree p s = Some (FreedNull, s)
    else if \<exists>b\<in>live bs. p = data_ptr (b_addr b) then
      \<exists>b\<in>live bs. p = data_ptr (b_addr b) \<and>
        (\<exists>s' cs. kfree p s = Some (Freed, s') \<and> heap_rep s' cs \<and> live cs = live bs - {b} \<and>
           used_bytes cs + unat (b_size b) = used_bytes bs)
    else \<exists>why. kfree p s = Some (Rejected why, s)"
proof (cases "p \<noteq> 0 \<and> (\<exists>b\<in>live bs. p = data_ptr (b_addr b))")
  case True
  then obtain b where b: "b \<in> live bs" "p = data_ptr (b_addr b)" by blast
  then have m: "Blk (b_addr b) (b_size b) False \<in> set bs" "Blk (b_addr b) (b_size b) False = b"
    using live_Blk by blast+
  show ?thesis
    using kfree_live [OF assms m(1)] bl_free_effect [OF heap_repD(2,3) [OF assms] m(1)] True b m(2) by auto
next
  case False
  then show ?thesis using kfree_other [OF assms, of p] by (auto simp: kfree_def)
qed

theorem kfree_exact_witness:
  "heap_rep sample_full_heap [Blk 0x11F000 4064 False] \<and>
   (\<exists>s' cs. kfree 0x11F020 sample_full_heap = Some (Freed, s') \<and> heap_rep s' cs \<and> live cs = {})"
  using kfree_exact [OF sample_full_heap_rep, of "0x11F020"] sample_full_heap_rep
  by (auto simp: heap_consts)

text \<open>
  A block that was freed cannot be freed again: after a successful \<open>kfree\<close> the same pointer is
  rejected, with no change to the heap, until an allocation hands it out again.
\<close>

lemma double_free_rejected:
  assumes "heap_rep s bs" "kfree p s = Some (Freed, s')"
  shows "\<exists>why. kfree p s' = Some (Rejected why, s')"
proof -
  have p: "p \<noteq> 0" using assms(2) by (auto simp: kfree_def)
  moreover have "\<exists>b\<in>live bs. p = data_ptr (b_addr b)"
    using kfree_other [OF assms(1) p] assms(2) by auto
  then obtain b where b: "b \<in> set bs" "b \<in> live bs" "p = data_ptr (b_addr b)" using heap_rep_live_sub by blast
  then have m: "Blk (b_addr b) (b_size b) False \<in> set bs" "Blk (b_addr b) (b_size b) False = b"
    using live_Blk by blast+
  have r: "heap_rep s' (bl_free (b_addr b) bs)" using kfree_live [OF assms(1) m(1)] assms(2) b(3) by auto
  have l: "live (bl_free (b_addr b) bs) = live bs - {b}"
    using bl_free_effect [OF heap_repD(2,3) [OF assms(1)] m(1)] m(2) by auto
  have "p \<noteq> data_ptr (b_addr c)" if "c \<in> live bs - {b}" for c
    using laid_addr_inj [OF heap_repD(2) [OF assms(1)] b(1), of c] that b(3) by (auto simp: live_def data_ptr_def)
  then show ?thesis using kfree_other [OF r p] l by auto
qed

lemma double_free_rejected_witness:
  "\<exists>s'. kfree 0x11F020 sample_full_heap = Some (Freed, s') \<and> (\<exists>why. kfree 0x11F020 s' = Some (Rejected why, s'))"
  using double_free_rejected [OF sample_full_heap_rep, of "0x11F020"]
    kfree_live [OF sample_full_heap_rep, of "0x11F000" 4064] by (auto simp: heap_consts)

text \<open>
  \<open>bytes_in_use\<close> returns exactly the number of payload bytes of the live blocks, with no overflow.
\<close>

lemma bytes_in_use_exact:
  assumes "heap_rep s bs"
  shows "\<exists>n. bytes_in_use s = Some n \<and> unat n = used_bytes bs"
proof -
  let ?n = "sum_list (map (\<lambda>b. if b_free b = False then b_size b else 0) bs)"
  have "used_bytes bs + lo \<le> hi \<and> unat (sum_list (map (\<lambda>b. if b_free b = False then b_size b else 0) bs)) = used_bytes bs"
    if "laid lo hi bs" "hi \<le> 1073741824" for lo hi
    using that
  proof (induction bs arbitrary: lo)
    case (Cons b bs)
    then have ih: "used_bytes bs + b_end b \<le> hi"
      "unat (sum_list (map (\<lambda>b. if b_free b = False then b_size b else 0) bs)) = used_bytes bs" "lo \<le> unat (b_addr b)"
      by auto
    then show ?case using Cons.prems(2) by (auto simp: b_end_def unat_word_ariths)
  qed simp
  then have "unat ?n = used_bytes bs" using heap_repD(2,3) [OF assms] by blast
  then show ?thesis using sum_sizes_rel [OF heap_repD(1) [OF assms], of False 0] by (simp add: bytes_in_use_def)
qed

lemma bytes_in_use_exact_witness:
  "heap_rep sample_full_heap [Blk 0x11F000 4064 False] \<and>
   (\<exists>n. bytes_in_use sample_full_heap = Some n \<and> unat n = 4064)"
  using bytes_in_use_exact [OF sample_full_heap_rep] sample_full_heap_rep by simp

text \<open>
  The rounding of the requested size overflows: a request of \<open>2^64 - 15\<close> bytes or more is rounded
  to size 0, and with a free frame left it is answered with a non-null pointer to a block of less
  than 64 bytes.
\<close>

lemma kmalloc_size_overflow:
  assumes "heap_rep s bs" "2 ^ 64 \<le> unat n + 15" "free_set s \<noteq> {}"
  shows "\<exists>p s' cs b. kmalloc n s = Some (p, s') \<and> p \<noteq> 0 \<and> heap_rep s' cs \<and> b \<in> live cs \<and>
    p = data_ptr (b_addr b) \<and> unat (b_size b) < 64"
proof -
  have n0: "n \<noteq> 0" using assms(2) by auto
  have "unat (n + 15) = (unat n + 15) mod 2 ^ 64" by (simp add: unat_word_ariths)
  also have "\<dots> = (unat n + 15 - 2 ^ 64) mod 2 ^ 64" by (rule le_mod_geq [OF assms(2)])
  also have "\<dots> = unat n + 15 - 2 ^ 64" by (intro mod_less) (simp add: less_imp_diff_less)
  finally have "unat (n + 15) < 15" using unat_u64_less [of n] by (simp del: unat_u64_less)
  moreover have "align_up n HEAP_ALIGNMENT = (n + 15) AND NOT (mask 4)"
    by (simp add: align_up_def HEAP_ALIGNMENT_def mask_eq_exp_minus_1 add_diff_eq [symmetric])
  ultimately have "unat (align_up n HEAP_ALIGNMENT) = 0" by (simp only: unat_clear_low_bits) simp
  then have a0: "align_up n HEAP_ALIGNMENT = 0" by (simp only: unat_eq_zero)
  obtain p s' cs where k: "kmalloc_loop (MAX_GROW_ATTEMPTS + 1) 0 s = Some (p, s')" "kmalloc_post 0 bs p s' cs" "p \<noteq> 0"
    using kmalloc_loop_correct [OF assms(1), of 0 "MAX_GROW_ATTEMPTS + 1"] assms(3)
    by (auto simp: MAX_GROW_ATTEMPTS_def simp del: kmalloc_loop.simps)
  then obtain b where "live cs = insert b (live bs)" "p = data_ptr (b_addr b)" "unat (b_size b) < 64"
    by (auto simp: kmalloc_post_def)
  then show ?thesis using k a0 n0 by (auto simp: kmalloc_def kmalloc_post_def)
qed

lemma kmalloc_size_overflow_witness:
  "heap_rep sample_heap [] \<and> (\<exists>p s' cs b. kmalloc 0xFFFFFFFFFFFFFFFF sample_heap = Some (p, s') \<and> p \<noteq> 0 \<and> heap_rep s' cs \<and>
     b \<in> live cs \<and> p = data_ptr (b_addr b) \<and> unat (b_size b) < 64)"
  using kmalloc_size_overflow [OF sample_heap_rep(1), of "0xFFFFFFFFFFFFFFFF"] sample_heap_rep by simp

end
