(* ===== verification/Heap_Sharing.thy ===== *)
theory Heap_Sharing
  imports Heap_Correct
begin

text \<open>
  The heap and the other users of the frame allocator: which frame operations of other components
  keep the heap well formed, and what goes wrong with the one that does not.
\<close>

text \<open>
  C29. Other users of the frame allocator do not disturb the heap: it stays well formed, with the same
  blocks, when a frame is allocated elsewhere, and when a frame that holds no part of it and does not
  end where one of its blocks begins is given back.
\<close>

theorem heap_frame_sharing:
  assumes "heap_rep s bs"
  shows "heap_rep (snd (alloc_frame s)) bs \<and>
    (a \<noteq> 0 \<and> (\<forall>x\<in>cover bs. x div 4096 \<noteq> unat a div 4096) \<and>
       (\<forall>b\<in>set bs. unat (b_addr b) \<noteq> unat a + 4096) \<longrightarrow> heap_rep (free_frame a s) bs)"
proof -
  note r = heap_repD [OF assms]
  have keep: "heap_rep (s\<lparr>pmm_bitmap := b, free_count := c\<rparr>) bs"
    if "pmm_ok (s\<lparr>pmm_bitmap := b, free_count := c\<rparr>)"
      "free_set (s\<lparr>pmm_bitmap := b, free_count := c\<rparr>) \<subseteq> insert f (free_set s)"
      "f \<in> free_set s \<or> (\<forall>x\<in>cover bs. x div 4096 \<noteq> f) \<and> (\<forall>b\<in>set bs. unat (b_addr b) \<noteq> f * 4096 + 4096)" for b c f
    using that assms unfolding heap_rep_def by (auto simp: subset_iff)
  have "heap_rep (snd (alloc_frame s)) bs"
  proof (cases "free_set s = {}")
    case False
    obtain b c where al: "snd (alloc_frame s) = s\<lparr>pmm_bitmap := b, free_count := c\<rparr>"
      "free_set (s\<lparr>pmm_bitmap := b, free_count := c\<rparr>) = free_set s - {Min (free_set s)}"
      "pmm_ok (s\<lparr>pmm_bitmap := b, free_count := c\<rparr>)"
      using alloc_frame_take [OF False r(4)] by (metis snd_conv)
    show ?thesis unfolding al(1) by (rule keep [OF al(3), of "Min (free_set s)"]) (use al(2) False in auto)
  qed (simp add: alloc_frame_spec assms)
  moreover have "heap_rep (free_frame a s) bs"
    if a: "a \<noteq> 0" "\<forall>x\<in>cover bs. x div 4096 \<noteq> unat a div 4096" "\<forall>b\<in>set bs. unat (b_addr b) \<noteq> unat a + 4096"
  proof (cases "unat a < 1073741824 \<and> unat a mod 4096 = 0 \<and> unat a div 4096 \<notin> free_set s")
    case True
    define f where "f = unat a div 4096"
    have f: "unat a = f * 4096" "f < 262144" "f \<notin> free_set s" "f \<noteq> 0"
      using True a(1) by (auto simp: f_def unat_eq_zero [symmetric] simp del: unat_eq_zero)
    let ?t = "s\<lparr>pmm_bitmap := pmm_clear_bit (pmm_bitmap s) f, free_count := free_count s + 1\<rparr>"
    have t: "free_frame a s = ?t" using True by (simp add: free_frame_cases f_def)
    have fs: "free_set ?t = insert f (free_set s)" using free_set_clear [OF f(2), of s] by simp
    have "pmm_ok ?t" using pmm_inv_give [OF _ f(2,3)] r(4) f(4) fs by (simp add: pmm_ok_def)
    moreover have "(\<forall>x\<in>cover bs. x div 4096 \<noteq> f) \<and> (\<forall>b\<in>set bs. unat (b_addr b) \<noteq> f * 4096 + 4096)"
      using a(2,3) f(1) by (simp add: f_def [symmetric])
    ultimately show ?thesis unfolding t using keep fs by blast
  qed (auto simp: free_frame_cases assms)
  ultimately show ?thesis by blast
qed

theorem heap_frame_sharing_witness:
  "heap_rep (free_frame 0x200000 sample_full_heap) [Blk 0x11F000 4064 False]"
proof -
  have "unat (0x200000 :: u64) div 4096 = 512" by simp
  moreover have "\<forall>x\<in>cover [Blk 0x11F000 4064 False]. x div 4096 \<noteq> 512" by auto
  ultimately show ?thesis using heap_frame_sharing [OF sample_full_heap_rep, of "0x200000"] by simp
qed

text \<open>A heap whose live block starts where the frame below it ends, which some other component owns.\<close>

definition sample_high_heap :: heap_state where
  "sample_high_heap = \<lparr>pmm_bitmap = (\<lambda>_. 0xFF), free_count = 0,
     hdrs = (\<lambda>_. blank_header)(0x120000 := \<lparr>bh_size = 4064, bh_free = False, bh_magic = MAGIC_ALLOCATED,
       bh_next = 0, bh_reserved = 0\<rparr>),
     free_list_head = 0x120000, heap_min = 0x120000, heap_max = 0x121000\<rparr>"

lemma sample_high_heap_rep: "heap_rep sample_high_heap [Blk 0x120000 4064 False]"
  "free_frame 0x11F000 sample_high_heap =
     sample_high_heap\<lparr>pmm_bitmap := pmm_clear_bit (\<lambda>_. 0xFF) 287, free_count := 1\<rparr>"
proof -
  have f: "free_set sample_high_heap = {}"
    using blank_pmm(2) [of sample_high_heap] by (simp add: free_set_def sample_high_heap_def)
  then have "pmm_ok sample_high_heap" by (simp add: pmm_ok_def pmm_inv_def sample_high_heap_def)
  then show "heap_rep sample_high_heap [Blk 0x120000 4064 False]"
    using f by (simp add: heap_rep_def) (simp add: sample_high_heap_def)
  show "free_frame 0x11F000 sample_high_heap =
     sample_high_heap\<lparr>pmm_bitmap := pmm_clear_bit (\<lambda>_. 0xFF) 287, free_count := 1\<rparr>"
    using f by (simp add: free_frame_cases) (simp add: sample_high_heap_def)
qed


end
