(* ===== verification/Paging.thy ===== *)
theory Paging
  imports Heap
begin

text \<open>
  Page tables of \<^verbatim>\<open>kernel/paging.cpp\<close>. The kernel identity-maps physical memory, so a table is reached
  through its physical address: the store \<open>ptab\<close> maps the address of a table and an index to the entry
  there. The control registers the code reads and the translations it invalidates are part of the
  state. Operations that can fail return a boolean with the new state, as the code does.
\<close>

section \<open>State and constants\<close>

definition PAGE_PRESENT :: u64 where "PAGE_PRESENT = 1"
definition PAGE_WRITABLE :: u64 where "PAGE_WRITABLE = 2"
definition PAGE_USER :: u64 where "PAGE_USER = 4"
definition PAGE_HUGE :: u64 where "PAGE_HUGE = 0x80"
definition PAGE_OWNED :: u64 where "PAGE_OWNED = 0x200"
definition PAGE_NX :: u64 where "PAGE_NX = 0x8000000000000000"
definition ADDR_MASK :: u64 where "ADDR_MASK = 0x000FFFFFFFFFF000"

datatype tlb_op = Invlpg u64 | Flush

record paging_state = heap_state +
  ptab :: "u64 \<Rightarrow> nat \<Rightarrow> u64"
  cr3 :: u64
  cr0 :: u64
  efer :: u64
  tlb_log :: "tlb_op list"

abbreviation pt_set :: "u64 \<Rightarrow> nat \<Rightarrow> u64 \<Rightarrow> 'a paging_state_scheme \<Rightarrow> 'a paging_state_scheme" where
  "pt_set table i e s \<equiv> s\<lparr>ptab := (ptab s)(table := (ptab s table)(i := e))\<rparr>"

definition invalidate_page :: "u64 \<Rightarrow> 'a paging_state_scheme \<Rightarrow> 'a paging_state_scheme" where
  "invalidate_page virt_addr s = s\<lparr>tlb_log := Invlpg virt_addr # tlb_log s\<rparr>"

definition has_flag :: "u64 \<Rightarrow> u64 \<Rightarrow> bool" where
  "has_flag entry flag \<longleftrightarrow> entry AND flag \<noteq> 0"

section \<open>Tables\<close>

definition clear_table :: "u64 \<Rightarrow> 'a paging_state_scheme \<Rightarrow> 'a paging_state_scheme" where
  "clear_table table s = fold (\<lambda>i. pt_set table i 0) [0..<512] s"

definition get_or_create_table ::
  "u64 \<Rightarrow> nat \<Rightarrow> u64 \<Rightarrow> 'a paging_state_scheme \<Rightarrow> u64 \<times> 'a paging_state_scheme" where
  "get_or_create_table table index flags s =
     (let extra_flags = flags AND NOT ADDR_MASK AND NOT PAGE_HUGE AND NOT PAGE_NX in
      if has_flag (ptab s table index) PAGE_PRESENT then
        let e = ptab s table index OR (PAGE_WRITABLE OR extra_flags)
        in (e AND ADDR_MASK, pt_set table index e s)
      else
        case alloc_frame s of (new_frame, s) \<Rightarrow>
          if new_frame = 0 then (0, s)
          else
            let s = clear_table new_frame s
            in (new_frame, pt_set table index (new_frame OR PAGE_PRESENT OR PAGE_WRITABLE OR extra_flags) s))"

definition is_huge :: "u64 \<Rightarrow> bool" where
  "is_huge entry \<longleftrightarrow> has_flag entry PAGE_PRESENT \<and> has_flag entry PAGE_HUGE"

definition is_table_empty :: "(nat \<Rightarrow> u64) \<Rightarrow> bool" where
  "is_table_empty t \<longleftrightarrow> list_all (\<lambda>i. \<not> has_flag (t i) PAGE_PRESENT) [0..<512]"

definition pml4_index :: "u64 \<Rightarrow> nat" where "pml4_index v = unat (drop_bit 39 v AND 0x1FF)"
definition pdpt_index :: "u64 \<Rightarrow> nat" where "pdpt_index v = unat (drop_bit 30 v AND 0x1FF)"
definition pd_index :: "u64 \<Rightarrow> nat" where "pd_index v = unat (drop_bit 21 v AND 0x1FF)"
definition pt_index :: "u64 \<Rightarrow> nat" where "pt_index v = unat (drop_bit 12 v AND 0x1FF)"

section \<open>Mapping\<close>

definition map_page_in ::
  "u64 \<Rightarrow> u64 \<Rightarrow> u64 \<Rightarrow> u64 \<Rightarrow> 'a paging_state_scheme \<Rightarrow> bool \<times> 'a paging_state_scheme" where
  "map_page_in pml4_phys virt_addr phys_addr flags s =
     (if virt_addr mod 4096 \<noteq> 0 \<or> phys_addr mod 4096 \<noteq> 0 then (False, s)
      else
        case get_or_create_table pml4_phys (pml4_index virt_addr) flags s of (pdpt_phys, s) \<Rightarrow>
        if pdpt_phys = 0 then (False, s)
        else if is_huge (ptab s pdpt_phys (pdpt_index virt_addr)) then (False, s)
        else
          case get_or_create_table pdpt_phys (pdpt_index virt_addr) flags s of (pd_phys, s) \<Rightarrow>
          if pd_phys = 0 then (False, s)
          else if is_huge (ptab s pd_phys (pd_index virt_addr)) then (False, s)
          else
            case get_or_create_table pd_phys (pd_index virt_addr) flags s of (pt_phys, s) \<Rightarrow>
            if pt_phys = 0 then (False, s)
            else
              let s = pt_set pt_phys (pt_index virt_addr)
                        ((phys_addr AND ADDR_MASK) OR (flags OR PAGE_PRESENT)) s
              in (True, if pml4_phys = cr3 s AND ADDR_MASK then invalidate_page virt_addr s else s))"

definition map_page :: "u64 \<Rightarrow> u64 \<Rightarrow> u64 \<Rightarrow> 'a paging_state_scheme \<Rightarrow> bool \<times> 'a paging_state_scheme" where
  "map_page virt_addr phys_addr flags s = map_page_in (cr3 s AND ADDR_MASK) virt_addr phys_addr flags s"

definition unmap_page :: "u64 \<Rightarrow> 'a paging_state_scheme \<Rightarrow> bool \<times> 'a paging_state_scheme" where
  "unmap_page virt_addr s =
     (if virt_addr mod 4096 \<noteq> 0 then (False, s)
      else
        let i4 = pml4_index virt_addr; i3 = pdpt_index virt_addr;
            i2 = pd_index virt_addr; i1 = pt_index virt_addr;
            pml4 = cr3 s AND ADDR_MASK in
        if \<not> has_flag (ptab s pml4 i4) PAGE_PRESENT then (False, s)
        else
          let pdpt = ptab s pml4 i4 AND ADDR_MASK in
          if \<not> has_flag (ptab s pdpt i3) PAGE_PRESENT \<or> is_huge (ptab s pdpt i3) then (False, s)
          else
            let pd = ptab s pdpt i3 AND ADDR_MASK in
            if \<not> has_flag (ptab s pd i2) PAGE_PRESENT \<or> is_huge (ptab s pd i2) then (False, s)
            else
              let pt = ptab s pd i2 AND ADDR_MASK in
              if \<not> has_flag (ptab s pt i1) PAGE_PRESENT then (False, s)
              else
                let s = invalidate_page virt_addr (pt_set pt i1 0 s) in
                if is_table_empty (ptab s pt) then
                  let s = free_frame pt (pt_set pd i2 0 s) in
                  if is_table_empty (ptab s pd) then
                    let s = free_frame pd (pt_set pdpt i3 0 s) in
                    if is_table_empty (ptab s pdpt) then
                      (True, free_frame pdpt (pt_set pml4 i4 0 s))
                    else (True, s)
                  else (True, s)
                else (True, s))"

definition protect_page :: "u64 \<Rightarrow> u64 \<Rightarrow> 'a paging_state_scheme \<Rightarrow> bool \<times> 'a paging_state_scheme" where
  "protect_page virt_addr new_flags s =
     (if virt_addr mod 4096 \<noteq> 0 then (False, s)
      else
        let i4 = pml4_index virt_addr; i3 = pdpt_index virt_addr;
            i2 = pd_index virt_addr; i1 = pt_index virt_addr;
            pml4 = cr3 s AND ADDR_MASK in
        if \<not> has_flag (ptab s pml4 i4) PAGE_PRESENT then (False, s)
        else
          let pdpt = ptab s pml4 i4 AND ADDR_MASK in
          if \<not> has_flag (ptab s pdpt i3) PAGE_PRESENT \<or> is_huge (ptab s pdpt i3) then (False, s)
          else
            let pd = ptab s pdpt i3 AND ADDR_MASK in
            if \<not> has_flag (ptab s pd i2) PAGE_PRESENT \<or> is_huge (ptab s pd i2) then (False, s)
            else
              let pt = ptab s pd i2 AND ADDR_MASK in
              if \<not> has_flag (ptab s pt i1) PAGE_PRESENT then (False, s)
              else
                let phys = ptab s pt i1 AND ADDR_MASK in
                (True, invalidate_page virt_addr
                   (pt_set pt i1 (phys OR (new_flags AND NOT ADDR_MASK) OR PAGE_PRESENT) s)))"

section \<open>Address spaces\<close>

definition create_address_space :: "'a paging_state_scheme \<Rightarrow> u64 \<times> 'a paging_state_scheme" where
  "create_address_space s =
     (let kernel_pml4 = cr3 s AND ADDR_MASK in
      if \<not> has_flag (ptab s kernel_pml4 0) PAGE_PRESENT then (0, s)
      else
        let kernel_pdpt = ptab s kernel_pml4 0 AND ADDR_MASK;
            kernel_space_pdpt_entry = ptab s kernel_pdpt 0 in
        case alloc_frame s of (new_pml4_frame, s) \<Rightarrow>
        if new_pml4_frame = 0 then (0, s)
        else
          case alloc_frame s of (new_pdpt_frame, s) \<Rightarrow>
          if new_pdpt_frame = 0 then (0, free_frame new_pml4_frame s)
          else
            let s = fold (\<lambda>i s. pt_set new_pdpt_frame i 0 (pt_set new_pml4_frame i 0 s)) [0..<512] s;
                s = pt_set new_pdpt_frame 0 kernel_space_pdpt_entry s;
                s = pt_set new_pml4_frame 0 (new_pdpt_frame OR PAGE_PRESENT OR PAGE_WRITABLE) s
            in (new_pml4_frame, s))"

text \<open>The three nested loops of \<open>destroy_address_space\<close>, innermost first.\<close>

definition destroy_pt :: "u64 \<Rightarrow> 'a paging_state_scheme \<Rightarrow> 'a paging_state_scheme" where
  "destroy_pt pt s =
     fold (\<lambda>i s. if has_flag (ptab s pt i) PAGE_PRESENT \<and> has_flag (ptab s pt i) PAGE_OWNED
                 then free_frame (ptab s pt i AND ADDR_MASK) s else s) [0..<512] s"

definition destroy_pd :: "u64 \<Rightarrow> 'a paging_state_scheme \<Rightarrow> 'a paging_state_scheme" where
  "destroy_pd pd s =
     fold (\<lambda>i s. if \<not> has_flag (ptab s pd i) PAGE_PRESENT \<or> is_huge (ptab s pd i) then s
                 else free_frame (ptab s pd i AND ADDR_MASK) (destroy_pt (ptab s pd i AND ADDR_MASK) s))
          [0..<512] s"

definition destroy_pdpt :: "u64 \<Rightarrow> 'a paging_state_scheme \<Rightarrow> 'a paging_state_scheme" where
  "destroy_pdpt pdpt s =
     fold (\<lambda>i s. if \<not> has_flag (ptab s pdpt i) PAGE_PRESENT \<or> is_huge (ptab s pdpt i) then s
                 else free_frame (ptab s pdpt i AND ADDR_MASK) (destroy_pd (ptab s pdpt i AND ADDR_MASK) s))
          [1..<512] s"

definition destroy_address_space :: "u64 \<Rightarrow> 'a paging_state_scheme \<Rightarrow> 'a paging_state_scheme" where
  "destroy_address_space pml4_phys s =
     (if \<not> has_flag (ptab s pml4_phys 0) PAGE_PRESENT then free_frame pml4_phys s
      else
        let s = destroy_pdpt (ptab s pml4_phys 0 AND ADDR_MASK) s
        in free_frame pml4_phys (free_frame (ptab s pml4_phys 0 AND ADDR_MASK) s))"

section \<open>Write-xor-execute\<close>

text \<open>The linker symbols that end the kernel's code and read-only data are arguments.\<close>

definition kernel_page_flags :: "u64 \<Rightarrow> u64 \<Rightarrow> u64 \<Rightarrow> u64" where
  "kernel_page_flags text_end rodata_end addr =
     (if addr \<ge> 0x100000 \<and> addr < text_end then PAGE_PRESENT
      else if addr \<ge> text_end \<and> addr < rodata_end then PAGE_PRESENT OR PAGE_NX
      else PAGE_PRESENT OR PAGE_WRITABLE OR PAGE_NX)"

definition protect_kernel_image :: "u64 \<Rightarrow> u64 \<Rightarrow> 'a paging_state_scheme \<Rightarrow> bool \<times> 'a paging_state_scheme" where
  "protect_kernel_image text_end rodata_end s =
     (let pml4 = cr3 s AND ADDR_MASK in
      if \<not> has_flag (ptab s pml4 0) PAGE_PRESENT then (False, s)
      else
        let pdpt = ptab s pml4 0 AND ADDR_MASK in
        if \<not> has_flag (ptab s pdpt 0) PAGE_PRESENT \<or> is_huge (ptab s pdpt 0) then (False, s)
        else
          let pd = ptab s pdpt 0 AND ADDR_MASK in
          if \<not> is_huge (ptab s pd 0) then (False, s)
          else if text_end \<le> 0x100000 \<or> rodata_end < text_end \<or> rodata_end > 0x200000 then (False, s)
          else
            case alloc_frame s of (frame, s) \<Rightarrow>
            if frame = 0 then (False, s)
            else
              let s = fold (\<lambda>i s. let addr = of_nat i * 4096
                                 in pt_set frame i (addr OR kernel_page_flags text_end rodata_end addr) s)
                        [0..<512] s;
                  s = pt_set pd 0 (frame OR PAGE_PRESENT OR PAGE_WRITABLE) s
              in (True, s\<lparr>tlb_log := Flush # tlb_log s, cr0 := cr0 s OR 0x10000\<rparr>))"

definition nx_enabled :: "'a paging_state_scheme \<Rightarrow> bool" where
  "nx_enabled s \<longleftrightarrow> efer s AND 0x800 \<noteq> 0"

definition wx_entry :: "u64 \<Rightarrow> bool" where
  "wx_entry e \<longleftrightarrow> has_flag e PAGE_WRITABLE \<and> \<not> has_flag e PAGE_NX"

text \<open>The loops of \<open>count_wx_pages\<close>, innermost first; the count is threaded through them.\<close>

definition count_wx_pt :: "(nat \<Rightarrow> u64) \<Rightarrow> u64 \<Rightarrow> u64" where
  "count_wx_pt pt violations =
     fold (\<lambda>d v. if \<not> has_flag (pt d) PAGE_PRESENT then v
                 else if wx_entry (pt d) then v + 1 else v) [0..<512] violations"

definition count_wx_pd :: "(u64 \<Rightarrow> nat \<Rightarrow> u64) \<Rightarrow> (nat \<Rightarrow> u64) \<Rightarrow> u64 \<Rightarrow> u64" where
  "count_wx_pd m pd violations =
     fold (\<lambda>c v. if \<not> has_flag (pd c) PAGE_PRESENT then v
                 else if is_huge (pd c) then (if wx_entry (pd c) then v + 1 else v)
                 else count_wx_pt (m (pd c AND ADDR_MASK)) v) [0..<512] violations"

definition count_wx_pdpt :: "(u64 \<Rightarrow> nat \<Rightarrow> u64) \<Rightarrow> nat \<Rightarrow> (nat \<Rightarrow> u64) \<Rightarrow> u64 \<Rightarrow> u64" where
  "count_wx_pdpt m a pdpt violations =
     fold (\<lambda>b v. if \<not> has_flag (pdpt b) PAGE_PRESENT then v
                 else if is_huge (pdpt b) then (if wx_entry (pdpt b) then v + 1 else v)
                 else count_wx_pd m (m (pdpt b AND ADDR_MASK)) v)
          [(if a = 0 then 1 else 0)..<512] violations"

definition count_wx_pages :: "u64 \<Rightarrow> 'a paging_state_scheme \<Rightarrow> u64" where
  "count_wx_pages pml4_phys s =
     (let m = ptab s; pml4 = m pml4_phys in
      fold (\<lambda>a v. if \<not> has_flag (pml4 a) PAGE_PRESENT then v
                  else count_wx_pdpt m a (m (pml4 a AND ADDR_MASK)) v) [0..<512] 0)"

end
