(* ===== verification/Paging_Map.thy ===== *)
theory Paging_Map
  imports Paging "HOL-Library.Sublist"
begin

text \<open>
  Correctness of the page-table walks: the tables reachable from a root form a tree of distinct
  frames that the frame allocator has handed out, every operation keeps it a tree, and a mapping
  operation changes the leaf entry of the page it names and of no other page.
\<close>

section \<open>Walks\<close>

definition node_ok :: "u64 \<Rightarrow> bool" where
  "node_ok e \<longleftrightarrow> has_flag e PAGE_PRESENT \<and> \<not> has_flag e PAGE_HUGE"

fun walk :: "(u64 \<Rightarrow> nat \<Rightarrow> u64) \<Rightarrow> u64 \<Rightarrow> nat list \<Rightarrow> u64 option" where
  "walk m a [] = Some a"
| "walk m a (i # is) = (if node_ok (m a i) then walk m (m a i AND ADDR_MASK) is else None)"

lemma walk_snoc:
  "walk m a (p @ [i]) =
     (case walk m a p of None \<Rightarrow> None
      | Some c \<Rightarrow> if node_ok (m c i) then Some (m c i AND ADDR_MASK) else None)"
  by (induction p arbitrary: a) auto

definition path :: "nat list \<Rightarrow> bool" where
  "path p \<longleftrightarrow> length p \<le> 3 \<and> (\<forall>i\<in>set p. i < 512)"

text \<open>The tables below a root are distinct frames in use, and no entry of the root is a huge page.\<close>

definition table_tree :: "'a paging_state_scheme \<Rightarrow> u64 \<Rightarrow> bool" where
  "table_tree s root \<longleftrightarrow>
     (\<forall>p q a. path p \<and> path q \<and> walk (ptab s) root p = Some a \<and> walk (ptab s) root q = Some a \<longrightarrow> p = q) \<and>
     (\<forall>p a. path p \<and> walk (ptab s) root p = Some a \<longrightarrow> a \<noteq> 0 \<and> a \<notin> pmm_avail s) \<and>
     (\<forall>i<512. \<not> is_huge (ptab s root i)) \<and> pmm_ok s"

definition leaf :: "'a paging_state_scheme \<Rightarrow> u64 \<Rightarrow> u64 \<Rightarrow> u64 option" where
  "leaf s root v =
     (case walk (ptab s) root [pml4_index v, pdpt_index v, pd_index v] of
        None \<Rightarrow> None
      | Some pt \<Rightarrow> if has_flag (ptab s pt (pt_index v)) PAGE_PRESENT then Some (ptab s pt (pt_index v)) else None)"

text \<open>The same by path: the present entry at an index of the table that a path of length three reaches.\<close>

definition page_at :: "'a paging_state_scheme \<Rightarrow> u64 \<Rightarrow> nat list \<Rightarrow> nat \<Rightarrow> u64 option" where
  "page_at s root q j =
     (case walk (ptab s) root q of
        None \<Rightarrow> None
      | Some pt \<Rightarrow> if has_flag (ptab s pt j) PAGE_PRESENT then Some (ptab s pt j) else None)"

definition page_path :: "u64 \<Rightarrow> nat list" where
  "page_path v = [pml4_index v, pdpt_index v, pd_index v]"

lemma leaf_page_at: "leaf s root v = page_at s root (page_path v) (pt_index v)"
  by (simp add: leaf_def page_at_def page_path_def)

section \<open>Entries\<close>

lemmas page_flags = PAGE_PRESENT_def PAGE_WRITABLE_def PAGE_USER_def PAGE_HUGE_def PAGE_OWNED_def PAGE_NX_def

lemma index_less [simp]: "pml4_index v < 512" "pdpt_index v < 512" "pd_index v < 512" "pt_index v < 512"
proof -
  have "unat (x AND 0x1FF) < 512" for x :: u64
  proof -
    have "x AND 0x1FF \<le> 0x1FF" by (rule word_and_le1)
    then show ?thesis by (simp add: word_le_nat_alt)
  qed
  then show "pml4_index v < 512" "pdpt_index v < 512" "pd_index v < 512" "pt_index v < 512"
    by (simp_all add: pml4_index_def pdpt_index_def pd_index_def pt_index_def)
qed

lemma has_flag_bit: "has_flag e (push_bit n 1) = bit e n"
  by (simp add: has_flag_def bit_iff_and_push_bit_not_eq_0)

lemma flag_bits:
  "has_flag e PAGE_PRESENT = bit e 0" "has_flag e PAGE_WRITABLE = bit e 1" "has_flag e PAGE_USER = bit e 2"
  "has_flag e PAGE_HUGE = bit e 7" "has_flag e PAGE_OWNED = bit e 9" "has_flag e PAGE_NX = bit e 63"
  using has_flag_bit [of e 0] has_flag_bit [of e 1] has_flag_bit [of e 2] has_flag_bit [of e 7]
    has_flag_bit [of e 9] has_flag_bit [of e 63] by (simp_all add: page_flags push_bit_eq_mult)

lemma addr_mask_bits: "bit ADDR_MASK n \<longleftrightarrow> 12 \<le> n \<and> n < 52"
proof -
  have m: "ADDR_MASK = push_bit 12 (mask 40)" by (simp add: ADDR_MASK_def mask_eq_exp_minus_1 push_bit_eq_mult)
  show ?thesis unfolding m by (auto simp: bit_simps)
qed

lemma flag_const_bits:
  "bit PAGE_PRESENT n = (n = 0)" "bit PAGE_WRITABLE n = (n = 1)" "bit PAGE_USER n = (n = 2)"
  "bit PAGE_HUGE n = (n = 7)" "bit PAGE_OWNED n = (n = 9)" "bit PAGE_NX n = (n = 63)"
proof -
  have b: "bit (push_bit k (1 :: u64)) n = (n = k)" if "k < 64" for k
    using that by (auto simp: bit_simps)
  have c: "PAGE_PRESENT = push_bit 0 1" "PAGE_WRITABLE = push_bit 1 1" "PAGE_USER = push_bit 2 1"
    "PAGE_HUGE = push_bit 7 1" "PAGE_OWNED = push_bit 9 1" "PAGE_NX = push_bit 63 1"
    by (simp_all add: page_flags push_bit_eq_mult)
  show "bit PAGE_PRESENT n = (n = 0)" "bit PAGE_WRITABLE n = (n = 1)" "bit PAGE_USER n = (n = 2)"
    "bit PAGE_HUGE n = (n = 7)" "bit PAGE_OWNED n = (n = 9)" "bit PAGE_NX n = (n = 63)"
    unfolding c by (rule b, simp)+
qed

lemmas entry_bits = flag_bits addr_mask_bits flag_const_bits bit_and_iff bit_or_iff bit_not_iff

lemma frame_bits:
  assumes "f < 262144"
  shows "frame_addr f AND ADDR_MASK = frame_addr f" and "n < 12 \<or> 52 \<le> n \<Longrightarrow> \<not> bit (frame_addr f) n"
proof -
  have e: "frame_addr f = push_bit 12 (of_nat f)" by (simp add: frame_addr_def FRAME_SIZE_def push_bit_eq_mult)
  have "\<not> bit (frame_addr f) k" if "30 \<le> k" for k
  proof -
    have "unat (frame_addr f) < 2 ^ 30" using unat_frame_addr [OF assms] assms by simp
    also have "\<dots> \<le> (2 :: nat) ^ k" using that by (rule power_increasing) simp
    finally have "unat (frame_addr f) < 2 ^ k" .
    then have "\<not> bit (unat (frame_addr f)) k" by (metis bit_take_bit_iff less_irrefl take_bit_nat_eq_self)
    then show ?thesis by (simp add: bit_unsigned_iff)
  qed
  then have no: "\<not> bit (frame_addr f) k" if "k < 12 \<or> 52 \<le> k" for k
    using that by (auto simp: e bit_simps)
  show "frame_addr f AND ADDR_MASK = frame_addr f"
  proof (rule bit_eqI)
    fix k
    show "bit (frame_addr f AND ADDR_MASK) k = bit (frame_addr f) k"
      unfolding bit_and_iff addr_mask_bits using no [of k] by linarith
  qed
  show "n < 12 \<or> 52 \<le> n \<Longrightarrow> \<not> bit (frame_addr f) n" using no by blast
qed

text \<open>The two entries that \<open>get_or_create_table\<close> writes.\<close>

definition extra_of :: "u64 \<Rightarrow> u64" where
  "extra_of flags = flags AND NOT ADDR_MASK AND NOT PAGE_HUGE AND NOT PAGE_NX"

lemma upgraded_entry:
  "(e OR (PAGE_WRITABLE OR extra_of flags)) AND ADDR_MASK = e AND ADDR_MASK"
  "has_flag e PAGE_PRESENT \<Longrightarrow> node_ok (e OR (PAGE_WRITABLE OR extra_of flags)) = node_ok e"
  "has_flag e PAGE_PRESENT \<Longrightarrow> is_huge (e OR (PAGE_WRITABLE OR extra_of flags)) = is_huge e"
  by (auto intro!: bit_eqI simp: entry_bits extra_of_def node_ok_def is_huge_def)

lemma fresh_entry:
  assumes "f < 262144"
  shows "(frame_addr f OR PAGE_PRESENT OR PAGE_WRITABLE OR extra_of flags) AND ADDR_MASK = frame_addr f"
    "node_ok (frame_addr f OR PAGE_PRESENT OR PAGE_WRITABLE OR extra_of flags)"
    "\<not> is_huge (frame_addr f OR PAGE_PRESENT OR PAGE_WRITABLE OR extra_of flags)"
proof -
  have "(frame_addr f OR PAGE_PRESENT OR PAGE_WRITABLE OR extra_of flags) AND ADDR_MASK = frame_addr f AND ADDR_MASK"
    by (auto intro!: bit_eqI simp: entry_bits extra_of_def)
  then show "(frame_addr f OR PAGE_PRESENT OR PAGE_WRITABLE OR extra_of flags) AND ADDR_MASK = frame_addr f"
    using frame_bits(1) [OF assms] by simp
  show "node_ok (frame_addr f OR PAGE_PRESENT OR PAGE_WRITABLE OR extra_of flags)"
    "\<not> is_huge (frame_addr f OR PAGE_PRESENT OR PAGE_WRITABLE OR extra_of flags)"
    using frame_bits(2) [OF assms, of 7] by (auto simp: entry_bits extra_of_def node_ok_def is_huge_def)
qed

section \<open>Fetching a table\<close>

lemma clear_table_ptab:
  "ptab (clear_table t s) = (ptab s)(t := (\<lambda>i. if i < 512 then 0 else ptab s t i))"
proof -
  have "ptab (fold (\<lambda>i. pt_set t i 0) [0..<n] s) = (ptab s)(t := (\<lambda>i. if i < n then 0 else ptab s t i))" for n
    by (induction n) (auto simp: fun_eq_iff less_Suc_eq)
  then show ?thesis by (simp add: clear_table_def)
qed

lemma clear_table_pmm [simp]: "free_set (clear_table t s) = free_set s" "pmm_ok (clear_table t s) = pmm_ok s"
  "pmm_avail (clear_table t s) = pmm_avail s"
proof -
  have "pmm_bitmap (fold (\<lambda>i. pt_set t i 0) xs s) = pmm_bitmap s \<and>
    free_count (fold (\<lambda>i. pt_set t i 0) xs s) = free_count s" for xs
    by (induction xs arbitrary: s) auto
  then show "free_set (clear_table t s) = free_set s" "pmm_ok (clear_table t s) = pmm_ok s"
    "pmm_avail (clear_table t s) = pmm_avail s"
    by (simp_all add: free_set_def pmm_ok_def pmm_inv_def pmm_avail_def clear_table_def)
qed

lemma clear_table_cr3: "cr3 (clear_table t s) = cr3 s"
proof -
  have "cr3 (fold (\<lambda>i. pt_set t i 0) xs s) = cr3 s" for xs by (induction xs arbitrary: s) auto
  then show ?thesis by (simp add: clear_table_def)
qed

lemma pt_set_pmm [simp]: "free_set (s\<lparr>ptab := m\<rparr>) = free_set s" "pmm_ok (s\<lparr>ptab := m\<rparr>) = pmm_ok s"
  "pmm_avail (s\<lparr>ptab := m\<rparr>) = pmm_avail s"
  by (simp_all add: free_set_def pmm_ok_def pmm_inv_def pmm_avail_def)

text \<open>An entry that keeps its target and its kind does not change any walk.\<close>

lemma walk_same_target:
  assumes "node_ok e = node_ok (m a i)" "e AND ADDR_MASK = m a i AND ADDR_MASK"
  shows "walk (m(a := (m a)(i := e))) r p = walk m r p"
  using assms by (induction p arbitrary: r) auto

text \<open>A fresh table linked into a tree is seen by the walks through its entry and by no other.\<close>

lemma walk_linked:
  assumes tree: "\<forall>p q c. path p \<and> path q \<and> walk m r p = Some c \<and> walk m r q = Some c \<longrightarrow> p = q"
    and at: "walk m r p = Some a" "path p" "\<not> node_ok (m a i)"
    and fresh: "\<forall>q. path q \<longrightarrow> walk m r q \<noteq> Some b"
    and m': "m' = m(b := z, a := (m a)(i := e))" "node_ok e" "e AND ADDR_MASK = b"
    and z: "\<forall>j<512. z j = 0" and ab: "a \<noteq> b"
  shows "path q \<Longrightarrow> walk m' r q = (if q = p @ [i] then Some b else walk m r q)"
proof (induction q rule: rev_induct)
  case Nil
  then show ?case by simp
next
  case (snoc j q)
  have pq: "path q" "j < 512" using snoc.prems by (auto simp: path_def)
  have none: "walk m r (p @ [i]) = None" using at by (simp add: walk_snoc)
  have z0: "\<not> node_ok (z j)" using z pq(2) by (simp add: node_ok_def has_flag_def)
  show ?case
  proof (cases "q = p @ [i]")
    case True
    then have "walk m' r q = Some b" using snoc.IH pq by simp
    moreover have "m' b j = z j" using m'(1) ab by simp
    moreover have "walk m r (q @ [j]) = None" unfolding walk_snoc [of m r q] using none True by simp
    ultimately show ?thesis unfolding walk_snoc [of m' r q] using z0 True by simp
  next
    case False
    then have w: "walk m' r q = walk m r q" using snoc.IH pq by simp
    show ?thesis
    proof (cases "walk m r q")
      case None
      then show ?thesis using w at by (auto simp: walk_snoc)
    next
      case (Some c)
      have "c \<noteq> b" using fresh pq Some by blast
      then have "m' c j = (if c = a \<and> j = i then e else m c j)" using m'(1) by auto
      moreover have "c = a \<longleftrightarrow> q = p" using tree at(1,2) pq(1) Some by auto
      ultimately show ?thesis using w Some m'(2,3) at by (auto simp: walk_snoc)
    qed
  qed
qed

text \<open>What a step that only adds tables keeps.\<close>

definition same_pages :: "'a paging_state_scheme \<Rightarrow> u64 \<Rightarrow> 'a paging_state_scheme \<Rightarrow> bool" where
  "same_pages s root s' \<longleftrightarrow> table_tree s' root \<and> cr3 s' = cr3 s \<and>
     (\<forall>q j. path q \<and> length q = 3 \<and> j < 512 \<longrightarrow> page_at s' root q j = page_at s root q j)"

lemma table_treeD:
  assumes "table_tree s root"
  shows "\<forall>p q a. path p \<and> path q \<and> walk (ptab s) root p = Some a \<and> walk (ptab s) root q = Some a \<longrightarrow> p = q"
    "path p \<Longrightarrow> walk (ptab s) root p = Some a \<Longrightarrow> a \<noteq> 0 \<and> a \<notin> pmm_avail s"
    "i < 512 \<Longrightarrow> \<not> is_huge (ptab s root i)" "pmm_ok s"
  using assms unfolding table_tree_def by blast+

lemma tree_unique:
  "table_tree s root \<Longrightarrow> path p \<Longrightarrow> path q \<Longrightarrow> walk (ptab s) root p = Some a \<Longrightarrow> walk (ptab s) root q = Some a \<Longrightarrow> p = q"
  using table_treeD(1) by blast

text \<open>A table present already: its entry gains flags, nothing moves.\<close>

lemma upgrade_step:
  assumes "table_tree s root" "path p" "length p \<le> 2" "walk (ptab s) root p = Some a" "i < 512"
    and "has_flag (ptab s a i) PAGE_PRESENT" "\<not> is_huge (ptab s a i)"
    and "e = ptab s a i OR (PAGE_WRITABLE OR extra_of flags)"
  shows "same_pages s root (pt_set a i e s) \<and> walk (ptab (pt_set a i e s)) root (p @ [i]) = Some (e AND ADDR_MASK) \<and>
    e AND ADDR_MASK \<noteq> 0"
proof -
  note up = upgraded_entry [of "ptab s a i" flags, folded assms(8)]
  have w: "walk (ptab (pt_set a i e s)) root q = walk (ptab s) root q" for q
    using walk_same_target [of e "ptab s" a i] up(1,2) assms(6) by simp
  have ok: "node_ok (ptab s a i)" using assms(6,7) by (simp add: node_ok_def is_huge_def)
  then have wp: "walk (ptab s) root (p @ [i]) = Some (e AND ADDR_MASK)" using assms(4) up(1) by (simp add: walk_snoc)
  have pp: "path (p @ [i])" using assms(2,3,5) by (auto simp: path_def)
  have huge: "is_huge (ptab (pt_set a i e s) root k) = is_huge (ptab s root k)" for k using up(3) assms(6) by auto
  have t: "table_tree (pt_set a i e s) root"
    using assms(1) unfolding table_tree_def w huge by simp
  have "page_at (pt_set a i e s) root q j = page_at s root q j" if "path q" "length q = 3" for q j
  proof (cases "walk (ptab s) root q")
    case (Some c)
    then have "c \<noteq> a" using tree_unique [OF assms(1) that(1) assms(2), of c] assms(3,4) that(2) by auto
    then show ?thesis unfolding page_at_def w Some by simp
  next
    case None
    then show ?thesis unfolding page_at_def w by simp
  qed
  then show ?thesis using t w wp table_treeD(2) [OF assms(1) pp wp] by (simp add: same_pages_def)
qed

text \<open>A new table: a frame is taken, cleared and linked.\<close>

lemma link_step:
  assumes tree: "table_tree s root" and at: "path p" "length p \<le> 2" "walk (ptab s) root p = Some a" "i < 512"
    and abs: "\<not> has_flag (ptab s a i) PAGE_PRESENT"
    and f: "f \<in> free_set s" "b = frame_addr f"
    and e: "e = b OR PAGE_PRESENT OR PAGE_WRITABLE OR extra_of flags"
    and s': "ptab s' = (ptab s)(b := z, a := (ptab s a)(i := e))" "\<forall>j<512. z j = 0"
      "free_set s' = free_set s - {f}" "pmm_ok s'" "cr3 s' = cr3 s"
  shows "same_pages s root s' \<and> walk (ptab s') root (p @ [i]) = Some b \<and> b \<noteq> 0"
proof -
  have fb: "f < 262144" using f(1) by (rule free_set_bound)
  have b: "b \<in> pmm_avail s" "unat b = f * 4096" "f \<noteq> 0"
    using f unat_frame_addr [OF fb] table_treeD(4) [OF tree] by (auto simp: pmm_avail_def pmm_ok_def intro!: gr0I)
  have fresh: "\<forall>q. path q \<longrightarrow> walk (ptab s) root q \<noteq> Some b" using table_treeD(2) [OF tree] b(1) by blast
  then have ab: "a \<noteq> b" using at by auto
  note fe = fresh_entry [OF fb, of flags, folded f(2), folded e]
  have na: "\<not> node_ok (ptab s a i)" using abs by (simp add: node_ok_def)
  have w: "walk (ptab s') root q = (if q = p @ [i] then Some b else walk (ptab s) root q)" if "path q" for q
    using walk_linked [OF table_treeD(1) [OF tree] at(3,1) na fresh s'(1) fe(2,1) s'(2) ab that] .
  have pp: "path (p @ [i])" using at by (auto simp: path_def)
  have "unat b div 4096 = f" using b(2) by simp
  then have av: "b \<notin> pmm_avail s'" using s'(3) by (simp add: pmm_avail_iff)
  have sub: "pmm_avail s' \<subseteq> pmm_avail s" using s'(3) by (auto simp: pmm_avail_def)
  have b0: "b \<noteq> 0" using b(2,3) by auto
  have "table_tree s' root" unfolding table_tree_def
  proof (intro conjI allI impI; (elim conjE)?)
    fix q r c assume "path q" "path r" "walk (ptab s') root q = Some c" "walk (ptab s') root r = Some c"
    then show "q = r" using w fresh tree_unique [OF tree] by (metis option.inject)
  next
    fix q c assume "path q" "walk (ptab s') root q = Some c"
    then show "c \<noteq> 0" "c \<notin> pmm_avail s'" using w table_treeD(2) [OF tree] b0 av sub by (metis option.inject subsetD)+
  next
    fix k :: nat assume "k < 512"
    moreover have "root \<noteq> b" using fresh by (metis walk.simps(1) empty_iff list.set(1) list.size(3) path_def zero_le)
    ultimately show "\<not> is_huge (ptab s' root k)" using table_treeD(3) [OF tree] fe(3) s'(1) by auto
  qed (rule s'(4))
  moreover have "page_at s' root q j = page_at s root q j" if q: "path q" "length q = 3" "j < 512" for q j
  proof (cases "q = p @ [i]")
    case True
    then have "walk (ptab s') root q = Some b" "walk (ptab s) root q = None" using w [OF q(1)] at na by (simp_all add: walk_snoc)
    moreover have "ptab s' b j = 0" using s'(1,2) ab q(3) by simp
    ultimately show ?thesis by (simp add: page_at_def has_flag_def)
  next
    case False
    then have ww: "walk (ptab s') root q = walk (ptab s) root q" using w [OF q(1)] by simp
    show ?thesis
    proof (cases "walk (ptab s) root q")
      case (Some c)
      then have "c \<noteq> a" "c \<noteq> b" using tree_unique [OF tree q(1) at(1), of c] at(2,3) q fresh by auto
      then show ?thesis unfolding page_at_def ww Some using s'(1) by simp
    qed (simp add: page_at_def ww)
  qed
  ultimately show ?thesis using w [OF pp] b0 s'(5) by (simp add: same_pages_def)
qed

lemma get_table:
  assumes "table_tree s root" "path p" "length p \<le> 2" "walk (ptab s) root p = Some a" "i < 512"
    and "\<not> is_huge (ptab s a i)" "get_or_create_table a i flags s = (b, s')"
  shows "same_pages s root s' \<and> (if b = 0 then free_set s = {} else walk (ptab s') root (p @ [i]) = Some b)"
proof (cases "has_flag (ptab s a i) PAGE_PRESENT")
  case True
  then show ?thesis using upgrade_step [OF assms(1-5) True assms(6), of _ flags] assms(7)
    by (auto simp: get_or_create_table_def Let_def extra_of_def)
next
  case absent: False
  show ?thesis
  proof (cases "free_set s = {}")
    case True
    then have "b = 0" "s' = s"
      using absent assms(7) by (auto simp: get_or_create_table_def Let_def alloc_frame_spec)
    then show ?thesis using True assms(1) by (simp add: same_pages_def)
  next
    case False
    let ?f = "Min (free_set s)"
    obtain bm c where al: "alloc_frame s = (frame_addr ?f, s\<lparr>pmm_bitmap := bm, free_count := c\<rparr>)"
      "free_set (s\<lparr>pmm_bitmap := bm, free_count := c\<rparr>) = free_set s - {?f}"
      "pmm_ok (s\<lparr>pmm_bitmap := bm, free_count := c\<rparr>)" "frame_addr ?f \<noteq> 0"
      using alloc_frame_take [OF False table_treeD(4) [OF assms(1)]] by blast
    let ?s = "clear_table (frame_addr ?f) (s\<lparr>pmm_bitmap := bm, free_count := c\<rparr>)"
    let ?e = "frame_addr ?f OR PAGE_PRESENT OR PAGE_WRITABLE OR extra_of flags"
    have r: "b = frame_addr ?f" "s' = pt_set a i ?e ?s"
      using assms(7) absent al(1,4) by (auto simp: get_or_create_table_def Let_def extra_of_def)
    have fin: "?f \<in> free_set s" using False by simp
    have "a \<noteq> b" using table_treeD(2) [OF assms(1,2,4)] fin unfolding r(1) by (auto simp: pmm_avail_def)
    have "same_pages s root s' \<and> walk (ptab s') root (p @ [i]) = Some b \<and> b \<noteq> 0"
    proof (rule link_step [OF assms(1-5) absent fin r(1) refl])
      show "ptab s' = (ptab s)(b := (\<lambda>j. if j < 512 then 0 else ptab s b j),
          a := (ptab s a)(i := b OR PAGE_PRESENT OR PAGE_WRITABLE OR extra_of flags))"
        using \<open>a \<noteq> b\<close> unfolding r by (simp add: clear_table_ptab cong: if_cong)
    qed (use al r in \<open>simp_all add: clear_table_cr3\<close>)
    then show ?thesis by simp
  qed
qed

section \<open>Changing a leaf\<close>

lemma walk_leaf_set:
  assumes "table_tree s root" "path q" "length q = 3" "walk (ptab s) root q = Some pt"
  shows "path r \<Longrightarrow> walk ((ptab s)(pt := t)) root r = walk (ptab s) root r"
proof (induction r rule: rev_induct)
  case (snoc i r)
  have r: "path r" "length r \<le> 2" using snoc.prems by (auto simp: path_def)
  have "c \<noteq> pt" if "walk (ptab s) root r = Some c" for c
    using tree_unique [OF assms(1) r(1) assms(2) that] assms(3,4) r(2) by auto
  then show ?case using snoc.IH [OF r(1)] by (auto simp: walk_snoc split: option.split)
qed simp

lemma leaf_set_step:
  assumes "table_tree s root" "path q" "length q = 3" "walk (ptab s) root q = Some pt"
    and "ptab s' = (ptab s)(pt := (ptab s pt)(j := e))" "free_set s' = free_set s" "pmm_ok s'"
  shows "table_tree s' root \<and>
    (\<forall>r k. path r \<and> length r = 3 \<longrightarrow> page_at s' root r k =
       (if r = q \<and> k = j then if has_flag e PAGE_PRESENT then Some e else None else page_at s root r k))"
proof -
  have w: "walk (ptab s') root r = walk (ptab s) root r" if "path r" for r
    unfolding assms(5) by (rule walk_leaf_set [OF assms(1-4) that])
  have av: "pmm_avail s' = pmm_avail s" using assms(6) by (simp add: pmm_avail_def)
  have "root \<noteq> pt" using tree_unique [OF assms(1), of "[]" q root] assms(2-4) by (auto simp: path_def)
  then have "ptab s' root = ptab s root" using assms(5) by simp
  then have "table_tree s' root" unfolding table_tree_def av
    using table_treeD [OF assms(1)] w assms(7) by (intro conjI) (metis, metis, metis, metis)
  moreover have "page_at s' root r k =
       (if r = q \<and> k = j then if has_flag e PAGE_PRESENT then Some e else None else page_at s root r k)"
    if r: "path r" "length r = 3" for r k
  proof (cases "walk (ptab s) root r")
    case (Some c)
    then have "c = pt \<longleftrightarrow> r = q" using tree_unique [OF assms(1) r(1) assms(2)] assms(4) by auto
    then show ?thesis unfolding page_at_def w [OF r(1)] Some using assms(5) by auto
  next
    case None
    then show ?thesis unfolding page_at_def w [OF r(1)] using assms(4) by auto
  qed
  ultimately show ?thesis by blast
qed

lemma same_pages_trans:
  "same_pages s root s' \<Longrightarrow> same_pages s' root s'' \<Longrightarrow> same_pages s root s''"
  by (simp add: same_pages_def)

lemma page_path_path [simp]: "path (page_path v)" "length (page_path v) = 3"
  by (simp_all add: path_def page_path_def)

lemma tree_root: "table_tree s root \<Longrightarrow> path [] \<and> walk (ptab s) root [] = Some root"
  by (simp add: path_def)

section \<open>Mapping\<close>

text \<open>Mapping a page, without the guard on alignment: the three table fetches and the leaf.\<close>

lemma map_page_in_steps:
  assumes "table_tree s root" "virt mod 4096 = 0" "phys mod 4096 = 0" "map_page_in root virt phys flags s = (ok, s')"
  shows "if ok then \<exists>s3 pt. same_pages s root s3 \<and> walk (ptab s3) root (page_path virt) = Some pt \<and>
      ptab s' = (ptab s3)(pt := (ptab s3 pt)(pt_index virt := (phys AND ADDR_MASK) OR (flags OR PAGE_PRESENT))) \<and>
      free_set s' = free_set s3 \<and> pmm_ok s' \<and> cr3 s' = cr3 s3 \<and>
      tlb_log s' = (if root = cr3 s AND ADDR_MASK then Invlpg virt # tlb_log s3 else tlb_log s3)
    else same_pages s root s'"
proof -
  let ?i4 = "pml4_index virt" and ?i3 = "pdpt_index virt" and ?i2 = "pd_index virt" and ?i1 = "pt_index virt"
  obtain b3 s1 where g1: "get_or_create_table root ?i4 flags s = (b3, s1)" by fastforce
  obtain b2 s2 where g2: "get_or_create_table b3 ?i3 flags s1 = (b2, s2)" by fastforce
  obtain b1 s3 where g3: "get_or_create_table b2 ?i2 flags s2 = (b1, s3)" by fastforce
  have p: "path []" "path [?i4]" "path [?i4, ?i3]" by (simp_all add: path_def)
  have t1: "same_pages s root s1 \<and> (b3 \<noteq> 0 \<longrightarrow> walk (ptab s1) root [?i4] = Some b3)"
    using get_table [OF assms(1) p(1) _ _ _ table_treeD(3) [OF assms(1)] g1] by (auto simp del: walk.simps simp: walk.simps(1) split: if_splits)
  show ?thesis
  proof (cases "b3 = 0 \<or> is_huge (ptab s1 b3 ?i3)")
    case True
    then have "map_page_in root virt phys flags s = (False, s1)"
      using assms(2,3) g1 by (auto simp: map_page_in_def)
    then show ?thesis using assms(4) t1 by simp
  next
    case no3: False
    have t2: "same_pages s1 root s2 \<and> (b2 \<noteq> 0 \<longrightarrow> walk (ptab s2) root [?i4, ?i3] = Some b2)"
      using get_table [OF _ p(2) _ _ _ _ g2, of root] t1 no3
      by (auto simp: same_pages_def simp del: walk.simps split: if_splits)
    show ?thesis
    proof (cases "b2 = 0 \<or> is_huge (ptab s2 b2 ?i2)")
      case True
      then have "map_page_in root virt phys flags s = (False, s2)"
        using assms(2,3) g1 g2 no3 by (auto simp: map_page_in_def)
      then show ?thesis using assms(4) t1 t2 same_pages_trans by auto
    next
      case no2: False
      have t3: "same_pages s2 root s3 \<and> (b1 \<noteq> 0 \<longrightarrow> walk (ptab s3) root (page_path virt) = Some b1)"
        using get_table [OF _ p(3) _ _ _ _ g3, of root] t2 no2
        by (auto simp: same_pages_def page_path_def simp del: walk.simps split: if_splits)
      have t: "same_pages s root s3" using t1 t2 t3 same_pages_trans by blast
      then have ok: "pmm_ok s3" "cr3 s3 = cr3 s" by (auto simp: same_pages_def table_tree_def)
      show ?thesis
      proof (cases "b1 = 0")
        case True
        then have "map_page_in root virt phys flags s = (False, s3)"
          using assms(2,3) g1 g2 g3 no3 no2 by (simp add: map_page_in_def)
        then show ?thesis using assms(4) t by simp
      next
        case False
        let ?s = "pt_set b1 ?i1 ((phys AND ADDR_MASK) OR (flags OR PAGE_PRESENT)) s3"
        have "map_page_in root virt phys flags s =
            (True, if root = cr3 s3 AND ADDR_MASK then invalidate_page virt ?s else ?s)"
          using assms(2,3) g1 g2 g3 no3 no2 False by (simp add: map_page_in_def Let_def)
        then have r: "ok" "s' = (if root = cr3 s AND ADDR_MASK then invalidate_page virt ?s else ?s)"
          using assms(4) ok(2) by auto
        have "walk (ptab s3) root (page_path virt) = Some b1" using t3 False by blast
        then show ?thesis using r t ok
          by (auto simp: invalidate_page_def free_set_def pmm_ok_def pmm_inv_def intro!: exI [of _ s3] exI [of _ b1])
      qed
    qed
  qed
qed

section \<open>Unmapping\<close>

lemma walk_append: "walk m a (p @ q) = (case walk m a p of None \<Rightarrow> None | Some c \<Rightarrow> walk m c q)"
  by (induction p arbitrary: a) auto

lemma walk_cut:
  assumes tree: "\<forall>p q c. path p \<and> path q \<and> walk m r p = Some c \<and> walk m r q = Some c \<longrightarrow> p = q"
    and at: "walk m r p = Some a" "path p" and m': "m' = m(a := (m a)(i := 0))"
  shows "path q \<Longrightarrow> walk m' r q = (if prefix (p @ [i]) q then None else walk m r q)"
proof (induction q rule: rev_induct)
  case (snoc j q)
  have pq: "path q" using snoc.prems by (auto simp: path_def)
  show ?case
  proof (cases "prefix (p @ [i]) q \<or> walk m r q = None")
    case True
    then show ?thesis using snoc.IH [OF pq] at by (auto simp: walk_snoc prefix_snoc split: if_splits)
  next
    case False
    then obtain c where c: "walk m r q = Some c" "walk m' r q = Some c" using snoc.IH [OF pq] by auto
    have "c = a \<longleftrightarrow> q = p" using tree at pq c(1) by auto
    then have "m' c j = (if q @ [j] = p @ [i] then 0 else m c j)" using m' by auto
    then show ?thesis using c False by (auto simp: walk_snoc prefix_snoc node_ok_def has_flag_def)
  qed
qed simp

lemma prune_step:
  assumes tree: "table_tree s root" and at: "path p" "length p \<le> 2" "walk (ptab s) root p = Some a" "i < 512"
    and b: "walk (ptab s) root (p @ [i]) = Some b" "is_table_empty (ptab s b)"
  shows "same_pages s root (free_frame b (pt_set a i 0 s))"
proof -
  let ?t = "pt_set a i 0 s"
  let ?s = "free_frame b ?t"
  have pp: "path (p @ [i])" using at by (auto simp: path_def)
  have b0: "b \<noteq> 0" using table_treeD(2) [OF tree pp b(1)] by blast
  have m: "ptab ?s = (ptab s)(a := (ptab s a)(i := 0))" "cr3 ?s = cr3 s" by (simp_all add: free_frame_cases)
  have w: "walk (ptab ?s) root q = (if prefix (p @ [i]) q then None else walk (ptab s) root q)" if "path q" for q
    by (rule walk_cut [OF table_treeD(1) [OF tree] at(3,1) m(1) that])
  have av: "pmm_ok ?s" "pmm_avail ?s \<subseteq> insert b (pmm_avail s)"
    using free_frame_keeps [of ?t b] table_treeD(4) [OF tree] b0 by auto
  have "table_tree ?s root" unfolding table_tree_def
  proof (intro conjI allI impI; (elim conjE)?)
    fix q r c assume "path q" "path r" "walk (ptab ?s) root q = Some c" "walk (ptab ?s) root r = Some c"
    then show "q = r" using w tree_unique [OF tree] by (metis option.distinct(1))
  next
    fix q c assume q: "path q" "walk (ptab ?s) root q = Some c"
    then have k: "walk (ptab s) root q = Some c" "\<not> prefix (p @ [i]) q" using w by (metis option.distinct(1))+
    then have "c \<noteq> b" using tree_unique [OF tree q(1) pp, of b] b(1) by auto
    then show "c \<noteq> 0" "c \<notin> pmm_avail ?s" using table_treeD(2) [OF tree q(1) k(1)] av(2) by auto
  next
    fix k :: nat assume "k < 512"
    then show "\<not> is_huge (ptab ?s root k)"
      unfolding m(1) using table_treeD(3) [OF tree] by (auto simp: is_huge_def has_flag_def)
  qed (rule av(1))
  moreover have "page_at ?s root q j = page_at s root q j" if q: "path q" "length q = 3" "j < 512" for q j
  proof (cases "prefix (p @ [i]) q")
    case True
    then obtain r where r: "q = (p @ [i]) @ r" by (auto simp: prefix_def)
    have none: "\<not> has_flag (ptab s b k) PAGE_PRESENT" if "k < 512" for k
      using b(2) that by (auto simp: is_table_empty_def list_all_iff)
    have "page_at s root q j = None"
    proof (cases r)
      case Nil
      then show ?thesis using r b(1) none [OF q(3)] by (simp add: page_at_def)
    next
      case (Cons k ks)
      then have "k < 512" using q(1) r by (auto simp: path_def)
      then have "walk (ptab s) b r = None" using none Cons by (simp add: node_ok_def)
      then show ?thesis using r b(1) by (simp add: page_at_def walk_append [of _ _ "p @ [i]"] del: append_assoc)
    qed
    moreover have "page_at ?s root q j = None" unfolding page_at_def using w [OF q(1)] True by simp
    ultimately show ?thesis by simp
  next
    case False
    then have ww: "walk (ptab ?s) root q = walk (ptab s) root q" using w [OF q(1)] by simp
    show ?thesis
    proof (cases "walk (ptab s) root q")
      case (Some c)
      then have "c \<noteq> a" using tree_unique [OF tree q(1) at(1), of c] at(2,3) q by auto
      then show ?thesis unfolding page_at_def ww Some using m(1) by simp
    qed (simp add: page_at_def ww)
  qed
  ultimately show ?thesis using m(2) by (simp add: same_pages_def)
qed

lemma same_pages_refl: "table_tree s root \<Longrightarrow> same_pages s root s"
  by (simp add: same_pages_def)

lemma prune_path:
  assumes "same_pages s0 root s" "path p" "length p \<le> 2" "walk (ptab s) root p = Some a" "i < 512"
    and "walk (ptab s) root (p @ [i]) = Some b" "is_table_empty (ptab s b)"
  shows "same_pages s0 root (free_frame b (pt_set a i 0 s))"
  using prune_step [OF _ assms(2-7)] assms(1) same_pages_trans by (fastforce simp: same_pages_def)

text \<open>Freeing a table leaves the walks that do not pass through it as they were.\<close>

lemma prune_walk:
  assumes "table_tree s root" "path p" "walk (ptab s) root p = Some a" "path q" "\<not> prefix (p @ [i]) q"
  shows "walk (ptab (free_frame b (pt_set a i 0 s))) root q = walk (ptab s) root q"
proof -
  have "ptab (free_frame b (pt_set a i 0 s)) = (ptab s)(a := (ptab s a)(i := 0))" by (simp add: free_frame_cases)
  from walk_cut [OF table_treeD(1) [OF assms(1)] assms(3,2) this assms(4)] show ?thesis using assms(5) by simp
qed

lemma unmap_page_steps:
  assumes tree: "table_tree s root" "root = cr3 s AND ADDR_MASK"
    and call: "unmap_page virt s = (True, s')"
  shows "\<exists>pt s1. walk (ptab s) root (page_path virt) = Some pt \<and> has_flag (ptab s pt (pt_index virt)) PAGE_PRESENT \<and>
     ptab s1 = (ptab s)(pt := (ptab s pt)(pt_index virt := 0)) \<and> free_set s1 = free_set s \<and> pmm_ok s1 \<and>
     cr3 s1 = cr3 s \<and> same_pages s1 root s'"
proof -
  let ?i4 = "pml4_index virt" and ?i3 = "pdpt_index virt" and ?i2 = "pd_index virt" and ?i1 = "pt_index virt"
  define pdpt where "pdpt = ptab s root ?i4 AND ADDR_MASK"
  define pd where "pd = ptab s pdpt ?i3 AND ADDR_MASK"
  define pt where "pt = ptab s pd ?i2 AND ADDR_MASK"
  define s1 where "s1 = invalidate_page virt (pt_set pt ?i1 0 s)"
  define s2 where "s2 = free_frame pt (pt_set pd ?i2 0 s1)"
  define s3 where "s3 = free_frame pd (pt_set pdpt ?i3 0 s2)"
  note folds = tree(2) [symmetric] pdpt_def [symmetric] pd_def [symmetric] pt_def [symmetric] s1_def [symmetric]
    s2_def [symmetric] s3_def [symmetric]
  have c: "has_flag (ptab s root ?i4) PAGE_PRESENT" "has_flag (ptab s pdpt ?i3) PAGE_PRESENT" "\<not> is_huge (ptab s pdpt ?i3)"
    "has_flag (ptab s pd ?i2) PAGE_PRESENT" "\<not> is_huge (ptab s pd ?i2)" "has_flag (ptab s pt ?i1) PAGE_PRESENT"
    and r: "s' = (if is_table_empty (ptab s1 pt) then
                    if is_table_empty (ptab s2 pd) then
                      if is_table_empty (ptab s3 pdpt) then free_frame pdpt (pt_set root ?i4 0 s3) else s3
                    else s2
                  else s1)"
    using call unfolding unmap_page_def Let_def folds by (auto split: if_splits)
  have w: "walk (ptab s) root [?i4] = Some pdpt" "walk (ptab s) root [?i4, ?i3] = Some pd"
    "walk (ptab s) root (page_path virt) = Some pt"
    using c table_treeD(3) [OF tree(1), of ?i4]
    by (simp_all add: page_path_def node_ok_def is_huge_def pdpt_def pd_def pt_def)
  have m1: "ptab s1 = (ptab s)(pt := (ptab s pt)(?i1 := 0))" "free_set s1 = free_set s" "pmm_ok s1" "cr3 s1 = cr3 s"
    using table_treeD(4) [OF tree(1)]
    by (simp_all add: s1_def invalidate_page_def free_set_def pmm_ok_def pmm_inv_def)
  have t1: "table_tree s1 root" using leaf_set_step [OF tree(1) _ _ w(3) m1(1-3)] by simp
  have w1: "walk (ptab s1) root q = walk (ptab s) root q" if "path q" for q
    unfolding m1(1) by (rule walk_leaf_set [OF tree(1) page_path_path w(3) that])
  have ps: "path []" "path [?i4]" "path [?i4, ?i3]" by (simp_all add: path_def)
  have tp: "table_tree t root" if "same_pages s1 root t" for t :: "'a paging_state_scheme"
    using that by (simp add: same_pages_def)
  have k1: "walk (ptab s1) root [?i4] = Some pdpt" "walk (ptab s1) root [?i4, ?i3] = Some pd"
    "walk (ptab s1) root ([?i4, ?i3] @ [?i2]) = Some pt"
    using w w1 [OF ps(2)] w1 [OF ps(3)] w1 [OF page_path_path(1) [of virt]] by (simp_all only: page_path_def append.simps)
  have p2: "same_pages s1 root s2" if "is_table_empty (ptab s1 pt)"
    unfolding s2_def by (rule prune_path [OF same_pages_refl [OF t1] ps(3) _ k1(2) _ k1(3) that]) simp_all
  have k2: "walk (ptab s2) root [?i4] = Some pdpt" "walk (ptab s2) root ([?i4] @ [?i3]) = Some pd"
    using prune_walk [OF t1 ps(3) k1(2) ps(2), of ?i2 pt] prune_walk [OF t1 ps(3) k1(2) ps(3), of ?i2 pt] k1
    unfolding s2_def by (simp_all only: append.simps) (simp_all del: walk.simps)
  have p3: "same_pages s1 root s3" if "is_table_empty (ptab s1 pt)" "is_table_empty (ptab s2 pd)"
    unfolding s3_def by (rule prune_path [OF p2 [OF that(1)] ps(2) _ k2(1) _ k2(2) that(2)]) simp_all
  have k3: "walk (ptab s3) root ([] @ [?i4]) = Some pdpt" if "is_table_empty (ptab s1 pt)"
    using prune_walk [OF tp [OF p2 [OF that]] ps(2) k2(1) ps(2), of ?i3 pd] k2(1)
    unfolding s3_def by (simp del: walk.simps)
  have "same_pages s1 root (free_frame pdpt (pt_set root ?i4 0 s3))"
    if "is_table_empty (ptab s1 pt)" "is_table_empty (ptab s2 pd)" "is_table_empty (ptab s3 pdpt)"
    by (rule prune_path [OF p3 [OF that(1,2)] ps(1) _ _ _ k3 [OF that(1)] that(3)]) simp_all
  then have "same_pages s1 root s'" using r p2 p3 same_pages_refl [OF t1] by auto
  then show ?thesis using w(3) c(6) m1 by blast
qed

lemma unmap_page_result:
  assumes "table_tree s (cr3 s AND ADDR_MASK)"
  shows "fst (unmap_page virt s) = (virt mod 4096 = 0 \<and> leaf s (cr3 s AND ADDR_MASK) virt \<noteq> None) \<and>
    (\<not> fst (unmap_page virt s) \<longrightarrow> snd (unmap_page virt s) = s)"
  using table_treeD(3) [OF assms, of "pml4_index virt"]
  by (auto simp: unmap_page_def leaf_def Let_def node_ok_def is_huge_def split: option.splits)

lemma page_frame_split:
  "leaf s root v = leaf s' root v" if "page_at s root (page_path v) (pt_index v) = page_at s' root (page_path v) (pt_index v)"
  using that by (simp add: leaf_page_at)

text \<open>Two addresses are on the same page of an address space when all four indices agree.\<close>

definition same_page :: "u64 \<Rightarrow> u64 \<Rightarrow> bool" where
  "same_page v w \<longleftrightarrow> page_path v = page_path w \<and> pt_index v = pt_index w"

section \<open>A sample address space\<close>

definition sample_space :: paging_state where
  "sample_space = \<lparr>pmm_bitmap = pmm_clear_bit (\<lambda>_. 0xFF) 287, free_count = 1,
     hdrs = (\<lambda>_. \<lparr>bh_size = 0, bh_free = False, bh_magic = 0, bh_next = 0, bh_reserved = 0\<rparr>),
     free_list_head = 0, heap_min = 0, heap_max = 0,
     ptab = (\<lambda>_ _. 0)(0x11A000 := (\<lambda>_. 0)(0 := 0x11B003), 0x11B000 := (\<lambda>_. 0)(1 := 0x11C003),
       0x11C000 := (\<lambda>_. 0)(0 := 0x11D003), 0x11D000 := (\<lambda>_. 0)(0 := 0x200003)),
     cr3 = 0x11A000, cr0 = 0, efer = 0, tlb_log = []\<rparr>"

lemma sample_space_walk:
  "walk (ptab sample_space) 0x11A000 p = Some a \<longleftrightarrow>
     (p, a) \<in> {([], 0x11A000), ([0], 0x11B000), ([0, 1], 0x11C000), ([0, 1, 0], 0x11D000), ([0, 1, 0, 0], 0x200000)}"
proof -
  have n: "node_ok 0x11B003" "node_ok 0x11C003" "node_ok 0x11D003" "node_ok 0x200003" "\<not> node_ok 0"
    by (simp_all add: node_ok_def has_flag_def page_flags)
  let ?m = "ptab sample_space"
  have w: "walk ?m 0x11A000 (i # q) = (if i = 0 then walk ?m 0x11B000 q else None)"
    "walk ?m 0x11B000 (i # q) = (if i = 1 then walk ?m 0x11C000 q else None)"
    "walk ?m 0x11C000 (i # q) = (if i = 0 then walk ?m 0x11D000 q else None)"
    "walk ?m 0x11D000 (i # q) = (if i = 0 then walk ?m 0x200000 q else None)"
    "walk ?m 0x200000 (i # q) = None" for i q
    using n by (simp_all add: sample_space_def ADDR_MASK_def)
  have a4: "walk ?m 0x200000 q = Some a \<longleftrightarrow> q = [] \<and> a = 0x200000" for q
    by (cases q) (auto simp: w simp del: walk.simps(2))
  have a3: "walk ?m 0x11D000 q = Some a \<longleftrightarrow> (q, a) \<in> {([], 0x11D000), ([0], 0x200000)}" for q
    by (cases q) (auto simp: w a4 simp del: walk.simps(2))
  have a2: "walk ?m 0x11C000 q = Some a \<longleftrightarrow> (q, a) \<in> {([], 0x11C000), ([0], 0x11D000), ([0, 0], 0x200000)}" for q
    by (cases q) (auto simp: w a3 simp del: walk.simps(2))
  have a1: "walk ?m 0x11B000 q = Some a \<longleftrightarrow>
      (q, a) \<in> {([], 0x11B000), ([1], 0x11C000), ([1, 0], 0x11D000), ([1, 0, 0], 0x200000)}" for q
    by (cases q) (auto simp: w a2 simp del: walk.simps(2))
  show ?thesis by (cases p) (auto simp: w a1 simp del: walk.simps(2))
qed

lemma sample_space_tree: "table_tree sample_space 0x11A000" "cr3 sample_space AND ADDR_MASK = 0x11A000"
  "leaf sample_space 0x11A000 0x40000000 = Some 0x200003"
proof -
  have f: "free_set sample_space = free_set sample_one_free" "free_count sample_space = free_count sample_one_free"
    by (simp_all add: free_set_def sample_space_def sample_one_free_def)
  then have ok: "pmm_ok sample_space" "free_set sample_space = {287}"
    using sample_one_free_ok by (simp_all add: pmm_ok_def pmm_inv_def)
  have av: "pmm_avail sample_space = {0x11F000}"
    using ok(2) by (simp add: pmm_avail_def frame_addr_def FRAME_SIZE_def)
  have huge: "\<not> is_huge (ptab sample_space 0x11A000 i)" for i
    by (simp add: sample_space_def is_huge_def has_flag_def page_flags)
  show "table_tree sample_space 0x11A000"
    unfolding table_tree_def sample_space_walk av using ok(1) huge by (auto simp: path_def)
  show "cr3 sample_space AND ADDR_MASK = 0x11A000" by (simp add: sample_space_def ADDR_MASK_def)
  show "leaf sample_space 0x11A000 0x40000000 = Some 0x200003"
    by (simp add: leaf_def pml4_index_def pdpt_index_def pd_index_def pt_index_def drop_bit_eq_div sample_space_def
        ADDR_MASK_def node_ok_def has_flag_def page_flags)
qed

section \<open>Mapping\<close>

lemma map_page_in_leaf:
  assumes "table_tree s root" "map_page_in root virt phys flags s = (ok, s')"
  shows "table_tree s' root \<and>
    (if ok then leaf s' root virt = Some ((phys AND ADDR_MASK) OR (flags OR PAGE_PRESENT)) \<and>
        (\<forall>v. \<not> same_page v virt \<longrightarrow> leaf s' root v = leaf s root v)
     else (\<forall>v. leaf s' root v = leaf s root v))"
proof (cases "virt mod 4096 = 0 \<and> phys mod 4096 = 0")
  case True
  note steps = map_page_in_steps [OF assms(1) conjunct1 [OF True] conjunct2 [OF True] assms(2)]
  show ?thesis
  proof (cases ok)
    case False
    then show ?thesis using steps by (simp add: same_pages_def leaf_page_at)
  next
    case ok: True
    then obtain s3 pt where t: "same_pages s root s3" "walk (ptab s3) root (page_path virt) = Some pt"
      "ptab s' = (ptab s3)(pt := (ptab s3 pt)(pt_index virt := (phys AND ADDR_MASK) OR (flags OR PAGE_PRESENT)))"
      "free_set s' = free_set s3" "pmm_ok s'" using steps by auto
    have "has_flag ((phys AND ADDR_MASK) OR (flags OR PAGE_PRESENT)) PAGE_PRESENT" by (simp add: entry_bits)
    then show ?thesis
      using leaf_set_step [OF _ page_path_path t(2-5)] t(1) ok by (auto simp: same_pages_def leaf_page_at same_page_def)
  qed
next
  case False
  then show ?thesis using assms by (auto simp: map_page_in_def)
qed

section \<open>Properties\<close>

text \<open>
  C8. Mapping a page in an address space whose tables form a tree keeps them a tree and never changes
  the leaf entry of another page. When it reports success the page's leaf entry is exactly the frame
  address with the requested flags and the present bit; when it reports failure (misaligned address,
  a huge page in the way, no frame left for a table) no leaf entry changed at all.
\<close>

theorem map_page_in_correct:
  assumes "table_tree s root" "map_page_in root virt phys flags s = (ok, s')"
  shows "table_tree s' root \<and>
    (if ok then leaf s' root virt = Some ((phys AND ADDR_MASK) OR (flags OR PAGE_PRESENT)) \<and>
        (\<forall>v. \<not> same_page v virt \<longrightarrow> leaf s' root v = leaf s root v)
     else (\<forall>v. leaf s' root v = leaf s root v))"
  using assms by (rule map_page_in_leaf)

theorem map_page_in_correct_witness:
  "table_tree sample_space 0x11A000 \<and> map_page_in 0x11A000 0x40000001 0x300000 7 sample_space = (False, sample_space) \<and>
   leaf (snd (map_page_in 0x11A000 0x40001000 0x300000 7 sample_space)) 0x11A000 0x40000000 = Some 0x200003"
proof -
  have "\<not> same_page 0x40000000 0x40001000"
    by (simp add: same_page_def page_path_def pt_index_def drop_bit_eq_div)
  then have "leaf (snd (map_page_in 0x11A000 0x40001000 0x300000 7 sample_space)) 0x11A000 0x40000000 = Some 0x200003"
    using map_page_in_correct [OF sample_space_tree(1) surjective_pairing, of "0x40001000" "0x300000" 7] sample_space_tree(3)
    by (auto split: if_splits)
  then show ?thesis using sample_space_tree(1) by (simp add: map_page_in_def)
qed



end
