(* ===== verification/Paging_Space.thy ===== *)
theory Paging_Space
  imports Paging_Map
begin

text \<open>
  Protection and address spaces: what \<open>protect_page\<close> changes, the write-xor-execute layout that
  \<open>protect_kernel_image\<close> gives the kernel's first two megabytes, and what a new address space maps.
\<close>

section \<open>Changing protection\<close>

text \<open>
  Changing the protection of a page in the active address space fails, with no effect, exactly when
  the address is misaligned or the page is not mapped. Otherwise the page keeps its frame, its flags
  become the requested ones plus the present bit, the translation is invalidated and every other page
  keeps its entry.
\<close>

lemma protect_page_correct:
  assumes "table_tree s root" "root = cr3 s AND ADDR_MASK" "protect_page virt new_flags s = (ok, s')"
  shows "case (if virt mod 4096 = 0 then leaf s root virt else None) of
      None \<Rightarrow> \<not> ok \<and> s' = s
    | Some e \<Rightarrow> ok \<and> table_tree s' root \<and> tlb_log s' = Invlpg virt # tlb_log s \<and>
        leaf s' root virt = Some ((e AND ADDR_MASK) OR (new_flags AND NOT ADDR_MASK) OR PAGE_PRESENT) \<and>
        (\<forall>v. \<not> same_page v virt \<longrightarrow> leaf s' root v = leaf s root v)"
proof (cases "virt mod 4096 = 0 \<and> leaf s root virt \<noteq> None")
  case False
  then have "protect_page virt new_flags s = (False, s)"
    using table_treeD(3) [OF assms(1), of "pml4_index virt"] assms(2)
    by (auto simp: protect_page_def leaf_def Let_def node_ok_def is_huge_def split: option.splits)
  then show ?thesis using assms(3) False by (auto split: option.splits)
next
  case True
  then obtain pt where w: "walk (ptab s) root (page_path virt) = Some pt"
    and pr: "has_flag (ptab s pt (pt_index virt)) PAGE_PRESENT"
    by (auto simp: leaf_def page_path_def split: option.splits if_splits)
  let ?e = "(ptab s pt (pt_index virt) AND ADDR_MASK) OR (new_flags AND NOT ADDR_MASK) OR PAGE_PRESENT"
  have "protect_page virt new_flags s = (True, invalidate_page virt (pt_set pt (pt_index virt) ?e s))"
    using w pr True assms(2)
    by (auto simp: protect_page_def page_path_def Let_def node_ok_def is_huge_def split: if_splits)
  then have r: "ok" "s' = invalidate_page virt (pt_set pt (pt_index virt) ?e s)" using assms(3) by auto
  have l: "leaf s root virt = Some (ptab s pt (pt_index virt))" using w pr by (simp add: leaf_page_at page_at_def)
  have "table_tree s' root \<and>
    (\<forall>r k. path r \<and> length r = 3 \<longrightarrow> page_at s' root r k =
       (if r = page_path virt \<and> k = pt_index virt then if has_flag ?e PAGE_PRESENT then Some ?e else None else page_at s root r k))"
    using table_treeD(4) [OF assms(1)] unfolding r(2)
    by (intro leaf_set_step [OF assms(1) page_path_path w])
      (simp_all add: invalidate_page_def free_set_def pmm_ok_def pmm_inv_def)
  moreover have "has_flag ?e PAGE_PRESENT" by (simp add: entry_bits)
  ultimately show ?thesis
    using True l r by (auto simp: leaf_page_at same_page_def invalidate_page_def)
qed

lemma protect_page_correct_witness:
  "leaf (snd (protect_page 0x40000000 0x8000000000000001 sample_space)) 0x11A000 0x40000000 = Some 0x8000000000200001"
  using protect_page_correct [OF sample_space_tree(1) sample_space_tree(2) [symmetric] surjective_pairing,
      of "0x40000000" "0x8000000000000001"] sample_space_tree(3)
  by (simp add: ADDR_MASK_def PAGE_PRESENT_def)

section \<open>The kernel image\<close>

lemma page_number_bits:
  assumes "i < 512"
  shows "(of_nat i * 4096 :: u64) AND ADDR_MASK = of_nat i * 4096" "n < 12 \<or> 52 \<le> n \<Longrightarrow> \<not> bit (of_nat i * 4096 :: u64) n"
    "unat (of_nat i * 4096 :: u64) = i * 4096"
proof -
  have e: "(of_nat i * 4096 :: u64) = frame_addr i" by (simp add: frame_addr_def FRAME_SIZE_def)
  have i: "i < 262144" using assms by simp
  show "(of_nat i * 4096 :: u64) AND ADDR_MASK = of_nat i * 4096" unfolding e by (rule frame_bits(1) [OF i])
  show "n < 12 \<or> 52 \<le> n \<Longrightarrow> \<not> bit (of_nat i * 4096 :: u64) n" unfolding e by (rule frame_bits(2) [OF i])
  show "unat (of_nat i * 4096 :: u64) = i * 4096" unfolding e by (rule unat_frame_addr [OF i])
qed

lemma kernel_page_entry:
  assumes "i < 512" "te \<le> re" "e = of_nat i * 4096 OR kernel_page_flags te re (of_nat i * 4096)"
  shows "has_flag e PAGE_PRESENT" "e AND ADDR_MASK = of_nat i * 4096" "\<not> wx_entry e"
    "has_flag e PAGE_WRITABLE \<longleftrightarrow> \<not> (0x100000 \<le> i * 4096 \<and> i * 4096 < unat re \<or> unat te \<le> i * 4096 \<and> i * 4096 < unat re)"
    "has_flag e PAGE_NX \<longleftrightarrow> \<not> (0x100000 \<le> i * 4096 \<and> i * 4096 < unat te)"
proof -
  note b = page_number_bits [OF assms(1)]
  have le: "unat te \<le> unat re" using assms(2) by (simp add: word_le_nat_alt)
  show "has_flag e PAGE_PRESENT" unfolding assms(3) by (simp add: kernel_page_flags_def entry_bits)
  show "e AND ADDR_MASK = of_nat i * 4096"
  proof -
    have "e AND ADDR_MASK = (of_nat i * 4096 :: u64) AND ADDR_MASK"
      unfolding assms(3) by (auto intro!: bit_eqI simp: kernel_page_flags_def entry_bits)
    then show ?thesis using b(1) by simp
  qed
  show "\<not> wx_entry e" unfolding assms(3) using b(2) [of 1] by (auto simp: wx_entry_def kernel_page_flags_def entry_bits)
  show "has_flag e PAGE_WRITABLE \<longleftrightarrow> \<not> (0x100000 \<le> i * 4096 \<and> i * 4096 < unat re \<or> unat te \<le> i * 4096 \<and> i * 4096 < unat re)"
    unfolding assms(3) using b(2) [of 1] b(3) le
    by (auto simp: kernel_page_flags_def entry_bits word_le_nat_alt word_less_nat_alt)
  show "has_flag e PAGE_NX \<longleftrightarrow> \<not> (0x100000 \<le> i * 4096 \<and> i * 4096 < unat te)"
    unfolding assms(3) using b(2) [of 63] b(3)
    by (auto simp: kernel_page_flags_def entry_bits word_le_nat_alt word_less_nat_alt)
qed

lemma fill_table:
  "fold (\<lambda>i s. let addr = of_nat i * 4096 in pt_set t i (addr OR g addr) s) [0..<n] s =
     s\<lparr>ptab := (ptab s)(t := (\<lambda>i. if i < n then of_nat i * 4096 OR g (of_nat i * 4096) else ptab s t i))\<rparr>"
proof (induction n)
  case (Suc n)
  have "(\<lambda>i. if i < n then of_nat i * 4096 OR g (of_nat i * 4096) else ptab s t i)(n := of_nat n * 4096 OR g (of_nat n * 4096)) =
      (\<lambda>i. if i < Suc n then of_nat i * 4096 OR g (of_nat i * 4096) else ptab s t i)"
    by (auto simp: fun_eq_iff less_Suc_eq)
  note eq = this
  let ?F = "\<lambda>i s. let addr = of_nat i * 4096 in pt_set t i (addr OR g addr) s"
  have "fold ?F [0..<Suc n] s = ?F n (fold ?F [0..<n] s)" by simp
  also have "\<dots> = s\<lparr>ptab := (ptab s)(t := (\<lambda>i. if i < Suc n then of_nat i * 4096 OR g (of_nat i * 4096) else ptab s t i))\<rparr>"
    unfolding Suc.IH unfolding Let_def by (simp add: eq)
  finally show ?case .
qed simp

lemma protect_kernel_image_steps:
  assumes "table_tree s root" "root = cr3 s AND ADDR_MASK" "protect_kernel_image te re s = (True, s')"
  shows "te \<le> re \<and> 0x100000 < te \<and> cr0 s' = cr0 s OR 0x10000 \<and> tlb_log s' = Flush # tlb_log s \<and>
    (\<forall>i<512. page_at s' root [0, 0, 0] i = Some (of_nat i * 4096 OR kernel_page_flags te re (of_nat i * 4096)))"
proof -
  define pdpt where "pdpt = ptab s root 0 AND ADDR_MASK"
  define pd where "pd = ptab s pdpt 0 AND ADDR_MASK"
  have c: "has_flag (ptab s root 0) PAGE_PRESENT" "has_flag (ptab s pdpt 0) PAGE_PRESENT" "\<not> is_huge (ptab s pdpt 0)"
    "te \<le> re" "0x100000 < te" and al0: "fst (alloc_frame s) \<noteq> 0"
    using assms(3) unfolding protect_kernel_image_def Let_def assms(2) [symmetric] pdpt_def [symmetric] pd_def [symmetric]
    by (auto split: if_splits prod.splits)
  have w: "walk (ptab s) root [] = Some root" "walk (ptab s) root [0] = Some pdpt" "walk (ptab s) root [0, 0] = Some pd"
    using c table_treeD(3) [OF assms(1), of 0] by (simp_all add: node_ok_def is_huge_def pdpt_def pd_def)
  have ps: "path []" "path [0]" "path [0, 0]" by (simp_all add: path_def)
  have dist: "root \<noteq> pdpt" "root \<noteq> pd" "pdpt \<noteq> pd"
    using tree_unique [OF assms(1)] ps w by (metis list.distinct(1), metis list.distinct(1), metis list.inject not_Cons_self2)
  have "free_set s \<noteq> {}" using al0 by (auto simp: alloc_frame_spec)
  then obtain bm k where al: "alloc_frame s = (frame_addr (Min (free_set s)), s\<lparr>pmm_bitmap := bm, free_count := k\<rparr>)"
    using alloc_frame_take [OF _ table_treeD(4) [OF assms(1)]] by blast
  define fr where "fr = frame_addr (Min (free_set s))"
  have f: "Min (free_set s) \<in> free_set s" "Min (free_set s) < 262144"
    using \<open>free_set s \<noteq> {}\<close> free_set_bound [OF Min_in] by simp_all
  have "fr \<in> pmm_avail s" using f by (auto simp: fr_def pmm_avail_def)
  then have fresh: "fr \<noteq> root" "fr \<noteq> pdpt" "fr \<noteq> pd" using table_treeD(2) [OF assms(1)] ps w by blast+
  let ?t = "\<lambda>i. if i < 512 then of_nat i * 4096 OR kernel_page_flags te re (of_nat i * 4096) else ptab s fr i"
  have r: "cr0 s' = cr0 s OR 0x10000" "tlb_log s' = Flush # tlb_log s"
    "ptab s' = (ptab s)(fr := ?t, pd := (ptab s pd)(0 := fr OR PAGE_PRESENT OR PAGE_WRITABLE))"
    using assms(3) fresh al unfolding protect_kernel_image_def assms(2) [symmetric] fill_table
    by (auto simp: Let_def pdpt_def [symmetric] pd_def [symmetric] fr_def [symmetric] split: if_splits cong: if_cong)
  have fe: "fr OR PAGE_PRESENT OR PAGE_WRITABLE = fr OR PAGE_PRESENT OR PAGE_WRITABLE OR extra_of 0"
    by (simp add: extra_of_def)
  have "walk (ptab s') root [0, 0, 0] = Some fr"
    using w dist fresh fresh_entry(1,2) [OF f(2), of 0, folded fr_def, folded fe] c table_treeD(3) [OF assms(1), of 0]
    by (simp add: r(3) node_ok_def is_huge_def pdpt_def [symmetric] pd_def [symmetric])
  moreover have "ptab s' fr = ?t" using fresh r(3) by simp
  ultimately show ?thesis using kernel_page_entry(1) [OF _ c(4) refl] c(4,5) r(1,2) by (simp add: page_at_def)
qed

text \<open>A kernel map before the split: the first two megabytes are one huge page.\<close>

definition sample_kernel :: paging_state where
  "sample_kernel = sample_space\<lparr>ptab := (\<lambda>_ _. 0)(0x11A000 := (\<lambda>_. 0)(0 := 0x11B003),
     0x11B000 := (\<lambda>_. 0)(0 := 0x11C003), 0x11C000 := (\<lambda>_. 0)(0 := 0x83))\<rparr>"

lemma sample_kernel_walk:
  "walk (ptab sample_kernel) 0x11A000 q = Some a \<longleftrightarrow> (q, a) \<in> {([], 0x11A000), ([0], 0x11B000), ([0, 0], 0x11C000)}"
proof -
  let ?m = "ptab sample_kernel"
  have n: "node_ok 0x11B003" "node_ok 0x11C003" "\<not> node_ok 0x83" "\<not> node_ok 0"
    by (simp_all add: node_ok_def has_flag_def page_flags)
  have w: "walk ?m 0x11A000 (i # q) = (if i = 0 then walk ?m 0x11B000 q else None)"
    "walk ?m 0x11B000 (i # q) = (if i = 0 then walk ?m 0x11C000 q else None)"
    "walk ?m 0x11C000 (i # q) = None" for i q
    using n by (simp_all add: sample_kernel_def ADDR_MASK_def)
  have a2: "walk ?m 0x11C000 q = Some a \<longleftrightarrow> q = [] \<and> a = 0x11C000" for q a
    by (cases q) (auto simp: w simp del: walk.simps(2))
  have a1: "walk ?m 0x11B000 q = Some a \<longleftrightarrow> (q, a) \<in> {([], 0x11B000), ([0], 0x11C000)}" for q a
    by (cases q) (auto simp: w a2 simp del: walk.simps(2))
  show ?thesis by (cases q) (auto simp: w a1 simp del: walk.simps(2))
qed

lemma sample_kernel_tree: "table_tree sample_kernel 0x11A000" "cr3 sample_kernel AND ADDR_MASK = 0x11A000"
  "fst (protect_kernel_image 0x108000 0x10A000 sample_kernel)"
proof -
  have f: "free_set sample_kernel = free_set sample_one_free" "free_count sample_kernel = free_count sample_one_free"
    by (simp_all add: free_set_def sample_kernel_def sample_space_def sample_one_free_def)
  then have fs: "free_set sample_kernel = {287}" using sample_one_free_ok by simp
  have ok: "pmm_ok sample_kernel" using f sample_one_free_ok by (simp add: pmm_ok_def pmm_inv_def)
  have av: "pmm_avail sample_kernel = {0x11F000}"
    using fs by (simp add: pmm_avail_def frame_addr_def FRAME_SIZE_def)
  have huge: "\<not> is_huge (ptab sample_kernel 0x11A000 i)" for i
    by (simp add: sample_kernel_def is_huge_def has_flag_def page_flags)
  show "table_tree sample_kernel 0x11A000"
    unfolding table_tree_def sample_kernel_walk av using ok huge by auto
  show c: "cr3 sample_kernel AND ADDR_MASK = 0x11A000" by (simp add: sample_kernel_def sample_space_def ADDR_MASK_def)
  have al: "fst (alloc_frame sample_kernel) = 0x11F000"
    using fs by (simp add: alloc_frame_spec frame_addr_def FRAME_SIZE_def)
  have e: "ptab sample_kernel 0x11A000 0 = 0x11B003" "ptab sample_kernel 0x11B000 0 = 0x11C003" "ptab sample_kernel 0x11C000 0 = 0x83"
    by (simp_all add: sample_kernel_def)
  have m: "(0x11B003 :: u64) AND ADDR_MASK = 0x11B000" "(0x11C003 :: u64) AND ADDR_MASK = 0x11C000"
    by (simp_all add: ADDR_MASK_def)
  show "fst (protect_kernel_image 0x108000 0x10A000 sample_kernel)"
    using al unfolding protect_kernel_image_def Let_def c e m
    by (auto simp: is_huge_def has_flag_def page_flags e m split: prod.split)
qed

text \<open>
  C13. After a successful \<open>protect_kernel_image\<close> the first two megabytes stay identity-mapped and obey
  write-xor-execute: each of the 512 pages maps its own address, no page is both writable and
  executable, exactly the pages of the code are executable, code and read-only data are not writable,
  and the processor's write-protect bit is set.
\<close>

theorem protect_kernel_image_wx:
  assumes "table_tree s root" "root = cr3 s AND ADDR_MASK" "protect_kernel_image text_end rodata_end s = (True, s')"
    and "i < 512"
  shows "\<exists>e. page_at s' root [0, 0, 0] i = Some e \<and> e AND ADDR_MASK = of_nat i * 4096 \<and> \<not> wx_entry e \<and>
    (has_flag e PAGE_NX \<longleftrightarrow> \<not> (0x100000 \<le> i * 4096 \<and> i * 4096 < unat text_end)) \<and>
    (has_flag e PAGE_WRITABLE \<longleftrightarrow> \<not> (0x100000 \<le> i * 4096 \<and> i * 4096 < unat rodata_end)) \<and>
    bit (cr0 s') 16"
proof -
  have p: "text_end \<le> rodata_end" "0x100000 < text_end" "cr0 s' = cr0 s OR 0x10000"
    "page_at s' root [0, 0, 0] i = Some (of_nat i * 4096 OR kernel_page_flags text_end rodata_end (of_nat i * 4096))"
    using protect_kernel_image_steps [OF assms(1-3)] assms(4) by auto
  have "(0x10000 :: u64) = push_bit 16 1" by (simp add: push_bit_eq_mult)
  then have "bit (0x10000 :: u64) 16" by (simp only:) (simp add: bit_simps)
  then have "bit (cr0 s') 16" by (simp add: p(3) bit_or_iff)
  moreover have "0x100000 \<le> unat text_end" using p(2) by (simp add: word_less_nat_alt)
  ultimately show ?thesis using kernel_page_entry [OF assms(4) p(1) refl] p(4) by auto
qed

theorem protect_kernel_image_wx_witness:
  "\<exists>s' e. protect_kernel_image 0x108000 0x10A000 sample_kernel = (True, s') \<and>
     page_at s' 0x11A000 [0, 0, 0] 256 = Some e \<and> \<not> has_flag e PAGE_NX \<and> \<not> has_flag e PAGE_WRITABLE"
proof -
  obtain s' where s': "protect_kernel_image 0x108000 0x10A000 sample_kernel = (True, s')"
    using sample_kernel_tree(3) by (metis (full_types) prod.collapse)
  show ?thesis
    using protect_kernel_image_wx [OF sample_kernel_tree(1) sample_kernel_tree(2) [symmetric] s', of 256] s' by auto
qed

section \<open>New address spaces\<close>

lemma zero_two_tables:
  assumes "a \<noteq> b"
  shows "fold (\<lambda>i s. pt_set b i 0 (pt_set a i 0 s)) [0..<n] s =
     s\<lparr>ptab := (ptab s)(a := (\<lambda>i. if i < n then 0 else ptab s a i), b := (\<lambda>i. if i < n then 0 else ptab s b i))\<rparr>"
proof (induction n)
  case (Suc n)
  let ?F = "\<lambda>i s. pt_set b i 0 (pt_set a i 0 s)"
  have z: "(\<lambda>i. if i < n then 0 else ptab s c i)(n := 0) = (\<lambda>i. if i < Suc n then 0 else ptab s c i)" for c
    by (auto simp: fun_eq_iff less_Suc_eq)
  have "fold ?F [0..<Suc n] s = ?F n (fold ?F [0..<n] s)" by simp
  also have "\<dots> = s\<lparr>ptab := (ptab s)(a := (\<lambda>i. if i < Suc n then 0 else ptab s a i), b := (\<lambda>i. if i < Suc n then 0 else ptab s b i))\<rparr>"
    unfolding Suc.IH using assms by (simp add: z fun_upd_twist)
  finally show ?case .
qed simp

text \<open>
  The two new tables: the root has one entry, which leads to a second-level table whose only entry is
  the kernel's.
\<close>

definition fresh_space :: "'a paging_state_scheme \<Rightarrow> u64 \<Rightarrow> u64 \<Rightarrow> u64 \<Rightarrow> 'a paging_state_scheme \<Rightarrow> bool" where
  "fresh_space s root a b s' \<longleftrightarrow> a \<in> pmm_avail s \<and> b \<in> pmm_avail s \<and> a \<noteq> b \<and>
     (\<forall>c. c \<noteq> a \<and> c \<noteq> b \<longrightarrow> ptab s' c = ptab s c) \<and>
     (\<forall>i<512. ptab s' a i = (if i = 0 then b OR PAGE_PRESENT OR PAGE_WRITABLE else 0)) \<and>
     (\<forall>i<512. ptab s' b i = (if i = 0 then ptab s (ptab s root 0 AND ADDR_MASK) 0 else 0)) \<and>
     node_ok (ptab s root 0)"

lemma create_address_space_steps:
  assumes "table_tree s root" "root = cr3 s AND ADDR_MASK" "create_address_space s = (a, s')"
  shows "if a = 0 then free_set s' = free_set s \<and> ptab s' = ptab s
    else \<exists>b. fresh_space s root a b s' \<and> pmm_avail s' = pmm_avail s - {a, b}"
proof (cases "has_flag (ptab s root 0) PAGE_PRESENT \<and> free_set s \<noteq> {}")
  case False
  then have "create_address_space s = (0, s)"
    by (auto simp: create_address_space_def Let_def assms(2) [symmetric] alloc_frame_spec)
  then show ?thesis using assms(3) by simp
next
  case True
  let ?f = "Min (free_set s)"
  obtain bm c where al: "alloc_frame s = (frame_addr ?f, s\<lparr>pmm_bitmap := bm, free_count := c\<rparr>)"
    "free_set (s\<lparr>pmm_bitmap := bm, free_count := c\<rparr>) = free_set s - {?f}"
    "pmm_ok (s\<lparr>pmm_bitmap := bm, free_count := c\<rparr>)" "frame_addr ?f \<noteq> 0"
    using alloc_frame_take [OF _ table_treeD(4) [OF assms(1)]] True by blast
  define s1 where "s1 = s\<lparr>pmm_bitmap := bm, free_count := c\<rparr>"
  note al1 = al [folded s1_def]
  have f: "?f \<in> free_set s" "?f < 262144" using True Min_in [of "free_set s"] free_set_bound [of ?f s] by simp_all
  have m1: "ptab s1 = ptab s" by (simp add: s1_def)
  show ?thesis
  proof (cases "free_set s1 = {}")
    case empty: True
    then have r: "create_address_space s = (0, free_frame (frame_addr ?f) s1)"
      using True al1(1,4) by (simp add: create_address_space_def Let_def assms(2) [symmetric] alloc_frame_spec [of s1])
    have u: "unat (frame_addr ?f) = ?f * 4096" by (rule unat_frame_addr [OF f(2)])
    have "free_frame (frame_addr ?f) s1 = s1\<lparr>pmm_bitmap := pmm_clear_bit (pmm_bitmap s1) ?f, free_count := free_count s1 + 1\<rparr>"
      unfolding free_frame_cases u using f empty by simp
    then have "free_set (free_frame (frame_addr ?f) s1) = insert ?f (free_set s1)" "ptab (free_frame (frame_addr ?f) s1) = ptab s"
      using free_set_clear [OF f(2), of s1] m1 by simp_all
    then show ?thesis using assms(3) r al1(2) f(1) by auto
  next
    case False
    let ?g = "Min (free_set s1)"
    obtain bm2 c2 where al2: "alloc_frame s1 = (frame_addr ?g, s1\<lparr>pmm_bitmap := bm2, free_count := c2\<rparr>)"
      "free_set (s1\<lparr>pmm_bitmap := bm2, free_count := c2\<rparr>) = free_set s1 - {?g}"
      "pmm_ok (s1\<lparr>pmm_bitmap := bm2, free_count := c2\<rparr>)" "frame_addr ?g \<noteq> 0"
      using alloc_frame_take [OF False al1(3)] by blast
    define b where "b = frame_addr ?g"
    define s2 where "s2 = s1\<lparr>pmm_bitmap := bm2, free_count := c2\<rparr>"
    have g: "?g \<in> free_set s" "?g < 262144" "?g \<noteq> ?f"
      using Min_in [OF finite_free_set False] al1(2) free_set_bound by auto
    have ab: "frame_addr ?f \<noteq> b" using frame_addr_inj [OF f(2) g(2)] g(3) by (simp add: b_def)
    let ?t = "fold (\<lambda>i s. pt_set b i 0 (pt_set (frame_addr ?f) i 0 s)) [0..<512] s2"
    have r: "create_address_space s = (frame_addr ?f, pt_set (frame_addr ?f) 0 (b OR PAGE_PRESENT OR PAGE_WRITABLE)
        (pt_set b 0 (ptab s (ptab s root 0 AND ADDR_MASK) 0) ?t))"
      using True al1(1,4) al2(1,4)
      by (simp add: create_address_space_def Let_def assms(2) [symmetric] b_def [symmetric] s2_def [symmetric])
    have a: "a = frame_addr ?f" using r assms(3) by simp
    have s': "s' = pt_set a 0 (b OR PAGE_PRESENT OR PAGE_WRITABLE) (pt_set b 0 (ptab s (ptab s root 0 AND ADDR_MASK) 0) ?t)"
      using r assms(3) by simp
    have m2: "ptab s2 = ptab s" by (simp add: s2_def m1)
    have "fresh_space s root a b s'"
      unfolding fresh_space_def s' zero_two_tables [OF ab] using ab f g True table_treeD(3) [OF assms(1), of 0]
      by (auto simp: a m2 pmm_avail_def b_def node_ok_def is_huge_def)
    moreover have "free_set s' = free_set s - {?f, ?g}"
      unfolding s' zero_two_tables [OF ab] using al1(2) al2(2) by (auto simp: s2_def)
    then have "pmm_avail s' = pmm_avail s - {a, b}"
      using f g frame_addr_inj free_set_bound unfolding pmm_avail_def a b_def by (auto simp: image_iff) blast+
    ultimately show ?thesis using a al1(4) by auto
  qed
qed

text \<open>Changes to tables that a tree does not contain are not seen in it.\<close>

lemma walk_frame:
  assumes "\<forall>p c. path p \<and> walk m r p = Some c \<longrightarrow> m' c = m c"
  shows "path q \<Longrightarrow> walk m' r q = walk m r q"
proof (induction q rule: rev_induct)
  case (snoc i q)
  then have "path q" by (auto simp: path_def)
  then show ?case using snoc.IH assms by (auto simp: walk_snoc split: option.split)
qed simp

lemma leaf_frame:
  assumes "\<forall>p c. path p \<and> walk (ptab s) r p = Some c \<longrightarrow> ptab s' c = ptab s c"
  shows "leaf s' r v = leaf s r v"
proof (cases "walk (ptab s) r (page_path v)")
  case (Some c)
  then have "ptab s' c = ptab s c" using assms page_path_path(1) by blast
  then show ?thesis using walk_frame [OF assms, of "page_path v"] Some by (simp add: leaf_page_at page_at_def)
qed (use walk_frame [OF assms, of "page_path v"] in \<open>simp add: leaf_page_at page_at_def\<close>)

lemma fresh_space_leaf:
  assumes "table_tree s root" "fresh_space s root a b s'"
  shows "leaf s' a v = (if pml4_index v = 0 \<and> pdpt_index v = 0 then leaf s root v else None)"
proof -
  have e: "ptab s' a (pml4_index v) = (if pml4_index v = 0 then b OR PAGE_PRESENT OR PAGE_WRITABLE else 0)"
    "ptab s' b (pdpt_index v) = (if pdpt_index v = 0 then ptab s (ptab s root 0 AND ADDR_MASK) 0 else 0)"
    and av: "b \<in> pmm_avail s" "a \<in> pmm_avail s" and other: "\<And>c. c \<noteq> a \<Longrightarrow> c \<noteq> b \<Longrightarrow> ptab s' c = ptab s c"
    and ok: "node_ok (ptab s root 0)"
    using assms(2) by (simp_all add: fresh_space_def)
  obtain g where g: "b = frame_addr g" "g < 262144" using av(1) free_set_bound by (auto simp: pmm_avail_def)
  have bn: "node_ok (b OR PAGE_PRESENT OR PAGE_WRITABLE)" "(b OR PAGE_PRESENT OR PAGE_WRITABLE) AND ADDR_MASK = b"
    using fresh_entry(1,2) [OF g(2), of 0] by (simp_all add: g(1) extra_of_def)
  have z: "\<not> node_ok 0" by (simp add: node_ok_def has_flag_def)
  have keep: "ptab s' c = ptab s c" if "path p" "walk (ptab s) root p = Some c" for p c
    using table_treeD(2) [OF assms(1) that] av other by metis
  show ?thesis
  proof (cases "pml4_index v = 0 \<and> pdpt_index v = 0")
    case False
    then show ?thesis using e bn z by (auto simp: leaf_def)
  next
    case True
    let ?e = "ptab s (ptab s root 0 AND ADDR_MASK) 0"
    let ?pd = "?e AND ADDR_MASK" and ?i2 = "pd_index v"
    have p: "path [0, 0]" "path [0, 0, ?i2]" by (simp_all add: path_def)
    show ?thesis
    proof (cases "node_ok ?e")
      case ne: True
      have w2: "walk (ptab s) root [0, 0] = Some ?pd" using ok ne by simp
      note k2 = keep [OF p(1) w2]
      show ?thesis
      proof (cases "node_ok (ptab s ?pd ?i2)")
        case n3: True
        then have w3: "walk (ptab s) root [0, 0, ?i2] = Some (ptab s ?pd ?i2 AND ADDR_MASK)" using ok ne by simp
        show ?thesis using True e bn ne n3 ok k2 keep [OF p(2) w3] by (simp add: leaf_def)
      qed (use True e bn ne ok k2 in \<open>simp add: leaf_def\<close>)
    qed (use True e bn ok in \<open>simp add: leaf_def\<close>)
  qed
qed


definition sample_kernel_wide :: paging_state where
  "sample_kernel_wide = sample_kernel\<lparr>pmm_bitmap := pmm_clear_bit (pmm_clear_bit (\<lambda>_. 0xFF) 287) 288, free_count := 2\<rparr>"

lemma sample_kernel_wide_tree:
  "table_tree sample_kernel_wide 0x11A000" "cr3 sample_kernel_wide AND ADDR_MASK = 0x11A000"
  "free_set sample_kernel_wide = {287, 288}"
proof -
  have one: "{f. f < 262144 \<and> \<not> pmm_test_bit (pmm_clear_bit (\<lambda>_. 0xFF) 287) f} = {287}"
    using sample_one_free_ok(1) by (simp add: free_set_def sample_one_free_def)
  have "free_set sample_kernel_wide = insert 288 {f. f < 262144 \<and> \<not> pmm_test_bit (pmm_clear_bit (\<lambda>_. 0xFF) 287) f}"
    by (auto simp: free_set_def sample_kernel_wide_def pmm_bits.tst_clr)
  then show fs: "free_set sample_kernel_wide = {287, 288}" using one by auto
  have ok: "pmm_ok sample_kernel_wide" using fs by (simp add: pmm_ok_def pmm_inv_def sample_kernel_wide_def)
  have av: "pmm_avail sample_kernel_wide = {0x11F000, 0x120000}"
    using fs by (simp add: pmm_avail_def frame_addr_def FRAME_SIZE_def)
  have huge: "\<not> is_huge (ptab sample_kernel 0x11A000 i)" for i
    by (simp add: sample_kernel_def is_huge_def has_flag_def page_flags)
  have m: "ptab sample_kernel_wide = ptab sample_kernel" by (simp add: sample_kernel_wide_def)
  show "table_tree sample_kernel_wide 0x11A000"
    unfolding table_tree_def m sample_kernel_walk av using ok huge by auto
  show "cr3 sample_kernel_wide AND ADDR_MASK = 0x11A000"
    using sample_kernel_tree(2) by (simp add: sample_kernel_wide_def)
qed

lemma sample_kernel_wide_creates: "fst (create_address_space sample_kernel_wide) = 0x11F000"
proof -
  let ?s = sample_kernel_wide
  have e: "ptab ?s 0x11A000 0 = 0x11B003" by (simp add: sample_kernel_wide_def sample_kernel_def)
  have m: "Min {287, 288 :: nat} = 287" by simp
  obtain b c where al: "alloc_frame ?s = (frame_addr 287, ?s\<lparr>pmm_bitmap := b, free_count := c\<rparr>)"
    "free_set (?s\<lparr>pmm_bitmap := b, free_count := c\<rparr>) = {287, 288} - {287}"
    using alloc_frame_take [of ?s] sample_kernel_wide_tree(3) table_treeD(4) [OF sample_kernel_wide_tree(1)] m by auto
  have f: "frame_addr 287 = 0x11F000" "frame_addr 288 = 0x120000" by (simp_all add: frame_addr_def FRAME_SIZE_def)
  have fs: "free_set (?s\<lparr>pmm_bitmap := b, free_count := c\<rparr>) = {288}" using al(2) by auto
  have "fst (alloc_frame (?s\<lparr>pmm_bitmap := b, free_count := c\<rparr>)) = 0x120000"
    unfolding alloc_frame_spec fs by (simp add: f)
  then show ?thesis
    unfolding create_address_space_def Let_def sample_kernel_wide_tree(2) e al(1)
    by (auto simp: has_flag_def PAGE_PRESENT_def f split: prod.split)
qed


section \<open>Destroying an address space\<close>

lemma free_frame_gives:
  assumes "f < 262144"
  shows "free_set (free_frame (frame_addr f) s) = insert f (free_set s)" "ptab (free_frame (frame_addr f) s) = ptab s"
proof -
  have u: "unat (frame_addr f) = f * 4096" by (rule unat_frame_addr [OF assms])
  then have "frame_addr f mod 4096 = 0" by (simp add: unat_eq_zero [symmetric] unat_mod_distrib del: unat_eq_zero)
  show "ptab (free_frame (frame_addr f) s) = ptab s" by (simp add: free_frame_cases)
  show "free_set (free_frame (frame_addr f) s) = insert f (free_set s)"
    unfolding free_frame_cases u using assms free_set_clear [OF assms, of s] by auto
qed

lemma destroy_pdpt_empty:
  assumes "\<forall>i. 1 \<le> i \<and> i < 512 \<longrightarrow> \<not> has_flag (ptab s t i) PAGE_PRESENT"
  shows "destroy_pdpt t s = s"
proof -
  have "fold (\<lambda>i s. if \<not> has_flag (ptab s t i) PAGE_PRESENT \<or> is_huge (ptab s t i) then s
          else free_frame (ptab s t i AND ADDR_MASK) (destroy_pd (ptab s t i AND ADDR_MASK) s)) is s = s"
    if "\<forall>i\<in>set is. \<not> has_flag (ptab s t i) PAGE_PRESENT" for "is"
    using that by (induction "is") auto
  then show ?thesis using assms by (simp add: destroy_pdpt_def)
qed



end
