(* ===== verification/Task.thy ===== *)
theory Task
  imports Paging_Space Heap_Sharing
begin

text \<open>
  The task table of \<^verbatim>\<open>kernel/task.cpp\<close>: creation of tasks, process identifiers, the parent-child lists
  and the switch between tasks. A pointer into the table is the index of its slot, \<open>None\<close> the null
  pointer. Walks along child lists are \<^theory_text>\<open>partial_function (option)\<close>, and so is everything that may
  call \<open>kmalloc\<close> or \<open>kfree\<close>: \<open>None\<close> is a loop that never ends. Each operation is one step up to the
  point where another task runs. \<open>reschedule\<close>, \<open>exit_current\<close> and the heap mask interrupts, and system calls run
  behind an interrupt gate; creating, blocking, sleeping and waiting from a kernel task do not mask them before
  they reschedule, and a timer interrupt inside them is not modelled.
\<close>

section \<open>State\<close>

datatype task_State = Dead | New | Ready | Running | Blocked | Sleeping | Zombie

record Task =
  t_rsp :: u64
  t_stack_base :: u64
  t_entry :: u64
  t_state :: task_State
  t_pid :: u64
  t_generation :: u64
  t_parent_pid :: u64
  t_first_child :: u64
  t_next_sibling :: u64
  t_exit_code :: int
  t_wake_tick :: u64
  t_name :: string
  t_cr3 :: u64
  t_user_entry :: u64
  t_user_stack_top :: u64

record PendingCleanup =
  pc_stack_base :: u64
  pc_cr3 :: u64
  pc_active :: bool

record cpu_regs =
  r_rsp :: u64
  r_rip :: u64
  r_rflags :: u64
  r_rbx :: u64
  r_rbp :: u64
  r_r12 :: u64
  r_r13 :: u64
  r_r14 :: u64
  r_r15 :: u64

definition TASK_STACK_SIZE :: u64 where "TASK_STACK_SIZE = 16384"
definition NO_PID :: u64 where "NO_PID = 0"
definition MAX_TASKS :: nat where "MAX_TASKS = 128"
definition PID_INDEX_BITS :: nat where "PID_INDEX_BITS = 8"
definition PID_INDEX_FIELD_MASK :: u64 where "PID_INDEX_FIELD_MASK = push_bit PID_INDEX_BITS 1 - 1"
definition PID_GENERATION_MAX :: u64 where "PID_GENERATION_MAX = NOT 0"
definition INIT_IDLE_POLL_TICKS :: u64 where "INIT_IDLE_POLL_TICKS = 9"

record task_state = paging_state +
  tasks :: "nat \<Rightarrow> Task"
  current_index :: int
  kernel_cr3 :: u64
  loaded_cr3 :: u64
  pending_cleanup :: PendingCleanup
  init_pid :: u64
  stack_mem :: "u64 \<Rightarrow> u64"
  cpu :: cpu_regs
  tss_rsp0 :: u64
  timer_ticks :: u64
  tick_counter :: int

abbreviation upd_task :: "nat \<Rightarrow> (Task \<Rightarrow> Task) \<Rightarrow> 'a task_state_scheme \<Rightarrow> 'a task_state_scheme" where
  "upd_task i f s \<equiv> s\<lparr>tasks := (tasks s)(i := f (tasks s i))\<rparr>"

section \<open>Process identifiers\<close>

definition make_pid :: "nat \<Rightarrow> u64 \<Rightarrow> u64" where
  "make_pid slot_index generation = push_bit PID_INDEX_BITS generation OR (of_nat slot_index + 1)"

definition pid_slot_index :: "u64 \<Rightarrow> int" where
  "pid_slot_index pid = int (unat (pid AND PID_INDEX_FIELD_MASK)) - 1"

definition pid_generation :: "u64 \<Rightarrow> u64" where
  "pid_generation pid = drop_bit PID_INDEX_BITS pid"

definition current :: "'a task_state_scheme \<Rightarrow> nat option" where
  "current s = (if current_index s < 0 then None else Some (nat (current_index s)))"

definition task_at :: "int \<Rightarrow> nat option" where
  "task_at index = (if index < 0 \<or> index \<ge> int MAX_TASKS then None else Some (nat index))"

definition find_by_pid :: "u64 \<Rightarrow> 'a task_state_scheme \<Rightarrow> nat option" where
  "find_by_pid pid s =
     (if pid = NO_PID then None
      else
        let index = pid_slot_index pid in
        if index < 0 \<or> index \<ge> int MAX_TASKS then None
        else
          let t = nat index in
          if t_state (tasks s t) = Dead then None
          else if t_pid (tasks s t) \<noteq> pid then None
          else Some t)"

section \<open>Slots and child lists\<close>

definition find_free_slot :: "'a task_state_scheme \<Rightarrow> nat option" where
  "find_free_slot s =
     List.find (\<lambda>i. t_state (tasks s i) = Dead \<and> t_generation (tasks s i) \<noteq> PID_GENERATION_MAX) [0..<MAX_TASKS]"

definition add_child :: "nat \<Rightarrow> nat \<Rightarrow> 'a task_state_scheme \<Rightarrow> 'a task_state_scheme" where
  "add_child parent child s =
     (let s = upd_task child (t_next_sibling_update (\<lambda>_. t_first_child (tasks s parent))) s
      in upd_task parent (t_first_child_update (\<lambda>_. t_pid (tasks s child))) s)"

text \<open>The walk of \<open>remove_child\<close> to the predecessor of the child in the list.\<close>

partial_function (option) remove_walk :: "'a task_state_scheme \<Rightarrow> u64 \<Rightarrow> u64 \<Rightarrow> nat option option" where
  "remove_walk s prev_pid child_pid =
     (if prev_pid = NO_PID then Some None
      else
        case find_by_pid prev_pid s of
          None \<Rightarrow> Some None
        | Some prev \<Rightarrow>
            if t_next_sibling (tasks s prev) = child_pid then Some (Some prev)
            else remove_walk s (t_next_sibling (tasks s prev)) child_pid)"

definition sibling_after :: "u64 \<Rightarrow> 'a task_state_scheme \<Rightarrow> u64" where
  "sibling_after child_pid s =
     (case find_by_pid child_pid s of Some child \<Rightarrow> t_next_sibling (tasks s child) | None \<Rightarrow> NO_PID)"

definition remove_child :: "nat \<Rightarrow> u64 \<Rightarrow> 'a task_state_scheme \<Rightarrow> 'a task_state_scheme option" where
  "remove_child parent child_pid s =
     (if t_first_child (tasks s parent) = child_pid then
        Some (upd_task parent (t_first_child_update (\<lambda>_. sibling_after child_pid s)) s)
      else
        case remove_walk s (t_first_child (tasks s parent)) child_pid of
          None \<Rightarrow> None
        | Some None \<Rightarrow> Some s
        | Some (Some prev) \<Rightarrow>
            Some (upd_task prev (t_next_sibling_update (\<lambda>_. sibling_after child_pid s)) s))"

section \<open>Context switch\<close>

definition push_word :: "u64 \<Rightarrow> 'a task_state_scheme \<Rightarrow> 'a task_state_scheme" where
  "push_word v s =
     (let sp = r_rsp (cpu s) - 8
      in s\<lparr>stack_mem := (stack_mem s)(sp := v), cpu := (cpu s)\<lparr>r_rsp := sp\<rparr>\<rparr>)"

text \<open>
  \<^verbatim>\<open>task_switch.asm\<close>: save the callee-saved registers and flags on the current stack, hand out the
  stack pointer, load the other one and restore from it; \<open>ret\<close> takes the return address. At the call
  the return address of the caller is on the stack.
\<close>

definition switch_context :: "u64 \<Rightarrow> 'a task_state_scheme \<Rightarrow> u64 \<times> 'a task_state_scheme" where
  "switch_context new_rsp s =
     (let c = cpu s;
          s = push_word (r_rip c) s;
          s = push_word (r_rbx c) s;
          s = push_word (r_rbp c) s;
          s = push_word (r_r12 c) s;
          s = push_word (r_r13 c) s;
          s = push_word (r_r14 c) s;
          s = push_word (r_r15 c) s;
          s = push_word (r_rflags c) s;
          m = stack_mem s;
          c' = \<lparr>r_rsp = new_rsp + 64, r_rip = m (new_rsp + 56), r_rflags = m new_rsp, r_rbx = m (new_rsp + 48),
                r_rbp = m (new_rsp + 40), r_r12 = m (new_rsp + 32), r_r13 = m (new_rsp + 24),
                r_r14 = m (new_rsp + 16), r_r15 = m (new_rsp + 8)\<rparr>
      in (r_rsp (cpu s), s\<lparr>cpu := c'\<rparr>))"

definition reap_pending_cleanup :: "'a task_state_scheme \<Rightarrow> 'a task_state_scheme option" where
  "reap_pending_cleanup s =
     (if \<not> pc_active (pending_cleanup s) then Some s
      else
        let stack_base = pc_stack_base (pending_cleanup s);
            c3 = pc_cr3 (pending_cleanup s);
            s = s\<lparr>pending_cleanup := \<lparr>pc_stack_base = 0, pc_cr3 = 0, pc_active = False\<rparr>\<rparr>
        in case (if stack_base \<noteq> 0 then map_option snd (kfree stack_base s) else Some s) of
             None \<Rightarrow> None
           | Some s \<Rightarrow> Some (if c3 \<noteq> 0 then destroy_address_space c3 s else s))"

definition set_kernel_stack :: "u64 \<Rightarrow> 'a task_state_scheme \<Rightarrow> 'a task_state_scheme" where
  "set_kernel_stack rsp0_top s = s\<lparr>tss_rsp0 := rsp0_top\<rparr>"

text \<open>
  \<open>switch_to\<close>: after \<open>switch_context\<close> the code continues in the next task, which reaps either at the
  end of its own earlier call of \<open>switch_to\<close> or at the start of \<open>task_trampoline\<close>.
\<close>

definition load_space :: "nat \<Rightarrow> 'a task_state_scheme \<Rightarrow> 'a task_state_scheme" where
  "load_space next s =
     (let target_cr3 = (if t_cr3 (tasks s next) \<noteq> 0 then t_cr3 (tasks s next) else kernel_cr3 s) in
      if target_cr3 \<noteq> loaded_cr3 s then s\<lparr>cr3 := target_cr3, loaded_cr3 := target_cr3\<rparr> else s)"

definition switch_to :: "nat option \<Rightarrow> 'a task_state_scheme \<Rightarrow> 'a task_state_scheme option" where
  "switch_to target s =
     (case target of
        None \<Rightarrow> Some s
      | Some next \<Rightarrow>
          let prev = current s in
          if prev = Some next then Some s
          else
            let s = (case prev of
                       Some p \<Rightarrow> if t_state (tasks s p) = Running
                                  then upd_task p (t_state_update (\<lambda>_. Ready)) s else s
                     | None \<Rightarrow> s);
                s = upd_task next (t_state_update (\<lambda>_. Running)) s;
                s = (if next < MAX_TASKS then s\<lparr>current_index := int next\<rparr> else s);
                s = load_space next s;
                s = (if t_stack_base (tasks s next) \<noteq> 0
                     then set_kernel_stack (t_stack_base (tasks s next) + TASK_STACK_SIZE) s else s);
                (saved, s) = switch_context (t_rsp (tasks s next)) s;
                s = (case prev of Some p \<Rightarrow> upd_task p (t_rsp_update (\<lambda>_. saved)) s | None \<Rightarrow> s)
            in reap_pending_cleanup s)"

section \<open>Creation\<close>

text \<open>
  The stack of a new task is laid out so that \<open>switch_context\<close> restores cleared registers, flags with
  interrupts enabled, and returns to \<open>task_trampoline\<close>, whose address is an argument.
\<close>

definition build_stack :: "u64 \<Rightarrow> u64 \<Rightarrow> (u64 \<Rightarrow> u64) \<Rightarrow> u64 \<times> (u64 \<Rightarrow> u64)" where
  "build_stack trampoline stack_top m =
     fold (\<lambda>v (sp, m). (sp - 8, m(sp - 8 := v))) [trampoline, 0, 0, 0, 0, 0, 0, 0x202] (stack_top, m)"

definition init_common_slot ::
  "u64 \<Rightarrow> u64 \<Rightarrow> string \<Rightarrow> 'a task_state_scheme \<Rightarrow> (nat option \<times> 'a task_state_scheme) option" where
  "init_common_slot trampoline entry name s =
     (case find_free_slot s of
        None \<Rightarrow> Some (None, s)
      | Some slot \<Rightarrow>
          case kmalloc TASK_STACK_SIZE s of
            None \<Rightarrow> None
          | Some (stack, s) \<Rightarrow>
              if stack = 0 then Some (None, s)
              else
                let s = upd_task slot (t_state_update (\<lambda>_. New)) s;
                    (sp, m) = build_stack trampoline (stack + TASK_STACK_SIZE) (stack_mem s);
                    s = s\<lparr>stack_mem := m\<rparr>;
                    gen = t_generation (tasks s slot) + 1;
                    s = upd_task slot (\<lambda>t. t\<lparr>t_rsp := sp, t_stack_base := stack, t_entry := entry,
                          t_generation := gen, t_pid := make_pid slot gen\<rparr>) s;
                    parent = current s;
                    s = upd_task slot (\<lambda>t. t\<lparr>t_parent_pid := (case parent of Some p \<Rightarrow> t_pid (tasks s p) | None \<Rightarrow> NO_PID),
                          t_first_child := NO_PID, t_next_sibling := NO_PID\<rparr>) s;
                    s = (case parent of Some p \<Rightarrow> add_child p slot s | None \<Rightarrow> s);
                    s = upd_task slot (\<lambda>t. t\<lparr>t_exit_code := 0, t_wake_tick := 0, t_name := name\<rparr>) s
                in Some (Some slot, s))"

definition create :: "u64 \<Rightarrow> u64 \<Rightarrow> string \<Rightarrow> 'a task_state_scheme \<Rightarrow> (nat option \<times> 'a task_state_scheme) option" where
  "create trampoline entry name s =
     (case init_common_slot trampoline entry name s of
        None \<Rightarrow> None
      | Some (None, s) \<Rightarrow> Some (None, s)
      | Some (Some slot, s) \<Rightarrow> Some (Some slot, upd_task slot (\<lambda>t. t\<lparr>t_cr3 := 0, t_state := Ready\<rparr>) s))"

definition create_process ::
  "u64 \<Rightarrow> u64 \<Rightarrow> string \<Rightarrow> u64 \<Rightarrow> u64 \<Rightarrow> u64 \<Rightarrow> 'a task_state_scheme \<Rightarrow> (nat option \<times> 'a task_state_scheme) option" where
  "create_process trampoline entry name c3 user_entry user_stack_top s =
     (case init_common_slot trampoline entry name s of
        None \<Rightarrow> None
      | Some (None, s) \<Rightarrow> Some (None, s)
      | Some (Some slot, s) \<Rightarrow>
          Some (Some slot, upd_task slot (\<lambda>t. t\<lparr>t_cr3 := c3, t_user_entry := user_entry,
                  t_user_stack_top := user_stack_top, t_state := Ready\<rparr>) s))"

text \<open>
  \<open>init\<close>: slot 0 becomes the running shell, then the idle and the init task are created and taken out
  of the shell's child list. The entry points are arguments.
\<close>

definition task_init_slots :: "'a task_state_scheme \<Rightarrow> 'a task_state_scheme" where
  "task_init_slots s =
     (let s = fold (\<lambda>i. upd_task i (t_state_update (\<lambda>_. Dead))) [0..<MAX_TASKS] s;
          s = s\<lparr>kernel_cr3 := cr3 s, loaded_cr3 := cr3 s\<rparr>;
          gen = t_generation (tasks s 0) + 1;
          s = upd_task 0 (\<lambda>t. t\<lparr>t_rsp := 0, t_stack_base := 0, t_entry := 0, t_state := Running,
                t_generation := gen, t_pid := make_pid 0 gen, t_parent_pid := NO_PID, t_first_child := NO_PID,
                t_next_sibling := NO_PID, t_exit_code := 0, t_wake_tick := 0, t_name := ''shell'', t_cr3 := 0\<rparr>) s
      in s\<lparr>current_index := 0\<rparr>)"

definition detach_from_shell :: "nat \<Rightarrow> 'a task_state_scheme \<Rightarrow> 'a task_state_scheme option" where
  "detach_from_shell t s =
     map_option (upd_task t (t_parent_pid_update (\<lambda>_. NO_PID))) (remove_child 0 (t_pid (tasks s t)) s)"

definition task_init :: "u64 \<Rightarrow> u64 \<Rightarrow> u64 \<Rightarrow> 'a task_state_scheme \<Rightarrow> 'a task_state_scheme option" where
  "task_init trampoline idle_entry init_entry s =
     (case create trampoline idle_entry ''idle'' (task_init_slots s) of
        None \<Rightarrow> None
      | Some (idle, s) \<Rightarrow>
          case (case idle of Some t \<Rightarrow> detach_from_shell t s | None \<Rightarrow> Some s) of
            None \<Rightarrow> None
          | Some s \<Rightarrow>
              case create trampoline init_entry ''init'' s of
                None \<Rightarrow> None
              | Some (None, s) \<Rightarrow> Some s
              | Some (Some t, s) \<Rightarrow>
                  map_option (\<lambda>s'. s'\<lparr>init_pid := t_pid (tasks s' t)\<rparr>) (detach_from_shell t s))"

section \<open>Scheduling\<close>

definition TICKS_PER_SWITCH :: int where "TICKS_PER_SWITCH = 5"

definition index_of :: "nat option \<Rightarrow> int" where
  "index_of candidate =
     (case candidate of Some c \<Rightarrow> if c < MAX_TASKS then int c else - 1 | None \<Rightarrow> - 1)"

definition wake_sleeping_tasks :: "'a task_state_scheme \<Rightarrow> 'a task_state_scheme" where
  "wake_sleeping_tasks s =
     (let now = timer_ticks s in
      fold (\<lambda>i s. if t_state (tasks s i) = Sleeping \<and> now \<ge> t_wake_tick (tasks s i)
                  then upd_task i (t_state_update (\<lambda>_. Ready)) s else s) [0..<MAX_TASKS] s)"

text \<open>The first ready task at an offset from the current one, in cyclic order.\<close>

definition next_ready :: "int \<Rightarrow> 'a task_state_scheme \<Rightarrow> nat option" where
  "next_ready start s =
     map_option (\<lambda>offset. nat ((start + int offset) mod int MAX_TASKS))
       (List.find (\<lambda>offset. t_state (tasks s (nat ((start + int offset) mod int MAX_TASKS))) = Ready) [1..<MAX_TASKS + 1])"

definition reschedule :: "'a task_state_scheme \<Rightarrow> 'a task_state_scheme option" where
  "reschedule s =
     (let start = (if index_of (current s) < 0 then 0 else index_of (current s)) in
      case next_ready start s of
        Some i \<Rightarrow> switch_to (Some i) s
      | None \<Rightarrow> Some s)"

definition yield :: "'a task_state_scheme \<Rightarrow> 'a task_state_scheme option" where
  "yield s = reschedule s"

definition tick :: "'a task_state_scheme \<Rightarrow> 'a task_state_scheme option" where
  "tick s =
     (let s = wake_sleeping_tasks s;
          s = s\<lparr>tick_counter := tick_counter s + 1\<rparr> in
      if tick_counter s < TICKS_PER_SWITCH then Some s
      else reschedule (s\<lparr>tick_counter := 0\<rparr>))"

text \<open>The timer interrupt of \<^verbatim>\<open>interrupts.cpp\<close>.\<close>

definition timer_irq :: "'a task_state_scheme \<Rightarrow> 'a task_state_scheme option" where
  "timer_irq s = tick (s\<lparr>timer_ticks := timer_ticks s + 1\<rparr>)"

section \<open>Blocking, sleeping, waiting\<close>

definition block_current :: "'a task_state_scheme \<Rightarrow> 'a task_state_scheme option" where
  "block_current s =
     (case current s of
        None \<Rightarrow> Some s
      | Some self \<Rightarrow> reschedule (upd_task self (t_state_update (\<lambda>_. Blocked)) s))"

definition unblock :: "u64 \<Rightarrow> 'a task_state_scheme \<Rightarrow> 'a task_state_scheme" where
  "unblock pid s =
     (case find_by_pid pid s of
        Some t \<Rightarrow> if t_state (tasks s t) = Blocked then upd_task t (t_state_update (\<lambda>_. Ready)) s else s
      | None \<Rightarrow> s)"

definition sleep_current :: "u64 \<Rightarrow> 'a task_state_scheme \<Rightarrow> 'a task_state_scheme option" where
  "sleep_current ticks_to_sleep s =
     (case current s of
        None \<Rightarrow> Some s
      | Some self \<Rightarrow>
          reschedule (upd_task self (\<lambda>t. t\<lparr>t_wake_tick := timer_ticks s + ticks_to_sleep, t_state := Sleeping\<rparr>) s))"

text \<open>
  \<open>wait_for_child\<close> scans the children for a zombie and blocks if there is none; when it runs again it
  scans anew. One round of that loop is the scan and, in the last case, \<open>block_current\<close>. Interrupts
  are on between the two.
\<close>

datatype wait_result = NoChild | Reaped u64 int | NoZombie

partial_function (option) find_zombie :: "'a task_state_scheme \<Rightarrow> u64 \<Rightarrow> nat option option" where
  "find_zombie s child_pid =
     (if child_pid = NO_PID then Some None
      else
        case find_by_pid child_pid s of
          None \<Rightarrow> Some None
        | Some child \<Rightarrow>
            if t_state (tasks s child) = Zombie then Some (Some child)
            else find_zombie s (t_next_sibling (tasks s child)))"

definition wait_scan :: "'a task_state_scheme \<Rightarrow> (wait_result \<times> 'a task_state_scheme) option" where
  "wait_scan s =
     (case current s of
        None \<Rightarrow> Some (NoChild, s)
      | Some self \<Rightarrow>
          case find_zombie s (t_first_child (tasks s self)) of
            None \<Rightarrow> None
          | Some None \<Rightarrow> Some (NoZombie, s)
          | Some (Some child) \<Rightarrow>
              map_option
                (\<lambda>s'. (Reaped (t_pid (tasks s child)) (t_exit_code (tasks s child)),
                       upd_task child (\<lambda>t. t\<lparr>t_state := Dead, t_parent_pid := NO_PID\<rparr>) s'))
                (remove_child self (t_pid (tasks s child)) s))"

definition wait_round :: "'a task_state_scheme \<Rightarrow> (wait_result \<times> 'a task_state_scheme) option" where
  "wait_round s =
     (case wait_scan s of
        None \<Rightarrow> None
      | Some (NoZombie, s) \<Rightarrow> map_option (Pair NoZombie) (block_current s)
      | Some (r, s) \<Rightarrow> Some (r, s))"

text \<open>The call itself: without children it fails at once, otherwise the rounds begin.\<close>

definition wait_for_child :: "'a task_state_scheme \<Rightarrow> (wait_result \<times> 'a task_state_scheme) option" where
  "wait_for_child s =
     (case current s of
        None \<Rightarrow> Some (NoChild, s)
      | Some self \<Rightarrow> if t_first_child (tasks s self) = NO_PID then Some (NoChild, s) else wait_round s)"

section \<open>Exit\<close>

text \<open>The loop of \<open>exit_current\<close> that hands the children to the init task.\<close>

partial_function (option) reparent :: "nat option \<Rightarrow> u64 \<Rightarrow> 'a task_state_scheme \<Rightarrow> 'a task_state_scheme option" where
  "reparent init_task child_pid s =
     (if child_pid = NO_PID then Some s
      else
        case find_by_pid child_pid s of
          None \<Rightarrow> Some s
        | Some child \<Rightarrow>
            reparent init_task (t_next_sibling (tasks s child))
              (unblock (init_pid s)
                (let s = upd_task child (\<lambda>t. t\<lparr>t_parent_pid := init_pid s, t_next_sibling := NO_PID\<rparr>) s
                 in case init_task of Some i \<Rightarrow> add_child i child s | None \<Rightarrow> s)))"

definition orphan_children :: "nat \<Rightarrow> 'a task_state_scheme \<Rightarrow> 'a task_state_scheme option" where
  "orphan_children self s =
     (if init_pid s \<noteq> NO_PID \<and> t_pid (tasks s self) \<noteq> init_pid s then
        map_option (upd_task self (t_first_child_update (\<lambda>_. NO_PID)))
          (reparent (find_by_pid (init_pid s) s) (t_first_child (tasks s self)) s)
      else Some s)"

definition become_zombie_or_dead :: "nat \<Rightarrow> 'a task_state_scheme \<Rightarrow> 'a task_state_scheme" where
  "become_zombie_or_dead self s =
     (if find_by_pid (t_parent_pid (tasks s self)) s \<noteq> None then
        unblock (t_parent_pid (tasks s self)) (upd_task self (t_state_update (\<lambda>_. Zombie)) s)
      else upd_task self (\<lambda>t. t\<lparr>t_state := Dead, t_parent_pid := NO_PID\<rparr>) s)"

definition exit_current :: "int \<Rightarrow> 'a task_state_scheme \<Rightarrow> 'a task_state_scheme option" where
  "exit_current exit_code s =
     (case (case current s of
              None \<Rightarrow> Some s
            | Some self \<Rightarrow>
                let t = tasks s self;
                    s = s\<lparr>pending_cleanup := \<lparr>pc_stack_base = t_stack_base t, pc_cr3 = t_cr3 t,
                          pc_active = (t_stack_base t \<noteq> 0 \<or> t_cr3 t \<noteq> 0)\<rparr>\<rparr>;
                    s = upd_task self (\<lambda>t. t\<lparr>t_stack_base := 0, t_cr3 := 0, t_exit_code := exit_code\<rparr>) s
                in map_option (become_zombie_or_dead self) (orphan_children self s)) of
        None \<Rightarrow> None
      | Some s \<Rightarrow> reschedule s)"

end
