(* ===== verification/Task_Frame.thy ===== *)
theory Task_Frame
  imports Task
begin

text \<open>
  What the memory operations that the task code calls leave alone: \<open>kmalloc\<close>, \<open>kfree\<close> and
  \<open>destroy_address_space\<close> touch the globals of the frame allocator and of the heap and nothing else.
  Two states that agree after those globals are blanked out agree on everything else.
\<close>

definition heap_mask :: "'a heap_state_scheme \<Rightarrow> 'a heap_state_scheme" where
  "heap_mask s = s\<lparr>pmm_bitmap := (\<lambda>_. 0), free_count := 0, hdrs := (\<lambda>_. blank_header), free_list_head := 0,
     heap_min := 0, heap_max := 0\<rparr>"

lemma heap_mask_upd [simp]:
  "heap_mask (s\<lparr>pmm_bitmap := b\<rparr>) = heap_mask s" "heap_mask (s\<lparr>free_count := c\<rparr>) = heap_mask s"
  "heap_mask (s\<lparr>hdrs := h\<rparr>) = heap_mask s" "heap_mask (s\<lparr>free_list_head := p\<rparr>) = heap_mask s"
  "heap_mask (s\<lparr>heap_min := m\<rparr>) = heap_mask s" "heap_mask (s\<lparr>heap_max := n\<rparr>) = heap_mask s"
  by (simp_all add: heap_mask_def)

lemma free_frame_mask [simp]: "heap_mask (free_frame a s) = heap_mask s"
  by (simp add: free_frame_cases)

lemma alloc_frame_mask: "alloc_frame s = (a, s') \<Longrightarrow> heap_mask s' = heap_mask s"
  by (auto simp: alloc_frame_spec split: if_splits)

lemma fold_mask: "(\<And>i t. heap_mask (f i t) = heap_mask t) \<Longrightarrow> heap_mask (fold f xs s) = heap_mask s"
  by (induction xs arbitrary: s) auto

lemma destroy_pt_mask [simp]: "heap_mask (destroy_pt a s) = heap_mask s"
  unfolding destroy_pt_def by (rule fold_mask) simp

lemma destroy_pd_mask [simp]: "heap_mask (destroy_pd a s) = heap_mask s"
  unfolding destroy_pd_def by (rule fold_mask) simp

lemma destroy_pdpt_mask [simp]: "heap_mask (destroy_pdpt a s) = heap_mask s"
  unfolding destroy_pdpt_def by (rule fold_mask) simp

lemma destroy_address_space_mask [simp]: "heap_mask (destroy_address_space a s) = heap_mask s"
  by (simp add: destroy_address_space_def Let_def)

lemma release_block_mask: "release_block a s = Some s' \<Longrightarrow> heap_mask s' = heap_mask s"
  by (auto simp: release_block_alt Let_def split: if_splits option.splits)

lemma kfree_mask:
  assumes "kfree p s = Some (r, s')"
  shows "heap_mask s' = heap_mask s"
proof -
  have "s' = s \<or> (\<exists>a. release_block a s = Some s')"
    using assms by (auto simp: kfree_def Let_def split: if_splits option.splits bool.splits)
  then show ?thesis using release_block_mask by blast
qed

lemma insert_free_block_mask: "insert_free_block a s = Some s' \<Longrightarrow> heap_mask s' = heap_mask s"
  by (auto simp: insert_free_block_def Let_def split: if_splits option.splits)

lemma grow_heap_mask:
  assumes "grow_heap s = Some (g, s')"
  shows "heap_mask s' = heap_mask s"
proof -
  obtain a t where al: "alloc_frame s = (a, t)" by fastforce
  have "s' = t \<or> (\<exists>u. insert_free_block a u = Some s' \<and> heap_mask u = heap_mask t)"
    using assms al by (auto simp: grow_heap_def Let_def split: if_splits option.splits)
  then show ?thesis using alloc_frame_mask [OF al] insert_free_block_mask by metis
qed

lemma kmalloc_loop_mask: "kmalloc_loop n sz s = Some (p, s') \<Longrightarrow> heap_mask s' = heap_mask s"
proof (induction n arbitrary: s)
  case (Suc n)
  then show ?case
    by (auto split: option.splits if_splits prod.splits dest!: grow_heap_mask)
qed simp

lemma kmalloc_mask: "kmalloc n s = Some (p, s') \<Longrightarrow> heap_mask s' = heap_mask s"
  using kmalloc_loop_mask by (auto simp: kmalloc_def simp del: kmalloc_loop.simps split: if_splits)

text \<open>The globals of the task module are outside the mask.\<close>

lemma mask_task_fields:
  assumes "heap_mask s' = heap_mask s"
  shows "tasks s' = tasks s" "current_index s' = current_index s" "kernel_cr3 s' = kernel_cr3 s"
    "loaded_cr3 s' = loaded_cr3 s" "pending_cleanup s' = pending_cleanup s" "init_pid s' = init_pid s"
    "stack_mem s' = stack_mem s" "cpu s' = cpu s" "tss_rsp0 s' = tss_rsp0 s" "timer_ticks s' = timer_ticks s"
    "tick_counter s' = tick_counter s" "ptab s' = ptab s" "cr3 s' = cr3 s"
proof -
  have "tasks (heap_mask s') = tasks (heap_mask s)" "current_index (heap_mask s') = current_index (heap_mask s)"
    "kernel_cr3 (heap_mask s') = kernel_cr3 (heap_mask s)" "loaded_cr3 (heap_mask s') = loaded_cr3 (heap_mask s)"
    "pending_cleanup (heap_mask s') = pending_cleanup (heap_mask s)" "init_pid (heap_mask s') = init_pid (heap_mask s)"
    "stack_mem (heap_mask s') = stack_mem (heap_mask s)" "cpu (heap_mask s') = cpu (heap_mask s)"
    "tss_rsp0 (heap_mask s') = tss_rsp0 (heap_mask s)" "timer_ticks (heap_mask s') = timer_ticks (heap_mask s)"
    "tick_counter (heap_mask s') = tick_counter (heap_mask s)" "ptab (heap_mask s') = ptab (heap_mask s)"
    "cr3 (heap_mask s') = cr3 (heap_mask s)"
    using assms by simp_all
  then show "tasks s' = tasks s" "current_index s' = current_index s" "kernel_cr3 s' = kernel_cr3 s"
    "loaded_cr3 s' = loaded_cr3 s" "pending_cleanup s' = pending_cleanup s" "init_pid s' = init_pid s"
    "stack_mem s' = stack_mem s" "cpu s' = cpu s" "tss_rsp0 s' = tss_rsp0 s" "timer_ticks s' = timer_ticks s"
    "tick_counter s' = tick_counter s" "ptab s' = ptab s" "cr3 s' = cr3 s"
    by (simp_all add: heap_mask_def)
qed

text \<open>Reaping clears the pending cleanup and keeps everything else of the task module.\<close>

lemma reap_keeps:
  assumes "reap_pending_cleanup s = Some s'"
  shows "tasks s' = tasks s" "current_index s' = current_index s" "init_pid s' = init_pid s"
    "timer_ticks s' = timer_ticks s" "tick_counter s' = tick_counter s" "\<not> pc_active (pending_cleanup s')"
    "cpu s' = cpu s" "stack_mem s' = stack_mem s" "kernel_cr3 s' = kernel_cr3 s" "loaded_cr3 s' = loaded_cr3 s"
    "cr3 s' = cr3 s"
proof -
  let ?p = "\<lparr>pc_stack_base = 0, pc_cr3 = 0, pc_active = False\<rparr>"
  have "s' = s \<and> \<not> pc_active (pending_cleanup s) \<or> heap_mask s' = heap_mask (s\<lparr>pending_cleanup := ?p\<rparr>)"
    using assms by (auto simp: reap_pending_cleanup_def Let_def kfree_mask split: if_splits option.splits)
  then have "tasks s' = tasks s \<and> current_index s' = current_index s \<and> init_pid s' = init_pid s \<and>
    timer_ticks s' = timer_ticks s \<and> tick_counter s' = tick_counter s \<and> \<not> pc_active (pending_cleanup s') \<and>
    cpu s' = cpu s \<and> stack_mem s' = stack_mem s \<and> kernel_cr3 s' = kernel_cr3 s \<and> loaded_cr3 s' = loaded_cr3 s \<and>
    cr3 s' = cr3 s"
    by (elim disjE) (auto dest: mask_task_fields)
  then show "tasks s' = tasks s" "current_index s' = current_index s" "init_pid s' = init_pid s"
    "timer_ticks s' = timer_ticks s" "tick_counter s' = tick_counter s" "\<not> pc_active (pending_cleanup s')"
    "cpu s' = cpu s" "stack_mem s' = stack_mem s" "kernel_cr3 s' = kernel_cr3 s" "loaded_cr3 s' = loaded_cr3 s"
    "cr3 s' = cr3 s" by auto
qed

end
