(* ===== verification/Task_Steps.thy ===== *)
theory Task_Steps
  imports Task_Correct
begin

text \<open>
  The steps of the kernel on the task table, the invariant they keep, and what follows from it: the
  running task is unique, a switch never leaves a destroyed address space loaded, a ready task is not
  overtaken for longer than one round, and an exit code reaches the parent.
\<close>

section \<open>Effect of a switch\<close>

definition space_of :: "'a task_state_scheme \<Rightarrow> nat \<Rightarrow> u64" where
  "space_of s k = (if t_cr3 (tasks s k) \<noteq> 0 then t_cr3 (tasks s k) else kernel_cr3 s)"

text \<open>The state of slot \<open>k\<close> after a switch to \<open>n\<close>.\<close>

definition state_after :: "'a task_state_scheme \<Rightarrow> nat \<Rightarrow> nat \<Rightarrow> task_State" where
  "state_after s n k =
     (if k = n then Running
      else if current s = Some k \<and> t_state (tasks s k) = Running then Ready else t_state (tasks s k))"

lemma push_word_keeps [simp]:
  "tasks (push_word r s) = tasks s" "current_index (push_word r s) = current_index s"
  "pending_cleanup (push_word r s) = pending_cleanup s" "init_pid (push_word r s) = init_pid s"
  "timer_ticks (push_word r s) = timer_ticks s" "tick_counter (push_word r s) = tick_counter s"
  "kernel_cr3 (push_word r s) = kernel_cr3 s" "loaded_cr3 (push_word r s) = loaded_cr3 s"
  "cr3 (push_word r s) = cr3 s"
  by (simp_all add: push_word_def Let_def)

lemma switch_context_keeps [simp]:
  "tasks (snd (switch_context r s)) = tasks s" "current_index (snd (switch_context r s)) = current_index s"
  "pending_cleanup (snd (switch_context r s)) = pending_cleanup s" "init_pid (snd (switch_context r s)) = init_pid s"
  "timer_ticks (snd (switch_context r s)) = timer_ticks s" "tick_counter (snd (switch_context r s)) = tick_counter s"
  "kernel_cr3 (snd (switch_context r s)) = kernel_cr3 s" "loaded_cr3 (snd (switch_context r s)) = loaded_cr3 s"
  "cr3 (snd (switch_context r s)) = cr3 s"
  by (simp_all add: switch_context_def Let_def)

lemma load_space_keeps [simp]:
  "tasks (load_space n s) = tasks s" "current_index (load_space n s) = current_index s"
  "pending_cleanup (load_space n s) = pending_cleanup s" "init_pid (load_space n s) = init_pid s"
  "timer_ticks (load_space n s) = timer_ticks s" "tick_counter (load_space n s) = tick_counter s"
  "kernel_cr3 (load_space n s) = kernel_cr3 s" "cpu (load_space n s) = cpu s" "stack_mem (load_space n s) = stack_mem s"
  "loaded_cr3 (load_space n s) = space_of s n"
  "cr3 s = loaded_cr3 s \<Longrightarrow> cr3 (load_space n s) = space_of s n"
  by (simp_all add: load_space_def space_of_def Let_def)

lemma set_kernel_stack_keeps [simp]:
  "tasks (set_kernel_stack a s) = tasks s" "current_index (set_kernel_stack a s) = current_index s"
  "pending_cleanup (set_kernel_stack a s) = pending_cleanup s" "init_pid (set_kernel_stack a s) = init_pid s"
  "timer_ticks (set_kernel_stack a s) = timer_ticks s" "tick_counter (set_kernel_stack a s) = tick_counter s"
  "kernel_cr3 (set_kernel_stack a s) = kernel_cr3 s" "loaded_cr3 (set_kernel_stack a s) = loaded_cr3 s"
  "cr3 (set_kernel_stack a s) = cr3 s" "cpu (set_kernel_stack a s) = cpu s"
  "stack_mem (set_kernel_stack a s) = stack_mem s"
  by (simp_all add: set_kernel_stack_def)

text \<open>The state of \<open>switch_to\<close> at the call of \<open>switch_context\<close>.\<close>

definition before_switch :: "nat \<Rightarrow> 'a task_state_scheme \<Rightarrow> 'a task_state_scheme" where
  "before_switch next s =
     (let s = (case current s of
                 Some p \<Rightarrow> if t_state (tasks s p) = Running then upd_task p (t_state_update (\<lambda>_. Ready)) s else s
               | None \<Rightarrow> s);
          s = upd_task next (t_state_update (\<lambda>_. Running)) s;
          s = (if next < MAX_TASKS then s\<lparr>current_index := int next\<rparr> else s);
          s = load_space next s
      in if t_stack_base (tasks s next) \<noteq> 0 then set_kernel_stack (t_stack_base (tasks s next) + TASK_STACK_SIZE) s else s)"

definition after_switch :: "nat \<Rightarrow> 'a task_state_scheme \<Rightarrow> 'a task_state_scheme" where
  "after_switch next s =
     (let b = before_switch next s;
          (saved, t) = switch_context (t_rsp (tasks b next)) b
      in case current s of Some p \<Rightarrow> upd_task p (t_rsp_update (\<lambda>_. saved)) t | None \<Rightarrow> t)"

lemma switch_to_alt:
  "current s \<noteq> Some n \<Longrightarrow> switch_to (Some n) s = reap_pending_cleanup (after_switch n s)"
  by (simp add: switch_to_def after_switch_def before_switch_def Let_def split_def)

lemma before_switch_fields:
  assumes "n < MAX_TASKS"
  shows "tasks (before_switch n s) = (\<lambda>k. (tasks s k)\<lparr>t_state := state_after s n k\<rparr>)"
    "current_index (before_switch n s) = int n" "pending_cleanup (before_switch n s) = pending_cleanup s"
    "init_pid (before_switch n s) = init_pid s" "timer_ticks (before_switch n s) = timer_ticks s"
    "tick_counter (before_switch n s) = tick_counter s" "kernel_cr3 (before_switch n s) = kernel_cr3 s"
    "loaded_cr3 (before_switch n s) = space_of s n" "cr3 s = loaded_cr3 s \<Longrightarrow> cr3 (before_switch n s) = space_of s n"
    "cpu (before_switch n s) = cpu s" "stack_mem (before_switch n s) = stack_mem s"
proof -
  let ?l = "\<lambda>k. (tasks s k)\<lparr>t_state := if current s = Some k \<and> t_state (tasks s k) = Running then Ready else t_state (tasks s k)\<rparr>"
  have l: "(case current s of Some p \<Rightarrow> if t_state (tasks s p) = Running then upd_task p (t_state_update (\<lambda>_. Ready)) s else s
      | None \<Rightarrow> s) = s\<lparr>tasks := ?l\<rparr>"
  proof (cases "\<exists>p. current s = Some p \<and> t_state (tasks s p) = Running")
    case True
    then obtain p where p: "current s = Some p" "t_state (tasks s p) = Running" by blast
    have "(tasks s)(p := (tasks s p)\<lparr>t_state := Ready\<rparr>) = ?l" using p by (auto simp: fun_eq_iff)
    then show ?thesis using p by simp
  next
    case False
    then have "?l = tasks s" by (auto simp: fun_eq_iff)
    then show ?thesis using False by (auto split: option.split)
  qed
  show "tasks (before_switch n s) = (\<lambda>k. (tasks s k)\<lparr>t_state := state_after s n k\<rparr>)"
    "current_index (before_switch n s) = int n" "pending_cleanup (before_switch n s) = pending_cleanup s"
    "init_pid (before_switch n s) = init_pid s" "timer_ticks (before_switch n s) = timer_ticks s"
    "tick_counter (before_switch n s) = tick_counter s" "kernel_cr3 (before_switch n s) = kernel_cr3 s"
    "loaded_cr3 (before_switch n s) = space_of s n" "cr3 s = loaded_cr3 s \<Longrightarrow> cr3 (before_switch n s) = space_of s n"
    "cpu (before_switch n s) = cpu s" "stack_mem (before_switch n s) = stack_mem s"
    unfolding before_switch_def Let_def l
    using assms by (simp_all add: state_after_def space_of_def fun_eq_iff)
qed

lemma after_switch_fields:
  assumes "n < MAX_TASKS"
  shows "\<exists>r. tasks (after_switch n s) = (\<lambda>k. (tasks s k)\<lparr>t_state := state_after s n k, t_rsp := r k\<rparr>)"
    "current_index (after_switch n s) = int n" "pending_cleanup (after_switch n s) = pending_cleanup s"
    "init_pid (after_switch n s) = init_pid s" "timer_ticks (after_switch n s) = timer_ticks s"
    "tick_counter (after_switch n s) = tick_counter s" "kernel_cr3 (after_switch n s) = kernel_cr3 s"
    "loaded_cr3 (after_switch n s) = space_of s n" "cr3 s = loaded_cr3 s \<Longrightarrow> cr3 (after_switch n s) = space_of s n"
proof -
  let ?b = "before_switch n s"
  let ?c = "switch_context (t_rsp (tasks ?b n)) ?b"
  have a: "after_switch n s = (case current s of Some p \<Rightarrow> upd_task p (t_rsp_update (\<lambda>_. fst ?c)) (snd ?c) | None \<Rightarrow> snd ?c)"
    by (simp add: after_switch_def Let_def split_def)
  show "\<exists>r. tasks (after_switch n s) = (\<lambda>k. (tasks s k)\<lparr>t_state := state_after s n k, t_rsp := r k\<rparr>)"
  proof (rule exI [of _ "\<lambda>k. if current s = Some k then fst ?c else t_rsp (tasks s k)"])
    show "tasks (after_switch n s) = (\<lambda>k. (tasks s k)\<lparr>t_state := state_after s n k,
        t_rsp := if current s = Some k then fst ?c else t_rsp (tasks s k)\<rparr>)"
      unfolding a by (auto simp: before_switch_fields(1) [OF assms] fun_eq_iff split: option.split)
  qed
  show "current_index (after_switch n s) = int n" "pending_cleanup (after_switch n s) = pending_cleanup s"
    "init_pid (after_switch n s) = init_pid s" "timer_ticks (after_switch n s) = timer_ticks s"
    "tick_counter (after_switch n s) = tick_counter s" "kernel_cr3 (after_switch n s) = kernel_cr3 s"
    "loaded_cr3 (after_switch n s) = space_of s n" "cr3 s = loaded_cr3 s \<Longrightarrow> cr3 (after_switch n s) = space_of s n"
    unfolding a by (auto simp: before_switch_fields [OF assms] split: option.split)
qed

text \<open>
  \<open>dispatched s n s'\<close>: the table after a switch from \<open>s\<close> to slot \<open>n\<close> that returned with \<open>s'\<close>.
\<close>

definition dispatched :: "'a task_state_scheme \<Rightarrow> nat \<Rightarrow> 'a task_state_scheme \<Rightarrow> bool" where
  "dispatched s n s' \<longleftrightarrow>
     (\<exists>r. tasks s' = (\<lambda>k. (tasks s k)\<lparr>t_state := state_after s n k, t_rsp := r k\<rparr>)) \<and>
     current_index s' = int n \<and> \<not> pc_active (pending_cleanup s') \<and> init_pid s' = init_pid s \<and>
     timer_ticks s' = timer_ticks s \<and> tick_counter s' = tick_counter s \<and> kernel_cr3 s' = kernel_cr3 s \<and>
     loaded_cr3 s' = space_of s n \<and> (cr3 s = loaded_cr3 s \<longrightarrow> cr3 s' = space_of s n)"

lemma switch_to_dispatched:
  assumes "switch_to (Some n) s = Some s'" "current s \<noteq> Some n" "n < MAX_TASKS"
  shows "dispatched s n s'"
proof -
  have r: "reap_pending_cleanup (after_switch n s) = Some s'" using assms(1) switch_to_alt [OF assms(2)] by simp
  show ?thesis
    unfolding dispatched_def reap_keeps(1,2,3,4,5,9,10,11) [OF r]
    using after_switch_fields [OF assms(3), of s] reap_keeps(6) [OF r] by simp
qed

lemma switch_to_total:
  assumes "\<not> pc_active (pending_cleanup s) \<or> pc_stack_base (pending_cleanup s) = 0" "n < MAX_TASKS"
  shows "\<exists>s'. switch_to (Some n) s = Some s'"
proof (cases "current s = Some n")
  case True
  then show ?thesis by (simp add: switch_to_def)
next
  case False
  then show ?thesis using assms after_switch_fields(3) [OF assms(2), of s]
    by (auto simp: switch_to_alt reap_pending_cleanup_def Let_def)
qed

section \<open>Invariant\<close>

definition slot_inv :: "'a task_state_scheme \<Rightarrow> nat \<Rightarrow> bool" where
  "slot_inv s k \<longleftrightarrow>
     (let t = tasks s k in
      t_state t \<noteq> New \<and>
      (t_state t \<in> {Dead, Zombie} \<longrightarrow> t_stack_base t = 0 \<and> t_cr3 t = 0) \<and>
      (t_state t \<noteq> Dead \<longrightarrow> t_pid t = make_pid k (t_generation t)))"

definition cur :: "'a task_state_scheme \<Rightarrow> nat" where
  "cur s = nat (current_index s)"

definition spaces_distinct :: "u64 \<Rightarrow> (nat \<Rightarrow> u64) \<Rightarrow> bool" where
  "spaces_distinct root space \<longleftrightarrow>
     root \<noteq> 0 \<and>
     (\<forall>j<MAX_TASKS. space j \<noteq> root \<and> (\<forall>k<MAX_TASKS. j \<noteq> k \<longrightarrow> space j \<noteq> 0 \<longrightarrow> space j \<noteq> space k))"

text \<open>
  What holds of the table also while the current task is leaving: only the current task can be running,
  no two tasks share an address space, the idle task never blocks.
\<close>

definition table_inv :: "nat \<Rightarrow> 'a task_state_scheme \<Rightarrow> bool" where
  "table_inv idle s \<longleftrightarrow>
     0 \<le> current_index s \<and> cur s < MAX_TASKS \<and> idle < MAX_TASKS \<and>
     (\<forall>k<MAX_TASKS. slot_inv s k \<and> (k \<noteq> cur s \<longrightarrow> t_state (tasks s k) \<noteq> Running)) \<and>
     spaces_distinct (kernel_cr3 s) (\<lambda>k. t_cr3 (tasks s k)) \<and>
     t_state (tasks s idle) \<in> {Ready, Running} \<and> cr3 s = loaded_cr3 s \<and>
     0 \<le> tick_counter s \<and> tick_counter s < TICKS_PER_SWITCH"

text \<open>Between two steps the current task is running, in its own address space, and nothing waits to be reaped.\<close>

definition task_inv :: "nat \<Rightarrow> 'a task_state_scheme \<Rightarrow> bool" where
  "task_inv idle s \<longleftrightarrow>
     table_inv idle s \<and> t_state (tasks s (cur s)) = Running \<and> \<not> pc_active (pending_cleanup s) \<and>
     loaded_cr3 s = space_of s (cur s)"

definition leaving :: "nat \<Rightarrow> 'a task_state_scheme \<Rightarrow> bool" where
  "leaving idle s \<longleftrightarrow> table_inv idle s \<and> t_state (tasks s (cur s)) \<notin> {Running, Ready}"

lemma table_inv_cur:
  assumes "table_inv idle s"
  shows "cur s < MAX_TASKS" "current s = Some (cur s)" "current_index s = int (cur s)" "index_of (current s) = int (cur s)"
  using assms by (auto simp: table_inv_def cur_def current_def index_of_def)

lemma dispatched_inv:
  assumes d: "dispatched s n s'" and i: "table_inv idle s" and n: "n < MAX_TASKS" "ready s n"
    and c: "t_state (tasks s (cur s)) \<noteq> Ready"
  shows "task_inv idle s'"
proof -
  obtain r where t: "tasks s' = (\<lambda>k. (tasks s k)\<lparr>t_state := state_after s n k, t_rsp := r k\<rparr>)"
    using d by (auto simp: dispatched_def)
  have g: "current_index s' = int n" "cur s' = n" "\<not> pc_active (pending_cleanup s')" "tick_counter s' = tick_counter s"
    "kernel_cr3 s' = kernel_cr3 s" "loaded_cr3 s' = space_of s n" "cr3 s' = space_of s n"
    using d i by (auto simp: dispatched_def table_inv_def cur_def)
  have slot: "slot_inv s' k \<and> (k \<noteq> n \<longrightarrow> t_state (tasks s' k) \<noteq> Running)" if k: "k < MAX_TASKS" for k
  proof -
    have "slot_inv s k" "k \<noteq> cur s \<longrightarrow> t_state (tasks s k) \<noteq> Running" using i k by (auto simp: table_inv_def)
    then show ?thesis using n(2) table_inv_cur(2) [OF i]
      by (auto simp: slot_inv_def t state_after_def Let_def ready_def)
  qed
  have "t_state (tasks s' idle) \<in> {Ready, Running}"
    using i n(2) by (auto simp: t state_after_def table_inv_def)
  moreover have "space_of s' n = space_of s n" by (simp add: space_of_def t g)
  moreover have "t_state (tasks s' n) = Running" "\<And>k. t_cr3 (tasks s' k) = t_cr3 (tasks s k)"
    by (simp_all add: t state_after_def)
  ultimately show ?thesis using i n(1) slot g(3) unfolding task_inv_def table_inv_def g(1,2,4-7) by simp
qed

lemma reschedule_cases:
  assumes "table_inv idle s" "reschedule s = Some s'" "t_state (tasks s (cur s)) \<noteq> Ready"
  shows "(s' = s \<and> (\<forall>k<MAX_TASKS. \<not> ready s k)) \<or>
    (\<exists>n<MAX_TASKS. ready s n \<and> n \<noteq> cur s \<and> dispatched s n s' \<and>
       (\<forall>k<MAX_TASKS. ready s k \<longrightarrow> turns (cur s) n \<le> turns (cur s) k))"
proof (cases "next_ready (int (cur s)) s")
  case None
  then show ?thesis using assms(2) table_inv_cur [OF assms(1)] next_ready_None [OF None]
    by (auto simp: reschedule_def)
next
  case (Some n)
  note c = table_inv_cur [OF assms(1)]
  have n: "n < MAX_TASKS" "ready s n" "\<forall>k<MAX_TASKS. ready s k \<longrightarrow> turns (cur s) n \<le> turns (cur s) k"
    using next_ready_Some [OF Some c(1)] by auto
  have ne: "n \<noteq> cur s" using n(2) assms(3) by (auto simp: ready_def)
  have "switch_to (Some n) s = Some s'" using Some assms(2) c by (simp add: reschedule_def)
  then have "dispatched s n s'" using switch_to_dispatched n(1) ne c(2) by fastforce
  then show ?thesis using n ne by blast
qed

lemma reschedule_inv:
  assumes "reschedule s = Some s'" "task_inv idle s \<or> leaving idle s"
  shows "task_inv idle s'"
proof -
  have i: "table_inv idle s" "t_state (tasks s (cur s)) \<noteq> Ready" using assms(2) by (auto simp: task_inv_def leaving_def)
  have "\<exists>k<MAX_TASKS. ready s k" if "leaving idle s"
    using that by (auto simp: leaving_def table_inv_def ready_def)
  then have "s' = s \<and> task_inv idle s \<or> (\<exists>n<MAX_TASKS. ready s n \<and> dispatched s n s')"
    using reschedule_cases [OF i(1) assms(1) i(2)] assms(2) by blast
  then show ?thesis using dispatched_inv i by blast
qed

lemma reschedule_total:
  assumes "table_inv idle s" "\<not> pc_active (pending_cleanup s) \<or> pc_stack_base (pending_cleanup s) = 0"
  shows "\<exists>s'. reschedule s = Some s'"
proof (cases "next_ready (int (cur s)) s")
  case (Some n)
  then have "n < MAX_TASKS" using next_ready_Some(1) table_inv_cur(1) [OF assms(1)] by blast
  then show ?thesis using Some switch_to_total [OF assms(2)] table_inv_cur [OF assms(1)] by (simp add: reschedule_def)
qed (use table_inv_cur [OF assms(1)] in \<open>simp add: reschedule_def\<close>)

end
