(* ===== verification/Task_Invariant.thy ===== *)
theory Task_Invariant
  imports Task_Steps
begin

text \<open>
  Every step of the kernel on the task table keeps the invariant: the timer interrupt, yielding, creating
  tasks and processes, blocking, unblocking, sleeping, waiting for a child and exiting.
\<close>

section \<open>Operations that stay in the current task\<close>

lemma benign_state: "benign s s' \<Longrightarrow> t_state (tasks s k) \<noteq> Blocked \<Longrightarrow> t_state (tasks s' k) = t_state (tasks s k)"
  unfolding benign_def by metis

lemma benign_table:
  assumes "benign s s'" "table_inv idle s"
  shows "table_inv idle s'" "cur s' = cur s"
proof -
  show c: "cur s' = cur s" using assms(1) by (simp add: benign_def cur_def)
  have slot: "slot_inv s' k \<and> (k \<noteq> cur s \<longrightarrow> t_state (tasks s' k) \<noteq> Running)" if "k < MAX_TASKS" for k
  proof -
    have "slot_inv s k" "k \<noteq> cur s \<longrightarrow> t_state (tasks s k) \<noteq> Running" using assms(2) that by (auto simp: table_inv_def)
    moreover have "t_state (tasks s' k) = t_state (tasks s k) \<or> t_state (tasks s k) = Blocked \<and> t_state (tasks s' k) = Ready"
      "t_pid (tasks s' k) = t_pid (tasks s k)" "t_generation (tasks s' k) = t_generation (tasks s k)"
      "t_stack_base (tasks s' k) = t_stack_base (tasks s k)" "t_cr3 (tasks s' k) = t_cr3 (tasks s k)"
      using assms(1) by (auto simp: benign_def)
    ultimately show ?thesis by (auto simp: slot_inv_def Let_def)
  qed
  have "t_state (tasks s idle) = Blocked \<or> t_state (tasks s' idle) = t_state (tasks s idle)"
    "\<And>k. t_cr3 (tasks s' k) = t_cr3 (tasks s k)" "current_index s' = current_index s" "cr3 s' = cr3 s"
    "loaded_cr3 s' = loaded_cr3 s" "kernel_cr3 s' = kernel_cr3 s" "tick_counter s' = tick_counter s"
    using assms(1) by (auto simp: benign_def)
  moreover have "t_state (tasks s idle) \<in> {Ready, Running}" using assms(2) by (simp add: table_inv_def)
  ultimately show "table_inv idle s'" using assms(2) slot unfolding table_inv_def c by auto
qed

lemma benign_inv:
  assumes "benign s s'" "task_inv idle s"
  shows "task_inv idle s'"
proof -
  have i: "table_inv idle s" "t_state (tasks s (cur s)) = Running" "\<not> pc_active (pending_cleanup s)"
    "loaded_cr3 s = space_of s (cur s)" using assms(2) by (auto simp: task_inv_def)
  note t = benign_table [OF assms(1) i(1)]
  have "t_state (tasks s' (cur s)) = t_state (tasks s (cur s)) \<or> t_state (tasks s (cur s)) = Blocked"
    "loaded_cr3 s' = loaded_cr3 s" "pending_cleanup s' = pending_cleanup s" "space_of s' k = space_of s k" for k
    using assms(1) by (auto simp: benign_def space_of_def)
  then show ?thesis using t i by (auto simp: task_inv_def)
qed

text \<open>The tick wakes the sleepers that are due.\<close>

definition woken :: "u64 \<Rightarrow> Task \<Rightarrow> Task" where
  "woken now t = (if t_state t = Sleeping \<and> now \<ge> t_wake_tick t then t\<lparr>t_state := Ready\<rparr> else t)"

lemma wake_sleeping_eq: "wake_sleeping_tasks s = s\<lparr>tasks := (\<lambda>k. if k < MAX_TASKS then woken (timer_ticks s) (tasks s k) else tasks s k)\<rparr>"
proof -
  let ?F = "\<lambda>now i s. if t_state (tasks s i) = Sleeping \<and> now \<ge> t_wake_tick (tasks s i)
                  then upd_task i (t_state_update (\<lambda>_. Ready)) s else (s :: 'a task_state_scheme)"
  have "fold (?F now) [0..<n] s = s\<lparr>tasks := (\<lambda>k. if k < n then woken now (tasks s k) else tasks s k)\<rparr>" for n now
  proof (induction n)
    case (Suc n)
    let ?t = "\<lambda>n k. if k < n then woken now (tasks s k) else tasks s k"
    have "fold (?F now) [0..<Suc n] s = ?F now n (s\<lparr>tasks := ?t n\<rparr>)" using Suc.IH by simp
    also have "\<dots> = s\<lparr>tasks := (?t n)(n := woken now (tasks s n))\<rparr>"
      by (auto simp: woken_def fun_upd_idem)
    also have "(?t n)(n := woken now (tasks s n)) = ?t (Suc n)" by (auto simp: fun_eq_iff less_Suc_eq)
    finally show ?case .
  qed simp
  then show ?thesis by (simp add: wake_sleeping_tasks_def Let_def)
qed

lemma woken_fields [simp]:
  "t_pid (woken n t) = t_pid t" "t_generation (woken n t) = t_generation t" "t_stack_base (woken n t) = t_stack_base t"
  "t_cr3 (woken n t) = t_cr3 t"
  "t_state (woken n t) = Running \<longleftrightarrow> t_state t = Running" "t_state (woken n t) = New \<longleftrightarrow> t_state t = New"
  "t_state (woken n t) = Dead \<longleftrightarrow> t_state t = Dead" "t_state (woken n t) = Zombie \<longleftrightarrow> t_state t = Zombie"
  "t_state t = Ready \<Longrightarrow> t_state (woken n t) = Ready"
  by (auto simp: woken_def)

lemma wake_inv:
  assumes "task_inv idle s"
  shows "task_inv idle (wake_sleeping_tasks s)"
proof -
  have "(\<lambda>k. t_cr3 (if k < MAX_TASKS then woken (timer_ticks s) (tasks s k) else tasks s k)) = (\<lambda>k. t_cr3 (tasks s k))"
    by (auto simp: fun_eq_iff)
  then show ?thesis using assms
    by (auto simp: task_inv_def table_inv_def wake_sleeping_eq slot_inv_def cur_def space_of_def Let_def)
qed

lemma globals_inv:
  "task_inv idle (s\<lparr>timer_ticks := a\<rparr>) \<longleftrightarrow> task_inv idle s"
  "0 \<le> b \<Longrightarrow> b < TICKS_PER_SWITCH \<Longrightarrow> task_inv idle s \<Longrightarrow> task_inv idle (s\<lparr>tick_counter := b\<rparr>)"
  by (simp_all add: task_inv_def table_inv_def slot_inv_def cur_def space_of_def)

lemma timer_cases:
  assumes "task_inv idle s"
  obtains u where "task_inv idle u" "timer_irq s = Some u \<or> timer_irq s = reschedule u" "cur u = cur s"
    "\<And>k. ready s k \<Longrightarrow> ready u k"
    "tick_counter s + 1 < TICKS_PER_SWITCH \<Longrightarrow> timer_irq s = Some u \<and> tick_counter u = tick_counter s + 1"
    "tick_counter s + 1 \<ge> TICKS_PER_SWITCH \<Longrightarrow> timer_irq s = reschedule u \<and> tick_counter u = 0"
proof -
  let ?w = "wake_sleeping_tasks (s\<lparr>timer_ticks := timer_ticks s + 1\<rparr>)"
  have w: "task_inv idle ?w" using assms by (simp add: wake_inv globals_inv)
  have c: "tick_counter ?w = tick_counter s" by (simp add: wake_sleeping_eq)
  have b: "0 \<le> tick_counter s" using assms by (simp add: task_inv_def table_inv_def)
  define u where "u = ?w\<lparr>tick_counter := (if tick_counter s + 1 < TICKS_PER_SWITCH then tick_counter s + 1 else 0)\<rparr>"
  have "task_inv idle u" unfolding u_def by (rule globals_inv(2)) (use w b in \<open>auto simp: TICKS_PER_SWITCH_def\<close>)
  moreover have "timer_irq s = (if tick_counter s + 1 < TICKS_PER_SWITCH then Some u else reschedule u)"
    by (simp add: timer_irq_def tick_def Let_def u_def c)
  moreover have "cur u = cur s" "\<And>k. ready s k \<Longrightarrow> ready u k"
    by (auto simp: u_def cur_def wake_sleeping_eq ready_def)
  moreover have "tick_counter u = (if tick_counter s + 1 < TICKS_PER_SWITCH then tick_counter s + 1 else 0)"
    by (simp add: u_def)
  ultimately show ?thesis using that [of u] by (auto split: if_splits)
qed

section \<open>Creation\<close>

lemma find_free_slot_Some:
  assumes "find_free_slot s = Some k"
  shows "k < MAX_TASKS" "t_state (tasks s k) = Dead" "t_generation (tasks s k) \<noteq> PID_GENERATION_MAX"
    "\<And>j. j < k \<Longrightarrow> t_state (tasks s j) \<noteq> Dead \<or> t_generation (tasks s j) = PID_GENERATION_MAX"
  using assms by (auto simp: find_free_slot_def find_Some_iff)

text \<open>What \<open>init_common_slot\<close> does when it succeeds: one dead slot is taken and put in front of the creator's
  child list.\<close>

definition slot_taken :: "u64 \<Rightarrow> nat \<Rightarrow> 'a task_state_scheme \<Rightarrow> 'a task_state_scheme \<Rightarrow> bool" where
  "slot_taken tr k s s' \<longleftrightarrow>
     k < MAX_TASKS \<and> t_state (tasks s k) = Dead \<and> t_stack_base (tasks s' k) \<noteq> 0 \<and>
     t_state (tasks s' k) = New \<and> t_generation (tasks s' k) = t_generation (tasks s k) + 1 \<and>
     t_pid (tasks s' k) = make_pid k (t_generation (tasks s k) + 1) \<and>
     (\<forall>j. j \<noteq> k \<longrightarrow> (\<exists>c. tasks s' j = (tasks s j)\<lparr>t_first_child := c\<rparr>)) \<and>
     build_stack tr (t_stack_base (tasks s' k) + TASK_STACK_SIZE) (stack_mem s) = (t_rsp (tasks s' k), stack_mem s') \<and>
     cpu s' = cpu s \<and>
     (\<forall>p. current s = Some p \<and> p \<noteq> k \<longrightarrow>
        t_first_child (tasks s' p) = t_pid (tasks s' k) \<and> t_parent_pid (tasks s' k) = t_pid (tasks s p) \<and>
        t_next_sibling (tasks s' k) = t_first_child (tasks s p)) \<and>
     current_index s' = current_index s \<and> pending_cleanup s' = pending_cleanup s \<and> init_pid s' = init_pid s \<and>
     timer_ticks s' = timer_ticks s \<and> tick_counter s' = tick_counter s \<and>
     kernel_cr3 s' = kernel_cr3 s \<and> loaded_cr3 s' = loaded_cr3 s \<and> cr3 s' = cr3 s"

lemma upd_id [simp]: "t\<lparr>t_first_child := t_first_child t\<rparr> = t"
  by simp

lemma init_common_slot_taken:
  assumes "init_common_slot tr e nm s = Some (Some k, s')"
  shows "slot_taken tr k s s'"
proof -
  obtain a t where f: "find_free_slot s = Some k" "kmalloc TASK_STACK_SIZE s = Some (a, t)" "a \<noteq> 0"
    using assms by (auto simp: init_common_slot_def Let_def split_def split: option.splits if_splits)
  note m = mask_task_fields [OF kmalloc_mask [OF f(2)]]
  obtain sp mem where b: "build_stack tr (a + TASK_STACK_SIZE) (stack_mem (upd_task k (t_state_update (\<lambda>_. New)) t)) = (sp, mem)" by fastforce
  define u where "u = (let s = upd_task k (t_state_update (\<lambda>_. New)) t; s = s\<lparr>stack_mem := mem\<rparr>;
      gen = t_generation (tasks s k) + 1
    in upd_task k (\<lambda>t. t\<lparr>t_rsp := sp, t_stack_base := a, t_entry := e, t_generation := gen, t_pid := make_pid k gen\<rparr>) s)"
  define v where "v = upd_task k (\<lambda>t. t\<lparr>t_parent_pid := (case current u of Some p \<Rightarrow> t_pid (tasks u p) | None \<Rightarrow> NO_PID),
      t_first_child := NO_PID, t_next_sibling := NO_PID\<rparr>) u"
  define w where "w = (case current u of Some p \<Rightarrow> add_child p k v | None \<Rightarrow> v)"
  have "init_common_slot tr e nm s = Some (Some k, upd_task k (\<lambda>t. t\<lparr>t_exit_code := 0, t_wake_tick := 0, t_name := nm\<rparr>) w)"
    by (simp only: init_common_slot_def f(1,2) option.case prod.case f(3) if_False Let_def b u_def v_def w_def)
  then have s': "s' = upd_task k (\<lambda>t. t\<lparr>t_exit_code := 0, t_wake_tick := 0, t_name := nm\<rparr>) w" using assms by simp
  have v: "tasks v j = tasks s j" if "j \<noteq> k" for j using that by (simp add: v_def u_def Let_def m)
  have vk: "t_state (tasks v k) = New" "t_generation (tasks v k) = t_generation (tasks s k) + 1"
    "t_pid (tasks v k) = make_pid k (t_generation (tasks s k) + 1)" "t_stack_base (tasks v k) = a" "t_rsp (tasks v k) = sp"
    by (simp_all add: v_def u_def Let_def m)
  have vg: "current_index v = current_index s" "pending_cleanup v = pending_cleanup s" "init_pid v = init_pid s"
    "timer_ticks v = timer_ticks s" "tick_counter v = tick_counter s" "kernel_cr3 v = kernel_cr3 s"
    "loaded_cr3 v = loaded_cr3 s" "cr3 v = cr3 s" "stack_mem v = mem" "cpu v = cpu s" by (simp_all add: v_def u_def Let_def m)
  have wg: "\<exists>c. tasks w j = (tasks v j)\<lparr>t_first_child := c\<rparr>" if "j \<noteq> k" for j
    using that by (auto simp: w_def add_child_def Let_def intro: upd_id [symmetric] split: option.split)
  have "t_state (tasks w k) = New" "t_generation (tasks w k) = t_generation (tasks s k) + 1"
    "t_pid (tasks w k) = make_pid k (t_generation (tasks s k) + 1)" "t_stack_base (tasks w k) = a"
    "current_index w = current_index s" "pending_cleanup w = pending_cleanup s" "init_pid w = init_pid s"
    "timer_ticks w = timer_ticks s" "tick_counter w = tick_counter s" "kernel_cr3 w = kernel_cr3 s"
    "loaded_cr3 w = loaded_cr3 s" "cr3 w = cr3 s" "t_rsp (tasks w k) = sp" "stack_mem w = mem" "cpu w = cpu s"
    using vk vg by (auto simp: w_def add_child_def Let_def split: option.split)
  moreover have "t_first_child (tasks w p) = t_pid (tasks w k) \<and> t_parent_pid (tasks w k) = t_pid (tasks s p) \<and>
      t_next_sibling (tasks w k) = t_first_child (tasks s p)" if "current s = Some p" "p \<noteq> k" for p
  proof -
    have "current u = Some p" using that by (auto simp: u_def Let_def current_def m split: if_splits)
    then have "w = add_child p k v" "t_parent_pid (tasks v k) = t_pid (tasks u p)" by (simp_all add: w_def v_def)
    moreover have "t_pid (tasks u p) = t_pid (tasks s p)" using that by (simp add: u_def Let_def m)
    ultimately show ?thesis using that v [OF that(2)] by (simp add: add_child_def Let_def)
  qed
  ultimately show ?thesis using find_free_slot_Some(1,2) [OF f(1)] f(3) wg v b unfolding slot_taken_def s' by (simp add: m)
qed

lemma init_common_slot_none:
  assumes "init_common_slot tr e nm s = Some (None, s')"
  shows "heap_mask s' = heap_mask s"
  using assms kmalloc_mask
  by (fastforce simp: init_common_slot_def Let_def split_def split: option.splits if_splits)

lemma mask_inv:
  assumes "heap_mask s' = heap_mask s"
  shows "task_inv idle s' = task_inv idle s"
  by (simp add: mask_task_fields [OF assms] task_inv_def table_inv_def slot_inv_def cur_def space_of_def)

lemma spaces_distinct_upd:
  assumes "spaces_distinct r f" "c = 0 \<or> c \<noteq> r \<and> (\<forall>j<MAX_TASKS. f j \<noteq> c)"
  shows "spaces_distinct r (f(k := c))"
  using assms by (auto simp: spaces_distinct_def)

lemma fresh_slot_inv:
  assumes t: "slot_taken tr k s u" and i: "task_inv idle s" and c: "c = 0 \<or> c \<noteq> kernel_cr3 s \<and> (\<forall>j<MAX_TASKS. t_cr3 (tasks s j) \<noteq> c)"
    and s': "s' = upd_task k f u" and f: "\<And>t. t_state (f t) = Ready" "\<And>t. t_cr3 (f t) = c" "\<And>t. t_pid (f t) = t_pid t"
      "\<And>t. t_generation (f t) = t_generation t"
  shows "task_inv idle s'"
proof -
  have d: "t_state (tasks s k) = Dead" using t by (simp add: slot_taken_def)
  have ck: "cur s \<noteq> k" "idle \<noteq> k" using d i by (auto simp: task_inv_def table_inv_def)
  have j: "\<exists>c. tasks s' j = (tasks s j)\<lparr>t_first_child := c\<rparr>" if "j \<noteq> k" for j
    using t that by (auto simp: slot_taken_def s')
  have "slot_inv s' j \<and> (j \<noteq> cur s \<longrightarrow> t_state (tasks s' j) \<noteq> Running)" if jm: "j < MAX_TASKS" for j
  proof (cases "j = k")
    case True
    then show ?thesis using t by (simp add: slot_inv_def Let_def s' f slot_taken_def)
  next
    case False
    then obtain c where "tasks s' j = (tasks s j)\<lparr>t_first_child := c\<rparr>" using j by blast
    then show ?thesis using i jm by (simp add: task_inv_def table_inv_def slot_inv_def Let_def)
  qed
  moreover have "(\<lambda>j. t_cr3 (tasks s' j)) = (\<lambda>j. t_cr3 (tasks s j))(k := c)"
  proof
    fix x show "t_cr3 (tasks s' x) = ((\<lambda>j. t_cr3 (tasks s j))(k := c)) x"
      using j [of x] by (cases "x = k") (auto simp: s' f)
  qed
  moreover have "spaces_distinct (kernel_cr3 s) ((\<lambda>j. t_cr3 (tasks s j))(k := c))"
    using i c spaces_distinct_upd by (auto simp: task_inv_def table_inv_def)
  moreover have "t_state (tasks s' idle) = t_state (tasks s idle)" "t_state (tasks s' (cur s)) = t_state (tasks s (cur s))"
    "t_cr3 (tasks s' (cur s)) = t_cr3 (tasks s (cur s))"
    using j [OF ck(1) ] j [OF ck(2)] by auto
  moreover have "current_index s' = current_index s" "pending_cleanup s' = pending_cleanup s" "tick_counter s' = tick_counter s"
    "kernel_cr3 s' = kernel_cr3 s" "loaded_cr3 s' = loaded_cr3 s" "cr3 s' = cr3 s" "cur s' = cur s"
    using t by (simp_all add: slot_taken_def s' cur_def)
  ultimately show ?thesis using i unfolding task_inv_def table_inv_def space_of_def by simp
qed

lemma create_inv:
  assumes "create tr e nm s = Some (r, s')" "task_inv idle s"
  shows "task_inv idle s'"
proof (cases r)
  case None
  then show ?thesis using assms init_common_slot_none mask_inv by (fastforce simp: create_def split: option.splits prod.splits)
next
  case (Some k)
  then obtain u where u: "init_common_slot tr e nm s = Some (Some k, u)" "s' = upd_task k (\<lambda>t. t\<lparr>t_cr3 := 0, t_state := Ready\<rparr>) u"
    using assms(1) by (auto simp: create_def split: option.splits prod.splits)
  show ?thesis
    by (rule fresh_slot_inv [where f = "\<lambda>t. t\<lparr>t_cr3 := 0, t_state := Ready\<rparr>" and c = 0, OF init_common_slot_taken [OF u(1)] assms(2)])
      (simp_all add: u(2))
qed

lemma create_process_inv:
  assumes "create_process tr e nm c ue us s = Some (r, s')" "task_inv idle s"
    "c \<noteq> kernel_cr3 s" "\<forall>j<MAX_TASKS. t_cr3 (tasks s j) \<noteq> c"
  shows "task_inv idle s'"
proof (cases r)
  case None
  then show ?thesis using assms(1,2) init_common_slot_none mask_inv by (fastforce simp: create_process_def split: option.splits prod.splits)
next
  case (Some k)
  then obtain u where u: "init_common_slot tr e nm s = Some (Some k, u)"
    "s' = upd_task k (\<lambda>t. t\<lparr>t_cr3 := c, t_user_entry := ue, t_user_stack_top := us, t_state := Ready\<rparr>) u"
    using assms(1) by (auto simp: create_process_def split: option.splits prod.splits)
  show ?thesis
    by (rule fresh_slot_inv [where f = "\<lambda>t. t\<lparr>t_cr3 := c, t_user_entry := ue, t_user_stack_top := us, t_state := Ready\<rparr>" and c = c,
          OF init_common_slot_taken [OF u(1)] assms(2)]) (simp_all add: u(2) assms(3,4))
qed

section \<open>Operations that leave the current task\<close>

lemma set_cur_leaving:
  assumes i: "table_inv idle s" and c: "cur s \<noteq> idle" "t_state (tasks s (cur s)) = Running"
    and f: "\<And>t. t_pid (f t) = t_pid t" "\<And>t. t_generation (f t) = t_generation t" "\<And>t. t_stack_base (f t) = t_stack_base t"
      "\<And>t. t_cr3 (f t) = t_cr3 t" "\<And>t. t_state (f t) = st"
    and st: "st \<in> {Blocked, Sleeping} \<or> st \<in> {Zombie, Dead} \<and> t_stack_base (tasks s (cur s)) = 0 \<and> t_cr3 (tasks s (cur s)) = 0"
  shows "leaving idle (upd_task (cur s) f s)"
proof -
  let ?s = "upd_task (cur s) f s"
  have slot: "slot_inv ?s k \<and> (k \<noteq> cur s \<longrightarrow> t_state (tasks ?s k) \<noteq> Running)" if "k < MAX_TASKS" for k
  proof -
    have "slot_inv s k" "k \<noteq> cur s \<longrightarrow> t_state (tasks s k) \<noteq> Running" using i that by (auto simp: table_inv_def)
    then show ?thesis using st c f by (auto simp: slot_inv_def Let_def)
  qed
  have "cur ?s = cur s" "(\<lambda>k. t_cr3 (tasks ?s k)) = (\<lambda>k. t_cr3 (tasks s k))" by (auto simp: cur_def fun_eq_iff f)
  then show ?thesis using i slot st c f unfolding leaving_def table_inv_def by auto
qed

lemma block_inv:
  assumes "block_current s = Some s'" "task_inv idle s" "cur s \<noteq> idle"
  shows "task_inv idle s'"
proof -
  have i: "table_inv idle s" "t_state (tasks s (cur s)) = Running" using assms by (auto simp: task_inv_def)
  have "leaving idle (upd_task (cur s) (t_state_update (\<lambda>_. Blocked)) s)"
    by (rule set_cur_leaving [OF i(1) assms(3) i(2), where st = Blocked]) auto
  then show ?thesis using assms(1) reschedule_inv by (auto simp: block_current_def table_inv_cur(2) [OF i(1)])
qed

lemma sleep_inv:
  assumes "sleep_current d s = Some s'" "task_inv idle s" "cur s \<noteq> idle"
  shows "task_inv idle s'"
proof -
  have i: "table_inv idle s" "t_state (tasks s (cur s)) = Running" using assms by (auto simp: task_inv_def)
  have "leaving idle (upd_task (cur s) (\<lambda>t. t\<lparr>t_wake_tick := timer_ticks s + d, t_state := Sleeping\<rparr>) s)"
    by (rule set_cur_leaving [OF i(1) assms(3) i(2), where st = Sleeping]) auto
  then show ?thesis using assms(1) reschedule_inv by (auto simp: sleep_current_def table_inv_cur(2) [OF i(1)])
qed

text \<open>The state of \<open>exit_current\<close> when it calls \<open>reschedule\<close>.\<close>

definition stripped :: "int \<Rightarrow> 'a task_state_scheme \<Rightarrow> 'a task_state_scheme" where
  "stripped code s =
     upd_task (cur s) (\<lambda>t. t\<lparr>t_stack_base := 0, t_cr3 := 0, t_exit_code := code\<rparr>)
       (s\<lparr>pending_cleanup := \<lparr>pc_stack_base = t_stack_base (tasks s (cur s)), pc_cr3 = t_cr3 (tasks s (cur s)),
            pc_active = (t_stack_base (tasks s (cur s)) \<noteq> 0 \<or> t_cr3 (tasks s (cur s)) \<noteq> 0)\<rparr>\<rparr>)"

lemma exit_cases:
  assumes "exit_current code s = Some s'" "table_inv idle s"
  obtains u where "orphan_children (cur s) (stripped code s) = Some u"
    "reschedule (become_zombie_or_dead (cur s) u) = Some s'"
  using assms(1) table_inv_cur(2) [OF assms(2)]
  by (auto simp: exit_current_def stripped_def Let_def split: option.splits)

lemma stripped_inv:
  assumes "task_inv idle s"
  shows "table_inv idle (stripped code s)" "cur (stripped code s) = cur s"
    "t_state (tasks (stripped code s) (cur s)) = Running"
    "t_stack_base (tasks (stripped code s) (cur s)) = 0" "t_cr3 (tasks (stripped code s) (cur s)) = 0"
proof -
  have i: "table_inv idle s" "t_state (tasks s (cur s)) = Running" using assms by (auto simp: task_inv_def)
  show c: "cur (stripped code s) = cur s" by (simp add: stripped_def cur_def)
  show "t_state (tasks (stripped code s) (cur s)) = Running"
    "t_stack_base (tasks (stripped code s) (cur s)) = 0" "t_cr3 (tasks (stripped code s) (cur s)) = 0"
    using i by (auto simp: stripped_def)
  have slot: "slot_inv (stripped code s) k \<and> (k \<noteq> cur s \<longrightarrow> t_state (tasks (stripped code s) k) \<noteq> Running)"
    if "k < MAX_TASKS" for k
    using i that by (auto simp: table_inv_def slot_inv_def Let_def stripped_def)
  have f: "(\<lambda>k. t_cr3 (tasks (stripped code s) k)) = (\<lambda>k. t_cr3 (tasks s k))(cur s := 0)"
    by (auto simp: stripped_def fun_eq_iff)
  have "spaces_distinct (kernel_cr3 s) ((\<lambda>k. t_cr3 (tasks s k))(cur s := 0))"
    using i by (intro spaces_distinct_upd) (auto simp: table_inv_def)
  then show "table_inv idle (stripped code s)"
    using i slot unfolding table_inv_def f c by (auto simp: stripped_def)
qed

lemma benign_leaving:
  assumes "benign s s'" "leaving idle s" "t_state (tasks s (cur s)) \<noteq> Blocked"
  shows "leaving idle s'"
proof -
  have i: "table_inv idle s" "t_state (tasks s (cur s)) \<notin> {Running, Ready}" using assms(2) by (auto simp: leaving_def)
  note t = benign_table [OF assms(1) i(1)]
  have "t_state (tasks s' (cur s)) = t_state (tasks s (cur s))" using assms(1,3) by (auto simp: benign_def)
  then show ?thesis using t i by (simp add: leaving_def)
qed

lemma exit_leaving:
  assumes i: "task_inv idle s" "cur s \<noteq> idle" and o: "orphan_children (cur s) (stripped code s) = Some u"
  shows "leaving idle (become_zombie_or_dead (cur s) u)" "cur (become_zombie_or_dead (cur s) u) = cur s"
    "\<And>k. t_cr3 (tasks (become_zombie_or_dead (cur s) u) k) = (if k = cur s then 0 else t_cr3 (tasks s k))"
    "kernel_cr3 (become_zombie_or_dead (cur s) u) = kernel_cr3 s"
    "pending_cleanup (become_zombie_or_dead (cur s) u) = pending_cleanup (stripped code s)"
proof -
  note st = stripped_inv [OF i(1), of code]
  note b = benign_orphan [OF o]
  note u = benign_table [OF b st(1), unfolded st(2)]
  have uc: "t_state (tasks u (cur s)) = Running" "t_stack_base (tasks u (cur s)) = 0" "t_cr3 (tasks u (cur s)) = 0"
    using st(3-5) b benign_state [OF b, of "cur s"] by (auto simp: benign_def)
  have ne: "cur u \<noteq> idle" using i(2) u(2) by simp
  let ?z = "upd_task (cur s) (t_state_update (\<lambda>_. Zombie)) u"
  let ?d = "upd_task (cur s) (\<lambda>t. t\<lparr>t_state := Dead, t_parent_pid := NO_PID\<rparr>) u"
  have cz: "cur ?z = cur s" "cur ?d = cur s" using u(2) by (simp_all add: cur_def)
  have z: "leaving idle ?z" using set_cur_leaving [OF u(1) ne, where st = Zombie and f = "t_state_update (\<lambda>_. Zombie)"] uc
    unfolding u(2) by simp
  have d: "leaving idle ?d" using set_cur_leaving [OF u(1) ne, where st = Dead and f = "\<lambda>t. t\<lparr>t_state := Dead, t_parent_pid := NO_PID\<rparr>"] uc
    unfolding u(2) by simp
  let ?e = "become_zombie_or_dead (cur s) u"
  have e: "benign ?z ?e \<or> ?e = ?d" by (simp add: become_zombie_or_dead_def benign_unblock)
  show "leaving idle ?e"
    using e d benign_leaving [OF _ z, of ?e] by (auto simp: cz)
  have "benign ?z ?e \<Longrightarrow> cur ?e = cur s" using benign_table(2) z cz by (fastforce simp: leaving_def)
  then show "cur ?e = cur s" using e cz by auto
  have ucr: "t_cr3 (tasks u k) = (if k = cur s then 0 else t_cr3 (tasks s k))" for k
    using b by (simp add: benign_def stripped_def)
  have "t_cr3 (tasks ?e k) = t_cr3 (tasks u k)" for k using e by (auto simp: benign_def)
  then show "t_cr3 (tasks ?e k) = (if k = cur s then 0 else t_cr3 (tasks s k))" for k using ucr by simp
  have ug: "kernel_cr3 u = kernel_cr3 s" "pending_cleanup u = pending_cleanup (stripped code s)"
    using b by (auto simp: benign_def stripped_def)
  show "kernel_cr3 ?e = kernel_cr3 s" "pending_cleanup ?e = pending_cleanup (stripped code s)"
    using e ug by (auto simp: benign_def)
qed

lemma exit_inv:
  assumes "exit_current code s = Some s'" "task_inv idle s" "cur s \<noteq> idle"
  shows "task_inv idle s'"
proof -
  have "table_inv idle s" using assms(2) by (simp add: task_inv_def)
  then obtain u where "orphan_children (cur s) (stripped code s) = Some u" "reschedule (become_zombie_or_dead (cur s) u) = Some s'"
    using exit_cases [OF assms(1)] by blast
  then show ?thesis using exit_leaving(1) [OF assms(2,3)] reschedule_inv by blast
qed

section \<open>Waiting\<close>

lemma find_by_pid_Some:
  assumes "find_by_pid p s = Some k"
  shows "k < MAX_TASKS" "t_state (tasks s k) \<noteq> Dead" "t_pid (tasks s k) = p" "p \<noteq> NO_PID" "pid_slot_index p = int k"
  using assms by (auto simp: find_by_pid_def Let_def split: if_splits)

lemma find_zombie_Some:
  "find_zombie s p = Some r \<Longrightarrow> r = Some k \<Longrightarrow> k < MAX_TASKS \<and> t_state (tasks s k) = Zombie"
proof (induction rule: find_zombie.raw_induct [rotated, consumes 1, case_names step])
  case (step f s p r)
  then show ?case using find_by_pid_Some(1) by (auto split: if_splits option.splits)
qed

lemma bury_inv:
  assumes i: "task_inv idle s" and k: "t_state (tasks s k) = Zombie"
    and f: "\<And>t. t_state (f t) = Dead" "\<And>t. t_cr3 (f t) = t_cr3 t" "\<And>t. t_stack_base (f t) = t_stack_base t"
  shows "task_inv idle (upd_task k f s)"
proof -
  let ?s = "upd_task k f s"
  have n: "k \<noteq> cur s" "k \<noteq> idle" using i k by (auto simp: task_inv_def table_inv_def)
  have slot: "slot_inv ?s j \<and> (j \<noteq> cur s \<longrightarrow> t_state (tasks ?s j) \<noteq> Running)" if "j < MAX_TASKS" for j
    using i that k f n by (auto simp: task_inv_def table_inv_def slot_inv_def Let_def)
  have "cur ?s = cur s" "(\<lambda>k. t_cr3 (tasks ?s k)) = (\<lambda>k. t_cr3 (tasks s k))" "space_of ?s (cur s) = space_of s (cur s)"
    using n by (auto simp: cur_def fun_eq_iff f space_of_def)
  then show ?thesis using i slot n unfolding task_inv_def table_inv_def by simp
qed

lemma wait_scan_inv:
  assumes "wait_scan s = Some (r, s')" "task_inv idle s"
  shows "task_inv idle s'"
proof -
  have cs: "current s = Some (cur s)" using assms(2) table_inv_cur(2) by (auto simp: task_inv_def)
  consider "s' = s" | k t where "find_zombie s (t_first_child (tasks s (cur s))) = Some (Some k)"
      "remove_child (cur s) (t_pid (tasks s k)) s = Some t"
      "s' = upd_task k (\<lambda>t. t\<lparr>t_state := Dead, t_parent_pid := NO_PID\<rparr>) t"
    using assms(1) cs by (auto simp: wait_scan_def split: option.splits)
  then show ?thesis
  proof cases
    case 2
    have b: "benign s t" by (rule benign_remove_child [OF 2(2)])
    have "t_state (tasks s k) = Zombie" using find_zombie_Some [OF 2(1)] by simp
    then have "t_state (tasks t k) = Zombie" using benign_state [OF b, of k] by simp
    then show ?thesis unfolding 2(3) by (intro bury_inv benign_inv [OF b assms(2)]) auto
  qed (use assms in simp)
qed

lemma wait_round_inv:
  assumes "wait_round s = Some (r, s')" "task_inv idle s" "cur s \<noteq> idle"
  shows "task_inv idle s'"
proof -
  obtain q t where q: "wait_scan s = Some (q, t)" using assms(1) by (auto simp: wait_round_def split: option.splits)
  have t: "task_inv idle t" by (rule wait_scan_inv [OF q assms(2)])
  have "t = s" if "q = NoZombie" using q that by (auto simp: wait_scan_def split: option.splits)
  then show ?thesis using assms(1,3) q t block_inv by (auto simp: wait_round_def split: wait_result.splits)
qed

lemma wait_for_child_inv:
  assumes "wait_for_child s = Some (r, s')" "task_inv idle s" "cur s \<noteq> idle"
  shows "task_inv idle s'"
  using assms wait_round_inv by (auto simp: wait_for_child_def split: option.splits if_splits)

section \<open>All steps\<close>

text \<open>
  One step of the kernel: what the running task, or the timer interrupt, does to the table. The idle task
  only halts, so everything that leaves the current task is a step of another one. A new process comes
  with an address space of its own.
\<close>

inductive kernel_step :: "nat \<Rightarrow> 'a task_state_scheme \<Rightarrow> 'a task_state_scheme \<Rightarrow> bool" for idle where
  step_timer: "timer_irq s = Some s' \<Longrightarrow> kernel_step idle s s'"
| step_yield: "yield s = Some s' \<Longrightarrow> kernel_step idle s s'"
| step_create: "create tr e nm s = Some (r, s') \<Longrightarrow> kernel_step idle s s'"
| step_process: "create_process tr e nm c ue us s = Some (r, s') \<Longrightarrow> c \<noteq> kernel_cr3 s \<Longrightarrow>
    \<forall>j<MAX_TASKS. t_cr3 (tasks s j) \<noteq> c \<Longrightarrow> kernel_step idle s s'"
| step_unblock: "kernel_step idle s (unblock p s)"
| step_block: "block_current s = Some s' \<Longrightarrow> cur s \<noteq> idle \<Longrightarrow> kernel_step idle s s'"
| step_sleep: "sleep_current d s = Some s' \<Longrightarrow> cur s \<noteq> idle \<Longrightarrow> kernel_step idle s s'"
| step_wait: "wait_for_child s = Some (r, s') \<Longrightarrow> cur s \<noteq> idle \<Longrightarrow> kernel_step idle s s'"
| step_wait_again: "wait_round s = Some (r, s') \<Longrightarrow> cur s \<noteq> idle \<Longrightarrow> kernel_step idle s s'"
| step_exit: "exit_current code s = Some s' \<Longrightarrow> cur s \<noteq> idle \<Longrightarrow> kernel_step idle s s'"

lemma timer_inv:
  assumes "timer_irq s = Some s'" "task_inv idle s"
  shows "task_inv idle s'"
proof -
  obtain u where "task_inv idle u" "timer_irq s = Some u \<or> timer_irq s = reschedule u"
    by (rule timer_cases [OF assms(2)])
  then show ?thesis using assms(1) reschedule_inv [of u s'] by auto
qed

lemma kernel_step_inv: "kernel_step idle s s' \<Longrightarrow> task_inv idle s \<Longrightarrow> task_inv idle s'"
proof (induction rule: kernel_step.induct)
  case (step_yield s s')
  then show ?case using reschedule_inv by (auto simp: yield_def)
next
  case (step_unblock s p)
  then show ?case using benign_inv benign_unblock by blast
qed (blast intro: timer_inv create_inv create_process_inv block_inv sleep_inv wait_for_child_inv wait_round_inv exit_inv)+

end
