(* ===== verification/Task_Boot.thy ===== *)
theory Task_Boot
  imports Task_Invariant
begin

text \<open>
  \<open>task::init\<close> leaves a table that satisfies the invariant, with the idle task in the slot it was
  created in; everything reachable from there satisfies it.
\<close>

section \<open>Boot\<close>

lemma init_slots_fields:
  "tasks (task_init_slots s) 0 = (tasks s 0)\<lparr>t_rsp := 0, t_stack_base := 0, t_entry := 0, t_state := Running,
     t_generation := t_generation (tasks s 0) + 1, t_pid := make_pid 0 (t_generation (tasks s 0) + 1),
     t_parent_pid := NO_PID, t_first_child := NO_PID, t_next_sibling := NO_PID, t_exit_code := 0, t_wake_tick := 0,
     t_name := ''shell'', t_cr3 := 0\<rparr>"
  "0 < k \<Longrightarrow> k < MAX_TASKS \<Longrightarrow> tasks (task_init_slots s) k = (tasks s k)\<lparr>t_state := Dead\<rparr>"
  "current_index (task_init_slots s) = 0" "kernel_cr3 (task_init_slots s) = cr3 s" "loaded_cr3 (task_init_slots s) = cr3 s"
  "cr3 (task_init_slots s) = cr3 s" "pending_cleanup (task_init_slots s) = pending_cleanup s"
  "tick_counter (task_init_slots s) = tick_counter s" "hdrs (task_init_slots s) = hdrs s"
  "free_list_head (task_init_slots s) = free_list_head s" "heap_min (task_init_slots s) = heap_min s"
  "heap_max (task_init_slots s) = heap_max s" "pmm_bitmap (task_init_slots s) = pmm_bitmap s"
  "free_count (task_init_slots s) = free_count s" "cpu (task_init_slots s) = cpu s"
proof -
  let ?F = "\<lambda>i. upd_task i (t_state_update (\<lambda>_. Dead))"
  have "fold ?F [0..<n] s = s\<lparr>tasks := (\<lambda>k. if k < n then (tasks s k)\<lparr>t_state := Dead\<rparr> else tasks s k)\<rparr>" for n
  proof (induction n)
    case (Suc n)
    then show ?case by (simp add: fun_upd_def) (auto simp: less_Suc_eq intro!: arg_cong [where f = "\<lambda>t. tasks_update (\<lambda>_. t) s"])
  qed simp
  note f = this [of MAX_TASKS]
  show "tasks (task_init_slots s) 0 = (tasks s 0)\<lparr>t_rsp := 0, t_stack_base := 0, t_entry := 0, t_state := Running,
     t_generation := t_generation (tasks s 0) + 1, t_pid := make_pid 0 (t_generation (tasks s 0) + 1),
     t_parent_pid := NO_PID, t_first_child := NO_PID, t_next_sibling := NO_PID, t_exit_code := 0, t_wake_tick := 0,
     t_name := ''shell'', t_cr3 := 0\<rparr>"
    unfolding task_init_slots_def f Let_def by (simp add: MAX_TASKS_def)
  show "0 < k \<Longrightarrow> k < MAX_TASKS \<Longrightarrow> tasks (task_init_slots s) k = (tasks s k)\<lparr>t_state := Dead\<rparr>"
    "current_index (task_init_slots s) = 0" "kernel_cr3 (task_init_slots s) = cr3 s" "loaded_cr3 (task_init_slots s) = cr3 s"
    "cr3 (task_init_slots s) = cr3 s" "pending_cleanup (task_init_slots s) = pending_cleanup s"
    "tick_counter (task_init_slots s) = tick_counter s" "hdrs (task_init_slots s) = hdrs s"
    "free_list_head (task_init_slots s) = free_list_head s" "heap_min (task_init_slots s) = heap_min s"
    "heap_max (task_init_slots s) = heap_max s" "pmm_bitmap (task_init_slots s) = pmm_bitmap s"
    "free_count (task_init_slots s) = free_count s" "cpu (task_init_slots s) = cpu s"
    unfolding task_init_slots_def f Let_def by simp_all
qed

text \<open>The globals of the module at boot: zero-initialised slots, nothing pending.\<close>

definition boot_ready :: "'a task_state_scheme \<Rightarrow> bool" where
  "boot_ready s \<longleftrightarrow> (\<forall>k<MAX_TASKS. t_stack_base (tasks s k) = 0 \<and> t_cr3 (tasks s k) = 0) \<and>
     cr3 s \<noteq> 0 \<and> \<not> pc_active (pending_cleanup s) \<and> tick_counter s = 0"

lemma init_slots_inv:
  assumes "boot_ready s"
  shows "task_inv 0 (task_init_slots s)"
proof -
  let ?s = "task_init_slots s"
  have c: "cur ?s = 0" by (simp add: cur_def init_slots_fields)
  have z: "t_cr3 (tasks ?s k) = 0" if "k < MAX_TASKS" for k
    using assms that by (cases "k = 0") (simp_all add: init_slots_fields boot_ready_def)
  have "slot_inv ?s k \<and> (k \<noteq> 0 \<longrightarrow> t_state (tasks ?s k) \<noteq> Running)" if "k < MAX_TASKS" for k
    using assms that by (cases "k = 0") (simp_all add: init_slots_fields boot_ready_def slot_inv_def Let_def)
  moreover have "spaces_distinct (kernel_cr3 ?s) (\<lambda>k. t_cr3 (tasks ?s k))"
    using assms z by (auto simp: spaces_distinct_def init_slots_fields(4) boot_ready_def)
  moreover have "space_of ?s 0 = cr3 s" by (simp add: space_of_def init_slots_fields)
  ultimately show ?thesis using assms unfolding task_inv_def table_inv_def c
    by (simp add: init_slots_fields boot_ready_def TICKS_PER_SWITCH_def MAX_TASKS_def)
qed

lemma change_idle: "task_inv i s \<Longrightarrow> j < MAX_TASKS \<Longrightarrow> ready s j \<Longrightarrow> task_inv j s"
  by (simp add: task_inv_def table_inv_def ready_def)

lemma create_taken:
  assumes "create tr e nm s = Some (Some k, s')"
  obtains u where "slot_taken tr k s u" "s' = upd_task k (\<lambda>t. t\<lparr>t_cr3 := 0, t_state := Ready\<rparr>) u"
proof -
  obtain u where u: "init_common_slot tr e nm s = Some (Some k, u)" "s' = upd_task k (\<lambda>t. t\<lparr>t_cr3 := 0, t_state := Ready\<rparr>) u"
    using assms by (auto simp: create_def split: option.splits prod.splits)
  show ?thesis by (rule that [OF init_common_slot_taken [OF u(1)] u(2)])
qed

lemma create_ready:
  assumes "create tr e nm s = Some (Some k, s')"
  shows "k < MAX_TASKS" "ready s' k" "t_state (tasks s k) = Dead" "t_pid (tasks s' k) = make_pid k (t_generation (tasks s k) + 1)"
    "current s = Some p \<Longrightarrow> p \<noteq> k \<Longrightarrow> t_first_child (tasks s' p) = t_pid (tasks s' k)"
proof -
  obtain u where u: "slot_taken tr k s u" "s' = upd_task k (\<lambda>t. t\<lparr>t_cr3 := 0, t_state := Ready\<rparr>) u"
    using create_taken [OF assms] .
  show "k < MAX_TASKS" "ready s' k" "t_state (tasks s k) = Dead" "t_pid (tasks s' k) = make_pid k (t_generation (tasks s k) + 1)"
    "current s = Some p \<Longrightarrow> p \<noteq> k \<Longrightarrow> t_first_child (tasks s' p) = t_pid (tasks s' k)"
    using u by (simp_all add: slot_taken_def ready_def)
qed

lemma detach_total:
  assumes "t_first_child (tasks s 0) = t_pid (tasks s k)"
  shows "\<exists>s'. detach_from_shell k s = Some s'"
  using assms by (simp add: detach_from_shell_def remove_child_def)

lemma detach_benign: "detach_from_shell k s = Some s' \<Longrightarrow> benign s s'"
  using benign_remove_child benign_links(3) benign_trans by (fastforce simp: detach_from_shell_def)

text \<open>The heap's representation does not depend on the task table.\<close>

lemma heap_rep_tasks [simp]:
  "heap_rep (s\<lparr>tasks := t\<rparr>) bs = heap_rep s bs" "heap_rep (s\<lparr>stack_mem := m\<rparr>) bs = heap_rep s bs"
  "heap_rep (s\<lparr>pending_cleanup := c\<rparr>) bs = heap_rep s bs" "heap_rep (task_init_slots s) bs = heap_rep s bs"
  by (simp_all add: heap_rep_def pmm_ok_def pmm_inv_def free_set_def init_slots_fields)

lemma heap_rep_add_child [simp]: "heap_rep (add_child p c s) bs = heap_rep s bs"
  by (simp add: add_child_def Let_def)

lemma create_total:
  assumes "heap_rep s bs"
  shows "\<exists>r s' cs. create tr e nm s = Some (r, s') \<and> heap_rep s' cs"
proof (cases "find_free_slot s")
  case None
  then show ?thesis using assms by (auto simp: create_def init_common_slot_def)
next
  case (Some k)
  obtain a t cs where "kmalloc TASK_STACK_SIZE s = Some (a, t)" "heap_rep t cs"
    using kmalloc_runs [OF assms, of TASK_STACK_SIZE] by (auto simp: TASK_STACK_SIZE_def kmalloc_post_def)
  then show ?thesis using Some
    by (auto simp: create_def init_common_slot_def Let_def split_def split: option.split)
qed

lemma detach_heap: "detach_from_shell k s = Some s' \<Longrightarrow> heap_rep s' bs = heap_rep s bs"
  by (auto simp: detach_from_shell_def remove_child_def split: if_splits option.splits)

lemma created_detached:
  assumes "create tr e nm s = Some (r, s')" "task_inv idle s" "cur s = 0" "heap_rep s' bs"
  shows "\<exists>t. (case r of Some k \<Rightarrow> detach_from_shell k s' | None \<Rightarrow> Some s') = Some t \<and> benign s' t \<and> heap_rep t bs"
proof (cases r)
  case (Some k)
  note c = create_ready [OF assms(1) [unfolded Some]]
  have "current s = Some 0" using table_inv_cur(2) [of idle s] assms(2,3) by (simp add: task_inv_def)
  moreover have "k \<noteq> 0" using assms(2,3) c(3) by (intro notI) (simp add: task_inv_def)
  ultimately have "current s = Some 0" "0 \<noteq> k" by simp_all
  then have "t_first_child (tasks s' 0) = t_pid (tasks s' k)" using c(5) by simp
  then obtain t where t: "detach_from_shell k s' = Some t" using detach_total by blast
  then show ?thesis using Some detach_benign [OF t] detach_heap [OF t] assms(4) by simp
qed (use assms(4) in simp)

lemma create_cur:
  assumes "create tr e nm s = Some (r, s')"
  shows "cur s' = cur s"
proof (cases r)
  case None
  then have h: "heap_mask s' = heap_mask s"
    using assms init_common_slot_none by (fastforce simp: create_def split: option.splits prod.splits)
  show ?thesis unfolding cur_def mask_task_fields(2) [OF h] ..
next
  case (Some k)
  obtain u where "slot_taken tr k s u" "s' = upd_task k (\<lambda>t. t\<lparr>t_cr3 := 0, t_state := Ready\<rparr>) u"
    using create_taken [OF assms [unfolded Some]] .
  then show ?thesis by (simp add: cur_def slot_taken_def)
qed

lemma init_pid_inv [simp]: "task_inv idle (s\<lparr>init_pid := p\<rparr>) = task_inv idle s"
  by (simp add: task_inv_def table_inv_def slot_inv_def cur_def space_of_def)

lemma boot_inv:
  assumes "boot_ready s" "heap_rep s bs" and idle: "create tr ie ''idle'' (task_init_slots s) = Some (Some idle, u)"
  shows "\<exists>s0. task_init tr ie ne s = Some s0 \<and> task_inv idle s0"
proof -
  note i0 = init_slots_inv [OF assms(1)]
  have c0: "cur (task_init_slots s) = 0" by (simp add: cur_def init_slots_fields)
  obtain cs where hu: "heap_rep u cs" using create_total [of "task_init_slots s" bs tr ie "''idle''"] assms(2) idle by auto
  obtain v where v: "detach_from_shell idle u = Some v" "benign u v" "heap_rep v cs"
    using created_detached [OF idle i0 c0 hu] by auto
  have "task_inv idle u"
    using change_idle create_inv [OF idle i0] create_ready(1,2) [OF idle] by blast
  then have iv: "task_inv idle v" using benign_inv v(2) by blast
  have cv: "cur v = 0" using create_cur [OF idle] c0 v(2) by (simp add: benign_def cur_def)
  obtain r w ds where w: "create tr ne ''init'' v = Some (r, w)" "heap_rep w ds" using create_total [OF v(3)] by blast
  obtain x where x: "(case r of Some k \<Rightarrow> detach_from_shell k w | None \<Rightarrow> Some w) = Some x" "benign w x"
    using created_detached [OF w(1) iv cv w(2)] by auto
  have "task_inv idle x" using create_inv [OF w(1) iv] x(2) benign_inv by blast
  then show ?thesis using idle v(1) w(1) x(1) by (cases r) (auto simp: task_init_def)
qed

end
