(* ===== verification/Task_Theorems.thy ===== *)
theory Task_Theorems
  imports Task_Boot
begin

text \<open>
  The properties of the task module: the table's invariant from boot on, the round-robin choice, bounded
  waiting, process identifiers, and the safety of an exit.
\<close>

section \<open>Bounded waiting\<close>

fun timer_irqs :: "nat \<Rightarrow> 'a task_state_scheme \<Rightarrow> 'a task_state_scheme option" where
  "timer_irqs 0 s = Some s"
| "timer_irqs (Suc n) s = (case timer_irq s of None \<Rightarrow> None | Some s \<Rightarrow> timer_irqs n s)"

lemma timer_irqs_add:
  "timer_irqs m s = Some t \<Longrightarrow> timer_irqs (m + n) s = timer_irqs n t"
  by (induction m arbitrary: s) (auto split: option.splits)

lemma reschedule_progress:
  assumes i: "task_inv idle s" and t: "ready s t" "t < MAX_TASKS" and r: "reschedule s = Some s'"
  shows "cur s' = t \<or> ready s' t \<and> turns (cur s') t < turns (cur s) t"
proof -
  have ti: "table_inv idle s" "t_state (tasks s (cur s)) \<noteq> Ready" using i by (auto simp: task_inv_def)
  obtain n where n: "n < MAX_TASKS" "ready s n" "n \<noteq> cur s" "dispatched s n s'" "turns (cur s) n \<le> turns (cur s) t"
    using reschedule_cases [OF ti(1) r ti(2)] t by blast
  have c: "cur s' = n" using n(4) by (simp add: dispatched_def cur_def)
  show ?thesis
  proof (cases "n = t")
    case False
    note cm = table_inv_cur(1) [OF ti(1)]
    have "turns (cur s) n \<noteq> turns (cur s) t" using False turns_bounds(3) [OF cm] n(1) t(2) by metis
    then have "turns (cur s) n < turns (cur s) t" using n(5) by simp
    then have "turns n t = turns (cur s) t - turns (cur s) n"
      using turns_step [OF cm t(2), of "turns (cur s) n"] turns_bounds [OF cm n(1)] by simp
    moreover have "ready s' t" using n(4) t(1) False by (auto simp: dispatched_def ready_def state_after_def)
    ultimately show ?thesis using c turns_bounds(1) [OF cm n(1)] turns_bounds(1) [OF cm t(2)] by simp
  qed (use c in simp)
qed

lemma reschedule_tick:
  assumes "task_inv idle s" "reschedule s = Some s'"
  shows "tick_counter s' = tick_counter s"
proof -
  have ti: "table_inv idle s" "t_state (tasks s (cur s)) \<noteq> Ready" using assms(1) by (auto simp: task_inv_def)
  show ?thesis using reschedule_cases [OF ti(1) assms(2) ti(2)] by (auto simp: dispatched_def)
qed

lemma quantum_ends:
  assumes "task_inv idle s" "ready s t" "t < MAX_TASKS"
  shows "\<exists>n s'. n \<le> nat (TICKS_PER_SWITCH - tick_counter s) \<and> timer_irqs n s = Some s' \<and> task_inv idle s' \<and>
    tick_counter s' = 0 \<and> (cur s' = t \<or> ready s' t \<and> turns (cur s') t < turns (cur s) t)"
  using assms
proof (induction "nat (TICKS_PER_SWITCH - tick_counter s)" arbitrary: s rule: less_induct)
  case less
  obtain u where u: "task_inv idle u" "cur u = cur s" "\<And>k. ready s k \<Longrightarrow> ready u k"
    "tick_counter s + 1 < TICKS_PER_SWITCH \<Longrightarrow> timer_irq s = Some u \<and> tick_counter u = tick_counter s + 1"
    "tick_counter s + 1 \<ge> TICKS_PER_SWITCH \<Longrightarrow> timer_irq s = reschedule u \<and> tick_counter u = 0"
    by (rule timer_cases [OF less.prems(1)]) blast
  have b: "0 \<le> tick_counter s" "tick_counter s < TICKS_PER_SWITCH" using less.prems(1) by (auto simp: task_inv_def table_inv_def)
  show ?case
  proof (cases "tick_counter s + 1 < TICKS_PER_SWITCH")
    case True
    note c = u(4) [OF True]
    then have m: "nat (TICKS_PER_SWITCH - tick_counter s) = Suc (nat (TICKS_PER_SWITCH - tick_counter u))" using b by simp
    obtain n s' where n: "n \<le> nat (TICKS_PER_SWITCH - tick_counter u)" "timer_irqs n u = Some s'" "task_inv idle s'"
      "tick_counter s' = 0" "cur s' = t \<or> ready s' t \<and> turns (cur s') t < turns (cur u) t"
      using less.hyps [of u] u(1,3) less.prems(2,3) m by auto
    then show ?thesis using c u(2) m by (intro exI [of _ "Suc n"] exI [of _ s']) simp
  next
    case False
    have "table_inv idle u" "\<not> pc_active (pending_cleanup u)" using u(1) by (auto simp: task_inv_def)
    then obtain s' where r: "reschedule u = Some s'" using reschedule_total by blast
    have "cur s' = t \<or> ready s' t \<and> turns (cur s') t < turns (cur u) t"
      by (rule reschedule_progress [OF u(1) u(3) [OF less.prems(2)] less.prems(3) r])
    moreover have "task_inv idle s'" using reschedule_inv r u(1) by blast
    moreover have "timer_irqs 1 s = Some s'" "1 \<le> nat (TICKS_PER_SWITCH - tick_counter s)" using False u(5) r b by auto
    moreover have "tick_counter s' = 0" using reschedule_tick [OF u(1) r] u(5) False by simp
    ultimately show ?thesis using u(2) by auto
  qed
qed

lemma runs_within:
  assumes "task_inv idle s" "ready s t" "t < MAX_TASKS"
  shows "\<exists>n s'. n \<le> 5 * turns (cur s) t \<and> timer_irqs n s = Some s' \<and> cur s' = t"
  using assms
proof (induction "turns (cur s) t" arbitrary: s rule: less_induct)
  case less
  obtain n u where u: "n \<le> nat (TICKS_PER_SWITCH - tick_counter s)" "timer_irqs n s = Some u" "task_inv idle u"
    "cur u = t \<or> ready u t \<and> turns (cur u) t < turns (cur s) t"
    using quantum_ends [OF less.prems] by blast
  have "0 \<le> tick_counter s" "table_inv idle s" using less.prems(1) by (auto simp: task_inv_def table_inv_def)
  then have n: "n \<le> 5" "1 \<le> turns (cur s) t"
    using u(1) turns_bounds(1) [OF _ less.prems(3)] table_inv_cur(1) by (auto simp: TICKS_PER_SWITCH_def)
  show ?case
  proof (cases "cur u = t")
    case True
    then show ?thesis using u(2) n by (intro exI [of _ n] exI [of _ u]) simp
  next
    case False
    then obtain m s' where "m \<le> 5 * turns (cur u) t" "timer_irqs m u = Some s'" "cur s' = t"
      using less.hyps [of u] u(3,4) less.prems(3) by blast
    then show ?thesis using timer_irqs_add [OF u(2), of m] u(4) False n
      by (intro exI [of _ "n + m"] exI [of _ s']) simp
  qed
qed

section \<open>A table to evaluate on\<close>

text \<open>The shell in slot 0, the idle task in slot 1 and a user process, running, in slot 2.\<close>

definition blank_task :: Task where
  "blank_task = \<lparr>t_rsp = 0, t_stack_base = 0, t_entry = 0, t_state = Dead, t_pid = 0, t_generation = 0, t_parent_pid = 0,
     t_first_child = 0, t_next_sibling = 0, t_exit_code = 0, t_wake_tick = 0, t_name = [], t_cr3 = 0, t_user_entry = 0,
     t_user_stack_top = 0\<rparr>"

definition blank_regs :: cpu_regs where
  "blank_regs = \<lparr>r_rsp = 0x90000, r_rip = 0x100500, r_rflags = 0x202, r_rbx = 0, r_rbp = 0, r_r12 = 0, r_r13 = 0, r_r14 = 0, r_r15 = 0\<rparr>"

definition sample_slots :: "nat \<Rightarrow> Task" where
  "sample_slots = (\<lambda>_. blank_task)
     (0 := blank_task\<lparr>t_state := Ready, t_generation := 1, t_pid := make_pid 0 1, t_first_child := make_pid 2 1\<rparr>,
      1 := blank_task\<lparr>t_state := Ready, t_generation := 1, t_pid := make_pid 1 1, t_stack_base := 0x300000\<rparr>,
      2 := blank_task\<lparr>t_state := Running, t_generation := 1, t_pid := make_pid 2 1, t_parent_pid := make_pid 0 1,
             t_cr3 := 0x5000\<rparr>)"

definition sample_table :: task_state where
  "sample_table = \<lparr>pmm_bitmap = (\<lambda>_. 0xFF), free_count = 0, hdrs = (\<lambda>_. blank_header), free_list_head = 0,
     heap_min = 0, heap_max = 0, ptab = (\<lambda>_ _. 0), cr3 = 0x5000, cr0 = 0, efer = 0, tlb_log = [], tasks = sample_slots,
     current_index = 2, kernel_cr3 = 0x1000, loaded_cr3 = 0x5000,
     pending_cleanup = \<lparr>pc_stack_base = 0, pc_cr3 = 0, pc_active = False\<rparr>, init_pid = 0, stack_mem = (\<lambda>_. 0),
     cpu = blank_regs, tss_rsp0 = 0, timer_ticks = 0, tick_counter = 0\<rparr>"

lemma sample_table_inv: "task_inv 1 sample_table" "cur sample_table = 2" "current sample_table = Some 2"
proof -
  show c: "cur sample_table = 2" "current sample_table = Some 2" by (simp_all add: cur_def current_def sample_table_def)
  have t: "tasks sample_table = sample_slots" "kernel_cr3 sample_table = 0x1000" by (simp_all add: sample_table_def)
  have "slot_inv sample_table k \<and> (k \<noteq> 2 \<longrightarrow> t_state (tasks sample_table k) \<noteq> Running)" for k
    by (auto simp: slot_inv_def Let_def t sample_slots_def blank_task_def)
  moreover have "spaces_distinct 0x1000 (\<lambda>k. t_cr3 (sample_slots k))"
    by (auto simp: spaces_distinct_def sample_slots_def blank_task_def)
  ultimately show "task_inv 1 sample_table" unfolding task_inv_def table_inv_def c t space_of_def
    by (simp add: sample_table_def sample_slots_def MAX_TASKS_def TICKS_PER_SWITCH_def)
qed

section \<open>Properties\<close>

text \<open>
  C10. A ready task is not starved: from every state that satisfies the table's invariant, at most
  640 timer interrupts later (128 slots, five ticks each) the task is the running one, however many
  other tasks are ready or wake up in between.
\<close>

theorem ready_task_runs:
  assumes "task_inv idle s" "t < MAX_TASKS" "t_state (tasks s t) = Ready"
  shows "\<exists>n s'. n \<le> 640 \<and> timer_irqs n s = Some s' \<and> current s' = Some t \<and> t_state (tasks s' t) = Running"
proof -
  have r: "ready s t" using assms(3) by (simp add: ready_def)
  obtain n s' where n: "n \<le> 5 * turns (cur s) t" "timer_irqs n s = Some s'" "cur s' = t"
    using runs_within [OF assms(1) r assms(2)] by blast
  have "turns (cur s) t \<le> 128"
    using turns_bounds(2) [OF _ assms(2)] table_inv_cur(1) assms(1) by (auto simp: task_inv_def MAX_TASKS_def)
  moreover have "task_inv idle s'" using n(2) assms(1)
    by (induction n arbitrary: s) (auto split: option.splits dest: timer_inv)
  then have "current s' = Some t" "t_state (tasks s' t) = Running"
    using n(3) table_inv_cur(2) by (auto simp: task_inv_def)
  ultimately show ?thesis using n by (intro exI [of _ n] exI [of _ s']) simp
qed

theorem ready_task_runs_witness:
  "task_inv 1 sample_table \<and> t_state (tasks sample_table 0) = Ready \<and>
   (\<exists>n s'. n \<le> 640 \<and> timer_irqs n sample_table = Some s' \<and> current s' = Some 0 \<and> t_state (tasks s' 0) = Running)"
proof -
  have "t_state (tasks sample_table 0) = Ready" by (simp add: sample_table_def sample_slots_def)
  then show ?thesis using ready_task_runs [OF sample_table_inv(1), of 0] sample_table_inv(1) by (simp add: MAX_TASKS_def)
qed

text \<open>
  C24. When a task exits, its address space is destroyed only after another one is loaded: after the exit
  another task runs, in its own address space, no slot refers to the old address space any more and
  nothing is left to be reaped.
\<close>

theorem exit_keeps_loaded_space:
  assumes "task_inv idle s" "cur s \<noteq> idle" "exit_current code s = Some s'"
  shows "cur s' \<noteq> cur s \<and> t_state (tasks s' (cur s')) = Running \<and> cr3 s' = space_of s' (cur s') \<and>
    \<not> pc_active (pending_cleanup s') \<and>
    (t_cr3 (tasks s (cur s)) \<noteq> 0 \<longrightarrow>
      cr3 s' \<noteq> t_cr3 (tasks s (cur s)) \<and> (\<forall>k<MAX_TASKS. t_cr3 (tasks s' k) \<noteq> t_cr3 (tasks s (cur s))))"
proof -
  let ?old = "t_cr3 (tasks s (cur s))"
  have ti: "table_inv idle s" using assms(1) by (simp add: task_inv_def)
  obtain u where u: "orphan_children (cur s) (stripped code s) = Some u" "reschedule (become_zombie_or_dead (cur s) u) = Some s'"
    using exit_cases [OF assms(3) ti] by blast
  let ?e = "become_zombie_or_dead (cur s) u"
  note e = exit_leaving [OF assms(1,2) u(1)]
  have i: "task_inv idle s'" by (rule exit_inv [OF assms(3,1,2)])
  have te: "table_inv idle ?e" "t_state (tasks ?e (cur ?e)) \<noteq> Ready" "t_state (tasks ?e (cur ?e)) \<noteq> Running"
    using e(1) by (auto simp: leaving_def)
  have "s' \<noteq> ?e" using i te(3) by (auto simp: task_inv_def)
  then obtain n where n: "n \<noteq> cur ?e" "n < MAX_TASKS" "dispatched ?e n s'" using reschedule_cases [OF te(1) u(2) te(2)] by blast
  have c: "cur s' = n" "\<And>k. t_cr3 (tasks s' k) = (if k = cur s then 0 else t_cr3 (tasks s k))"
    using n(3) e(3) by (auto simp: dispatched_def cur_def)
  have k: "kernel_cr3 s' = kernel_cr3 s" using n(3) e(4) by (simp add: dispatched_def)
  have d: "spaces_distinct (kernel_cr3 s) (\<lambda>k. t_cr3 (tasks s k))" "cur s < MAX_TASKS"
    using ti by (auto simp: table_inv_def)
  have old: "t_cr3 (tasks s' k) \<noteq> ?old" if "k < MAX_TASKS" "?old \<noteq> 0" for k
    using d that unfolding c(2) spaces_distinct_def by (metis (no_types, lifting))
  moreover have "space_of s' (cur s') \<noteq> ?old" if "?old \<noteq> 0"
    using old [OF n(2) that] that d unfolding space_of_def c(1) k spaces_distinct_def by metis
  moreover have "cr3 s' = space_of s' (cur s')" using i by (simp add: task_inv_def table_inv_def)
  ultimately show ?thesis using i n(1) e(2) c(1) by (auto simp: task_inv_def)
qed

theorem exit_keeps_loaded_space_witness:
  "task_inv 1 sample_table \<and> t_cr3 (tasks sample_table 2) = 0x5000 \<and>
   (\<exists>s'. exit_current 7 sample_table = Some s' \<and> cur s' \<noteq> 2 \<and> cr3 s' \<noteq> 0x5000)"
proof -
  note i = sample_table_inv
  have t: "t_cr3 (tasks sample_table 2) = 0x5000" by (simp add: sample_table_def sample_slots_def)
  have o: "orphan_children 2 (stripped 7 sample_table) = Some (stripped 7 sample_table)"
    by (simp add: orphan_children_def stripped_def sample_table_def NO_PID_def)
  let ?e = "become_zombie_or_dead 2 (stripped 7 sample_table)"
  have e: "table_inv 1 ?e" "pc_stack_base (pending_cleanup ?e) = 0"
    using exit_leaving(1,5) [OF i(1), of 7] i(2) o
    by (simp_all add: leaving_def) (simp add: stripped_def i(2), simp add: sample_table_def sample_slots_def blank_task_def)
  then obtain s' where "reschedule ?e = Some s'" using reschedule_total by blast
  then have x: "exit_current 7 sample_table = Some s'"
    using o i by (simp add: exit_current_def stripped_def Let_def)
  have "cur s' \<noteq> 2 \<and> cr3 s' \<noteq> 0x5000" using exit_keeps_loaded_space [OF i(1) _ x] i(2) t by auto
  then show ?thesis using i(1) t x by blast
qed

text \<open>
  \<open>reschedule\<close> is round robin: it always returns; if no task is ready nothing changes, otherwise the
  task that runs next is the ready task with the smallest cyclic distance after the current one, the
  current task becomes ready again, the address space of the next task is loaded and no other slot
  changes its state.
\<close>

lemma reschedule_round_robin:
  assumes "task_inv idle s"
  shows "\<exists>s'. reschedule s = Some s' \<and>
    (if \<exists>k<MAX_TASKS. t_state (tasks s k) = Ready then
       \<exists>d. 1 \<le> d \<and> d < MAX_TASKS \<and> (let n = (cur s + d) mod MAX_TASKS in
         t_state (tasks s n) = Ready \<and> (\<forall>e. 1 \<le> e \<and> e < d \<longrightarrow> t_state (tasks s ((cur s + e) mod MAX_TASKS)) \<noteq> Ready) \<and>
         current s' = Some n \<and> t_state (tasks s' n) = Running \<and> t_state (tasks s' (cur s)) = Ready \<and>
         cr3 s' = space_of s n \<and>
         (\<forall>k. k \<noteq> n \<and> k \<noteq> cur s \<longrightarrow> t_state (tasks s' k) = t_state (tasks s k)))
     else s' = s)"
proof -
  have ti: "table_inv idle s" "t_state (tasks s (cur s)) = Running" "\<not> pc_active (pending_cleanup s)"
    using assms by (auto simp: task_inv_def)
  then obtain s' where r: "reschedule s = Some s'" using reschedule_total by blast
  note c = table_inv_cur [OF ti(1)]
  show ?thesis
  proof (cases "\<exists>k<MAX_TASKS. t_state (tasks s k) = Ready")
    case True
    obtain n where n: "n < MAX_TASKS" "ready s n" "n \<noteq> cur s" "dispatched s n s'"
      "\<forall>k<MAX_TASKS. ready s k \<longrightarrow> turns (cur s) n \<le> turns (cur s) k"
      using reschedule_cases [OF ti(1) r] ti(2) True by (auto simp: ready_def)
    let ?d = "turns (cur s) n"
    have d: "1 \<le> ?d" "(cur s + ?d) mod MAX_TASKS = n" "?d < MAX_TASKS"
      using turns_bounds [OF c(1) n(1)] n(3) c(1) n(1) by (auto simp: turns_def)
    have "\<not> ready s ((cur s + e) mod MAX_TASKS)" if "1 \<le> e" "e < ?d" for e
    proof
      assume "ready s ((cur s + e) mod MAX_TASKS)"
      then have "?d \<le> turns (cur s) ((cur s + e) mod MAX_TASKS)" using n(5) by (simp add: MAX_TASKS_def)
      then show False using turns_unique [OF c(1) that(1)] that(2) d(3) by simp
    qed
    moreover have "current s' = Some n" "t_state (tasks s' n) = Running" "t_state (tasks s' (cur s)) = Ready"
      "cr3 s' = space_of s n" "\<forall>k. k \<noteq> n \<and> k \<noteq> cur s \<longrightarrow> t_state (tasks s' k) = t_state (tasks s k)"
      using n(3,4) ti(1,2) c(2) by (auto simp: dispatched_def current_def state_after_def table_inv_def)
    ultimately show ?thesis using True r n(2) d by (intro exI [of _ s']) (auto simp: ready_def Let_def intro!: exI [of _ ?d])
  next
    case False
    then show ?thesis using reschedule_cases [OF ti(1) r] ti(2) r by (auto simp: ready_def)
  qed
qed

lemma reschedule_round_robin_witness:
  "task_inv 1 sample_table \<and> (\<exists>s'. reschedule sample_table = Some s' \<and> current s' = Some 0 \<and> cr3 s' = 0x1000)"
proof -
  note i = sample_table_inv
  have t: "tasks sample_table = sample_slots" "kernel_cr3 sample_table = 0x1000" by (simp_all add: sample_table_def)
  have st: "t_state (sample_slots k) = (if k < 2 then Ready else if k = 2 then Running else Dead)" for k
    by (auto simp: sample_slots_def blank_task_def)
  have ex: "\<exists>k<MAX_TASKS. t_state (sample_slots k) = Ready" unfolding st by (rule exI [of _ 0]) (simp add: MAX_TASKS_def)
  obtain s' d where d: "reschedule sample_table = Some s'" "1 \<le> d" "d < MAX_TASKS"
    "t_state (sample_slots ((2 + d) mod MAX_TASKS)) = Ready" "current s' = Some ((2 + d) mod MAX_TASKS)"
    "\<forall>e. 1 \<le> e \<and> e < d \<longrightarrow> t_state (sample_slots ((2 + e) mod MAX_TASKS)) \<noteq> Ready"
    "cr3 s' = space_of sample_table ((2 + d) mod MAX_TASKS)"
    using reschedule_round_robin [OF i(1)] ex by (auto simp: i(2) t Let_def)
  have "\<not> d < 126" using d(2,4) by (auto simp: st MAX_TASKS_def split: if_splits)
  moreover have "\<not> 126 < d" using d(6) by (auto simp: st MAX_TASKS_def dest: spec [of _ 126])
  ultimately have "d = 126" by simp
  then show ?thesis using d i(1) by (auto simp: MAX_TASKS_def space_of_def t sample_slots_def blank_task_def)
qed

text \<open>
  Process identifiers: for every slot of the table and every generation below \<open>2^56\<close> the identifier
  is not \<open>NO_PID\<close>, slot and generation can be read back from it, and two identifiers agree only if slot
  and generation do.
\<close>

lemma pid_roundtrip:
  assumes "slot < MAX_TASKS" "slot' < MAX_TASKS" "unat gen < 2 ^ 56" "unat gen' < 2 ^ 56"
  shows "make_pid slot gen \<noteq> NO_PID \<and> pid_slot_index (make_pid slot gen) = int slot \<and>
    pid_generation (make_pid slot gen) = gen \<and>
    (make_pid slot gen = make_pid slot' gen' \<longrightarrow> slot = slot' \<and> gen = gen')"
proof -
  have s: "slot < 255" "slot' < 255" using assms(1,2) by (simp_all add: MAX_TASKS_def)
  have g: "take_bit 56 gen = gen" "take_bit 56 gen' = gen'"
    using assms(3,4) by (simp_all add: word_unat_eq_iff unsigned_take_bit_eq take_bit_nat_eq_self)
  show ?thesis
    using make_pid_nonzero [OF s(1)] make_pid_slot [OF s(1)] make_pid_slot [OF s(2)]
      make_pid_generation [OF s(1)] make_pid_generation [OF s(2)] g by (metis of_nat_eq_iff)
qed

lemma pid_roundtrip_witness:
  "pid_slot_index (make_pid 3 7) = 3 \<and> pid_generation (make_pid 3 7) = 7"
  using pid_roundtrip [of 3 3 7 7] by (simp add: MAX_TASKS_def)

section \<open>Boot\<close>

text \<open>A heap of one free block of sixteen frames, and a table that was never used.\<close>

definition sample_boot :: task_state where
  "sample_boot = sample_table\<lparr>heap_min := 0x200000, heap_max := 0x210000, free_list_head := 0x200000,
     hdrs := (\<lambda>_. blank_header)(0x200000 := \<lparr>bh_size = 0xFFE0, bh_free = True, bh_magic = MAGIC_FREED, bh_next = 0, bh_reserved = 0\<rparr>),
     tasks := (\<lambda>_. blank_task), cr3 := 0x1000, current_index := - 1\<rparr>"

lemma sample_boot_ok: "boot_ready sample_boot" "heap_rep sample_boot [Blk 0x200000 0xFFE0 True]"
proof -
  show "boot_ready sample_boot" by (simp add: boot_ready_def sample_boot_def sample_table_def blank_task_def)
  have f: "free_set sample_boot = {}"
    using blank_pmm(2) [of sample_boot] by (simp add: free_set_def sample_boot_def sample_table_def)
  then have "pmm_ok sample_boot" by (simp add: pmm_ok_def pmm_inv_def sample_boot_def sample_table_def)
  then show "heap_rep sample_boot [Blk 0x200000 0xFFE0 True]"
    using f by (simp add: heap_rep_def) (simp add: sample_boot_def)
qed

lemma sample_boot_create:
  "\<exists>u. create 0x101000 0x102000 ''idle'' (task_init_slots sample_boot) = Some (Some 1, u) \<and>
     t_stack_base (tasks u 1) = 0x200020"
proof -
  let ?s = "task_init_slots sample_boot"
  have f: "free_list_head ?s = 0x200000" "hdrs ?s 0x200000 = \<lparr>bh_size = 0xFFE0, bh_free = True, bh_magic = MAGIC_FREED, bh_next = 0, bh_reserved = 0\<rparr>"
    by (simp_all add: init_slots_fields sample_boot_def)
  have al: "align_up TASK_STACK_SIZE HEAP_ALIGNMENT = 0x4000"
    by (simp add: align_up_def TASK_STACK_SIZE_def HEAP_ALIGNMENT_def)
  have fit: "find_fit (hdrs ?s) (free_list_head ?s) (align_up TASK_STACK_SIZE HEAP_ALIGNMENT) = Some 0x200000"
    unfolding al f(1) by (subst find_fit.simps) (simp add: f)
  have "TASK_STACK_SIZE \<noteq> 0" by (simp add: TASK_STACK_SIZE_def)
  then have "\<exists>u. kmalloc TASK_STACK_SIZE ?s = Some (data_ptr 0x200000, u)" by (simp add: kmalloc_def fit)
  then obtain u where k: "kmalloc TASK_STACK_SIZE ?s = Some (data_ptr 0x200000, u)" by blast
  have "find_free_slot ?s = Some 1"
    unfolding find_free_slot_def find_Some_iff
    by (rule exI [of _ 1]) (auto simp: MAX_TASKS_def init_slots_fields sample_boot_def blank_task_def PID_GENERATION_MAX_def)
  then show ?thesis using k
    by (auto simp: create_def init_common_slot_def Let_def split_def data_ptr_def SIZEOF_BlockHeader_def add_child_def split: option.split)
qed

text \<open>
  C1. The table's invariant: \<open>task::init\<close> on a well-formed heap returns, and if it could create the idle
  task then after it, and after any sequence of timer interrupts, yields, creations of tasks and of processes
  with a fresh address space, wake-ups, and blocks, sleeps, waits and exits of tasks other than the idle task,
  each taken as one step, the current task and no other is running, in its own address space, dead and
  zombie slots own no stack and no address space, the identifier of a live slot names the slot, no two
  tasks share an address space and the idle task is ready or running.
\<close>

theorem task_table_invariant:
  assumes "boot_ready s" "heap_rep s bs" "create tr ie ''idle'' (task_init_slots s) = Some (Some idle, u)"
  shows "\<exists>s0. task_init tr ie ne s = Some s0 \<and> (\<forall>s'. (kernel_step idle)\<^sup>*\<^sup>* s0 s' \<longrightarrow> task_inv idle s' \<and>
    (\<forall>k<MAX_TASKS. t_state (tasks s' k) = Running \<longleftrightarrow> current s' = Some k))"
proof -
  obtain s0 where s0: "task_init tr ie ne s = Some s0" "task_inv idle s0" using boot_inv [OF assms] by blast
  have i: "task_inv idle s'" if "(kernel_step idle)\<^sup>*\<^sup>* s0 s'" for s'
    using that by (induction rule: rtranclp_induct) (use s0(2) kernel_step_inv in blast)+
  have "\<forall>k<MAX_TASKS. t_state (tasks s' k) = Running \<longleftrightarrow> current s' = Some k" if "task_inv idle s'" for s'
    using that table_inv_cur(2) [of idle s'] by (auto simp: task_inv_def table_inv_def)
  then show ?thesis using s0(1) i by blast
qed

theorem task_table_invariant_witness:
  "boot_ready sample_boot \<and> (\<exists>s0. task_init 0x101000 0x102000 0x103000 sample_boot = Some s0 \<and>
     (\<forall>s'. (kernel_step 1)\<^sup>*\<^sup>* s0 s' \<longrightarrow> task_inv 1 s'))"
proof -
  obtain u where u: "create 0x101000 0x102000 ''idle'' (task_init_slots sample_boot) = Some (Some 1, u)"
    using sample_boot_create by blast
  show ?thesis using task_table_invariant [OF sample_boot_ok u, of "0x103000"] sample_boot_ok(1) by blast
qed

end
