(* ===== verification/Task_Context.thy ===== *)
theory Task_Context
  imports Task_Theorems
begin

text \<open>
  The context switch and the child lists. Saved registers come back when a task is resumed, a new task
  starts at its trampoline, and the linked child lists of the table behave as lists of slots.
\<close>

section \<open>The saved context\<close>

definition ctx_words :: "cpu_regs \<Rightarrow> u64 list" where
  "ctx_words c = [r_rflags c, r_r15 c, r_r14 c, r_r13 c, r_r12 c, r_rbp c, r_rbx c, r_rip c]"

definition ctx_at :: "(u64 \<Rightarrow> u64) \<Rightarrow> u64 \<Rightarrow> u64 list" where
  "ctx_at m sp = map (\<lambda>i. m (sp + 8 * of_nat i)) [0..<8]"

lemma ctx_at_eq: "ctx_at m sp = [m sp, m (sp + 8), m (sp + 16), m (sp + 24), m (sp + 32), m (sp + 40), m (sp + 48), m (sp + 56)]"
  by (simp add: ctx_at_def upt_rec)

lemma push_word_eq:
  "r_rsp (cpu (push_word v s)) = r_rsp (cpu s) - 8"
  "stack_mem (push_word v s) = (stack_mem s)(r_rsp (cpu s) - 8 := v)"
  by (simp_all add: push_word_def Let_def)

definition pushed :: "u64 \<Rightarrow> cpu_regs \<Rightarrow> (u64 \<Rightarrow> u64) \<Rightarrow> u64 \<Rightarrow> u64" where
  "pushed sp c m = m(sp - 8 := r_rip c, sp - 16 := r_rbx c, sp - 24 := r_rbp c, sp - 32 := r_r12 c, sp - 40 := r_r13 c,
     sp - 48 := r_r14 c, sp - 56 := r_r15 c, sp - 64 := r_rflags c)"

lemma switch_context_eq:
  "fst (switch_context n s) = r_rsp (cpu s) - 64"
  "stack_mem (snd (switch_context n s)) = pushed (r_rsp (cpu s)) (cpu s) (stack_mem s)"
  "r_rsp (cpu (snd (switch_context n s))) = n + 64"
  "ctx_words (cpu (snd (switch_context n s))) = ctx_at (pushed (r_rsp (cpu s)) (cpu s) (stack_mem s)) n"
  by (simp_all add: switch_context_def Let_def push_word_eq pushed_def ctx_words_def ctx_at_eq diff_diff_eq)

lemma pushed_ctx: "ctx_at (pushed sp c m) (sp - 64) = ctx_words c"
  by (simp add: ctx_at_eq pushed_def ctx_words_def)

definition apart :: "u64 \<Rightarrow> u64 \<Rightarrow> bool" where
  "apart a b \<longleftrightarrow> (\<forall>i<8. \<forall>j<8. a + 8 * of_nat i \<noteq> b + 8 * of_nat j)"

lemma apartI:
  assumes "64 \<le> unat (a - b)" "64 \<le> unat (b - a)"
  shows "apart a b"
  unfolding apart_def
proof (intro allI impI notI)
  fix i j :: nat assume ij: "i < 8" "j < 8" "a + 8 * of_nat i = b + 8 * of_nat j"
  have small: "unat (of_nat (8 * n) :: u64) < 64" if "n < 8" for n using that by (simp only: unat_of_nat) simp
  show False
  proof (cases "i \<le> j")
    case True
    have "a - b = 8 * of_nat j - 8 * of_nat i" using ij(3) by (simp add: algebra_simps)
    also have "\<dots> = of_nat (8 * (j - i))" using True by (simp add: of_nat_diff algebra_simps)
    finally show False using small [of "j - i"] assms(1) ij(2) by (metis less_imp_diff_less not_less)
  next
    case False
    have "b - a = 8 * of_nat i - 8 * of_nat j" using ij(3) by (simp add: algebra_simps)
    also have "\<dots> = of_nat (8 * (i - j))" using False by (simp add: of_nat_diff algebra_simps)
    finally show False using small [of "i - j"] assms(2) ij(1) by (metis less_imp_diff_less not_less)
  qed
qed

lemma pushed_apart:
  assumes "apart a (sp - 64)"
  shows "ctx_at (pushed sp c m) a = ctx_at m a"
proof -
  have "pushed sp c m (a + 8 * of_nat i) = m (a + 8 * of_nat i)" if "i < 8" for i
  proof -
    have "a + 8 * of_nat i \<noteq> sp - 64 + 8 * of_nat j" if "j < 8" for j using assms \<open>i < 8\<close> that by (simp add: apart_def)
    from this [of 0] this [of 1] this [of 2] this [of 3] this [of 4] this [of 5] this [of 6] this [of 7]
    show ?thesis by (simp add: pushed_def)
  qed
  then show ?thesis by (simp add: ctx_at_def)
qed

lemma regs_eqI: "r_rsp c = r_rsp d \<Longrightarrow> ctx_words c = ctx_words d \<Longrightarrow> c = (d :: cpu_regs)"
  by (simp add: ctx_words_def)

text \<open>
  C18. A task that is switched away and later switched back to continues with the registers it had:
  its stack pointer, return address, flags and all callee-saved registers, as long as the eight words
  saved on its stack were not overwritten and the two stacks do not overlap.
\<close>

theorem context_roundtrip:
  assumes "switch_context n s = (saved, s1)" "ctx_at (stack_mem s2) saved = ctx_at (stack_mem s1) saved"
    "apart saved (r_rsp (cpu s2) - 64)"
  shows "cpu (snd (switch_context saved s2)) = cpu s"
proof (rule regs_eqI)
  have s: "saved = r_rsp (cpu s) - 64" "s1 = snd (switch_context n s)" using assms(1) switch_context_eq(1) [of n s] by auto
  show "r_rsp (cpu (snd (switch_context saved s2))) = r_rsp (cpu s)" by (simp add: switch_context_eq s(1))
  have "ctx_words (cpu (snd (switch_context saved s2))) = ctx_at (stack_mem s2) saved"
    unfolding switch_context_eq(4) by (rule pushed_apart [OF assms(3)])
  also have "\<dots> = ctx_at (stack_mem s1) saved" by (rule assms(2))
  also have "\<dots> = ctx_words (cpu s)" unfolding s switch_context_eq(2) by (rule pushed_ctx)
  finally show "ctx_words (cpu (snd (switch_context saved s2))) = ctx_words (cpu s)" .
qed

theorem context_roundtrip_witness:
  "(let (saved, s1) = switch_context 0xA0000 sample_table in cpu (snd (switch_context saved s1)) = cpu sample_table)"
proof -
  obtain saved s1 where s: "switch_context 0xA0000 sample_table = (saved, s1)" by fastforce
  have v: "saved = 0x8FFC0" "r_rsp (cpu s1) - 64 = 0xA0000"
    using switch_context_eq(1,3) [of "0xA0000" sample_table] s by (simp_all add: sample_table_def blank_regs_def)
  have "apart 0x8FFC0 0xA0000" by (rule apartI) simp_all
  then show ?thesis using context_roundtrip [OF s, of s1] s v by simp
qed

lemma build_stack_ctx:
  assumes "build_stack tr tp m = (sp, m')"
  shows "sp = tp - 64" "ctx_at m' sp = [0x202, 0, 0, 0, 0, 0, 0, tr]"
  using assms by (auto simp: build_stack_def ctx_at_eq diff_diff_eq)

text \<open>
  C37. The first time a new task is switched to it starts at the trampoline, on top of its own stack, with
  interrupts enabled and all callee-saved registers zero.
\<close>

theorem new_task_starts:
  assumes "create tr e nm s = Some (Some k, s')" "current s' \<noteq> Some k" "switch_to (Some k) s' = Some s''"
    "apart (t_stack_base (tasks s' k) + TASK_STACK_SIZE - 64) (r_rsp (cpu s') - 64)"
  shows "current s'' = Some k \<and> cpu s'' =
    \<lparr>r_rsp = t_stack_base (tasks s' k) + TASK_STACK_SIZE, r_rip = tr, r_rflags = 0x202, r_rbx = 0, r_rbp = 0,
     r_r12 = 0, r_r13 = 0, r_r14 = 0, r_r15 = 0\<rparr>"
proof -
  obtain u where u: "slot_taken tr k s u" "s' = upd_task k (\<lambda>t. t\<lparr>t_cr3 := 0, t_state := Ready\<rparr>) u"
    using create_taken [OF assms(1)] .
  let ?top = "t_stack_base (tasks s' k) + TASK_STACK_SIZE"
  have "build_stack tr ?top (stack_mem s) = (t_rsp (tasks s' k), stack_mem s')" "k < MAX_TASKS" using u by (simp_all add: slot_taken_def)
  note b = build_stack_ctx [OF this(1)] and k = this(2)
  let ?b = "before_switch k s'"
  have r: "reap_pending_cleanup (after_switch k s') = Some s''" using assms(3) switch_to_alt [OF assms(2)] by simp
  have "cpu (after_switch k s') = cpu (snd (switch_context (t_rsp (tasks ?b k)) ?b))"
    by (simp add: after_switch_def Let_def split_def split: option.split)
  then have c: "cpu s'' = cpu (snd (switch_context (?top - 64) ?b))"
    using reap_keeps(7) [OF r] b(1) by (simp add: before_switch_fields(1) [OF k])
  have "ctx_words (cpu s'') = [0x202, 0, 0, 0, 0, 0, 0, tr]"
    using pushed_apart [OF assms(4)] b unfolding c switch_context_eq before_switch_fields(10,11) [OF k] by simp
  moreover have "r_rsp (cpu s'') = ?top" unfolding c switch_context_eq by simp
  moreover have "current s'' = Some k"
    using switch_to_dispatched [OF assms(3,2) k] by (simp add: dispatched_def current_def)
  ultimately show ?thesis by (intro conjI regs_eqI) (simp_all add: ctx_words_def)
qed

theorem new_task_starts_witness:
  "\<exists>s' s''. create 0x101000 0x102000 ''idle'' (task_init_slots sample_boot) = Some (Some 1, s') \<and>
     switch_to (Some 1) s' = Some s'' \<and> r_rip (cpu s'') = 0x101000 \<and> r_rsp (cpu s'') = 0x204020"
proof -
  obtain s' where c: "create 0x101000 0x102000 ''idle'' (task_init_slots sample_boot) = Some (Some 1, s')"
    "t_stack_base (tasks s' 1) = 0x200020" using sample_boot_create by blast
  obtain u where u: "slot_taken 0x101000 1 (task_init_slots sample_boot) u" "s' = upd_task 1 (\<lambda>t. t\<lparr>t_cr3 := 0, t_state := Ready\<rparr>) u"
    using create_taken [OF c(1)] .
  have f: "current_index s' = 0" "\<not> pc_active (pending_cleanup s')" "r_rsp (cpu s') = 0x90000"
    using u(1) unfolding u(2) slot_taken_def init_slots_fields by (simp_all add: sample_boot_def sample_table_def blank_regs_def)
  obtain s'' where s: "switch_to (Some 1) s' = Some s''" using switch_to_total [of s' 1] f(2) by (auto simp: MAX_TASKS_def)
  have "apart 0x203FE0 0x8FFC0" by (rule apartI) simp_all
  then show ?thesis using new_task_starts [OF c(1) _ s] c f(1,3) s by (simp add: current_def TASK_STACK_SIZE_def)
qed

end
