(* ===== verification/Task_Children.thy ===== *)
theory Task_Children
  imports Task_Theorems
begin

text \<open>
  The child lists of the table, linked through process identifiers, as lists of slots: removing a child
  is removal from the list, \<open>wait_for_child\<close> finds the first zombie of the list, and the children of an
  exiting task move to the front of the list of the init task.
\<close>

section \<open>Lists of slots\<close>

fun chain :: "'a task_state_scheme \<Rightarrow> u64 \<Rightarrow> nat list \<Rightarrow> bool" where
  "chain s p [] \<longleftrightarrow> p = NO_PID"
| "chain s p (k # ks) \<longleftrightarrow> find_by_pid p s = Some k \<and> chain s (t_next_sibling (tasks s k)) ks"

lemma find_by_pid_cong:
  assumes "\<And>k. t_pid (tasks s' k) = t_pid (tasks s k)" "\<And>k. t_state (tasks s' k) = Dead \<longleftrightarrow> t_state (tasks s k) = Dead"
  shows "find_by_pid p s' = find_by_pid p s"
  by (simp add: find_by_pid_def Let_def assms)

lemma chain_cong:
  assumes "\<And>k. k \<in> set ks \<Longrightarrow> t_next_sibling (tasks s' k) = t_next_sibling (tasks s k)"
    "\<And>k. t_pid (tasks s' k) = t_pid (tasks s k)"
    "\<And>k. k \<in> set ks \<Longrightarrow> t_state (tasks s' k) = Dead \<longleftrightarrow> t_state (tasks s k) = Dead"
  shows "chain s p ks \<Longrightarrow> chain s' p ks"
  using assms
proof (induction ks arbitrary: p)
  case (Cons k ks)
  have "find_by_pid p s' = Some k" using Cons.prems by (auto simp: find_by_pid_def Let_def split: if_splits)
  then show ?case using Cons by simp
qed simp

lemma chain_pid: "chain s p ks \<Longrightarrow> k \<in> set ks \<Longrightarrow> find_by_pid (t_pid (tasks s k)) s = Some k \<and> t_pid (tasks s k) \<noteq> NO_PID"
  by (induction ks arbitrary: p) (auto dest: find_by_pid_Some)

lemma chain_head: "chain s p (k # ks) \<Longrightarrow> p = t_pid (tasks s k) \<and> p \<noteq> NO_PID"
  using find_by_pid_Some(3,4) [of p s k] by auto

lemma chain_pid_inj:
  assumes "chain s p ks" "j \<in> set ks" "k \<in> set ks" "t_pid (tasks s j) = t_pid (tasks s k)"
  shows "j = k"
  using chain_pid [OF assms(1,2)] chain_pid [OF assms(1,3)] assms(4) by (metis option.inject)

lemma remove_walk_chain:
  assumes "chain s p (x # xs)" "distinct (x # xs)" "c \<in> set xs"
  shows "\<exists>ys a zs. remove_walk s p (t_pid (tasks s c)) = Some (Some a) \<and> x # xs = ys @ a # c # zs"
  using assms
proof (induction xs arbitrary: p x)
  case (Cons y xs)
  have p: "find_by_pid p s = Some x" "p \<noteq> NO_PID" "chain s (t_next_sibling (tasks s x)) (y # xs)"
    using Cons.prems(1) chain_head [OF Cons.prems(1)] by auto
  have n: "t_next_sibling (tasks s x) = t_pid (tasks s y)" using chain_head [OF p(3)] by simp
  show ?case
  proof (cases "y = c")
    case True
    have "remove_walk s p (t_pid (tasks s c)) = Some (Some x)" by (subst remove_walk.simps) (simp add: p n True)
    then show ?thesis using True by (intro exI [of _ "[]"]) auto
  next
    case False
    then have c: "c \<in> set xs" using Cons.prems(3) by simp
    have "t_pid (tasks s y) \<noteq> t_pid (tasks s c)" using chain_pid_inj [OF p(3), of y c] False c by auto
    then have "remove_walk s p (t_pid (tasks s c)) = remove_walk s (t_pid (tasks s y)) (t_pid (tasks s c))"
      by (subst remove_walk.simps) (simp add: p(1,2) n)
    moreover obtain ys a zs where "remove_walk s (t_pid (tasks s y)) (t_pid (tasks s c)) = Some (Some a)" "y # xs = ys @ a # c # zs"
      using Cons.IH [OF p(3)] Cons.prems(2) c n by auto
    ultimately show ?thesis by (intro exI [of _ "x # ys"] exI [of _ a] exI [of _ zs]) auto
  qed
qed simp

lemma unlink_chain:
  assumes n: "\<And>k. t_next_sibling (tasks s' k) = (if k = a then t_next_sibling (tasks s c) else t_next_sibling (tasks s k))"
    and p: "\<And>k. t_pid (tasks s' k) = t_pid (tasks s k)" and d: "\<And>k. t_state (tasks s' k) = t_state (tasks s k)"
  shows "chain s p (ys @ a # c # zs) \<Longrightarrow> distinct (ys @ a # c # zs) \<Longrightarrow> chain s' p (ys @ a # zs)"
proof (induction ys arbitrary: p)
  case Nil
  then have z: "chain s (t_next_sibling (tasks s c)) zs" "find_by_pid p s = Some a" "a \<notin> set zs" by simp_all
  have "chain s' (t_next_sibling (tasks s c)) zs" by (rule chain_cong [OF _ _ _ z(1)]) (use z(3) n p d in auto)
  then show ?case using z(2) n find_by_pid_cong [of s' s] p d by simp
next
  case (Cons y ys)
  then show ?case using n find_by_pid_cong [of s' s] p d by simp
qed

lemma remove_child_chain:
  assumes "chain s (t_first_child (tasks s p)) xs" "distinct xs" "c \<in> set xs"
  shows "\<exists>s'. remove_child p (t_pid (tasks s c)) s = Some s' \<and> chain s' (t_first_child (tasks s' p)) (remove1 c xs)"
proof -
  obtain x ws where x: "xs = x # ws" using assms(3) by (cases xs) auto
  have sa: "sibling_after (t_pid (tasks s c)) s = t_next_sibling (tasks s c)"
    using chain_pid [OF assms(1,3)] by (simp add: sibling_after_def)
  note h = chain_head [OF assms(1) [unfolded x]]
  show ?thesis
  proof (cases "c = x")
    case True
    let ?s = "upd_task p (t_first_child_update (\<lambda>_. t_next_sibling (tasks s c))) s"
    have "chain ?s (t_next_sibling (tasks s c)) ws"
      by (rule chain_cong [where s = s]) (use assms(1) [unfolded x] True in simp_all)
    then show ?thesis using h True x sa by (simp add: remove_child_def)
  next
    case False
    then have c: "c \<in> set ws" using assms(3) x by simp
    then have "t_first_child (tasks s p) \<noteq> t_pid (tasks s c)"
      using h chain_pid_inj [OF assms(1), of x c] x False by auto
    moreover obtain ys a zs where w: "remove_walk s (t_first_child (tasks s p)) (t_pid (tasks s c)) = Some (Some a)" "xs = ys @ a # c # zs"
      using remove_walk_chain [OF assms(1) [unfolded x] _ c] assms(2) x by auto
    moreover have "remove1 c xs = ys @ a # zs" using assms(2) w(2) by (simp add: remove1_append)
    moreover have "chain (upd_task a (t_next_sibling_update (\<lambda>_. t_next_sibling (tasks s c))) s) (t_first_child (tasks s p)) (ys @ a # zs)"
      by (rule unlink_chain [where c = c and s = s]) (use assms(1,2) w(2) in auto)
    ultimately show ?thesis using sa by (cases "p = a") (simp_all add: remove_child_def)
  qed
qed

lemma find_zombie_chain:
  assumes "chain s p xs"
  shows "find_zombie s p = Some (List.find (\<lambda>k. t_state (tasks s k) = Zombie) xs)"
  using assms
proof (induction xs arbitrary: p)
  case Nil
  then show ?case by (subst find_zombie.simps) simp
next
  case (Cons x xs)
  have "p \<noteq> NO_PID" "find_by_pid p s = Some x" using chain_head [OF Cons.prems] Cons.prems by auto
  then show ?case using Cons by (subst find_zombie.simps) simp
qed

section \<open>Adoption of orphans\<close>

definition adopted :: "nat \<Rightarrow> nat \<Rightarrow> 'a task_state_scheme \<Rightarrow> 'a task_state_scheme" where
  "adopted i c s = unblock (init_pid s)
     (add_child i c (upd_task c (\<lambda>t. t\<lparr>t_parent_pid := init_pid s, t_next_sibling := NO_PID\<rparr>) s))"

lemma unblock_fields [simp]:
  "t_pid (tasks (unblock q s) k) = t_pid (tasks s k)" "t_next_sibling (tasks (unblock q s) k) = t_next_sibling (tasks s k)"
  "t_first_child (tasks (unblock q s) k) = t_first_child (tasks s k)" "t_parent_pid (tasks (unblock q s) k) = t_parent_pid (tasks s k)"
  "t_state (tasks (unblock q s) k) = Dead \<longleftrightarrow> t_state (tasks s k) = Dead" "init_pid (unblock q s) = init_pid s"
  by (auto simp: unblock_def split: option.split)

lemma adopted_fields:
  "t_pid (tasks (adopted i c s) k) = t_pid (tasks s k)"
  "t_next_sibling (tasks (adopted i c s) k) = (if k = c then t_first_child (tasks s i) else t_next_sibling (tasks s k))"
  "t_first_child (tasks (adopted i c s) k) = (if k = i then t_pid (tasks s c) else t_first_child (tasks s k))"
  "t_parent_pid (tasks (adopted i c s) k) = (if k = c then init_pid s else t_parent_pid (tasks s k))"
  "t_state (tasks (adopted i c s) k) = Dead \<longleftrightarrow> t_state (tasks s k) = Dead"
  "init_pid (adopted i c s) = init_pid s"
  by (simp_all add: adopted_def add_child_def Let_def)

lemma reparent_chain:
  assumes "chain s p xs" "chain s (t_first_child (tasks s i)) ys" "distinct (xs @ ys)"
  shows "\<exists>s'. reparent (Some i) p s = Some s' \<and> chain s' (t_first_child (tasks s' i)) (rev xs @ ys) \<and>
    (\<forall>k. t_parent_pid (tasks s' k) = (if k \<in> set xs then init_pid s else t_parent_pid (tasks s k))) \<and>
    init_pid s' = init_pid s"
  using assms
proof (induction xs arbitrary: p s ys)
  case Nil
  then show ?case by (subst reparent.simps) simp
next
  case (Cons x xs)
  let ?a = "adopted i x s"
  have x: "find_by_pid p s = Some x" "chain s (t_next_sibling (tasks s x)) xs" using Cons.prems(1) by simp_all
  have p: "p \<noteq> NO_PID" "p = t_pid (tasks s x)" using chain_head [OF Cons.prems(1)] by blast+
  have r: "reparent (Some i) p s = reparent (Some i) (t_next_sibling (tasks s x)) ?a"
    by (subst reparent.simps) (simp add: p(1) x(1) adopted_def)
  have c1: "chain ?a (t_next_sibling (tasks s x)) xs"
    by (rule chain_cong [OF _ _ _ x(2)]) (use Cons.prems(3) in \<open>auto simp: adopted_fields\<close>)
  have c2: "chain ?a (t_first_child (tasks s i)) ys"
    by (rule chain_cong [OF _ _ _ Cons.prems(2)]) (use Cons.prems(3) in \<open>auto simp: adopted_fields\<close>)
  have "find_by_pid q ?a = find_by_pid q s" for q by (rule find_by_pid_cong) (simp_all add: adopted_fields)
  then have c3: "chain ?a (t_first_child (tasks ?a i)) (x # ys)" using c2 x(1) p(2) by (simp add: adopted_fields)
  obtain s' where s': "reparent (Some i) (t_next_sibling (tasks s x)) ?a = Some s'"
    "chain s' (t_first_child (tasks s' i)) (rev xs @ x # ys)"
    "\<forall>k. t_parent_pid (tasks s' k) = (if k \<in> set xs then init_pid ?a else t_parent_pid (tasks ?a k))"
    "init_pid s' = init_pid ?a"
    using Cons.IH [OF c1 c3] Cons.prems(3) by auto
  then show ?case using r by (intro exI [of _ s']) (auto simp: adopted_fields)
qed

section \<open>A table to evaluate on\<close>

text \<open>The shell, running, with a zombie child in slot 2, and an init task in slot 1 with no children.\<close>

definition sample_family :: task_state where
  "sample_family = sample_table\<lparr>current_index := 0, init_pid := make_pid 1 1,
     tasks := sample_slots(2 := (sample_slots 2)\<lparr>t_state := Zombie, t_exit_code := 7, t_cr3 := 0\<rparr>)\<rparr>"

lemma sample_family_pid: "k < 3 \<Longrightarrow> find_by_pid (make_pid k 1) sample_family = Some k"
proof -
  assume k: "k < 3"
  then have "t_state (tasks sample_family k) \<noteq> Dead" "t_pid (tasks sample_family k) = make_pid k 1"
    by (auto simp: sample_family_def sample_slots_def less_Suc_eq numeral_3_eq_3)
  then show "find_by_pid (make_pid k 1) sample_family = Some k"
    using k make_pid_slot [of k 1] make_pid_nonzero [of k 1] by (simp add: find_by_pid_def MAX_TASKS_def)
qed

lemma sample_family_ok:
  "current sample_family = Some 0" "chain sample_family (t_first_child (tasks sample_family 0)) [2]"
  "chain sample_family (t_first_child (tasks sample_family 1)) []" "t_state (tasks sample_family 2) = Zombie"
  "t_exit_code (tasks sample_family 2) = 7" "t_pid (tasks sample_family 2) = make_pid 2 1" "init_pid sample_family = make_pid 1 1"
  "find_by_pid (init_pid sample_family) sample_family = Some 1" "t_pid (tasks sample_family 0) \<noteq> make_pid 1 1"
proof -
  have f: "t_first_child (tasks sample_family 0) = make_pid 2 1" "t_next_sibling (tasks sample_family 2) = NO_PID"
    "t_first_child (tasks sample_family 1) = NO_PID"
    by (simp_all add: sample_family_def sample_slots_def blank_task_def NO_PID_def)
  show "chain sample_family (t_first_child (tasks sample_family 0)) [2]"
    "chain sample_family (t_first_child (tasks sample_family 1)) []" using f sample_family_pid [of 2] by simp_all
  show i: "init_pid sample_family = make_pid 1 1" by (simp add: sample_family_def)
  show "find_by_pid (init_pid sample_family) sample_family = Some 1" unfolding i using sample_family_pid [of 1] by simp
  show "t_pid (tasks sample_family 0) \<noteq> make_pid 1 1"
    using make_pid_slot [of 0 1] make_pid_slot [of 1 1] by (auto simp: sample_family_def sample_slots_def)
qed (simp_all add: sample_family_def sample_table_def sample_slots_def current_def)

section \<open>Properties\<close>

text \<open>
  C23. \<open>wait_for_child\<close>'s scan on a well-formed child list: if no child is a zombie it finds none and changes
  nothing; otherwise it returns the identifier and exit code of the first zombie of the list, frees that
  slot, and the list that remains is the old one without it.
\<close>

theorem wait_scan_children:
  assumes "current s = Some p" "chain s (t_first_child (tasks s p)) xs" "distinct xs"
  shows "case List.find (\<lambda>k. t_state (tasks s k) = Zombie) xs of
      None \<Rightarrow> wait_scan s = Some (NoZombie, s)
    | Some c \<Rightarrow> \<exists>s'. wait_scan s = Some (Reaped (t_pid (tasks s c)) (t_exit_code (tasks s c)), s') \<and>
        t_state (tasks s' c) = Dead \<and> find_by_pid (t_pid (tasks s c)) s' = None \<and>
        chain s' (t_first_child (tasks s' p)) (remove1 c xs)"
proof (cases "List.find (\<lambda>k. t_state (tasks s k) = Zombie) xs")
  case None
  then show ?thesis using assms(1) find_zombie_chain [OF assms(2)] by (simp add: wait_scan_def)
next
  case (Some c)
  then have c: "c \<in> set xs" "t_state (tasks s c) = Zombie" by (auto simp: find_Some_iff)
  obtain t where t: "remove_child p (t_pid (tasks s c)) s = Some t" "chain t (t_first_child (tasks t p)) (remove1 c xs)"
    using remove_child_chain [OF assms(2,3) c(1)] by blast
  let ?s = "upd_task c (\<lambda>t. t\<lparr>t_state := Dead, t_parent_pid := NO_PID\<rparr>) t"
  have "wait_scan s = Some (Reaped (t_pid (tasks s c)) (t_exit_code (tasks s c)), ?s)"
    using assms(1) find_zombie_chain [OF assms(2)] Some t(1) by (simp add: wait_scan_def)
  moreover have "c \<notin> set (remove1 c xs)" using assms(3) by simp
  then have "chain ?s (t_first_child (tasks t p)) (remove1 c xs)"
    by (intro chain_cong [OF _ _ _ t(2)]) (auto simp del: set_remove1_eq)
  moreover have "t_first_child (tasks ?s p) = t_first_child (tasks t p)" by simp
  moreover have "find_by_pid (t_pid (tasks s c)) ?s = None"
    using chain_pid [OF assms(2) c(1)] find_by_pid_Some(5) [of "t_pid (tasks s c)" s c] by (auto simp: find_by_pid_def Let_def)
  ultimately show ?thesis using Some by simp
qed

theorem wait_scan_children_witness:
  "current sample_family = Some 0 \<and> (\<exists>s'. wait_scan sample_family = Some (Reaped (make_pid 2 1) 7, s') \<and>
     t_state (tasks s' 2) = Dead \<and> chain s' (t_first_child (tasks s' 0)) [])"
  using wait_scan_children [OF sample_family_ok(1,2)] sample_family_ok(1,4-6) by auto

text \<open>
  The children of an exiting task are handed to the init task: the loop ends, the exiting task has no
  children left, each former child has the init task as its parent and they stand, in reverse order, in
  front of the children the init task had.
\<close>

lemma orphans_adopted:
  assumes "find_by_pid (init_pid s) s = Some i" "i \<noteq> self" "t_pid (tasks s self) \<noteq> init_pid s"
    "chain s (t_first_child (tasks s self)) xs" "chain s (t_first_child (tasks s i)) ys" "distinct (xs @ ys)"
  shows "\<exists>s'. orphan_children self s = Some s' \<and> chain s' (t_first_child (tasks s' self)) [] \<and>
    chain s' (t_first_child (tasks s' i)) (rev xs @ ys) \<and> (\<forall>k\<in>set xs. t_parent_pid (tasks s' k) = init_pid s)"
proof -
  obtain t where t: "reparent (Some i) (t_first_child (tasks s self)) s = Some t"
    "chain t (t_first_child (tasks t i)) (rev xs @ ys)"
    "\<forall>k. t_parent_pid (tasks t k) = (if k \<in> set xs then init_pid s else t_parent_pid (tasks s k))"
    using reparent_chain [OF assms(4,5,6)] by blast
  let ?s = "upd_task self (t_first_child_update (\<lambda>_. NO_PID)) t"
  have "orphan_children self s = Some ?s"
    using t(1) assms(1,3) find_by_pid_Some(4) [OF assms(1)] by (simp add: orphan_children_def)
  moreover have "chain ?s (t_first_child (tasks t i)) (rev xs @ ys)" by (rule chain_cong [OF _ _ _ t(2)]) auto
  ultimately show ?thesis using assms(2) t(3) by (intro exI [of _ ?s]) simp
qed

lemma orphans_adopted_witness:
  "\<exists>s'. orphan_children 0 sample_family = Some s' \<and> chain s' (t_first_child (tasks s' 1)) [2] \<and>
     t_parent_pid (tasks s' 2) = make_pid 1 1"
  using orphans_adopted [OF sample_family_ok(8) _ _ sample_family_ok(2,3)] sample_family_ok(7,9) by auto

end
