(* ===== verification/Ata.thy ===== *)
theory Ata
  imports Kernel_Prelude
begin

text \<open>
  The ATA driver of \<^verbatim>\<open>kernel/ata.cpp\<close>. The port instructions of \<^verbatim>\<open>include/io.hpp\<close> reach a device that is not
  part of the program: they are an argument, a record of functions on the state of the device. A sector
  is handed over as 256 little-endian 16-bit words.
\<close>

section \<open>Ports and constants\<close>

record 'd port_io =
  io_inb :: "u16 \<Rightarrow> 'd \<Rightarrow> u8 \<times> 'd"
  io_outb :: "u16 \<Rightarrow> u8 \<Rightarrow> 'd \<Rightarrow> 'd"
  io_inw :: "u16 \<Rightarrow> 'd \<Rightarrow> u16 \<times> 'd"
  io_outw :: "u16 \<Rightarrow> u16 \<Rightarrow> 'd \<Rightarrow> 'd"

definition PORT_DATA :: u16 where "PORT_DATA = 0x1F0"
definition PORT_SECTOR_COUNT :: u16 where "PORT_SECTOR_COUNT = 0x1F2"
definition PORT_LBA_LOW :: u16 where "PORT_LBA_LOW = 0x1F3"
definition PORT_LBA_MID :: u16 where "PORT_LBA_MID = 0x1F4"
definition PORT_LBA_HIGH :: u16 where "PORT_LBA_HIGH = 0x1F5"
definition PORT_DRIVE_HEAD :: u16 where "PORT_DRIVE_HEAD = 0x1F6"
definition PORT_STATUS :: u16 where "PORT_STATUS = 0x1F7"
definition PORT_COMMAND :: u16 where "PORT_COMMAND = 0x1F7"
definition PORT_ALT_STATUS :: u16 where "PORT_ALT_STATUS = 0x3F6"

definition STATUS_ERR :: u8 where "STATUS_ERR = 1"
definition STATUS_DRQ :: u8 where "STATUS_DRQ = 8"
definition STATUS_BSY :: u8 where "STATUS_BSY = 128"

definition CMD_READ_SECTORS :: u8 where "CMD_READ_SECTORS = 0x20"
definition CMD_WRITE_SECTORS :: u8 where "CMD_WRITE_SECTORS = 0x30"
definition CMD_CACHE_FLUSH :: u8 where "CMD_CACHE_FLUSH = 0xE7"
definition CMD_IDENTIFY :: u8 where "CMD_IDENTIFY = 0xEC"
definition DRIVE_MASTER_LBA :: u8 where "DRIVE_MASTER_LBA = 0xE0"
definition SECTOR_SIZE :: nat where "SECTOR_SIZE = 512"

record 'd ata_state =
  fault_countdown :: int
  dev :: 'd

section \<open>Waiting\<close>

definition io_delay_400ns :: "'d port_io \<Rightarrow> 'd \<Rightarrow> 'd" where
  "io_delay_400ns io d = ((\<lambda>d. snd (io_inb io PORT_ALT_STATUS d)) ^^ 4) d"

fun poll_not_busy :: "nat \<Rightarrow> 'd port_io \<Rightarrow> 'd \<Rightarrow> bool \<times> 'd" where
  "poll_not_busy 0 io d = (False, d)"
| "poll_not_busy (Suc n) io d =
     (case io_inb io PORT_STATUS d of (status, d) \<Rightarrow>
        if status AND STATUS_BSY = 0 then (True, d) else poll_not_busy n io d)"

definition wait_not_busy :: "'d port_io \<Rightarrow> 'd \<Rightarrow> bool \<times> 'd" where
  "wait_not_busy io d = poll_not_busy 100000 io d"

fun poll_data :: "nat \<Rightarrow> 'd port_io \<Rightarrow> 'd \<Rightarrow> bool \<times> 'd" where
  "poll_data 0 io d = (False, d)"
| "poll_data (Suc n) io d =
     (case io_inb io PORT_STATUS d of (status, d) \<Rightarrow>
        if status AND STATUS_ERR \<noteq> 0 then (False, d)
        else if status AND STATUS_DRQ \<noteq> 0 then (True, d)
        else poll_data n io d)"

definition wait_for_data :: "'d port_io \<Rightarrow> 'd \<Rightarrow> bool \<times> 'd" where
  "wait_for_data io d = poll_data 100000 io d"

definition select_drive_lba :: "'d port_io \<Rightarrow> u32 \<Rightarrow> 'd \<Rightarrow> 'd" where
  "select_drive_lba io lba d =
     io_delay_400ns io (io_outb io PORT_DRIVE_HEAD (DRIVE_MASTER_LBA OR ucast (drop_bit 24 lba AND 0x0F)) d)"

section \<open>Faults for testing\<close>

definition should_inject_fault :: "('d, 'a) ata_state_scheme \<Rightarrow> bool \<times> ('d, 'a) ata_state_scheme" where
  "should_inject_fault s =
     (if fault_countdown s < 0 then (False, s)
      else if fault_countdown s = 0 then (True, s\<lparr>fault_countdown := - 1\<rparr>)
      else (False, s\<lparr>fault_countdown := fault_countdown s - 1\<rparr>))"

definition debug_fail_next :: "int \<Rightarrow> ('d, 'a) ata_state_scheme \<Rightarrow> ('d, 'a) ata_state_scheme" where
  "debug_fail_next calls_until_failure s = s\<lparr>fault_countdown := calls_until_failure\<rparr>"

section \<open>Transfers\<close>

fun inw_words :: "nat \<Rightarrow> 'd port_io \<Rightarrow> 'd \<Rightarrow> u16 list \<times> 'd" where
  "inw_words 0 io d = ([], d)"
| "inw_words (Suc n) io d =
     (case io_inw io PORT_DATA d of (w, d) \<Rightarrow> case inw_words n io d of (ws, d) \<Rightarrow> (w # ws, d))"

fun outw_words :: "u16 list \<Rightarrow> 'd port_io \<Rightarrow> 'd \<Rightarrow> 'd" where
  "outw_words [] io d = d"
| "outw_words (w # ws) io d = outw_words ws io (io_outw io PORT_DATA w d)"

definition ata_init :: "'d port_io \<Rightarrow> ('d, 'a) ata_state_scheme \<Rightarrow> bool \<times> ('d, 'a) ata_state_scheme" where
  "ata_init io s =
     (let d = select_drive_lba io 0 (dev s);
          d = io_outb io PORT_SECTOR_COUNT 0 d;
          d = io_outb io PORT_LBA_LOW 0 d;
          d = io_outb io PORT_LBA_MID 0 d;
          d = io_outb io PORT_LBA_HIGH 0 d;
          d = io_outb io PORT_COMMAND CMD_IDENTIFY d;
          (status, d) = io_inb io PORT_STATUS d in
      if status = 0 then (False, s\<lparr>dev := d\<rparr>)
      else
        let (ok, d) = wait_not_busy io d in
        if \<not> ok then (False, s\<lparr>dev := d\<rparr>)
        else
          let (mid, d) = io_inb io PORT_LBA_MID d in
          if mid \<noteq> 0 then (False, s\<lparr>dev := d\<rparr>)
          else
            let (high, d) = io_inb io PORT_LBA_HIGH d in
            if high \<noteq> 0 then (False, s\<lparr>dev := d\<rparr>)
            else
              let (ok, d) = wait_for_data io d in
              if \<not> ok then (False, s\<lparr>dev := d\<rparr>)
              else (True, s\<lparr>dev := snd (inw_words 256 io d)\<rparr>))"

definition issue_command :: "'d port_io \<Rightarrow> u32 \<Rightarrow> u32 \<Rightarrow> u8 \<Rightarrow> 'd \<Rightarrow> 'd" where
  "issue_command io lba count cmd d =
     (let d = io_outb io PORT_SECTOR_COUNT (ucast count) d;
          d = io_outb io PORT_LBA_LOW (ucast (lba AND 0xFF)) d;
          d = io_outb io PORT_LBA_MID (ucast (drop_bit 8 lba AND 0xFF)) d;
          d = io_outb io PORT_LBA_HIGH (ucast (drop_bit 16 lba AND 0xFF)) d
      in io_outb io PORT_COMMAND cmd d)"

text \<open>The sector loops; the words read so far stay in the buffer when a later sector fails.\<close>

fun read_loop :: "nat \<Rightarrow> 'd port_io \<Rightarrow> 'd \<Rightarrow> bool \<times> u16 list \<times> 'd" where
  "read_loop 0 io d = (True, [], d)"
| "read_loop (Suc n) io d =
     (case wait_for_data io d of (ok, d) \<Rightarrow>
        if \<not> ok then (False, [], d)
        else
          case inw_words (SECTOR_SIZE div 2) io d of (ws, d) \<Rightarrow>
            case read_loop n io d of (ok, ws', d) \<Rightarrow> (ok, ws @ ws', d))"

definition read_sectors ::
  "'d port_io \<Rightarrow> u32 \<Rightarrow> u32 \<Rightarrow> ('d, 'a) ata_state_scheme \<Rightarrow> bool \<times> u16 list \<times> ('d, 'a) ata_state_scheme" where
  "read_sectors io lba count s =
     (if count = 0 then (True, [], s)
      else
        case should_inject_fault s of (fault, s) \<Rightarrow>
          if fault then (False, [], s)
          else
            let d = select_drive_lba io lba (dev s);
                (ok, d) = wait_not_busy io d in
            if \<not> ok then (False, [], s\<lparr>dev := d\<rparr>)
            else
              let d = issue_command io lba count CMD_READ_SECTORS d;
                  (ok, ws, d) = read_loop (unat count) io d
              in (ok, ws, s\<lparr>dev := d\<rparr>))"

fun write_loop :: "nat \<Rightarrow> u16 list \<Rightarrow> 'd port_io \<Rightarrow> 'd \<Rightarrow> bool \<times> 'd" where
  "write_loop 0 ws io d = (True, d)"
| "write_loop (Suc n) ws io d =
     (case wait_for_data io d of (ok, d) \<Rightarrow>
        if \<not> ok then (False, d)
        else write_loop n (drop (SECTOR_SIZE div 2) ws) io (outw_words (take (SECTOR_SIZE div 2) ws) io d))"

definition write_sectors ::
  "'d port_io \<Rightarrow> u32 \<Rightarrow> u32 \<Rightarrow> u16 list \<Rightarrow> ('d, 'a) ata_state_scheme \<Rightarrow> bool \<times> ('d, 'a) ata_state_scheme" where
  "write_sectors io lba count ws s =
     (if count = 0 then (True, s)
      else
        case should_inject_fault s of (fault, s) \<Rightarrow>
          if fault then (False, s)
          else
            let d = select_drive_lba io lba (dev s);
                (ok, d) = wait_not_busy io d in
            if \<not> ok then (False, s\<lparr>dev := d\<rparr>)
            else
              let d = issue_command io lba count CMD_WRITE_SECTORS d;
                  (ok, d) = write_loop (unat count) ws io d in
              if \<not> ok then (False, s\<lparr>dev := d\<rparr>)
              else
                let d = io_outb io PORT_COMMAND CMD_CACHE_FLUSH d;
                    (ok, d) = wait_not_busy io d
                in (ok, s\<lparr>dev := d\<rparr>))"

text \<open>The buffers of the callers hold bytes.\<close>

fun words_of_bytes :: "u8 list \<Rightarrow> u16 list" where
  "words_of_bytes (a # b # bs) = (ucast a OR push_bit 8 (ucast b)) # words_of_bytes bs"
| "words_of_bytes _ = []"

fun bytes_of_words :: "u16 list \<Rightarrow> u8 list" where
  "bytes_of_words [] = []"
| "bytes_of_words (w # ws) = ucast w # ucast (drop_bit 8 w) # bytes_of_words ws"

definition ata_read :: "'d port_io \<Rightarrow> u32 \<Rightarrow> u32 \<Rightarrow> 'd ata_state \<Rightarrow> bool \<times> u8 list \<times> 'd ata_state" where
  "ata_read io lba count s = (case read_sectors io lba count s of (ok, ws, s) \<Rightarrow> (ok, bytes_of_words ws, s))"

definition ata_write :: "'d port_io \<Rightarrow> u32 \<Rightarrow> u32 \<Rightarrow> u8 list \<Rightarrow> 'd ata_state \<Rightarrow> bool \<times> 'd ata_state" where
  "ata_write io lba count bs s = write_sectors io lba count (words_of_bytes bs) s"

end
