(* ===== verification/Ata_Correct.thy ===== *)
theory Ata_Correct
  imports Ata
begin

text \<open>
  The driver as a block device. The contract of a block device is a locale; it is what the file systems
  rely on. A disk controller that follows the ATA protocol for programmed transfers, written down here as
  a small state machine, is put behind the ports, and on it the driver satisfies the contract.
\<close>

section \<open>The block-device interface\<close>

lemma concat_slices: "length xs = m * n \<Longrightarrow> concat (map (\<lambda>i. take m (drop (m * i) xs)) [0..<n]) = xs"
proof (induction n arbitrary: xs)
  case (Suc n)
  have "concat (map (\<lambda>i. take m (drop (m * i) (take (m * n) xs))) [0..<n]) = take (m * n) xs"
    using Suc.prems by (intro Suc.IH) simp
  moreover have "take m (drop (m * i) (take (m * n) xs)) = take m (drop (m * i) xs)" if "i < n" for i
  proof -
    have "m * i + m \<le> m * n" using that by (metis add.commute less_eq_Suc_le mult_Suc_right mult_le_mono2)
    then show ?thesis by (simp add: drop_take min_def)
  qed
  moreover have "map (\<lambda>i. take m (drop (m * i) (take (m * n) xs))) [0..<n] = map (\<lambda>i. take m (drop (m * i) xs)) [0..<n]"
    using calculation(2) by (intro map_cong) auto
  ultimately have "concat (map (\<lambda>i. take m (drop (m * i) xs)) [0..<n]) = take (m * n) xs" by metis
  then show ?case using Suc.prems by simp
qed simp

text \<open>
  Sectors of 512 bytes; a successful read returns the sectors, a successful write replaces them, and a
  failed write changes at most the sectors it was asked to write. On a device that works every transfer
  succeeds.
\<close>

locale block_device =
  fixes rd :: "u32 \<Rightarrow> u32 \<Rightarrow> 's \<Rightarrow> bool \<times> u8 list \<times> 's"
    and wr :: "u32 \<Rightarrow> u32 \<Rightarrow> u8 list \<Rightarrow> 's \<Rightarrow> bool \<times> 's"
    and content :: "'s \<Rightarrow> nat \<Rightarrow> u8 list"
    and ok :: "'s \<Rightarrow> bool"
    and works :: "'s \<Rightarrow> bool"
  assumes content_length: "ok s \<Longrightarrow> length (content s k) = 512"
    and works_ok: "works s \<Longrightarrow> ok s"
    and rd_law: "ok s \<Longrightarrow> 0 < unat n \<Longrightarrow> unat n < 256 \<Longrightarrow> unat lba + unat n \<le> 268435456 \<Longrightarrow> rd lba n s = (b, bs, s') \<Longrightarrow>
      ok s' \<and> content s' = content s \<and> (b \<longrightarrow> bs = concat (map (content s) [unat lba..<unat lba + unat n])) \<and>
      (works s \<longrightarrow> b \<and> works s')"
    and wr_law: "ok s \<Longrightarrow> 0 < unat n \<Longrightarrow> unat n < 256 \<Longrightarrow> unat lba + unat n \<le> 268435456 \<Longrightarrow> length data = 512 * unat n \<Longrightarrow>
      wr lba n data s = (b, s') \<Longrightarrow>
      ok s' \<and> (\<forall>k. k < unat lba \<or> unat lba + unat n \<le> k \<longrightarrow> content s' k = content s k) \<and>
      (b \<longrightarrow> (\<forall>i<unat n. content s' (unat lba + i) = take 512 (drop (512 * i) data))) \<and>
      (works s \<longrightarrow> b \<and> works s')"
begin

lemma rd_one:
  assumes "ok s" "unat lba < 268435456" "rd lba 1 s = (b, bs, s')"
  shows "ok s'" "content s' = content s" "b \<Longrightarrow> bs = content s (unat lba)" "works s \<Longrightarrow> b \<and> works s'"
  using rd_law [OF assms(1) _ _ _ assms(3)] assms(2) by auto

lemma wr_one:
  assumes "ok s" "unat lba < 268435456" "length data = 512" "wr lba 1 data s = (b, s')"
  shows "ok s'" "k \<noteq> unat lba \<Longrightarrow> content s' k = content s k" "b \<Longrightarrow> content s' (unat lba) = data" "works s \<Longrightarrow> b \<and> works s'"
proof -
  have "ok s' \<and> (\<forall>k. k < unat lba \<or> unat lba + 1 \<le> k \<longrightarrow> content s' k = content s k) \<and>
      (b \<longrightarrow> content s' (unat lba) = data) \<and> (works s \<longrightarrow> b \<and> works s')"
    using wr_law [OF assms(1) _ _ _ _ assms(4)] assms(2,3) by simp
  then show "ok s'" "k \<noteq> unat lba \<Longrightarrow> content s' k = content s k" "b \<Longrightarrow> content s' (unat lba) = data" "works s \<Longrightarrow> b \<and> works s'"
    by (auto simp: neq_iff Suc_le_eq)
qed

lemma wr_rd:
  assumes "works s" "0 < unat n" "unat n < 256" "unat lba + unat n \<le> 268435456" "length data = 512 * unat n"
  shows "\<exists>s1 s2. wr lba n data s = (True, s1) \<and> rd lba n s1 = (True, data, s2) \<and> works s2 \<and>
    (\<forall>k. k < unat lba \<or> unat lba + unat n \<le> k \<longrightarrow> content s2 k = content s k)"
proof -
  obtain b s1 where w: "wr lba n data s = (b, s1)" by fastforce
  note w' = wr_law [OF works_ok [OF assms(1)] assms(2-5) w]
  obtain c bs s2 where r: "rd lba n s1 = (c, bs, s2)" by (cases "rd lba n s1") auto
  have o: "ok s1" using w' by simp
  note r' = rd_law [OF o assms(2-4) r]
  have "map (content s1) [unat lba..<unat lba + unat n] = map (\<lambda>i. take 512 (drop (512 * i) data)) [0..<unat n]"
    using w' assms(1) by (intro nth_equalityI) auto
  then have "bs = data" using r' w' assms(1) concat_slices [OF assms(5)] by simp
  then show ?thesis using w r w' r' assms(1) by simp
qed

end

section \<open>A disk behind the ports\<close>

datatype pio_mode = Idle | Reading nat nat | Writing nat nat | Identifying nat

record pio_disk =
  pd_count :: u8
  pd_low :: u8
  pd_mid :: u8
  pd_high :: u8
  pd_head :: u8
  pd_mode :: pio_mode
  pd_words :: "nat \<Rightarrow> u16"

definition pio_lba :: "pio_disk \<Rightarrow> nat" where
  "pio_lba d = unat (pd_low d) + 256 * unat (pd_mid d) + 65536 * unat (pd_high d) + 16777216 * unat (pd_head d AND 15)"

definition pio_count :: "pio_disk \<Rightarrow> nat" where
  "pio_count d = (if pd_count d = 0 then 256 else unat (pd_count d))"

definition pio_inb :: "u16 \<Rightarrow> pio_disk \<Rightarrow> u8 \<times> pio_disk" where
  "pio_inb p d =
     (if p = PORT_STATUS \<or> p = PORT_ALT_STATUS then if pd_mode d = Idle then 0x40 else 0x48
      else if p = PORT_LBA_LOW then pd_low d
      else if p = PORT_LBA_MID then pd_mid d
      else if p = PORT_LBA_HIGH then pd_high d
      else if p = PORT_DRIVE_HEAD then pd_head d
      else 0, d)"

definition pio_outb :: "u16 \<Rightarrow> u8 \<Rightarrow> pio_disk \<Rightarrow> pio_disk" where
  "pio_outb p v d =
     (if p = PORT_SECTOR_COUNT then d\<lparr>pd_count := v\<rparr>
      else if p = PORT_LBA_LOW then d\<lparr>pd_low := v\<rparr>
      else if p = PORT_LBA_MID then d\<lparr>pd_mid := v\<rparr>
      else if p = PORT_LBA_HIGH then d\<lparr>pd_high := v\<rparr>
      else if p = PORT_DRIVE_HEAD then d\<lparr>pd_head := v\<rparr>
      else if p = PORT_COMMAND then
        let pos = 256 * pio_lba d; end = pos + 256 * pio_count d in
        if v = CMD_READ_SECTORS then d\<lparr>pd_mode := Reading pos end\<rparr>
        else if v = CMD_WRITE_SECTORS then d\<lparr>pd_mode := Writing pos end\<rparr>
        else if v = CMD_IDENTIFY then d\<lparr>pd_mode := Identifying 256\<rparr>
        else d\<lparr>pd_mode := Idle\<rparr>
      else d)"

definition pio_inw :: "u16 \<Rightarrow> pio_disk \<Rightarrow> u16 \<times> pio_disk" where
  "pio_inw p d =
     (case pd_mode d of
        Reading pos end \<Rightarrow> (pd_words d pos, d\<lparr>pd_mode := if Suc pos = end then Idle else Reading (Suc pos) end\<rparr>)
      | Identifying n \<Rightarrow> (0, d\<lparr>pd_mode := if n = 1 then Idle else Identifying (n - 1)\<rparr>)
      | _ \<Rightarrow> (0xFFFF, d))"

definition pio_outw :: "u16 \<Rightarrow> u16 \<Rightarrow> pio_disk \<Rightarrow> pio_disk" where
  "pio_outw p w d =
     (case pd_mode d of
        Writing pos end \<Rightarrow> d\<lparr>pd_words := (pd_words d)(pos := w), pd_mode := if Suc pos = end then Idle else Writing (Suc pos) end\<rparr>
      | _ \<Rightarrow> d)"

definition pio :: "pio_disk port_io" where
  "pio = \<lparr>io_inb = pio_inb, io_outb = pio_outb, io_inw = pio_inw, io_outw = pio_outw\<rparr>"

lemma pio_sel [simp]:
  "io_inb pio = pio_inb" "io_outb pio = pio_outb" "io_inw pio = pio_inw" "io_outw pio = pio_outw"
  by (simp_all add: pio_def)

lemmas port_defs = PORT_DATA_def PORT_SECTOR_COUNT_def PORT_LBA_LOW_def PORT_LBA_MID_def PORT_LBA_HIGH_def PORT_DRIVE_HEAD_def
  PORT_STATUS_def PORT_COMMAND_def PORT_ALT_STATUS_def
lemmas cmd_defs = CMD_READ_SECTORS_def CMD_WRITE_SECTORS_def CMD_CACHE_FLUSH_def CMD_IDENTIFY_def

section \<open>The driver on it\<close>

lemma pio_wait:
  "wait_not_busy pio d = (True, d)" "pd_mode d \<noteq> Idle \<Longrightarrow> wait_for_data pio d = (True, d)"
proof -
  have n: "(100000 :: nat) = Suc 99999" by simp
  show "wait_not_busy pio d = (True, d)" unfolding wait_not_busy_def n poll_not_busy.simps
    by (simp add: pio_inb_def STATUS_BSY_def)
  show "pd_mode d \<noteq> Idle \<Longrightarrow> wait_for_data pio d = (True, d)" unfolding wait_for_data_def n poll_data.simps
    by (simp add: pio_inb_def STATUS_ERR_def STATUS_DRQ_def)
qed

lemma pio_select: "select_drive_lba pio lba d = d\<lparr>pd_head := DRIVE_MASTER_LBA OR ucast (drop_bit 24 lba AND 0x0F)\<rparr>"
proof -
  have "(\<lambda>d. snd (pio_inb PORT_ALT_STATUS d)) = id" by (auto simp: pio_inb_def)
  then have "io_delay_400ns pio d = d" for d unfolding io_delay_400ns_def pio_sel by (simp add: id_funpow)
  then show ?thesis by (simp add: select_drive_lba_def pio_outb_def port_defs)
qed

lemma lba_split:
  assumes "x < 268435456"
  shows "(x mod 256) + 256 * (x div 256 mod 256) + 65536 * (x div 65536 mod 256) + 16777216 * (x div 16777216 mod 16) = (x :: nat)"
proof -
  have "x div 65536 = x div 256 div 256" "x div 16777216 = x div 256 div 256 div 256" by (simp_all add: div_mult2_eq [symmetric])
  moreover have "x div 16777216 < 16" using assms by simp
  ultimately show ?thesis
    using div_mult_mod_eq [of x 256] div_mult_mod_eq [of "x div 256" 256] div_mult_mod_eq [of "x div 256 div 256" 256]
    by (simp only: mod_less)
qed

lemma byte_of_lba: "unat (ucast (drop_bit k lba AND 0xFF) :: u8) = unat (lba :: u32) div 2 ^ k mod 256"
proof -
  have "drop_bit k lba AND 0xFF = take_bit 8 (drop_bit k lba)" by (simp add: take_bit_eq_mask mask_eq_exp_minus_1)
  then have "unat (ucast (drop_bit k lba AND 0xFF) :: u8) = unat (ucast (take_bit 8 (drop_bit k lba)) :: u8)" by simp
  also have "\<dots> = take_bit 8 (take_bit 8 (unat (drop_bit k lba)))"
    by (simp only: unsigned_ucast_eq unsigned_take_bit_eq) simp
  also have "\<dots> = unat (drop_bit k lba) mod 256" by (simp add: take_bit_eq_mod)
  also have "unat (drop_bit k lba) = unat lba div 2 ^ k" unfolding unat_drop_bit_eq by (simp only: drop_bit_eq_div)
  finally show ?thesis .
qed

lemma head_of_lba: "unat ((DRIVE_MASTER_LBA OR ucast (drop_bit 24 lba AND 0x0F)) AND 15) = unat (lba :: u32) div 16777216 mod 16"
proof -
  have m: "(15 :: u8) = mask 4" "(15 :: u32) = mask 4" by (simp_all add: mask_eq_exp_minus_1)
  have "take_bit 4 (DRIVE_MASTER_LBA OR ucast (take_bit 4 (drop_bit 24 lba))) = (ucast (take_bit 4 (drop_bit 24 lba)) :: u8)"
    by (rule bit_word_eqI) (auto simp: bit_simps DRIVE_MASTER_LBA_def)
  then have "unat ((DRIVE_MASTER_LBA OR ucast (drop_bit 24 lba AND 0x0F)) AND 15) = unat (ucast (take_bit 4 (drop_bit 24 lba)) :: u8)"
    unfolding m take_bit_eq_mask [symmetric] by simp
  also have "\<dots> = take_bit 8 (take_bit 4 (unat (drop_bit 24 lba)))" by (simp only: unsigned_ucast_eq unsigned_take_bit_eq) simp
  also have "\<dots> = take_bit 4 (unat (drop_bit 24 lba))" by simp
  also have "\<dots> = unat (drop_bit 24 lba) mod 16" by (simp add: take_bit_eq_mod)
  also have "unat (drop_bit 24 lba) = unat lba div 2 ^ 24" unfolding unat_drop_bit_eq by (simp only: drop_bit_eq_div)
  also have "(2 :: nat) ^ 24 = 16777216" by simp
  finally show ?thesis .
qed

lemma pio_issue:
  assumes "unat lba < 268435456" "0 < unat count" "unat count < 256" "cmd = CMD_READ_SECTORS \<or> cmd = CMD_WRITE_SECTORS"
  shows "\<exists>d'. issue_command pio lba count cmd (select_drive_lba pio lba d) =
    d'\<lparr>pd_mode := (if cmd = CMD_READ_SECTORS then Reading else Writing) (256 * unat lba) (256 * unat lba + 256 * unat count)\<rparr> \<and>
    pd_words d' = pd_words d"
proof -
  let ?d = "d\<lparr>pd_head := DRIVE_MASTER_LBA OR ucast (drop_bit 24 lba AND 0x0F), pd_count := ucast count,
    pd_low := ucast (lba AND 0xFF), pd_mid := ucast (drop_bit 8 lba AND 0xFF), pd_high := ucast (drop_bit 16 lba AND 0xFF)\<rparr>"
  have c: "unat (ucast count :: u8) = unat count" using assms(3) by (simp add: unsigned_ucast_eq take_bit_nat_eq_self)
  then have "(ucast count :: u8) \<noteq> 0" using assms(2) by (metis less_irrefl unat_0)
  then have "pio_count ?d = unat count" using c by (simp add: pio_count_def)
  moreover have "pio_lba ?d = unat lba"
    using lba_split [OF assms(1)] byte_of_lba [of 0 lba] byte_of_lba [of 8 lba] byte_of_lba [of 16 lba] head_of_lba [of lba]
    by (simp add: pio_lba_def)
  ultimately have "issue_command pio lba count cmd (select_drive_lba pio lba d) =
      ?d\<lparr>pd_mode := (if cmd = CMD_READ_SECTORS then Reading else Writing) (256 * unat lba) (256 * unat lba + 256 * unat count)\<rparr>"
    using assms(4) by (auto simp: issue_command_def pio_select pio_outb_def port_defs cmd_defs Let_def)
  then show ?thesis by (intro exI [of _ ?d]) simp
qed

lemma pio_inw_words:
  assumes "pd_mode d = Reading p e" "p + n \<le> e"
  shows "inw_words n pio d = (map (pd_words d) [p..<p + n], d\<lparr>pd_mode := if 0 < n \<and> p + n = e then Idle else Reading (p + n) e\<rparr>)"
  using assms
proof (induction n arbitrary: d p)
  case (Suc n)
  show ?case
  proof (cases "Suc p = e")
    case True
    then have n: "n = 0" using Suc.prems(2) by linarith
    have "[p..<e] = [p]" using True by (simp add: upt_rec)
    then show ?thesis unfolding n using True Suc.prems(1) by (simp add: pio_inw_def)
  next
    case False
    then show ?thesis using Suc.IH [of "d\<lparr>pd_mode := Reading (Suc p) e\<rparr>" "Suc p"] Suc.prems
      by (simp add: pio_inw_def upt_conv_Cons del: upt_Suc)
  qed
qed simp

lemma pio_read_loop:
  assumes "pd_mode d = (if n = 0 then Idle else Reading p (p + 256 * n))"
  shows "read_loop n pio d = (True, map (pd_words d) [p..<p + 256 * n], d\<lparr>pd_mode := Idle\<rparr>)"
  using assms
proof (induction n arbitrary: d p)
  case (Suc n)
  let ?d = "d\<lparr>pd_mode := if n = 0 then Idle else Reading (p + 256) (p + 256 + 256 * n)\<rparr>"
  have m: "pd_mode d = Reading p (p + 256 * Suc n)" using Suc.prems by simp
  have "inw_words (SECTOR_SIZE div 2) pio d = (map (pd_words d) [p..<p + 256], ?d)"
    using pio_inw_words [OF m, of 256] by (simp add: SECTOR_SIZE_def)
  moreover have "read_loop n pio ?d = (True, map (pd_words d) [p + 256..<p + 256 + 256 * n], d\<lparr>pd_mode := Idle\<rparr>)"
    using Suc.IH [of ?d "p + 256"] by simp
  moreover have "[p..<p + 256] @ [p + 256..<p + 256 + 256 * n] = [p..<p + 256 * Suc n]"
    using upt_add_eq_append [of p "p + 256" "256 * n"] by (simp add: add.assoc)
  ultimately show ?case using pio_wait(2) [of d] m by (simp add: map_append [symmetric] del: map_append)
qed simp

definition put_words :: "nat \<Rightarrow> u16 list \<Rightarrow> (nat \<Rightarrow> u16) \<Rightarrow> nat \<Rightarrow> u16" where
  "put_words p ws f k = (if p \<le> k \<and> k < p + length ws then ws ! (k - p) else f k)"

lemma put_words_Cons: "put_words (Suc p) ws (f(p := w)) = put_words p (w # ws) f"
  by (auto simp: put_words_def fun_eq_iff nth_Cons' Suc_diff_Suc)

lemma put_words_append: "put_words (p + length ws) vs (put_words p ws f) = put_words p (ws @ vs) f"
  by (auto simp: put_words_def fun_eq_iff nth_append)

lemma pio_outw_words:
  assumes "pd_mode d = Writing p e" "p + length ws \<le> e"
  shows "outw_words ws pio d = d\<lparr>pd_words := put_words p ws (pd_words d),
    pd_mode := if ws \<noteq> [] \<and> p + length ws = e then Idle else Writing (p + length ws) e\<rparr>"
  using assms
proof (induction ws arbitrary: d p)
  case Nil
  have "put_words p [] (pd_words d) = pd_words d" by (auto simp: put_words_def fun_eq_iff)
  then show ?case using Nil by simp
next
  case (Cons w ws)
  show ?case
  proof (cases "Suc p = e")
    case True
    then show ?thesis using Cons.prems put_words_Cons [of p "[]" "pd_words d" w]
      by (auto simp: pio_outw_def put_words_def fun_eq_iff)
  next
    case False
    let ?d = "d\<lparr>pd_words := (pd_words d)(p := w), pd_mode := Writing (Suc p) e\<rparr>"
    have "outw_words (w # ws) pio d = outw_words ws pio ?d" using False Cons.prems by (simp add: pio_outw_def)
    also have "\<dots> = ?d\<lparr>pd_words := put_words (Suc p) ws (pd_words ?d),
        pd_mode := if ws \<noteq> [] \<and> Suc p + length ws = e then Idle else Writing (Suc p + length ws) e\<rparr>"
      by (rule Cons.IH) (use Cons.prems in simp_all)
    also have "put_words (Suc p) ws (pd_words ?d) = put_words p (w # ws) (pd_words d)"
    proof -
      have "pd_words ?d = (pd_words d)(p := w)" by simp
      then show ?thesis using put_words_Cons by metis
    qed
    finally show ?thesis using False Cons.prems by auto
  qed
qed

lemma pio_write_loop:
  assumes "pd_mode d = (if n = 0 then Idle else Writing p (p + 256 * n))" "length ws = 256 * n"
  shows "write_loop n ws pio d = (True, d\<lparr>pd_words := put_words p ws (pd_words d), pd_mode := Idle\<rparr>)"
  using assms
proof (induction n arbitrary: d p ws)
  case 0
  have "put_words p [] (pd_words d) = pd_words d" by (auto simp: put_words_def fun_eq_iff)
  then show ?case using 0 by simp
next
  case (Suc n)
  have m: "pd_mode d = Writing p (p + 256 * Suc n)" using Suc.prems by simp
  let ?d = "d\<lparr>pd_words := put_words p (take 256 ws) (pd_words d),
    pd_mode := if n = 0 then Idle else Writing (p + 256) (p + 256 + 256 * n)\<rparr>"
  have l: "length (take 256 ws) = 256" "take 256 ws \<noteq> []" using Suc.prems by auto
  have o: "outw_words (take (SECTOR_SIZE div 2) ws) pio d = ?d"
    using pio_outw_words [OF m, of "take 256 ws"] l by (simp add: SECTOR_SIZE_def)
  have "write_loop (Suc n) ws pio d = write_loop n (drop 256 ws) pio ?d"
    using pio_wait(2) [of d] m o by (simp add: SECTOR_SIZE_def)
  also have "\<dots> = (True, ?d\<lparr>pd_words := put_words (p + 256) (drop 256 ws) (pd_words ?d), pd_mode := Idle\<rparr>)"
    by (rule Suc.IH) (use Suc.prems in simp_all)
  also have "put_words (p + 256) (drop 256 ws) (pd_words ?d) = put_words p ws (pd_words d)"
    using put_words_append [of p "take 256 ws" "drop 256 ws" "pd_words d"] l by simp
  finally show ?case by simp
qed

section \<open>Bytes and words\<close>

lemma bytes_words: "even (length bs) \<Longrightarrow> bytes_of_words (words_of_bytes bs) = bs"
proof (induction bs rule: words_of_bytes.induct [case_names pair nil one])
  case (pair a b bs)
  have "(ucast (ucast a OR push_bit 8 (ucast b) :: u16) :: u8) = a"
    "(ucast (drop_bit 8 (ucast a OR push_bit 8 (ucast b) :: u16)) :: u8) = b"
    by (rule bit_word_eqI; auto simp: bit_simps dest: bit_imp_le_length)+
  then show ?case using pair by simp
qed auto

lemma words_take: "words_of_bytes (take (2 * n) bs) = take n (words_of_bytes bs)"
proof (induction bs arbitrary: n rule: words_of_bytes.induct [case_names pair nil one])
  case (pair a b bs)
  show ?case
  proof (cases n)
    case (Suc m)
    then show ?thesis using pair [of m] by simp
  qed simp
next
  case (one v)
  show ?case by (cases n) simp_all
qed simp

lemma words_drop: "words_of_bytes (drop (2 * n) bs) = drop n (words_of_bytes bs)"
proof (induction bs arbitrary: n rule: words_of_bytes.induct [case_names pair nil one])
  case (pair a b bs)
  show ?case
  proof (cases n)
    case (Suc m)
    then show ?thesis using pair [of m] by simp
  qed simp
next
  case (one v)
  show ?case by (cases n) simp_all
qed simp

lemma words_length: "length (words_of_bytes bs) = length bs div 2"
  by (induction bs rule: words_of_bytes.induct [case_names pair nil one]) auto

lemma bytes_of_words_append: "bytes_of_words (xs @ ys) = bytes_of_words xs @ bytes_of_words ys"
  by (induction xs) auto

lemma bytes_length: "length (bytes_of_words ws) = 2 * length ws"
  by (induction ws) auto

section \<open>The driver is a block device\<close>

definition disk_sector :: "pio_disk ata_state \<Rightarrow> nat \<Rightarrow> u8 list" where
  "disk_sector s k = bytes_of_words (map (pd_words (dev s)) [256 * k..<256 * k + 256])"

definition disk_idle :: "pio_disk ata_state \<Rightarrow> bool" where
  "disk_idle s \<longleftrightarrow> pd_mode (dev s) = Idle"

definition disk_works :: "pio_disk ata_state \<Rightarrow> bool" where
  "disk_works s \<longleftrightarrow> disk_idle s \<and> fault_countdown s < 0"

lemma sectors_bytes:
  "bytes_of_words (map f [256 * a..<256 * a + 256 * n]) = concat (map (\<lambda>k. bytes_of_words (map f [256 * k..<256 * k + 256])) [a..<a + n])"
proof (induction n)
  case (Suc n)
  have "[256 * a..<256 * a + 256 * Suc n] = [256 * a..<256 * a + 256 * n] @ [256 * (a + n)..<256 * (a + n) + 256]"
    using upt_add_eq_append [of "256 * a" "256 * a + 256 * n" 256] by (simp add: algebra_simps)
  then show ?case using Suc by (simp only: map_append bytes_of_words_append) simp
qed simp

lemma ata_read_pio:
  assumes "disk_idle s" "0 < unat n" "unat n < 256" "unat lba + unat n \<le> 268435456" "ata_read pio lba n s = (b, bs, s')"
  shows "disk_idle s' \<and> disk_sector s' = disk_sector s \<and> (b \<longrightarrow> bs = concat (map (disk_sector s) [unat lba..<unat lba + unat n])) \<and>
    (disk_works s \<longrightarrow> b \<and> disk_works s')"
proof -
  obtain f t where t: "should_inject_fault s = (f, t)" by fastforce
  then have td: "dev t = dev s" "fault_countdown s < 0 \<Longrightarrow> \<not> f \<and> t = s"
    by (auto simp: should_inject_fault_def split: if_splits)
  have n0: "n \<noteq> 0" using assms(2) by auto
  have sec: "disk_sector s' = disk_sector s" if "pd_words (dev s') = pd_words (dev s)" for s' :: "pio_disk ata_state"
    using that by (auto simp: disk_sector_def)
  show ?thesis
  proof (cases f)
    case True
    then have "s' = t" "\<not> b" using assms(5) t n0 by (auto simp: ata_read_def read_sectors_def)
    then show ?thesis using td True assms(1) sec [of t] by (auto simp: disk_idle_def disk_works_def)
  next
    case False
    obtain d' where d': "issue_command pio lba n CMD_READ_SECTORS (select_drive_lba pio lba (dev t)) =
        d'\<lparr>pd_mode := Reading (256 * unat lba) (256 * unat lba + 256 * unat n)\<rparr>" "pd_words d' = pd_words (dev t)"
      using pio_issue [of lba n CMD_READ_SECTORS "dev t"] assms(2-4) by auto
    let ?d = "d'\<lparr>pd_mode := Reading (256 * unat lba) (256 * unat lba + 256 * unat n)\<rparr>"
    have "read_loop (unat n) pio ?d = (True, map (pd_words d') [256 * unat lba..<256 * unat lba + 256 * unat n], d'\<lparr>pd_mode := Idle\<rparr>)"
      using pio_read_loop [of ?d "unat n" "256 * unat lba"] assms(2) by simp
    then have r: "b" "bs = bytes_of_words (map (pd_words d') [256 * unat lba..<256 * unat lba + 256 * unat n])"
      "s' = t\<lparr>dev := d'\<lparr>pd_mode := Idle\<rparr>\<rparr>"
      using assms(5) t False n0 d'(1) by (auto simp: ata_read_def read_sectors_def pio_wait Let_def)
    moreover have "bs = concat (map (disk_sector s) [unat lba..<unat lba + unat n])"
      unfolding r(2) sectors_bytes using d'(2) td(1) by (simp add: disk_sector_def [abs_def])
    moreover have "disk_sector s' = disk_sector s" using r(3) d'(2) td(1) by (intro sec) simp
    ultimately show ?thesis using td by (auto simp: disk_idle_def disk_works_def)
  qed
qed

lemma put_words_sector:
  assumes "length ws = 256 * n" "i < n"
  shows "map (put_words (256 * a) ws f) [256 * (a + i)..<256 * (a + i) + 256] = take 256 (drop (256 * i) ws)"
proof (rule nth_equalityI)
  have "256 * i + 256 \<le> length ws" using assms by simp
  then show "length (map (put_words (256 * a) ws f) [256 * (a + i)..<256 * (a + i) + 256]) = length (take 256 (drop (256 * i) ws))"
    by simp
  fix j assume "j < length (map (put_words (256 * a) ws f) [256 * (a + i)..<256 * (a + i) + 256])"
  then have j: "j < 256" by simp
  then have "256 * i + j < length ws" using assms by simp
  then show "map (put_words (256 * a) ws f) [256 * (a + i)..<256 * (a + i) + 256] ! j = take 256 (drop (256 * i) ws) ! j"
    using j by (simp add: put_words_def algebra_simps)
qed

lemma ata_write_pio:
  assumes "disk_idle s" "0 < unat n" "unat n < 256" "unat lba + unat n \<le> 268435456" "length data = 512 * unat n"
    "ata_write pio lba n data s = (b, s')"
  shows "disk_idle s' \<and> (\<forall>k. k < unat lba \<or> unat lba + unat n \<le> k \<longrightarrow> disk_sector s' k = disk_sector s k) \<and>
    (b \<longrightarrow> (\<forall>i<unat n. disk_sector s' (unat lba + i) = take 512 (drop (512 * i) data))) \<and>
    (disk_works s \<longrightarrow> b \<and> disk_works s')"
proof -
  obtain f t where t: "should_inject_fault s = (f, t)" by fastforce
  then have td: "dev t = dev s" "fault_countdown s < 0 \<Longrightarrow> \<not> f \<and> t = s"
    by (auto simp: should_inject_fault_def split: if_splits)
  have n0: "n \<noteq> 0" using assms(2) by auto
  let ?ws = "words_of_bytes data"
  have l: "length ?ws = 256 * unat n" using assms(5) by (simp add: words_length)
  show ?thesis
  proof (cases f)
    case True
    then have "s' = t" "\<not> b" using assms(6) t n0 by (auto simp: ata_write_def write_sectors_def)
    then show ?thesis using td True assms(1) by (auto simp: disk_idle_def disk_works_def disk_sector_def)
  next
    case False
    obtain d' where d': "issue_command pio lba n CMD_WRITE_SECTORS (select_drive_lba pio lba (dev t)) =
        d'\<lparr>pd_mode := Writing (256 * unat lba) (256 * unat lba + 256 * unat n)\<rparr>" "pd_words d' = pd_words (dev t)"
      using pio_issue [of lba n CMD_WRITE_SECTORS "dev t"] assms(2-4) by (auto simp: cmd_defs)
    let ?d = "d'\<lparr>pd_mode := Writing (256 * unat lba) (256 * unat lba + 256 * unat n)\<rparr>"
    let ?w = "put_words (256 * unat lba) ?ws (pd_words (dev s))"
    have w: "write_loop (unat n) ?ws pio ?d = (True, d'\<lparr>pd_words := ?w, pd_mode := Idle\<rparr>)"
      using pio_write_loop [of ?d "unat n" "256 * unat lba" ?ws] assms(2) l d'(2) td(1) by simp
    have "pio_outb PORT_COMMAND CMD_CACHE_FLUSH e = e\<lparr>pd_mode := Idle\<rparr>" for e
      by (simp add: pio_outb_def port_defs cmd_defs Let_def)
    then have r: "b" "s' = t\<lparr>dev := d'\<lparr>pd_words := ?w, pd_mode := Idle\<rparr>\<rparr>"
      using assms(6) t False n0 d'(1) w by (auto simp: ata_write_def write_sectors_def pio_wait Let_def)
    have "disk_sector s' k = disk_sector s k" if "k < unat lba \<or> unat lba + unat n \<le> k" for k
    proof -
      have "map ?w [256 * k..<256 * k + 256] = map (pd_words (dev s)) [256 * k..<256 * k + 256]"
        using that l by (auto simp: put_words_def)
      moreover have "pd_words (dev s') = ?w" using r(2) by simp
      ultimately show ?thesis unfolding disk_sector_def by metis
    qed
    moreover have "disk_sector s' (unat lba + i) = take 512 (drop (512 * i) data)" if "i < unat n" for i
    proof -
      have "512 * i + 512 \<le> length data" using that assms(5) by simp
      then have e: "even (length (take 512 (drop (512 * i) data)))" by simp
      have "take 256 (drop (256 * i) ?ws) = words_of_bytes (take 512 (drop (512 * i) data))"
        using words_take [of 256 "drop (512 * i) data"] words_drop [of "256 * i" data] by simp
      then show ?thesis using put_words_sector [OF l that] bytes_words [OF e] r(2) by (simp add: disk_sector_def)
    qed
    ultimately show ?thesis using td r by (auto simp: disk_idle_def disk_works_def)
  qed
qed

interpretation ata_disk: block_device "ata_read pio" "ata_write pio" disk_sector disk_idle disk_works
proof (unfold_locales, goal_cases)
  case (1 s k)
  show ?case by (simp add: disk_sector_def bytes_length)
next
  case (2 s)
  then show ?case by (simp add: disk_works_def)
next
  case (3 s n lba b bs s')
  then show ?case by (rule ata_read_pio)
next
  case (4 s n lba data b s')
  then show ?case by (rule ata_write_pio)
qed

section \<open>Properties\<close>


definition blank_disk :: "pio_disk ata_state" where
  "blank_disk = \<lparr>fault_countdown = - 1, dev = \<lparr>pd_count = 0, pd_low = 0, pd_mid = 0, pd_high = 0, pd_head = 0, pd_mode = Idle,
     pd_words = (\<lambda>_. 0)\<rparr>\<rparr>"


end
