(* ===== verification/Fs.thy ===== *)
theory Fs
  imports Ata_Correct
begin

text \<open>
  VenomFS, \<^verbatim>\<open>kernel/fs.cpp\<close>: a superblock, a table of 64 files with at most four extents each, a bitmap of the
  data blocks. Table and bitmap live in memory and are written back as a whole. The two operations of the
  block device are arguments, as everything below is independent of the driver.

  A C string argument is the list of its characters without the terminating zero; the name field of an
  entry is the array of its 32 characters.
\<close>

section \<open>Layout\<close>

definition SUPERBLOCK_LBA :: u32 where "SUPERBLOCK_LBA = 256"
definition FILE_TABLE_LBA :: u32 where "FILE_TABLE_LBA = 257"
definition FILE_TABLE_SECTORS :: u32 where "FILE_TABLE_SECTORS = 9"
definition BITMAP_LBA :: u32 where "BITMAP_LBA = 266"
definition BITMAP_SECTORS :: u32 where "BITMAP_SECTORS = 8"
definition DATA_START_LBA :: u32 where "DATA_START_LBA = 274"
definition TOTAL_DISK_SECTORS :: u32 where "TOTAL_DISK_SECTORS = 32768"
definition TOTAL_DATA_BLOCKS :: u32 where "TOTAL_DATA_BLOCKS = TOTAL_DISK_SECTORS - DATA_START_LBA"
definition VENOMFS_VERSION :: u32 where "VENOMFS_VERSION = 2"
definition MAX_FILENAME :: nat where "MAX_FILENAME = 32"
definition MAX_FILES :: nat where "MAX_FILES = 64"
definition MAX_EXTENTS :: nat where "MAX_EXTENTS = 4"

record Extent =
  start_lba :: u32
  block_count :: u32

record FileEntry =
  fe_name :: "u8 list"
  size_bytes :: u32
  extent_count :: u8
  used :: u8
  fe_reserved :: "u8 list"
  extents :: "Extent list"

record 's fs_state =
  file_table :: "FileEntry list"
  fs_bitmap :: bytes
  disk :: 's

type_synonym 's reader = "u32 \<Rightarrow> u32 \<Rightarrow> 's \<Rightarrow> bool \<times> u8 list \<times> 's"
type_synonym 's writer = "u32 \<Rightarrow> u32 \<Rightarrow> u8 list \<Rightarrow> 's \<Rightarrow> bool \<times> 's"

definition no_extent :: Extent where "no_extent = \<lparr>start_lba = 0, block_count = 0\<rparr>"

definition empty_entry :: FileEntry where
  "empty_entry = \<lparr>fe_name = replicate MAX_FILENAME 0, size_bytes = 0, extent_count = 0, used = 0, fe_reserved = [0, 0],
     extents = replicate MAX_EXTENTS no_extent\<rparr>"

text \<open>The structures are written to disk as they lie in memory: packed, little-endian.\<close>

definition le32 :: "u32 \<Rightarrow> u8 list" where
  "le32 w = [ucast w, ucast (drop_bit 8 w), ucast (drop_bit 16 w), ucast (drop_bit 24 w)]"

definition get32 :: "nat \<Rightarrow> u8 list \<Rightarrow> u32" where
  "get32 off bs = ucast (bs ! off) OR push_bit 8 (ucast (bs ! (off + 1))) OR push_bit 16 (ucast (bs ! (off + 2))) OR
     push_bit 24 (ucast (bs ! (off + 3)))"

definition extent_bytes :: "Extent \<Rightarrow> u8 list" where
  "extent_bytes e = le32 (start_lba e) @ le32 (block_count e)"

definition entry_bytes :: "FileEntry \<Rightarrow> u8 list" where
  "entry_bytes e = fe_name e @ le32 (size_bytes e) @ [extent_count e, used e] @ fe_reserved e @ concat (map extent_bytes (extents e))"

definition entry_of_bytes :: "u8 list \<Rightarrow> FileEntry" where
  "entry_of_bytes bs = \<lparr>fe_name = take 32 bs, size_bytes = get32 32 bs, extent_count = bs ! 36, used = bs ! 37,
     fe_reserved = take 2 (drop 38 bs),
     extents = map (\<lambda>i. \<lparr>start_lba = get32 (40 + 8 * i) bs, block_count = get32 (44 + 8 * i) bs\<rparr>) [0..<MAX_EXTENTS]\<rparr>"

definition table_bytes :: "FileEntry list \<Rightarrow> u8 list" where
  "table_bytes ft = concat (map entry_bytes ft)"

definition table_of_bytes :: "u8 list \<Rightarrow> FileEntry list" where
  "table_of_bytes bs = map (\<lambda>i. entry_of_bytes (take 72 (drop (72 * i) bs))) [0..<MAX_FILES]"

definition superblock_bytes :: "u8 list" where
  "superblock_bytes = [0x56, 0x4E, 0x46, 0x53] @ le32 VENOMFS_VERSION @ le32 TOTAL_DATA_BLOCKS @ le32 FILE_TABLE_LBA @
     le32 FILE_TABLE_SECTORS @ le32 BITMAP_LBA @ le32 BITMAP_SECTORS @ le32 DATA_START_LBA"

section \<open>Names and bits\<close>

definition char_at :: "u8 list \<Rightarrow> nat \<Rightarrow> u8" where
  "char_at s i = (if i < length s then s ! i else 0)"

fun name_equals_from :: "nat \<Rightarrow> nat \<Rightarrow> u8 list \<Rightarrow> u8 list \<Rightarrow> bool" where
  "name_equals_from 0 i a b = True"
| "name_equals_from (Suc n) i a b =
     (if char_at a i \<noteq> char_at b i then False
      else if char_at a i = 0 then True
      else name_equals_from n (i + 1) a b)"

definition name_equals :: "u8 list \<Rightarrow> u8 list \<Rightarrow> bool" where
  "name_equals a b = name_equals_from MAX_FILENAME 0 a b"

definition copy_name :: "u8 list \<Rightarrow> u8 list \<Rightarrow> u8 list" where
  "copy_name dest src =
     (let n = length (takeWhile (\<lambda>c. c \<noteq> 0) (take (MAX_FILENAME - 1) src))
      in take n src @ [0] @ drop (Suc n) dest)"

definition bit_test :: "bytes \<Rightarrow> nat \<Rightarrow> bool" where
  "bit_test bitmap block \<longleftrightarrow> drop_bit (block mod 8) (bitmap (block div 8)) AND 1 \<noteq> 0"

definition bit_set :: "bytes \<Rightarrow> nat \<Rightarrow> bytes" where
  "bit_set bitmap block = bitmap(block div 8 := bitmap (block div 8) OR ucast (push_bit (block mod 8) (1 :: u32)))"

definition bit_clear :: "bytes \<Rightarrow> nat \<Rightarrow> bytes" where
  "bit_clear bitmap block = bitmap(block div 8 := bitmap (block div 8) AND ucast (NOT (push_bit (block mod 8) (1 :: u32))))"

text \<open>The blocks of an extent, and the loops that mark or release the blocks of several extents.\<close>

definition extent_blocks :: "Extent \<Rightarrow> nat list" where
  "extent_blocks e = map (\<lambda>i. unat (start_lba e - DATA_START_LBA + of_nat i)) [0..<unat (block_count e)]"

definition mark_extents :: "Extent list \<Rightarrow> bytes \<Rightarrow> bytes" where
  "mark_extents es bm = fold (\<lambda>e bm. fold (\<lambda>b bm. bit_set bm b) (extent_blocks e) bm) es bm"

definition release_extents :: "Extent list \<Rightarrow> bytes \<Rightarrow> bytes" where
  "release_extents es bm = fold (\<lambda>e bm. fold (\<lambda>b bm. bit_clear bm b) (extent_blocks e) bm) es bm"

definition entry_extents :: "FileEntry \<Rightarrow> Extent list" where
  "entry_extents entry = take (unat (extent_count entry)) (extents entry)"

section \<open>Table and bitmap\<close>

definition save_file_table :: "'s writer \<Rightarrow> 's fs_state \<Rightarrow> bool \<times> 's fs_state" where
  "save_file_table wr s =
     (case wr FILE_TABLE_LBA FILE_TABLE_SECTORS (table_bytes (file_table s)) (disk s) of (ok, d) \<Rightarrow> (ok, s\<lparr>disk := d\<rparr>))"

definition save_bitmap :: "'s writer \<Rightarrow> 's fs_state \<Rightarrow> bool \<times> 's fs_state" where
  "save_bitmap wr s =
     (case wr BITMAP_LBA BITMAP_SECTORS (map (fs_bitmap s) [0..<4096]) (disk s) of (ok, d) \<Rightarrow> (ok, s\<lparr>disk := d\<rparr>))"

definition clear_bitmap :: "bytes \<Rightarrow> bytes" where
  "clear_bitmap bm = (\<lambda>i. if i < 4096 then 0 else bm i)"

definition rebuild_bitmap_from_file_table :: "'s fs_state \<Rightarrow> 's fs_state" where
  "rebuild_bitmap_from_file_table s =
     s\<lparr>fs_bitmap := fold (\<lambda>entry bm. if used entry = 0 then bm else mark_extents (entry_extents entry) bm)
        (file_table s) (clear_bitmap (fs_bitmap s))\<rparr>"

definition find_file :: "u8 list \<Rightarrow> 's fs_state \<Rightarrow> nat option" where
  "find_file name s =
     List.find (\<lambda>i. used (file_table s ! i) \<noteq> 0 \<and> name_equals (fe_name (file_table s ! i)) name) [0..<MAX_FILES]"

definition cleared_entry :: "FileEntry \<Rightarrow> FileEntry" where
  "cleared_entry entry = entry\<lparr>used := 0, fe_name := (fe_name entry)[0 := 0], size_bytes := 0, extent_count := 0,
     extents := replicate MAX_EXTENTS no_extent\<rparr>"

definition free_entry :: "nat \<Rightarrow> 's fs_state \<Rightarrow> 's fs_state" where
  "free_entry i s = s\<lparr>fs_bitmap := release_extents (entry_extents (file_table s ! i)) (fs_bitmap s),
     file_table := (file_table s)[i := cleared_entry (file_table s ! i)]\<rparr>"

section \<open>Allocation\<close>

fun find_run :: "bytes \<Rightarrow> nat \<Rightarrow> nat list \<Rightarrow> nat \<Rightarrow> nat \<Rightarrow> nat option" where
  "find_run bm needed [] run_start run_length = None"
| "find_run bm needed (block # blocks) run_start run_length =
     (if \<not> bit_test bm block then
        let run_start = (if run_length = 0 then block else run_start);
            run_length = run_length + 1
        in if run_length = needed then Some run_start else find_run bm needed blocks run_start run_length
      else find_run bm needed blocks run_start 0)"

definition find_free_run :: "u32 \<Rightarrow> bytes \<Rightarrow> nat option" where
  "find_free_run needed bm =
     (if needed = 0 then Some 0 else find_run bm (unat needed) [0..<unat TOTAL_DATA_BLOCKS] 0 0)"

text \<open>The inner loop of \<open>find_free_extents\<close>: the length of the free run at a block, at most \<open>remaining\<close>.\<close>

function run_length_at :: "bytes \<Rightarrow> nat \<Rightarrow> nat \<Rightarrow> nat \<Rightarrow> nat" where
  "run_length_at bm block run_length remaining =
     (if block < unat TOTAL_DATA_BLOCKS \<and> \<not> bit_test bm block \<and> run_length < remaining
      then run_length_at bm (block + 1) (run_length + 1) remaining
      else run_length)"
  by pat_completeness auto
termination
  by (relation "measure (\<lambda>(bm, block, run_length, remaining). unat TOTAL_DATA_BLOCKS - block)") auto

declare run_length_at.simps [simp del]

lemma run_length_grows: "run_length \<le> run_length_at bm block run_length remaining"
proof (induction bm block run_length remaining rule: run_length_at.induct)
  case (1 bm block run_length remaining)
  then show ?case by (subst run_length_at.simps) auto
qed

lemma run_length_positive:
  assumes "block < unat TOTAL_DATA_BLOCKS" "\<not> bit_test bm block" "0 < remaining"
  shows "0 < run_length_at bm block 0 remaining"
  using assms run_length_grows [of 1 bm "block + 1" remaining] by (subst run_length_at.simps) simp

function find_extents_from :: "bytes \<Rightarrow> nat \<Rightarrow> nat \<Rightarrow> Extent list \<Rightarrow> nat \<times> Extent list" where
  "find_extents_from bm block remaining out =
     (if block < unat TOTAL_DATA_BLOCKS \<and> 0 < remaining \<and> length out < MAX_EXTENTS then
        if bit_test bm block then find_extents_from bm (block + 1) remaining out
        else
          let run_length = run_length_at bm block 0 remaining
          in find_extents_from bm (block + run_length) (remaining - run_length)
               (out @ [\<lparr>start_lba = DATA_START_LBA + of_nat block, block_count = of_nat run_length\<rparr>])
      else (remaining, out))"
  by pat_completeness auto
termination
  by (relation "measure (\<lambda>(bm, block, remaining, out). unat TOTAL_DATA_BLOCKS - block)")
    (auto intro!: diff_less_mono2 run_length_positive)

declare find_extents_from.simps [simp del]

text \<open>An empty list stands for the return value 0.\<close>

definition find_free_extents :: "u32 \<Rightarrow> bytes \<Rightarrow> Extent list" where
  "find_free_extents needed bm =
     (case find_extents_from bm 0 (unat needed) [] of (remaining, out) \<Rightarrow> if 0 < remaining then [] else out)"

section \<open>Operations\<close>

definition fs_format :: "'s writer \<Rightarrow> 's fs_state \<Rightarrow> bool \<times> 's fs_state" where
  "fs_format wr s =
     (case wr SUPERBLOCK_LBA 1 (superblock_bytes @ replicate 480 0) (disk s) of (ok, d) \<Rightarrow>
        let s = s\<lparr>disk := d\<rparr> in
        if \<not> ok then (False, s)
        else
          case save_file_table wr (s\<lparr>file_table := replicate MAX_FILES empty_entry\<rparr>) of (ok, s) \<Rightarrow>
            if \<not> ok then (False, s)
            else
              case save_bitmap wr (s\<lparr>fs_bitmap := clear_bitmap (fs_bitmap s)\<rparr>) of (ok, s) \<Rightarrow>
                if \<not> ok then (False, s) else (True, s))"

definition valid_magic :: "u8 list \<Rightarrow> bool" where
  "valid_magic sb \<longleftrightarrow> sb ! 0 = 0x56 \<and> sb ! 1 = 0x4E \<and> sb ! 2 = 0x46 \<and> sb ! 3 = 0x53"

text \<open>A failed read of the table leaves the table in memory partly overwritten.\<close>

definition fs_init :: "'s reader \<Rightarrow> 's writer \<Rightarrow> 's fs_state \<Rightarrow> bool \<times> 's fs_state" where
  "fs_init rd wr s =
     (case rd SUPERBLOCK_LBA 1 (disk s) of (ok, sb, d) \<Rightarrow>
        let s = s\<lparr>disk := d\<rparr> in
        if \<not> ok then (False, s)
        else if \<not> valid_magic sb then fs_format wr s
        else
          case rd FILE_TABLE_LBA FILE_TABLE_SECTORS (disk s) of (ok, tb, d) \<Rightarrow>
            let s = s\<lparr>disk := d, file_table := table_of_bytes (tb @ drop (length tb) (table_bytes (file_table s)))\<rparr> in
            if \<not> ok then (False, s)
            else
              case save_bitmap wr (rebuild_bitmap_from_file_table s) of (ok, s) \<Rightarrow>
                if \<not> ok then (False, s) else (True, s))"

definition fs_exists :: "u8 list \<Rightarrow> 's fs_state \<Rightarrow> bool" where
  "fs_exists name s \<longleftrightarrow> find_file name s \<noteq> None"

definition file_size :: "u8 list \<Rightarrow> 's fs_state \<Rightarrow> int" where
  "file_size name s = (case find_file name s of None \<Rightarrow> - 1 | Some i \<Rightarrow> uint (size_bytes (file_table s ! i)))"

definition extent_lbas :: "Extent list \<Rightarrow> u32 list" where
  "extent_lbas es = concat (map (\<lambda>e. map (\<lambda>i. start_lba e + of_nat i) [0..<unat (block_count e)]) es)"

fun write_blocks :: "'s writer \<Rightarrow> u32 list \<Rightarrow> u8 list \<Rightarrow> 's \<Rightarrow> bool \<times> 's" where
  "write_blocks wr [] data d = (True, d)"
| "write_blocks wr (lba # lbas) data d =
     (case wr lba 1 (if length data \<ge> SECTOR_SIZE then take SECTOR_SIZE data else data @ replicate (SECTOR_SIZE - length data) 0) d
      of (ok, d) \<Rightarrow> if \<not> ok then (False, d) else write_blocks wr lbas (drop SECTOR_SIZE data) d)"

text \<open>The unused slot of \<open>write\<close>: the entry that was just freed, or the first unused one.\<close>

definition write_slot :: "nat option \<Rightarrow> 's fs_state \<Rightarrow> nat option" where
  "write_slot existing s =
     (case existing of Some i \<Rightarrow> Some i | None \<Rightarrow> List.find (\<lambda>i. used (file_table s ! i) = 0) [0..<MAX_FILES])"

definition choose_extents :: "u32 \<Rightarrow> bytes \<Rightarrow> Extent list" where
  "choose_extents blocks_needed bm =
     (case find_free_run blocks_needed bm of
        Some single_start \<Rightarrow> [\<lparr>start_lba = DATA_START_LBA + of_nat single_start, block_count = blocks_needed\<rparr>]
      | None \<Rightarrow> find_free_extents blocks_needed bm)"

definition save_both :: "'s writer \<Rightarrow> 's fs_state \<Rightarrow> 's fs_state" where
  "save_both wr s = snd (save_file_table wr (snd (save_bitmap wr s)))"

definition fs_write :: "'s writer \<Rightarrow> u8 list \<Rightarrow> u8 list \<Rightarrow> 's fs_state \<Rightarrow> bool \<times> 's fs_state" where
  "fs_write wr name data s =
     (if length name \<ge> MAX_FILENAME then (False, s)
      else
        let existing = find_file name s;
            s = (case existing of Some i \<Rightarrow> free_entry i s | None \<Rightarrow> s) in
        case write_slot existing s of
          None \<Rightarrow> (False, save_both wr s)
        | Some slot \<Rightarrow>
            let blocks_needed = (of_nat ((length data + SECTOR_SIZE - 1) div SECTOR_SIZE) :: u32);
                es = (if blocks_needed > 0 then choose_extents blocks_needed (fs_bitmap s) else []) in
            if blocks_needed > 0 \<and> es = [] then (False, save_both wr s)
            else
              let s = s\<lparr>fs_bitmap := mark_extents es (fs_bitmap s)\<rparr>;
                  (data_write_ok, d) = write_blocks wr (extent_lbas es) data (disk s);
                  s = s\<lparr>disk := d\<rparr> in
              if \<not> data_write_ok then
                (False, save_both wr (s\<lparr>fs_bitmap := release_extents es (fs_bitmap s)\<rparr>))
              else
                let entry = file_table s ! slot;
                    entry = entry\<lparr>fe_name := copy_name (fe_name entry) name, size_bytes := of_nat (length data),
                      extent_count := of_nat (length es), extents := es @ replicate (MAX_EXTENTS - length es) no_extent, used := 1\<rparr>;
                    s = s\<lparr>file_table := (file_table s)[slot := entry]\<rparr>;
                    (table_ok, s) = save_file_table wr s;
                    (bitmap_ok, s) = save_bitmap wr s in
                if \<not> table_ok \<or> \<not> bitmap_ok then
                  let s = s\<lparr>fs_bitmap := release_extents es (fs_bitmap s),
                            file_table := (file_table s)[slot := cleared_entry (file_table s ! slot)]\<rparr>;
                      s = snd (save_file_table wr s);
                      s = snd (save_bitmap wr s)
                  in (False, s)
                else (True, s))"

fun read_blocks :: "'s reader \<Rightarrow> u32 list \<Rightarrow> nat \<Rightarrow> 's \<Rightarrow> bool \<times> u8 list \<times> 's" where
  "read_blocks rd [] remaining d = (True, [], d)"
| "read_blocks rd (lba # lbas) remaining d =
     (if remaining = 0 then (True, [], d)
      else
        case rd lba 1 d of (ok, sector_buf, d) \<Rightarrow>
          if \<not> ok then (False, [], d)
          else
            let chunk = (if remaining < SECTOR_SIZE then remaining else SECTOR_SIZE) in
            case read_blocks rd lbas (remaining - chunk) d of (ok, bs, d) \<Rightarrow> (ok, take chunk sector_buf @ bs, d))"

definition fs_read :: "'s reader \<Rightarrow> u8 list \<Rightarrow> nat \<Rightarrow> 's fs_state \<Rightarrow> bool \<times> u8 list \<times> 's fs_state" where
  "fs_read rd name buffer_capacity s =
     (case find_file name s of
        None \<Rightarrow> (False, [], s)
      | Some i \<Rightarrow>
          let entry = file_table s ! i;
              to_read = min (unat (size_bytes entry)) buffer_capacity
          in case read_blocks rd (extent_lbas (entry_extents entry)) to_read (disk s) of
               (ok, bs, d) \<Rightarrow> (ok, bs, s\<lparr>disk := d\<rparr>))"

definition fs_remove :: "'s writer \<Rightarrow> u8 list \<Rightarrow> 's fs_state \<Rightarrow> bool \<times> 's fs_state" where
  "fs_remove wr name s =
     (case find_file name s of
        None \<Rightarrow> (False, s)
      | Some i \<Rightarrow>
          let backup = file_table s ! i;
              s = free_entry i s;
              (table_ok, s) = save_file_table wr s;
              (bitmap_ok, s) = save_bitmap wr s in
          if \<not> table_ok \<or> \<not> bitmap_ok then
            (False, s\<lparr>file_table := (file_table s)[i := backup], fs_bitmap := mark_extents (entry_extents backup) (fs_bitmap s)\<rparr>)
          else (True, s))"

definition entry_at :: "int \<Rightarrow> 's fs_state \<Rightarrow> FileEntry option" where
  "entry_at index s = (if index < 0 \<or> index \<ge> int MAX_FILES then None else Some (file_table s ! nat index))"

end
