(* ===== verification/Fs_Alloc.thy ===== *)
theory Fs_Alloc
  imports Fs
begin

text \<open>
  Blocks and names of VenomFS: what the bitmap loops do to the set of used blocks, that the searches for
  free space return free blocks of the right number, and that comparing names compares strings.
\<close>

section \<open>Extents as blocks\<close>

interpretation fs_bits: byte_bitmap bit_test bit_set bit_clear
  unfolding bit_test_def [abs_def] bit_set_def [abs_def] bit_clear_def [abs_def] by (rule byte_bitmap_standard)

lemma fs_sizes [simp]: "unat TOTAL_DATA_BLOCKS = 32494" "unat DATA_START_LBA = 274" "MAX_FILES = 64" "MAX_EXTENTS = 4"
  "MAX_FILENAME = 32" "SECTOR_SIZE = 512"
  by (simp_all add: TOTAL_DATA_BLOCKS_def TOTAL_DISK_SECTORS_def DATA_START_LBA_def MAX_FILES_def MAX_EXTENTS_def
      MAX_FILENAME_def SECTOR_SIZE_def)

definition extent_ok :: "Extent \<Rightarrow> bool" where
  "extent_ok e \<longleftrightarrow> 274 \<le> unat (start_lba e) \<and> unat (start_lba e) + unat (block_count e) \<le> 32768"

lemma extent_blocks_eq:
  assumes "extent_ok e"
  shows "extent_blocks e = [unat (start_lba e) - 274..<unat (start_lba e) - 274 + unat (block_count e)]"
proof (rule nth_equalityI)
  fix i assume i: "i < length (extent_blocks e)"
  then have ib: "i < unat (block_count e)" by (simp add: extent_blocks_def)
  have "unat (start_lba e - DATA_START_LBA) = unat (start_lba e) - 274"
    using assms by (subst unat_sub_no_wrap) (auto simp: extent_ok_def word_le_nat_alt)
  moreover have "unat (start_lba e) - 274 + i < 2 ^ 32" "i < 2 ^ 32" using assms ib by (auto simp: extent_ok_def)
  ultimately have "unat (start_lba e - DATA_START_LBA + of_nat i) = unat (start_lba e) - 274 + i"
    by (simp only: unat_word_ariths unat_of_nat) simp
  then show "extent_blocks e ! i = [unat (start_lba e) - 274..<unat (start_lba e) - 274 + unat (block_count e)] ! i"
    using ib by (simp add: extent_blocks_def)
qed (simp add: extent_blocks_def)

definition blocks_of :: "Extent list \<Rightarrow> nat list" where
  "blocks_of es = concat (map extent_blocks es)"

lemma mark_extents_fold: "mark_extents es bm = fold (\<lambda>b bm. bit_set bm b) (blocks_of es) bm"
  by (induction es arbitrary: bm) (simp_all add: mark_extents_def blocks_of_def)

lemma release_extents_fold: "release_extents es bm = fold (\<lambda>b bm. bit_clear bm b) (blocks_of es) bm"
  by (induction es arbitrary: bm) (simp_all add: release_extents_def blocks_of_def)

lemma test_mark [simp]: "bit_test (mark_extents es bm) b \<longleftrightarrow> b \<in> set (blocks_of es) \<or> bit_test bm b"
  unfolding mark_extents_fold by (rule fs_bits.tst_fold_sett)

lemma test_release [simp]: "bit_test (release_extents es bm) b \<longleftrightarrow> b \<notin> set (blocks_of es) \<and> bit_test bm b"
  unfolding release_extents_fold by (rule fs_bits.tst_fold_clr)

lemma extent_lbas_blocks:
  assumes "\<forall>e\<in>set es. extent_ok e"
  shows "map unat (extent_lbas es) = map (\<lambda>b. 274 + b) (blocks_of es)"
proof -
  have "map unat (map (\<lambda>i. start_lba e + of_nat i) [0..<unat (block_count e)]) = map (\<lambda>b. 274 + b) (extent_blocks e)"
    if "extent_ok e" for e
    unfolding extent_blocks_eq [OF that] using that
    by (intro nth_equalityI) (auto simp: extent_ok_def unat_word_ariths unat_of_nat)
  then show ?thesis using assms
    by (induction es) (simp_all add: extent_lbas_def blocks_of_def)
qed

lemma blocks_bound:
  assumes "\<forall>e\<in>set es. extent_ok e" "b \<in> set (blocks_of es)"
  shows "b < 32494"
proof -
  obtain e where "e \<in> set es" "b \<in> set (extent_blocks e)" using assms(2) by (auto simp: blocks_of_def)
  then show ?thesis using assms(1) extent_blocks_eq [of e] by (auto simp: extent_ok_def)
qed

section \<open>A single run\<close>

lemma find_run_Some:
  assumes "find_run bm needed [a..<m] rs rl = Some r" "rl < needed" "rl = 0 \<or> rs + rl = a" "\<forall>b\<in>{rs..<rs + rl}. \<not> bit_test bm b"
    "rs + rl \<le> a"
  shows "r + needed \<le> m \<and> (\<forall>b\<in>{r..<r + needed}. \<not> bit_test bm b)"
  using assms
proof (induction "m - a" arbitrary: a rs rl)
  case 0
  then show ?case by simp
next
  case (Suc d)
  then have am: "a < m" by simp
  then have u: "[a..<m] = a # [Suc a..<m]" by (simp add: upt_conv_Cons)
  show ?case
  proof (cases "bit_test bm a")
    case True
    then have "find_run bm needed [Suc a..<m] rs 0 = Some r" using Suc.prems(1) u by simp
    then show ?thesis using Suc.hyps(1) [of "Suc a" rs 0] Suc.hyps(2) Suc.prems by simp
  next
    case False
    let ?rs = "if rl = 0 then a else rs"
    have free: "\<forall>b\<in>{?rs..<?rs + (rl + 1)}. \<not> bit_test bm b"
    proof
      fix b assume "b \<in> {?rs..<?rs + (rl + 1)}"
      then have "b = a \<or> b \<in> {rs..<rs + rl}" using Suc.prems(3) by (auto split: if_splits)
      then show "\<not> bit_test bm b" using False Suc.prems(4) by blast
    qed
    show ?thesis
    proof (cases "rl + 1 = needed")
      case True
      then have "r = ?rs" using Suc.prems(1) False u by (auto split: if_splits)
      moreover have "?rs + needed = Suc a" using Suc.prems(3) True by auto
      ultimately show ?thesis using free True am by auto
    next
      case F: False
      then have "find_run bm needed [Suc a..<m] ?rs (rl + 1) = Some r" using Suc.prems(1) False u by (simp add: Let_def)
      then show ?thesis using Suc.hyps(1) [of "Suc a" ?rs "rl + 1"] Suc.hyps(2) Suc.prems F free am by (auto split: if_splits)
    qed
  qed
qed

lemma find_free_run_Some:
  assumes "find_free_run n bm = Some r" "0 < unat n"
  shows "r + unat n \<le> 32494" "\<forall>b\<in>{r..<r + unat n}. \<not> bit_test bm b"
proof -
  have "n \<noteq> 0" using assms(2) by auto
  then have "find_run bm (unat n) [0..<32494] 0 0 = Some r" using assms(1) by (simp add: find_free_run_def)
  then show "r + unat n \<le> 32494" "\<forall>b\<in>{r..<r + unat n}. \<not> bit_test bm b"
    using find_run_Some [of bm "unat n" 0 32494 0 0 r] assms(2) by auto
qed

lemma find_run_None:
  assumes "find_run bm needed [a..<m] rs rl = None" "rl < needed" "a \<le> r + rl" "r + needed \<le> m"
  shows "\<exists>b\<in>{r..<r + needed}. bit_test bm b"
  using assms
proof (induction "m - a" arbitrary: a rs rl)
  case 0
  then show ?case by simp
next
  case (Suc d)
  then have u: "[a..<m] = a # [Suc a..<m]" by (simp add: upt_conv_Cons)
  show ?case
  proof (cases "bit_test bm a")
    case busy: True
    show ?thesis
    proof (cases "a \<in> {r..<r + needed}")
      case False
      then have "Suc a \<le> r + 0" using Suc.prems(2,3) by auto
      then show ?thesis using Suc.hyps(1) [of "Suc a" rs 0] Suc.hyps(2) Suc.prems busy u by simp
    qed (use busy in blast)
  next
    case False
    then have "rl + 1 \<noteq> needed" "find_run bm needed [Suc a..<m] (if rl = 0 then a else rs) (rl + 1) = None"
      using Suc.prems(1) u by (auto simp: Let_def split: if_splits)
    then show ?thesis using Suc.hyps(1) [of "Suc a" _ "rl + 1"] Suc.hyps(2) Suc.prems(2-4) by auto
  qed
qed

lemma find_free_run_complete:
  assumes "r + unat n \<le> 32494" "\<forall>b\<in>{r..<r + unat n}. \<not> bit_test bm b"
  shows "find_free_run n bm \<noteq> None"
proof (cases "n = 0")
  case False
  then have "find_run bm (unat n) [0..<32494] 0 0 \<noteq> None"
    using find_run_None [of bm "unat n" 0 32494 0 0 r] assms by (auto simp: unat_gt_0)
  then show ?thesis using False by (simp add: find_free_run_def)
qed (simp add: find_free_run_def)
section \<open>Several runs\<close>

lemma run_length_spec:
  "\<forall>b\<in>{block..<block + (run_length_at bm block l rem - l)}. \<not> bit_test bm b \<and> b < 32494"
  "l \<le> rem \<Longrightarrow> run_length_at bm block l rem \<le> rem"
proof (induction bm block l rem rule: run_length_at.induct)
  case (1 bm block l rem)
  note grows = run_length_grows [of "l + 1" bm "block + 1" rem]
  { case 1
    then show ?case
    proof (cases "block < 32494 \<and> \<not> bit_test bm block \<and> l < rem")
      case True
      then have r: "run_length_at bm block l rem = run_length_at bm (block + 1) (l + 1) rem" by (subst run_length_at.simps) simp
      have ih: "\<forall>b\<in>{block + 1..<block + 1 + (run_length_at bm (block + 1) (l + 1) rem - (l + 1))}. \<not> bit_test bm b \<and> b < 32494"
        using "1.IH"(1) True by simp
      show ?thesis
      proof
        fix b assume "b \<in> {block..<block + (run_length_at bm block l rem - l)}"
        then have "b = block \<or> b \<in> {block + 1..<block + 1 + (run_length_at bm (block + 1) (l + 1) rem - (l + 1))}"
          using r grows by auto
        then show "\<not> bit_test bm b \<and> b < 32494" using True ih by blast
      qed
    next
      case False
      then have "run_length_at bm block l rem = l" by (subst run_length_at.simps) auto
      then show ?thesis by simp
    qed
  next
    case 2
    then show ?case using "1.IH"(2) by (subst run_length_at.simps) auto
  }
qed

definition free_extents :: "bytes \<Rightarrow> Extent list \<Rightarrow> bool" where
  "free_extents bm es \<longleftrightarrow> (\<forall>e\<in>set es. extent_ok e) \<and> distinct (blocks_of es) \<and> (\<forall>b\<in>set (blocks_of es). \<not> bit_test bm b) \<and>
     length es \<le> 4"

lemma new_extent:
  assumes "a + n \<le> 32494"
  defines "e \<equiv> \<lparr>start_lba = DATA_START_LBA + of_nat a, block_count = of_nat n\<rparr>"
  shows "extent_ok e" "extent_blocks e = [a..<a + n]"
proof -
  have u: "unat (start_lba e) = 274 + a" "unat (block_count e) = n"
    using assms(1) unfolding e_def by (simp_all add: unat_word_ariths unat_of_nat)
  show ok: "extent_ok e" using u assms(1) by (simp add: extent_ok_def)
  show "extent_blocks e = [a..<a + n]" unfolding extent_blocks_eq [OF ok] u by simp
qed

lemma find_extents_spec:
  assumes "find_extents_from bm block rem out = (rem', out')" "free_extents bm out" "\<forall>b\<in>set (blocks_of out). b < block"
  shows "free_extents bm out' \<and> length (blocks_of out') + rem' = length (blocks_of out) + rem"
  using assms
proof (induction bm block rem out rule: find_extents_from.induct)
  case (1 bm block rem out)
  show ?case
  proof (cases "block < 32494 \<and> 0 < rem \<and> length out < 4")
    case False
    then have "find_extents_from bm block rem out = (rem, out)" by (subst find_extents_from.simps) auto
    then show ?thesis using "1.prems" by simp
  next
    case c: True
    show ?thesis
    proof (cases "bit_test bm block")
      case True
      then have "find_extents_from bm (block + 1) rem out = (rem', out')"
        using c "1.prems"(1) by (subst (asm) find_extents_from.simps) simp
      moreover have "\<forall>b\<in>set (blocks_of out). b < block + 1" using "1.prems"(3) by auto
      ultimately show ?thesis using "1.IH"(1) c True "1.prems"(2) by auto
    next
      case False
      let ?n = "run_length_at bm block 0 rem"
      let ?e = "\<lparr>start_lba = DATA_START_LBA + of_nat block, block_count = of_nat ?n\<rparr>"
      have r: "find_extents_from bm (block + ?n) (rem - ?n) (out @ [?e]) = (rem', out')"
        using c False "1.prems"(1) by (subst (asm) find_extents_from.simps) (simp add: Let_def)
      have n: "0 < ?n" "?n \<le> rem" using run_length_positive [of block bm rem] c False run_length_spec(2) [of 0 rem bm block] by auto
      have fr: "\<forall>b\<in>{block..<block + ?n}. \<not> bit_test bm b \<and> b < 32494" using run_length_spec(1) [of block bm 0 rem] by simp
      moreover have "block + ?n - 1 \<in> {block..<block + ?n}" using n(1) by auto
      ultimately have "block + ?n - 1 < 32494" by blast
      then have b: "block + ?n \<le> 32494" using n(1) by linarith
      note e = new_extent [OF b]
      have bl: "blocks_of (out @ [?e]) = blocks_of out @ [block..<block + ?n]" using e(2) by (simp add: blocks_of_def)
      have "free_extents bm (out @ [?e])"
        unfolding free_extents_def bl using "1.prems"(2,3) e(1) fr c by (auto simp: free_extents_def)
      moreover have "\<forall>b\<in>set (blocks_of (out @ [?e])). b < block + ?n" unfolding bl using "1.prems"(3) by auto
      ultimately have "free_extents bm out' \<and> length (blocks_of out') + rem' = length (blocks_of (out @ [?e])) + (rem - ?n)"
        using "1.IH"(2) [OF _ _ refl r] c False by simp
      then show ?thesis using n(2) unfolding bl by simp
    qed
  qed
qed

lemma choose_extents_free:
  assumes "choose_extents n bm = es" "0 < unat n" "es \<noteq> []"
  shows "free_extents bm es" "length (blocks_of es) = unat n"
proof -
  have "free_extents bm es \<and> length (blocks_of es) = unat n"
  proof (cases "find_free_run n bm")
    case (Some r)
    note f = find_free_run_Some [OF Some assms(2)]
    note e = new_extent [OF f(1)]
    have es: "es = [\<lparr>start_lba = DATA_START_LBA + of_nat r, block_count = of_nat (unat n)\<rparr>]"
      using assms(1) Some by (simp add: choose_extents_def)
    have "blocks_of es = [r..<r + unat n]" unfolding es using e(2) by (simp add: blocks_of_def)
    then show ?thesis using e(1) f(2) es by (auto simp: free_extents_def)
  next
    case None
    obtain rem out where f: "find_extents_from bm 0 (unat n) [] = (rem, out)" by fastforce
    then have "es = out" "rem = 0" using assms(1,3) None by (auto simp: choose_extents_def find_free_extents_def split: if_splits)
    then show ?thesis using find_extents_spec [OF f] by (auto simp: free_extents_def blocks_of_def)
  qed
  then show "free_extents bm es" "length (blocks_of es) = unat n" by auto
qed

section \<open>Names\<close>

definition cname :: "u8 list \<Rightarrow> u8 list" where
  "cname a = takeWhile (\<lambda>c. c \<noteq> 0) a"

lemma name_equals_from_cname:
  assumes "i + n = 32" "length a = 32" "0 \<in> set (drop i a)" "0 \<notin> set b" "i \<le> length b"
  shows "name_equals_from n i a b \<longleftrightarrow> cname (drop i a) = drop i b"
  using assms
proof (induction n arbitrary: i)
  case 0
  then show ?case by simp
next
  case (Suc n)
  have i: "i < length a" using Suc.prems by simp
  then have d: "drop i a = a ! i # drop (Suc i) a" by (simp add: Cons_nth_drop_Suc)
  show ?case
  proof (cases "a ! i = 0")
    case True
    have "drop i b = [] \<longleftrightarrow> char_at b i = 0"
      using Suc.prems(4,5) by (auto simp: char_at_def) (metis nth_mem)
    then show ?thesis using True i d by (auto simp: char_at_def cname_def split: if_splits)
  next
    case False
    show ?thesis
    proof (cases "i < length b \<and> b ! i = a ! i")
      case True
      then have "drop i b = a ! i # drop (Suc i) b" using Cons_nth_drop_Suc [of i b] by simp
      moreover have "0 \<in> set (drop (Suc i) a)" using Suc.prems(3) d False by auto
      ultimately show ?thesis using Suc.IH [of "Suc i"] Suc.prems True False i d by (simp add: char_at_def cname_def)
    next
      case F: False
      then have "char_at b i \<noteq> a ! i" using False by (auto simp: char_at_def)
      moreover have "cname (drop i a) \<noteq> drop i b"
      proof
        assume "cname (drop i a) = drop i b"
        then have "drop i b = a ! i # takeWhile (\<lambda>c. c \<noteq> 0) (drop (Suc i) a)" using d False by (simp add: cname_def)
        then show False using F by (metis drop_eq_Nil list.discI not_less nth_Cons_0 nth_via_drop)
      qed
      ultimately show ?thesis using i by (simp add: char_at_def)
    qed
  qed
qed

lemma name_equals_cname:
  assumes "length a = 32" "0 \<in> set a" "0 \<notin> set b"
  shows "name_equals a b \<longleftrightarrow> cname a = b"
  using name_equals_from_cname [of 0 32 a b] assms by (simp add: name_equals_def)

lemma copy_name_cname:
  assumes "length dest = 32" "0 \<notin> set src" "length src < 32"
  shows "cname (copy_name dest src) = src" "length (copy_name dest src) = 32" "0 \<in> set (copy_name dest src)"
proof -
  have t: "takeWhile (\<lambda>c. c \<noteq> 0) src = src" using assms(2) by (auto simp: takeWhile_eq_all_conv)
  have "take 31 src = src" using assms(3) by simp
  then have c: "copy_name dest src = src @ 0 # drop (Suc (length src)) dest" by (simp add: copy_name_def Let_def t del: takeWhile_eq_all_conv)
  show "cname (copy_name dest src) = src" unfolding c cname_def using assms(2) by (subst takeWhile_append2) auto
  show "length (copy_name dest src) = 32" "0 \<in> set (copy_name dest src)" unfolding c using assms by auto
qed

end
