(* ===== verification/Fs_Inv.thy ===== *)
theory Fs_Inv
  imports Fs_Alloc
begin

text \<open>
  The invariant of VenomFS and the files a table and a disk stand for. The entries in use have different
  names, their extents lie in the data area, hold as many blocks as the size says, and share no block; the
  bitmap marks exactly these blocks. Freeing an entry and filling an unused one keep the invariant and
  delete or add one file.
\<close>

section \<open>The invariant\<close>

definition entry_typed :: "FileEntry \<Rightarrow> bool" where
  "entry_typed e \<longleftrightarrow> length (fe_name e) = 32 \<and> length (fe_reserved e) = 2 \<and> length (extents e) = 4"

definition table_typed :: "FileEntry list \<Rightarrow> bool" where
  "table_typed ft \<longleftrightarrow> length ft = 64 \<and> (\<forall>e\<in>set ft. entry_typed e)"

definition blocks_for :: "nat \<Rightarrow> nat" where
  "blocks_for n = (n + 511) div 512"

definition file_ok :: "FileEntry \<Rightarrow> bool" where
  "file_ok e \<longleftrightarrow> 0 \<in> set (fe_name e) \<and> unat (extent_count e) \<le> 4 \<and> (\<forall>x\<in>set (entry_extents e). extent_ok x) \<and>
     distinct (blocks_of (entry_extents e)) \<and> length (blocks_of (entry_extents e)) = blocks_for (unat (size_bytes e))"

definition file_blocks :: "FileEntry \<Rightarrow> nat set" where
  "file_blocks e = (if used e = 0 then {} else set (blocks_of (entry_extents e)))"

definition entries_apart :: "FileEntry \<Rightarrow> FileEntry \<Rightarrow> bool" where
  "entries_apart d e \<longleftrightarrow> (used d \<noteq> 0 \<longrightarrow> used e \<noteq> 0 \<longrightarrow> cname (fe_name d) \<noteq> cname (fe_name e)) \<and> file_blocks d \<inter> file_blocks e = {}"

definition table_ok :: "FileEntry list \<Rightarrow> bool" where
  "table_ok ft \<longleftrightarrow> table_typed ft \<and> (\<forall>i<64. used (ft ! i) \<noteq> 0 \<longrightarrow> file_ok (ft ! i)) \<and>
     (\<forall>i<64. \<forall>j<64. i \<noteq> j \<longrightarrow> entries_apart (ft ! i) (ft ! j))"

definition fs_inv :: "'s fs_state \<Rightarrow> bool" where
  "fs_inv s \<longleftrightarrow> table_ok (file_table s) \<and>
     (\<forall>b<32494. bit_test (fs_bitmap s) b \<longleftrightarrow> (\<exists>i<64. b \<in> file_blocks (file_table s ! i)))"

section \<open>The files\<close>

definition file_data :: "(nat \<Rightarrow> u8 list) \<Rightarrow> FileEntry \<Rightarrow> u8 list" where
  "file_data c e = take (unat (size_bytes e)) (concat (map (\<lambda>b. c (274 + b)) (blocks_of (entry_extents e))))"

definition fs_files :: "(nat \<Rightarrow> u8 list) \<Rightarrow> 's fs_state \<Rightarrow> u8 list \<Rightarrow> u8 list option" where
  "fs_files c s name = map_option (\<lambda>i. file_data c (file_table s ! i)) (if 0 \<in> set name then None else find_file name s)"

lemma table_okD:
  assumes "table_ok ft" "i < 64"
  shows "length ft = 64" "entry_typed (ft ! i)" "used (ft ! i) \<noteq> 0 \<Longrightarrow> file_ok (ft ! i)"
    "j < 64 \<Longrightarrow> i \<noteq> j \<Longrightarrow> entries_apart (ft ! i) (ft ! j)"
  using assms by (auto simp: table_ok_def table_typed_def)

lemma entries_apart_sym: "entries_apart d e \<Longrightarrow> entries_apart e d"
  by (auto simp: entries_apart_def)

lemma file_blocks_bound:
  assumes "table_ok ft" "i < 64" "b \<in> file_blocks (ft ! i)"
  shows "b < 32494" "used (ft ! i) \<noteq> 0"
proof -
  show u: "used (ft ! i) \<noteq> 0" using assms(3) by (auto simp: file_blocks_def)
  show "b < 32494" using table_okD(3) [OF assms(1,2) u] assms(3) u by (intro blocks_bound [of "entry_extents (ft ! i)"]) (auto simp: file_ok_def file_blocks_def)
qed

lemma find_upt: "List.find P [0..<n] = Some i \<longleftrightarrow> i < n \<and> P i \<and> (\<forall>j<i. \<not> P j)"
proof -
  have "List.find P [0..<n] = Some i \<longleftrightarrow> (\<exists>k<n. P k \<and> i = k \<and> (\<forall>j<k. \<not> P j))"
    unfolding find_Some_iff by (intro ex_cong1) (auto simp: less_trans)
  then show ?thesis by auto
qed

lemma find_file_iff:
  assumes "table_ok (file_table s)" "0 \<notin> set name"
  shows "find_file name s = Some i \<longleftrightarrow> i < 64 \<and> used (file_table s ! i) \<noteq> 0 \<and> cname (fe_name (file_table s ! i)) = name"
proof -
  let ?ft = "file_table s"
  let ?P = "\<lambda>i. used (?ft ! i) \<noteq> 0 \<and> name_equals (fe_name (?ft ! i)) name"
  have eq: "?P j \<longleftrightarrow> used (?ft ! j) \<noteq> 0 \<and> cname (fe_name (?ft ! j)) = name" if "j < 64" for j
    using name_equals_cname [of "fe_name (?ft ! j)" name] table_okD(2,3) [OF assms(1) that] assms(2)
    by (auto simp: entry_typed_def file_ok_def)
  have "find_file name s = Some i \<longleftrightarrow> i < 64 \<and> ?P i \<and> (\<forall>j<i. \<not> ?P j)" unfolding find_file_def find_upt by simp
  moreover have "\<not> ?P j" if "j < i" "i < 64" "?P i" for j
    using table_okD(4) [OF assms(1), of j i] eq [of i] eq [of j] that by (auto simp: entries_apart_def)
  ultimately have "find_file name s = Some i \<longleftrightarrow> i < 64 \<and> ?P i" by blast
  then show ?thesis using eq [of i] by blast
qed

lemma fs_files_iff:
  assumes "table_ok (file_table s)" "0 \<notin> set name"
  shows "fs_files c s name = Some data \<longleftrightarrow>
    (\<exists>i<64. used (file_table s ! i) \<noteq> 0 \<and> cname (fe_name (file_table s ! i)) = name \<and> data = file_data c (file_table s ! i))"
  using find_file_iff [OF assms] assms(2) by (auto simp: fs_files_def)

lemma fs_files_zero: "0 \<in> set name \<Longrightarrow> fs_files c s name = None"
  by (simp add: fs_files_def)

lemma cname_no_zero: "0 \<notin> set (cname n)"
  by (auto simp: cname_def dest: set_takeWhileD)

lemma fs_files_eqI:
  assumes "\<And>name data. 0 \<notin> set name \<Longrightarrow> fs_files c s name = Some data \<longleftrightarrow> m name = Some data" "\<And>name. 0 \<in> set name \<Longrightarrow> m name = None"
  shows "fs_files c s = m"
proof
  fix name
  show "fs_files c s name = m name"
    using assms(1) [of name] assms(2) [of name] fs_files_zero [of name c s]
    by (cases "0 \<in> set name") (auto intro: option.expand simp: option.expand, metis not_None_eq)
qed

section \<open>Changing one entry\<close>

lemma table_ok_update:
  assumes "table_ok ft" "i < 64" "entry_typed e" "used e \<noteq> 0 \<longrightarrow> file_ok e" "\<And>j. j < 64 \<Longrightarrow> j \<noteq> i \<Longrightarrow> entries_apart e (ft ! j)"
  shows "table_ok (ft[i := e])"
proof -
  have l: "length ft = 64" using table_okD(1) [OF assms(1,2)] .
  have "set (ft[i := e]) \<subseteq> insert e (set ft)" by (rule set_update_subset_insert)
  then have "table_typed (ft[i := e])" using assms(1,3) l by (auto simp: table_ok_def table_typed_def)
  moreover have "used (ft[i := e] ! k) \<noteq> 0 \<longrightarrow> file_ok (ft[i := e] ! k)" if "k < 64" for k
    using assms(4) table_okD(3) [OF assms(1) that] that l by (cases "k = i") auto
  moreover have "entries_apart (ft[i := e] ! k) (ft[i := e] ! j)" if "k < 64" "j < 64" "k \<noteq> j" for k j
    using assms(5) [of j] entries_apart_sym [OF assms(5) [of k]] table_okD(4) [OF assms(1) that] that l
    by (cases "k = i"; cases "j = i") auto
  ultimately show ?thesis by (auto simp: table_ok_def)
qed

lemma cleared_entry_typed: "entry_typed e \<Longrightarrow> entry_typed (cleared_entry e)" "used (cleared_entry e) = 0" "file_blocks (cleared_entry e) = {}"
  by (auto simp: entry_typed_def cleared_entry_def file_blocks_def)

lemma cleared_apart: "used e = 0 \<Longrightarrow> entries_apart e d"
  by (simp add: entries_apart_def file_blocks_def)

lemma table_ok_clear: "table_ok ft \<Longrightarrow> i < 64 \<Longrightarrow> table_ok (ft[i := cleared_entry (ft ! i)])"
  using table_okD [of ft i] by (intro table_ok_update) (auto simp: cleared_entry_typed cleared_apart)

lemma free_entry_inv:
  assumes "fs_inv s" "i < 64" "used (file_table s ! i) \<noteq> 0"
  shows "fs_inv (free_entry i s)"
proof -
  let ?ft = "file_table s"
  have ok: "table_ok ?ft" using assms(1) by (simp add: fs_inv_def)
  have l: "length ?ft = 64" using table_okD(1) [OF ok assms(2)] .
  have fb: "set (blocks_of (entry_extents (?ft ! i))) = file_blocks (?ft ! i)" using assms(3) by (simp add: file_blocks_def)
  have "bit_test (fs_bitmap (free_entry i s)) b \<longleftrightarrow> (\<exists>j<64. b \<in> file_blocks (?ft[i := cleared_entry (?ft ! i)] ! j))" if "b < 32494" for b
  proof -
    have "bit_test (fs_bitmap (free_entry i s)) b \<longleftrightarrow> b \<notin> file_blocks (?ft ! i) \<and> (\<exists>j<64. b \<in> file_blocks (?ft ! j))"
      using assms(1) that fb by (simp add: free_entry_def fs_inv_def)
    also have "\<dots> \<longleftrightarrow> (\<exists>j<64. j \<noteq> i \<and> b \<in> file_blocks (?ft ! j))"
      using table_okD(4) [OF ok assms(2)] by (auto simp: entries_apart_def)
    also have "\<dots> \<longleftrightarrow> (\<exists>j<64. b \<in> file_blocks (?ft[i := cleared_entry (?ft ! i)] ! j))"
      using l assms(2) by (intro ex_cong1) (auto simp: nth_list_update cleared_entry_typed)
    finally show ?thesis .
  qed
  then show ?thesis using table_ok_clear [OF ok assms(2)] by (simp add: fs_inv_def free_entry_def)
qed

lemma clear_files:
  assumes "table_ok (file_table s)" "i < 64" "used (file_table s ! i) \<noteq> 0" "file_table s' = (file_table s)[i := cleared_entry (file_table s ! i)]"
  shows "fs_files c s' = (fs_files c s)(cname (fe_name (file_table s ! i)) := None)"
proof (rule fs_files_eqI)
  let ?ft = "file_table s" and ?n = "cname (fe_name (file_table s ! i))"
  have ok': "table_ok (file_table s')" unfolding assms(4) by (rule table_ok_clear [OF assms(1,2)])
  have l: "length ?ft = 64" using table_okD(1) [OF assms(1,2)] .
  show "fs_files c s' name = Some data \<longleftrightarrow> ((fs_files c s)(?n := None)) name = Some data" if "0 \<notin> set name" for name data
  proof -
    have "fs_files c s' name = Some data \<longleftrightarrow>
        (\<exists>j<64. j \<noteq> i \<and> used (?ft ! j) \<noteq> 0 \<and> cname (fe_name (?ft ! j)) = name \<and> data = file_data c (?ft ! j))"
      unfolding fs_files_iff [OF ok' that] unfolding assms(4) using l assms(2)
      by (intro ex_cong1) (auto simp: nth_list_update cleared_entry_typed)
    also have "\<dots> \<longleftrightarrow> ((fs_files c s)(?n := None)) name = Some data"
    proof (cases "name = ?n")
      case True
      have "\<not> (j < 64 \<and> j \<noteq> i \<and> used (?ft ! j) \<noteq> 0 \<and> cname (fe_name (?ft ! j)) = name)" for j
        using table_okD(4) [OF assms(1,2), of j] assms(3) True by (auto simp: entries_apart_def)
      then show ?thesis using True by auto
    next
      case False
      then show ?thesis unfolding fun_upd_other [OF False] fs_files_iff [OF assms(1) that] by auto
    qed
    finally show ?thesis .
  qed
  show "((fs_files c s)(?n := None)) name = None" if "0 \<in> set name" for name using that by (simp add: fs_files_zero)
qed

definition filled_entry :: "u8 list \<Rightarrow> nat \<Rightarrow> Extent list \<Rightarrow> FileEntry \<Rightarrow> FileEntry" where
  "filled_entry name n es e = e\<lparr>fe_name := copy_name (fe_name e) name, size_bytes := of_nat n,
     extent_count := of_nat (length es), extents := es @ replicate (MAX_EXTENTS - length es) no_extent, used := 1\<rparr>"

lemma filled_entry_facts:
  assumes "entry_typed e" "0 \<notin> set name" "length name < 32" "length es \<le> 4" "n < 2 ^ 32"
  shows "entry_typed (filled_entry name n es e)" "cname (fe_name (filled_entry name n es e)) = name"
    "entry_extents (filled_entry name n es e) = es" "unat (size_bytes (filled_entry name n es e)) = n"
    "used (filled_entry name n es e) \<noteq> 0" "0 \<in> set (fe_name (filled_entry name n es e))"
    "unat (extent_count (filled_entry name n es e)) \<le> 4"
proof -
  have c: "length (fe_name e) = 32" using assms(1) by (simp add: entry_typed_def)
  note n = copy_name_cname [OF c assms(2,3)]
  have u: "unat (of_nat (length es) :: u8) = length es" using assms(4) by (simp add: unat_of_nat)
  show "entry_typed (filled_entry name n es e)" using assms(1,4) n by (simp add: entry_typed_def filled_entry_def)
  show "cname (fe_name (filled_entry name n es e)) = name" "0 \<in> set (fe_name (filled_entry name n es e))"
    using n by (simp_all add: filled_entry_def)
  show "entry_extents (filled_entry name n es e) = es" "unat (extent_count (filled_entry name n es e)) \<le> 4"
    using u assms(4) by (simp_all add: filled_entry_def entry_extents_def)
  show "unat (size_bytes (filled_entry name n es e)) = n" using assms(5) by (simp add: filled_entry_def unat_of_nat)
  show "used (filled_entry name n es e) \<noteq> 0" by (simp add: filled_entry_def)
qed

lemma put_inv:
  assumes inv: "fs_inv s" and slot: "slot < 64" "used (file_table s ! slot) = 0"
    and new: "\<And>j. j < 64 \<Longrightarrow> used (file_table s ! j) \<noteq> 0 \<Longrightarrow> cname (fe_name (file_table s ! j)) \<noteq> name"
    and fe: "free_extents (fs_bitmap s) es" "length (blocks_of es) = blocks_for n"
    and name: "0 \<notin> set name" "length name < 32" "n < 2 ^ 32"
    and s': "file_table s' = (file_table s)[slot := filled_entry name n es (file_table s ! slot)]" "fs_bitmap s' = mark_extents es (fs_bitmap s)"
  shows "fs_inv s'"
proof -
  let ?ft = "file_table s" and ?e = "filled_entry name n es (file_table s ! slot)"
  have ok: "table_ok ?ft" using inv by (simp add: fs_inv_def)
  have es: "length es \<le> 4" using fe(1) by (simp add: free_extents_def)
  note e = filled_entry_facts [OF table_okD(2) [OF ok slot(1)] name(1,2) es name(3)]
  have fb: "file_blocks ?e = set (blocks_of es)" using e(3,5) by (simp add: file_blocks_def)
  have "\<not> bit_test (fs_bitmap s) b" "b < 32494" if "b \<in> set (blocks_of es)" for b
    using fe(1) that blocks_bound [of es b] by (auto simp: free_extents_def)
  then have "set (blocks_of es) \<inter> file_blocks (?ft ! j) = {}" if "j < 64" for j
    using inv that unfolding fs_inv_def by blast
  then have "entries_apart ?e (?ft ! j)" if "j < 64" for j using new [of j] that e(2) fb by (auto simp: entries_apart_def)
  moreover have "file_ok ?e" using e fe by (simp add: file_ok_def free_extents_def)
  ultimately have "table_ok (file_table s')" unfolding s'(1) using table_ok_update [OF ok slot(1) e(1)] by blast
  moreover have "bit_test (fs_bitmap s') b \<longleftrightarrow> (\<exists>j<64. b \<in> file_blocks (file_table s' ! j))" if "b < 32494" for b
  proof -
    have "bit_test (fs_bitmap s') b \<longleftrightarrow> b \<in> file_blocks ?e \<or> (\<exists>j<64. b \<in> file_blocks (?ft ! j))"
      using inv that by (simp add: s'(2) fs_inv_def fb)
    also have "\<dots> \<longleftrightarrow> b \<in> file_blocks ?e \<or> (\<exists>j<64. j \<noteq> slot \<and> b \<in> file_blocks (?ft ! j))"
      using slot(2) by (metis equals0D file_blocks_def)
    also have "\<dots> \<longleftrightarrow> (\<exists>j<64. b \<in> file_blocks (file_table s' ! j))"
      unfolding s'(1) using slot(1) table_okD(1) [OF ok slot(1)] by (metis nth_list_update_eq nth_list_update_neq)
    finally show ?thesis .
  qed
  ultimately show ?thesis by (simp add: fs_inv_def)
qed

lemma put_files:
  assumes ok: "table_ok (file_table s)" "table_ok (file_table s')" and slot: "slot < 64" "used (file_table s ! slot) = 0"
    and es: "length es \<le> 4" and name: "0 \<notin> set name" "length name < 32" "n < 2 ^ 32"
    and s': "file_table s' = (file_table s)[slot := filled_entry name n es (file_table s ! slot)]"
  shows "fs_files c s' = (fs_files c s)(name \<mapsto> take n (concat (map (\<lambda>b. c (274 + b)) (blocks_of es))))"
proof (rule fs_files_eqI)
  let ?ft = "file_table s" and ?e = "filled_entry name n es (file_table s ! slot)"
  let ?d = "take n (concat (map (\<lambda>b. c (274 + b)) (blocks_of es)))"
  note e = filled_entry_facts [OF table_okD(2) [OF ok(1) slot(1)] name(1,2) es name(3)]
  have at: "file_table s' ! slot = ?e" "\<And>j. j \<noteq> slot \<Longrightarrow> file_table s' ! j = ?ft ! j"
    unfolding s' using slot(1) table_okD(1) [OF ok(1) slot(1)] by auto
  have fd: "file_data c ?e = ?d" using e by (simp add: file_data_def)
  show "fs_files c s' m = Some data \<longleftrightarrow> ((fs_files c s)(name \<mapsto> ?d)) m = Some data" if "0 \<notin> set m" for m data
  proof (cases "m = name")
    case True
    have "fs_files c s' name = Some ?d" unfolding fs_files_iff [OF ok(2) name(1)] using at(1) e fd slot(1) by auto
    then show ?thesis using True by auto
  next
    case False
    have "used (file_table s' ! j) \<noteq> 0 \<and> cname (fe_name (file_table s' ! j)) = m \<and> data = file_data c (file_table s' ! j) \<longleftrightarrow>
        used (?ft ! j) \<noteq> 0 \<and> cname (fe_name (?ft ! j)) = m \<and> data = file_data c (?ft ! j)" for j
      using at e(2) slot(2) False by (cases "j = slot") auto
    then show ?thesis unfolding fun_upd_other [OF False] fs_files_iff [OF ok(1) that] fs_files_iff [OF ok(2) that] by simp
  qed
  show "((fs_files c s)(name \<mapsto> ?d)) m = None" if "0 \<in> set m" for m using that name(1) by (auto simp: fs_files_zero)
qed

lemma fs_files_cong:
  assumes "table_ok (file_table s)" "file_table s' = file_table s" "\<And>i b. i < 64 \<Longrightarrow> b \<in> file_blocks (file_table s ! i) \<Longrightarrow> c' (274 + b) = c (274 + b)"
  shows "fs_files c' s' = fs_files c s"
proof (rule fs_files_eqI)
  fix name data assume n: "(0 :: u8) \<notin> set name"
  have ok: "table_ok (file_table s')" using assms(1,2) by simp
  have fd: "file_data c' (file_table s ! i) = file_data c (file_table s ! i)" if "i < 64" "used (file_table s ! i) \<noteq> 0" for i
  proof -
    have "map (\<lambda>b. c' (274 + b)) (blocks_of (entry_extents (file_table s ! i))) = map (\<lambda>b. c (274 + b)) (blocks_of (entry_extents (file_table s ! i)))"
      using assms(3) [OF that(1)] that(2) by (auto simp: file_blocks_def)
    then show ?thesis unfolding file_data_def by metis
  qed
  show "fs_files c' s' name = Some data \<longleftrightarrow> fs_files c s name = Some data"
    unfolding fs_files_iff [OF ok n] fs_files_iff [OF assms(1) n] unfolding assms(2) using fd by auto
qed (simp add: fs_files_zero)

end
