(* ===== verification/Fs_Disk.thy ===== *)
theory Fs_Disk
  imports Fs_Inv
begin

text \<open>
  VenomFS on a block device: the table survives being written as bytes and read back, writing the blocks
  of a file and reading them are inverse, and saving table and bitmap does not touch the data area.
\<close>

section \<open>The table as bytes\<close>

lemma le32_join:
  "ucast (ucast w :: u8) OR push_bit 8 (ucast (ucast (drop_bit 8 w) :: u8)) OR push_bit 16 (ucast (ucast (drop_bit 16 w) :: u8)) OR
     push_bit 24 (ucast (ucast (drop_bit 24 w) :: u8)) = (w :: u32)"
proof (rule bit_word_eqI)
  fix n assume "n < LENGTH(32)"
  then consider "n < 8" | "8 \<le> n" "n < 16" | "16 \<le> n" "n < 24" | "24 \<le> n" "n < 32" by force
  then show "bit (ucast (ucast w :: u8) OR push_bit 8 (ucast (ucast (drop_bit 8 w) :: u8)) OR
      push_bit 16 (ucast (ucast (drop_bit 16 w) :: u8)) OR push_bit 24 (ucast (ucast (drop_bit 24 w) :: u8)) :: u32) n = bit w n"
    by cases (auto simp: bit_simps)
qed

lemma le32_length [simp]: "length (le32 w) = 4"
  by (simp add: le32_def)

lemma get32_le32 [simp]: "get32 0 (le32 w @ bs) = w" "get32 0 (le32 w) = w"
  unfolding get32_def le32_def using le32_join [of w] by (simp_all add: numeral_eq_Suc)

lemma get32_skip: "length xs \<le> k \<Longrightarrow> get32 k (xs @ bs) = get32 (k - length xs) bs"
  by (simp add: get32_def nth_append Suc_diff_le)

lemma get32_Cons: "0 < k \<Longrightarrow> get32 k (x # bs) = get32 (k - 1) bs"
  using get32_skip [of "[x]" k bs] by simp

lemma entry_bytes_length: "entry_typed e \<Longrightarrow> length (entry_bytes e) = 72"
proof -
  assume "entry_typed e"
  moreover from this obtain a b c d where "extents e = [a, b, c, d]"
    by (auto simp: entry_typed_def length_Suc_conv numeral_eq_Suc)
  ultimately show ?thesis by (simp add: entry_typed_def entry_bytes_def extent_bytes_def)
qed

lemma entry_round_trip:
  assumes "entry_typed e"
  shows "entry_of_bytes (entry_bytes e) = e"
proof -
  obtain a b c d where x: "extents e = [a, b, c, d]" using assms by (auto simp: entry_typed_def length_Suc_conv numeral_eq_Suc)
  obtain r q where r: "fe_reserved e = [r, q]" using assms by (auto simp: entry_typed_def length_Suc_conv numeral_eq_Suc)
  have l: "length (fe_name e) = 32" using assms by (simp add: entry_typed_def)
  have up: "[0..<4] = [0, 1, 2, 3 :: nat]" by (simp add: upt_rec)
  have b: "entry_bytes e = fe_name e @ le32 (size_bytes e) @ [extent_count e, used e, r, q] @ le32 (start_lba a) @ le32 (block_count a) @
      le32 (start_lba b) @ le32 (block_count b) @ le32 (start_lba c) @ le32 (block_count c) @ le32 (start_lba d) @ le32 (block_count d) @ []"
    by (simp add: entry_bytes_def x r extent_bytes_def)
  have "get32 32 (entry_bytes e) = size_bytes e" unfolding b by (simp add: get32_skip l)
  moreover have "entry_bytes e ! 36 = extent_count e" "entry_bytes e ! 37 = used e" "take 2 (drop 38 (entry_bytes e)) = [r, q]"
    "take 32 (entry_bytes e) = fe_name e"
    unfolding b by (simp_all add: nth_append l)
  moreover have "map (\<lambda>i. \<lparr>start_lba = get32 (40 + 8 * i) (entry_bytes e), block_count = get32 (44 + 8 * i) (entry_bytes e)\<rparr>) [0..<4] = extents e"
    unfolding up x b by (simp add: get32_skip get32_Cons l)
  ultimately show ?thesis using x r by (simp add: entry_of_bytes_def)
qed

lemma concat_slice:
  assumes "\<forall>x\<in>set xs. length (f x) = m" "i < length xs"
  shows "take m (drop (m * i) (concat (map f xs) @ ys)) = f (xs ! i)"
  using assms
proof (induction xs arbitrary: i)
  case (Cons x xs)
  then show ?case by (cases i) auto
qed simp

lemma table_bytes_length: "table_typed ft \<Longrightarrow> length (table_bytes ft) = 4608"
proof -
  assume t: "table_typed ft"
  then have "map length (map entry_bytes ft) = map (\<lambda>_. 72) ft" by (auto simp: table_typed_def entry_bytes_length)
  then have "length (table_bytes ft) = sum_list (map (\<lambda>_. 72) ft)" unfolding table_bytes_def length_concat by metis
  then show ?thesis using t by (simp add: table_typed_def sum_list_triv)
qed

lemma table_round_trip:
  assumes "table_typed ft"
  shows "table_of_bytes (table_bytes ft @ ys) = ft"
proof (rule nth_equalityI)
  show "length (table_of_bytes (table_bytes ft @ ys)) = length ft" using assms by (simp add: table_of_bytes_def table_typed_def)
  fix i assume "i < length (table_of_bytes (table_bytes ft @ ys))"
  then have i: "i < 64" "length ft = 64" using assms by (simp_all add: table_of_bytes_def table_typed_def)
  then have "take 72 (drop (72 * i) (table_bytes ft @ ys)) = entry_bytes (ft ! i)"
    unfolding table_bytes_def using assms by (intro concat_slice) (auto simp: table_typed_def entry_bytes_length)
  moreover have "entry_of_bytes (entry_bytes (ft ! i)) = ft ! i" using assms i by (intro entry_round_trip) (auto simp: table_typed_def)
  ultimately show "table_of_bytes (table_bytes ft @ ys) ! i = ft ! i" using i(1) unfolding table_of_bytes_def by simp
qed

lemma table_of_bytes_typed: "length bs \<ge> 4608 \<Longrightarrow> table_typed (table_of_bytes bs)"
  by (auto simp: table_of_bytes_def table_typed_def entry_of_bytes_def entry_typed_def)

section \<open>Transfers\<close>

definition table_on_disk :: "(nat \<Rightarrow> u8 list) \<Rightarrow> FileEntry list \<Rightarrow> bool" where
  "table_on_disk c ft \<longleftrightarrow> concat (map c [257..<266]) = table_bytes ft"

lemma pad_step:
  fixes data :: "u8 list"
  assumes "length data \<le> 512 + m"
  shows "(if length data \<ge> 512 then take 512 data else data @ replicate (512 - length data) 0) @
    drop 512 data @ replicate (m - length (drop 512 data)) 0 = data @ replicate (512 + m - length data) 0"
proof (cases "length data \<ge> 512")
  case True
  have "take 512 data @ drop 512 data @ ys = data @ ys" for ys by (metis append.assoc append_take_drop_id)
  moreover have "m - length (drop 512 data) = 512 + m - length data" using True by simp
  ultimately show ?thesis using True by (simp only: if_True)
next
  case False
  then have "512 + m - length data = (512 - length data) + m" by simp
  then have "replicate (512 + m - length data) (0 :: u8) = replicate (512 - length data) 0 @ replicate m 0" by (metis replicate_add)
  then show ?thesis using False by simp
qed

lemmas write_blocks_Cons = write_blocks.simps(2) [unfolded fs_sizes]
lemmas read_blocks_Cons = read_blocks.simps(2) [unfolded fs_sizes]

context block_device
begin

lemma write_blocks_spec:
  assumes "ok d" "distinct (map unat lbas)" "\<forall>l\<in>set lbas. unat l < 268435456" "length data \<le> 512 * length lbas"
    "write_blocks wr lbas data d = (b, d')"
  shows "ok d' \<and> (\<forall>k. k \<notin> unat ` set lbas \<longrightarrow> content d' k = content d k) \<and>
    (b \<longrightarrow> concat (map (\<lambda>l. content d' (unat l)) lbas) = data @ replicate (512 * length lbas - length data) 0) \<and>
    (works d \<longrightarrow> b \<and> works d')"
  using assms
proof (induction lbas arbitrary: data d)
  case (Cons l lbas)
  let ?sec = "if length data \<ge> 512 then take 512 data else data @ replicate (512 - length data) 0"
  obtain b1 d1 where w: "wr l 1 ?sec d = (b1, d1)" by fastforce
  have l: "unat l < 268435456" "length ?sec = 512" using Cons.prems(3) by auto
  note w1 = wr_one [OF Cons.prems(1) l w]
  show ?case
  proof (cases b1)
    case False
    then have "d' = d1" "\<not> b" using Cons.prems(5) w unfolding write_blocks_Cons by simp_all
    then show ?thesis using w1 False by auto
  next
    case True
    then have r: "write_blocks wr lbas (drop 512 data) d1 = (b, d')" using Cons.prems(5) w unfolding write_blocks_Cons by simp
    have "ok d' \<and> (\<forall>k. k \<notin> unat ` set lbas \<longrightarrow> content d' k = content d1 k) \<and>
        (b \<longrightarrow> concat (map (\<lambda>l. content d' (unat l)) lbas) = drop 512 data @ replicate (512 * length lbas - length (drop 512 data)) 0) \<and>
        (works d1 \<longrightarrow> b \<and> works d')"
      using Cons.prems by (intro Cons.IH [OF w1(1) _ _ _ r]) auto
    moreover from this have "content d' (unat l) = ?sec" using Cons.prems(2) w1(3) [OF True] by auto
    moreover have "length data \<le> 512 + 512 * length lbas" using Cons.prems(4) by simp
    ultimately show ?thesis using w1(2,4) pad_step [of data "512 * length lbas"] by auto
  qed
qed simp

lemma read_blocks_spec:
  assumes "ok d" "\<forall>l\<in>set lbas. unat l < 268435456" "n \<le> 512 * length lbas" "read_blocks rd lbas n d = (b, bs, d')"
  shows "ok d' \<and> content d' = content d \<and> (b \<longrightarrow> bs = take n (concat (map (\<lambda>l. content d (unat l)) lbas))) \<and> (works d \<longrightarrow> b \<and> works d')"
  using assms
proof (induction lbas arbitrary: n d bs)
  case (Cons l lbas)
  show ?case
  proof (cases "n = 0")
    case False
    obtain b1 sb d1 where r: "rd l 1 d = (b1, sb, d1)" by (cases "rd l 1 d") auto
    have l: "unat l < 268435456" using Cons.prems(2) by simp
    note r1 = rd_one [OF Cons.prems(1) l r]
    show ?thesis
    proof (cases b1)
      case F: False
      then show ?thesis using Cons.prems(4) r r1 False by auto
    next
      case True
      obtain b2 bs2 d2 where r2: "read_blocks rd lbas (n - min n 512) d1 = (b2, bs2, d2)"
        by (cases "read_blocks rd lbas (n - min n 512) d1") auto
      have m: "(if n < 512 then n else 512) = min n 512" by simp
      have e: "b = b2" "d' = d2" "bs = take (min n 512) sb @ bs2"
        using Cons.prems(4) r r2 True False unfolding read_blocks_Cons m by (simp_all add: Let_def)
      have ih: "ok d' \<and> content d' = content d1 \<and> (b \<longrightarrow> bs2 = take (n - min n 512) (concat (map (\<lambda>l. content d1 (unat l)) lbas))) \<and>
          (works d1 \<longrightarrow> b \<and> works d')"
        using Cons.prems(2,3) by (intro Cons.IH [OF r1(1) _ _ r2 [folded e(1,2)], folded e(1,2)]) auto
      have "length sb = 512" "sb = content d (unat l)" using r1(3) [OF True] content_length [OF Cons.prems(1)] by auto
      then show ?thesis using ih e r1 by (auto simp: min_def)
    qed
  qed (use Cons.prems in simp)
qed simp

lemma save_file_table_spec:
  assumes "ok (disk s)" "table_typed (file_table s)" "save_file_table wr s = (b, s')"
  shows "file_table s' = file_table s" "fs_bitmap s' = fs_bitmap s" "ok (disk s')"
    "k < 257 \<or> 266 \<le> k \<Longrightarrow> content (disk s') k = content (disk s) k"
    "b \<Longrightarrow> table_on_disk (content (disk s')) (file_table s')" "works (disk s) \<Longrightarrow> b \<and> works (disk s')"
proof -
  obtain d where w: "wr FILE_TABLE_LBA FILE_TABLE_SECTORS (table_bytes (file_table s)) (disk s) = (b, d)" and s': "s' = s\<lparr>disk := d\<rparr>"
    using assms(3) by (auto simp: save_file_table_def split: prod.splits)
  have "ok d \<and> (\<forall>k. k < unat FILE_TABLE_LBA \<or> unat FILE_TABLE_LBA + unat FILE_TABLE_SECTORS \<le> k \<longrightarrow> content d k = content (disk s) k) \<and>
      (b \<longrightarrow> (\<forall>i<unat FILE_TABLE_SECTORS. content d (unat FILE_TABLE_LBA + i) = take 512 (drop (512 * i) (table_bytes (file_table s))))) \<and>
      (works (disk s) \<longrightarrow> b \<and> works d)"
    using table_bytes_length [OF assms(2)] by (intro wr_law [OF assms(1) _ _ _ _ w]) (simp_all add: FILE_TABLE_LBA_def FILE_TABLE_SECTORS_def)
  then have l: "ok d" "\<And>k. k < 257 \<or> 266 \<le> k \<Longrightarrow> content d k = content (disk s) k"
      "b \<Longrightarrow> \<forall>i<9. content d (257 + i) = take 512 (drop (512 * i) (table_bytes (file_table s)))" "works (disk s) \<Longrightarrow> b \<and> works d"
    by (auto simp: FILE_TABLE_LBA_def FILE_TABLE_SECTORS_def)
  show "file_table s' = file_table s" "fs_bitmap s' = fs_bitmap s" "ok (disk s')"
    "k < 257 \<or> 266 \<le> k \<Longrightarrow> content (disk s') k = content (disk s) k" "works (disk s) \<Longrightarrow> b \<and> works (disk s')"
    using l s' by auto
  show "table_on_disk (content (disk s')) (file_table s')" if b
  proof -
    have "map (content d) [257..<266] = map (\<lambda>i. take 512 (drop (512 * i) (table_bytes (file_table s)))) [0..<9]"
    proof -
      have "[257..<266] = map (\<lambda>i. i + 257) [0..<9 :: nat]" using map_add_upt [of 257 9] by simp
      moreover have "map (\<lambda>i. content d (i + 257)) [0..<9] = map (\<lambda>i. take 512 (drop (512 * i) (table_bytes (file_table s)))) [0..<9]"
        using l(3) [OF that] by (intro map_cong) (auto simp: add.commute)
      ultimately show ?thesis unfolding comp_def by (simp only: map_map comp_def)
    qed
    then show ?thesis using concat_slices [of "table_bytes (file_table s)" 512 9] table_bytes_length [OF assms(2)] s'
      by (simp add: table_on_disk_def)
  qed
qed

lemma save_bitmap_spec:
  assumes "ok (disk s)" "save_bitmap wr s = (b, s')"
  shows "file_table s' = file_table s" "fs_bitmap s' = fs_bitmap s" "ok (disk s')"
    "k < 266 \<or> 274 \<le> k \<Longrightarrow> content (disk s') k = content (disk s) k" "works (disk s) \<Longrightarrow> b \<and> works (disk s')"
proof -
  obtain d where w: "wr BITMAP_LBA BITMAP_SECTORS (map (fs_bitmap s) [0..<4096]) (disk s) = (b, d)" and s': "s' = s\<lparr>disk := d\<rparr>"
    using assms(2) by (auto simp: save_bitmap_def split: prod.splits)
  have "ok d \<and> (\<forall>k. k < unat BITMAP_LBA \<or> unat BITMAP_LBA + unat BITMAP_SECTORS \<le> k \<longrightarrow> content d k = content (disk s) k) \<and>
      (b \<longrightarrow> (\<forall>i<unat BITMAP_SECTORS. content d (unat BITMAP_LBA + i) = take 512 (drop (512 * i) (map (fs_bitmap s) [0..<4096])))) \<and>
      (works (disk s) \<longrightarrow> b \<and> works d)"
    by (intro wr_law [OF assms(1) _ _ _ _ w]) (simp_all add: BITMAP_LBA_def BITMAP_SECTORS_def)
  then show "file_table s' = file_table s" "fs_bitmap s' = fs_bitmap s" "ok (disk s')"
    "k < 266 \<or> 274 \<le> k \<Longrightarrow> content (disk s') k = content (disk s) k" "works (disk s) \<Longrightarrow> b \<and> works (disk s')"
    using s' by (auto simp: BITMAP_LBA_def BITMAP_SECTORS_def)
qed

end

end
