(* ===== verification/Fs_Correct.thy ===== *)
theory Fs_Correct
  imports Fs_Disk
begin

text \<open>
  The operations of VenomFS refine operations on a map from names to contents, also when transfers fail.
  Everything is shown for any block device and then holds for the ATA driver.
\<close>

section \<open>Writing\<close>

lemma fs_inv_cong:
  assumes "file_table s' = file_table s" "\<And>b. bit_test (fs_bitmap s') b = bit_test (fs_bitmap s) b"
  shows "fs_inv s' = fs_inv s"
  using assms by (simp add: fs_inv_def)

lemma fs_inv_table: "fs_inv s \<Longrightarrow> table_ok (file_table s)" "fs_inv s \<Longrightarrow> table_typed (file_table s)"
  by (simp_all add: fs_inv_def table_ok_def)

lemma fs_files_data:
  assumes "fs_inv s" "file_table s' = file_table s" "\<And>k. 274 \<le> k \<Longrightarrow> c' k = c k"
  shows "fs_files c' s' = fs_files c s"
  using assms fs_inv_table(1) by (intro fs_files_cong) auto

text \<open>The first phase of a write: an old file of that name is given up, and an entry is chosen.\<close>

definition opened :: "u8 list \<Rightarrow> 's fs_state \<Rightarrow> 's fs_state" where
  "opened name s = (case find_file name s of Some i \<Rightarrow> free_entry i s | None \<Rightarrow> s)"

lemma opened_facts:
  assumes "fs_inv s" "0 \<notin> set name"
  shows "fs_inv (opened name s)" "disk (opened name s) = disk s" "fs_files c (opened name s) = (fs_files c s)(name := None)"
    "j < 64 \<Longrightarrow> used (file_table (opened name s) ! j) \<noteq> 0 \<Longrightarrow> cname (fe_name (file_table (opened name s) ! j)) \<noteq> name"
    "bit_test (fs_bitmap (opened name s)) b \<Longrightarrow> bit_test (fs_bitmap s) b"
    "write_slot (find_file name s) (opened name s) = Some slot \<Longrightarrow> slot < 64 \<and> used (file_table (opened name s) ! slot) = 0"
proof -
  note t = fs_inv_table(1) [OF assms(1)]
  have f: "fs_inv (opened name s) \<and> disk (opened name s) = disk s \<and> fs_files c (opened name s) = (fs_files c s)(name := None) \<and>
      (bit_test (fs_bitmap (opened name s)) b \<longrightarrow> bit_test (fs_bitmap s) b)"
  proof (cases "find_file name s")
    case None
    then have "fs_files c s name = None" by (simp add: fs_files_def)
    then show ?thesis using None assms(1) by (simp add: opened_def fun_upd_idem)
  next
    case (Some i)
    then have i: "i < 64" "used (file_table s ! i) \<noteq> 0" "cname (fe_name (file_table s ! i)) = name" using find_file_iff [OF t assms(2)] by auto
    have "fs_files c (free_entry i s) = (fs_files c s)(name := None)"
      using clear_files [OF t i(1,2), of "free_entry i s" c] i(3) by (simp add: free_entry_def)
    then show ?thesis using Some free_entry_inv [OF assms(1) i(1,2)] by (simp add: opened_def free_entry_def)
  qed
  then show o: "fs_inv (opened name s)" and "disk (opened name s) = disk s" "fs_files c (opened name s) = (fs_files c s)(name := None)"
    "bit_test (fs_bitmap (opened name s)) b \<Longrightarrow> bit_test (fs_bitmap s) b" by auto
  note t' = fs_inv_table(1) [OF o]
  have "fs_files (\<lambda>_. []) (opened name s) name = None"
  proof (cases "find_file name s")
    case (Some i)
    then have i: "i < 64" "used (file_table s ! i) \<noteq> 0" "cname (fe_name (file_table s ! i)) = name" using find_file_iff [OF t assms(2)] by auto
    then show ?thesis using Some clear_files [OF t i(1,2), of "free_entry i s" "\<lambda>_. []"] by (simp add: opened_def free_entry_def)
  qed (simp add: opened_def fs_files_def)
  then show "cname (fe_name (file_table (opened name s) ! j)) \<noteq> name" if "j < 64" "used (file_table (opened name s) ! j) \<noteq> 0"
    using fs_files_iff [OF t' assms(2)] that by (metis option.distinct(1))
  show "slot < 64 \<and> used (file_table (opened name s) ! slot) = 0" if "write_slot (find_file name s) (opened name s) = Some slot"
  proof (cases "find_file name s")
    case None
    then show ?thesis using that by (simp add: write_slot_def find_upt)
  next
    case (Some i)
    then have "i < 64" using find_file_iff [OF t assms(2)] by auto
    moreover have "i = slot" using that Some by (simp add: write_slot_def)
    ultimately show ?thesis using Some table_okD(1) [OF t, of i] by (simp add: opened_def free_entry_def cleared_entry_typed)
  qed
qed

text \<open>The last phase: the blocks are marked and written, and the entry is filled and saved.\<close>

definition stored :: "'s writer \<Rightarrow> u8 list \<Rightarrow> u8 list \<Rightarrow> nat \<Rightarrow> Extent list \<Rightarrow> 's fs_state \<Rightarrow> bool \<times> 's fs_state" where
  "stored wr name data slot es s =
     (let s = s\<lparr>fs_bitmap := mark_extents es (fs_bitmap s)\<rparr>;
          (data_write_ok, d) = write_blocks wr (extent_lbas es) data (disk s);
          s = s\<lparr>disk := d\<rparr> in
      if \<not> data_write_ok then (False, save_both wr (s\<lparr>fs_bitmap := release_extents es (fs_bitmap s)\<rparr>))
      else
        let s = s\<lparr>file_table := (file_table s)[slot := filled_entry name (length data) es (file_table s ! slot)]\<rparr>;
            (table_ok, s) = save_file_table wr s;
            (bitmap_ok, s) = save_bitmap wr s in
        if \<not> table_ok \<or> \<not> bitmap_ok then
          let s = s\<lparr>fs_bitmap := release_extents es (fs_bitmap s),
                    file_table := (file_table s)[slot := cleared_entry (file_table s ! slot)]\<rparr>
          in (False, snd (save_bitmap wr (snd (save_file_table wr s))))
        else (True, s))"

definition blocks_needed :: "u8 list \<Rightarrow> u32" where
  "blocks_needed data = of_nat ((length data + SECTOR_SIZE - 1) div SECTOR_SIZE)"

definition chosen_extents :: "u8 list \<Rightarrow> 's fs_state \<Rightarrow> Extent list" where
  "chosen_extents data s = (if blocks_needed data > 0 then choose_extents (blocks_needed data) (fs_bitmap s) else [])"

lemma fs_write_phases:
  "fs_write wr name data s =
     (if length name \<ge> 32 then (False, s)
      else case write_slot (find_file name s) (opened name s) of
        None \<Rightarrow> (False, save_both wr (opened name s))
      | Some slot \<Rightarrow>
          if blocks_needed data > 0 \<and> chosen_extents data (opened name s) = [] then (False, save_both wr (opened name s))
          else stored wr name data slot (chosen_extents data (opened name s)) (opened name s))"
  unfolding fs_write_def stored_def opened_def blocks_needed_def chosen_extents_def filled_entry_def by (simp only: Let_def fs_sizes)

lemma blocks_needed_unat: "length data < 2 ^ 32 \<Longrightarrow> unat (blocks_needed data) = blocks_for (length data)"
proof -
  assume a: "length data < 2 ^ 32"
  have "(length data + 511) div 512 \<le> (2 ^ 32 + 511) div 512" using a by (intro div_le_mono) simp
  then have "(length data + 511) div 512 < 2 ^ 32" by simp
  then have "unat (of_nat ((length data + 511) div 512) :: u32) = (length data + 511) div 512" unfolding unat_of_nat by simp
  then show ?thesis by (simp add: blocks_needed_def blocks_for_def add.commute)
qed

lemma chosen_extents_free:
  assumes "length data < 2 ^ 32" "\<not> (blocks_needed data > 0 \<and> chosen_extents data s = [])"
  shows "free_extents (fs_bitmap s) (chosen_extents data s)" "length (blocks_of (chosen_extents data s)) = blocks_for (length data)"
proof -
  have "free_extents (fs_bitmap s) (chosen_extents data s) \<and> length (blocks_of (chosen_extents data s)) = unat (blocks_needed data)"
  proof (cases "blocks_needed data > 0")
    case True
    then have "choose_extents (blocks_needed data) (fs_bitmap s) \<noteq> []" "0 < unat (blocks_needed data)"
      using assms(2) by (auto simp: chosen_extents_def unat_gt_0)
    then show ?thesis using choose_extents_free [OF refl] True by (simp add: chosen_extents_def)
  next
    case False
    then have "blocks_needed data = 0" by (simp add: word_gt_0)
    then show ?thesis by (simp add: chosen_extents_def free_extents_def blocks_of_def)
  qed
  then show "free_extents (fs_bitmap s) (chosen_extents data s)" "length (blocks_of (chosen_extents data s)) = blocks_for (length data)"
    using blocks_needed_unat [OF assms(1)] by auto
qed

text \<open>What an operation leaves behind: the invariant, these files, and the superblock as it was.\<close>

definition fs_outcome :: "('s \<Rightarrow> nat \<Rightarrow> u8 list) \<Rightarrow> ('s \<Rightarrow> bool) \<Rightarrow> 's fs_state \<Rightarrow> 's fs_state \<Rightarrow> (u8 list \<Rightarrow> u8 list option) \<Rightarrow> bool" where
  "fs_outcome content ok s s' files \<longleftrightarrow> fs_inv s' \<and> ok (disk s') \<and> fs_files (content (disk s')) s' = files \<and>
     content (disk s') 256 = content (disk s) 256"

lemma extent_lbas_facts:
  assumes "free_extents bm es"
  shows "unat ` set (extent_lbas es) = (\<lambda>b. 274 + b) ` set (blocks_of es)" "distinct (map unat (extent_lbas es))"
    "\<forall>l\<in>set (extent_lbas es). unat l < 268435456" "length (extent_lbas es) = length (blocks_of es)"
proof -
  have e: "map unat (extent_lbas es) = map (\<lambda>b. 274 + b) (blocks_of es)"
    using assms by (intro extent_lbas_blocks) (simp add: free_extents_def)
  show s: "unat ` set (extent_lbas es) = (\<lambda>b. 274 + b) ` set (blocks_of es)" using arg_cong [OF e, of set] by simp
  show "distinct (map unat (extent_lbas es))" unfolding e using assms by (simp add: free_extents_def distinct_map)
  show "length (extent_lbas es) = length (blocks_of es)" using arg_cong [OF e, of length] by simp
  show "\<forall>l\<in>set (extent_lbas es). unat l < 268435456"
  proof
    fix l assume "l \<in> set (extent_lbas es)"
    then have "unat l \<in> (\<lambda>b. 274 + b) ` set (blocks_of es)" using s by blast
    then obtain b where "unat l = 274 + b" "b < 32494" using blocks_bound [of es] assms by (auto simp: free_extents_def)
    then show "unat l < 268435456" by simp
  qed
qed

lemma release_mark: "free_extents bm es \<Longrightarrow> bit_test (release_extents es (mark_extents es bm)) b = bit_test bm b"
  by (auto simp: free_extents_def)

context block_device
begin

lemma save_both_outcome:
  assumes "fs_inv s" "ok (disk s)"
  shows "fs_outcome content ok s (save_both wr s) (fs_files (content (disk s)) s)"
proof -
  obtain b1 s1 where b: "save_bitmap wr s = (b1, s1)" by fastforce
  note b' = save_bitmap_spec [OF assms(2) b]
  have t: "table_typed (file_table s1)" using fs_inv_table(2) [OF assms(1)] b'(1) by simp
  obtain b2 s2 where f: "save_file_table wr s1 = (b2, s2)" by fastforce
  note f' = save_file_table_spec [OF b'(3) t f]
  have "save_both wr s = s2" using b f by (simp add: save_both_def)
  moreover have "fs_inv s2" using fs_inv_cong [of s2 s] assms(1) b'(1,2) f'(1,2) by simp
  moreover have "fs_files (content (disk s2)) s2 = fs_files (content (disk s)) s"
    using assms(1) b'(1,4) f'(1,4) by (intro fs_files_data) auto
  ultimately show ?thesis using f'(3,4) b'(4) by (simp add: fs_outcome_def)
qed

text \<open>Saving the table and then the bitmap.\<close>

lemma save_all:
  assumes "fs_inv s" "ok (disk s)" "save_file_table wr s = (b1, s1)" "save_bitmap wr s1 = (b2, s2)"
  shows "file_table s2 = file_table s" "fs_bitmap s2 = fs_bitmap s" "fs_outcome content ok s s2 (fs_files (content (disk s)) s)"
    "b1 \<Longrightarrow> table_on_disk (content (disk s2)) (file_table s2)" "works (disk s) \<Longrightarrow> b1 \<and> b2 \<and> works (disk s2)"
proof -
  note f = save_file_table_spec [OF assms(2) fs_inv_table(2) [OF assms(1)] assms(3)]
  note b = save_bitmap_spec [OF f(3) assms(4)]
  show e: "file_table s2 = file_table s" "fs_bitmap s2 = fs_bitmap s" using f b by simp_all
  have "fs_files (content (disk s2)) s2 = fs_files (content (disk s)) s"
    using assms(1) f(4) b(4) e(1) by (intro fs_files_data) auto
  then show "fs_outcome content ok s s2 (fs_files (content (disk s)) s)"
    using fs_inv_cong [of s2 s] assms(1) e f(4) b(3,4) by (simp add: fs_outcome_def)
  have "map (content (disk s2)) [257..<266] = map (content (disk s1)) [257..<266]" using b(4) by (intro map_cong) auto
  then show "table_on_disk (content (disk s2)) (file_table s2)" if b1
    using f(5) [OF that] b(1) unfolding table_on_disk_def by metis
  show "works (disk s) \<Longrightarrow> b1 \<and> b2 \<and> works (disk s2)" using f(6) b(5) by blast
qed

lemma stored_correct:
  assumes inv: "fs_inv s" "ok (disk s)" and slot: "slot < 64" "used (file_table s ! slot) = 0"
    and new: "\<And>j. j < 64 \<Longrightarrow> used (file_table s ! j) \<noteq> 0 \<Longrightarrow> cname (fe_name (file_table s ! j)) \<noteq> name"
    and fe: "free_extents (fs_bitmap s) es" "length (blocks_of es) = blocks_for (length data)"
    and name: "0 \<notin> set name" "length name < 32" "length data < 2 ^ 32"
    and st: "stored wr name data slot es s = (b, s')"
  shows "fs_outcome content ok s s' (if b then (fs_files (content (disk s)) s)(name \<mapsto> data) else fs_files (content (disk s)) s) \<and>
    (b \<longrightarrow> table_on_disk (content (disk s')) (file_table s')) \<and> (works (disk s) \<longrightarrow> b \<and> works (disk s'))"
proof -
  let ?f = "fs_files (content (disk s)) s"
  obtain ok1 d where w: "write_blocks wr (extent_lbas es) data (disk s) = (ok1, d)" by fastforce
  note l = extent_lbas_facts [OF fe(1)]
  have len: "length data \<le> 512 * length (extent_lbas es)" unfolding l(4) fe(2) blocks_for_def by simp
  note w' = write_blocks_spec [OF inv(2) l(2,3) len w, unfolded l(1)]
  have nb: "\<not> b \<in> file_blocks (file_table s ! i)" if "b \<in> set (blocks_of es)" "i < 64" for b i
    using that fe(1) inv(1) blocks_bound [of es b] unfolding fs_inv_def free_extents_def by blast
  have keep: "fs_files (content d) t = ?f" if "file_table t = file_table s" for t :: "'s fs_state"
  proof (rule fs_files_cong [OF fs_inv_table(1) [OF inv(1)] that])
    fix i b assume "i < 64" "b \<in> file_blocks (file_table s ! i)"
    then have "274 + b \<notin> (\<lambda>b. 274 + b) ` set (blocks_of es)" using nb by auto
    then show "content d (274 + b) = content (disk s) (274 + b)" using w' by blast
  qed
  have "256 \<notin> (\<lambda>b. 274 + b) ` set (blocks_of es)" by auto
  then have c256: "content d 256 = content (disk s) 256" using w' by blast
  show ?thesis
  proof (cases ok1)
    case False
    let ?s = "s\<lparr>disk := d, fs_bitmap := release_extents es (mark_extents es (fs_bitmap s))\<rparr>"
    have "b = False" "s' = save_both wr ?s" using st w False by (auto simp: stored_def Let_def)
    moreover have "fs_inv ?s" using fs_inv_cong [of ?s s] release_mark [OF fe(1)] inv(1) by (simp del: test_mark test_release)
    ultimately show ?thesis using save_both_outcome [of ?s] keep [of ?s] w' c256 False by (simp add: fs_outcome_def)
  next
    case True
    let ?s = "s\<lparr>fs_bitmap := mark_extents es (fs_bitmap s), disk := d, file_table := (file_table s)[slot := filled_entry name (length data) es (file_table s ! slot)]\<rparr>"
    obtain b1 s1 where f: "save_file_table wr ?s = (b1, s1)" by fastforce
    obtain b2 s2 where b: "save_bitmap wr s1 = (b2, s2)" by fastforce
    have i: "fs_inv ?s" using put_inv [OF inv(1) slot new fe name(1,2,3), of ?s] by simp
    have es4: "length es \<le> 4" using fe(1) by (simp add: free_extents_def)
    have "map (\<lambda>b. content d (274 + b)) (blocks_of es) = map (content d) (map unat (extent_lbas es))"
      using extent_lbas_blocks [of es] fe(1) by (simp add: free_extents_def)
    then have "concat (map (\<lambda>b. content d (274 + b)) (blocks_of es)) = data @ replicate (512 * length (extent_lbas es) - length data) 0"
      using w' True by (simp add: comp_def)
    then have fl: "fs_files (content d) ?s = ?f(name \<mapsto> data)"
      using put_files [OF fs_inv_table(1) [OF inv(1)] fs_inv_table(1) [OF i] slot es4 name(1,2,3), of "content d"] keep [of s] by simp
    have o: "ok (disk ?s)" using w' by simp
    note sa = save_all [OF i o f b]
    have works: "works (disk s) \<Longrightarrow> b1 \<and> b2 \<and> works (disk s2)" using sa(5) w' by simp
    have out: "fs_outcome content ok s s2 (?f(name \<mapsto> data))" using sa(3) fl c256 by (simp add: fs_outcome_def)
    show ?thesis
    proof (cases "b1 \<and> b2")
      case t: True
      then have "b = True" "s' = s2" using st w True f b by (simp_all add: stored_def Let_def)
      then show ?thesis using out sa(4) t works by simp
    next
      case fl2: False
      let ?e = "file_table s2 ! slot"
      have e: "?e = filled_entry name (length data) es (file_table s ! slot)"
        using sa(1) slot(1) table_okD(1) [OF fs_inv_table(1) [OF inv(1)] slot(1)] by simp
      note ff = filled_entry_facts [OF table_okD(2) [OF fs_inv_table(1) [OF inv(1)] slot(1)] name(1,2) es4 name(3)]
      have u: "used ?e \<noteq> 0" "cname (fe_name ?e) = name" "entry_extents ?e = es" unfolding e by (rule ff)+
      have "b = False" "s' = snd (save_bitmap wr (snd (save_file_table wr (free_entry slot s2))))"
        using st w True f b fl2 u(3) by (auto simp: stored_def Let_def free_entry_def)
      moreover have i2: "fs_inv s2" using out by (simp add: fs_outcome_def)
      moreover have fi: "fs_inv (free_entry slot s2)" using free_entry_inv [OF i2 slot(1) u(1)] .
      moreover have "fs_files (content (disk s2)) (free_entry slot s2) = ?f"
      proof -
        have "?f name = None" using new fs_files_iff [OF fs_inv_table(1) [OF inv(1)] name(1)] by (metis not_None_eq)
        then show ?thesis using clear_files [OF fs_inv_table(1) [OF i2] slot(1) u(1), of "free_entry slot s2"] u(2) out
          by (simp add: free_entry_def fs_outcome_def fun_upd_idem)
      qed
      moreover have d2: "disk (free_entry slot s2) = disk s2" "ok (disk s2)" using out by (simp_all add: free_entry_def fs_outcome_def)
      ultimately show ?thesis
        using save_all(3) [OF fi _ surjective_pairing surjective_pairing] out fl2 works by (auto simp: fs_outcome_def)
    qed
  qed
qed

lemma fs_write_correct:
  assumes "fs_inv s" "ok (disk s)" "0 \<notin> set name" "length data < 2 ^ 32" "fs_write wr name data s = (b, s')"
  shows "fs_outcome content ok s s' (if b then (fs_files (content (disk s)) s)(name \<mapsto> data)
      else if length name \<ge> 32 then fs_files (content (disk s)) s else (fs_files (content (disk s)) s)(name := None)) \<and>
    (b \<longrightarrow> table_on_disk (content (disk s')) (file_table s')) \<and> (works (disk s) \<and> b \<longrightarrow> works (disk s'))"
proof (cases "length name \<ge> 32")
  case True
  then show ?thesis using assms by (simp add: fs_write_phases fs_outcome_def)
next
  case False
  let ?s = "opened name s" and ?es = "chosen_extents data (opened name s)"
  note o = opened_facts [OF assms(1,3)]
  have d: "ok (disk ?s)" using assms(2) o(2) by simp
  have sb: "fs_outcome content ok s (save_both wr ?s) ((fs_files (content (disk s)) s)(name := None))"
    using save_both_outcome [OF o(1) d] o(2,3) by (simp add: fs_outcome_def)
  show ?thesis
  proof (cases "write_slot (find_file name s) ?s")
    case None
    then show ?thesis using assms(5) False sb by (auto simp: fs_write_phases)
  next
    case (Some slot)
    note sl = o(6) [OF Some]
    show ?thesis
    proof (cases "blocks_needed data > 0 \<and> ?es = []")
      case True
      then show ?thesis using assms(5) False sb Some by (auto simp: fs_write_phases)
    next
      case F: False
      have st: "stored wr name data slot ?es ?s = (b, s')" using assms(5) False Some F by (auto simp: fs_write_phases)
      have "free_extents (fs_bitmap ?s) ?es" "length (blocks_of ?es) = blocks_for (length data)"
        using chosen_extents_free [OF assms(4)] F by auto
      then show ?thesis using stored_correct [OF o(1) d _ _ o(4) _ _ assms(3) _ assms(4) st] sl False o(2,3)
        by (auto simp: fs_outcome_def)
    qed
  qed
qed

lemma fs_write_succeeds:
  assumes "fs_inv s" "works (disk s)" "0 \<notin> set name" "length name < 32" "length data < 2 ^ 32"
    "find_file name s \<noteq> None \<or> (\<exists>i<64. used (file_table s ! i) = 0)"
    "r + blocks_for (length data) \<le> 32494" "\<forall>b\<in>{r..<r + blocks_for (length data)}. \<not> bit_test (fs_bitmap s) b"
  shows "fst (fs_write wr name data s) \<and> works (disk (snd (fs_write wr name data s)))"
proof -
  let ?s = "opened name s" and ?es = "chosen_extents data (opened name s)"
  note o = opened_facts [OF assms(1,3)]
  have "write_slot (find_file name s) ?s \<noteq> None"
  proof (cases "find_file name s")
    case None
    then obtain i where "i < 64" "used (file_table ?s ! i) = 0" using assms(6) by (auto simp: opened_def)
    then have "List.find (\<lambda>i. used (file_table ?s ! i) = 0) [0..<64] \<noteq> None" unfolding find_None_iff by auto
    then show ?thesis using None by (simp add: write_slot_def)
  qed (simp add: write_slot_def)
  then obtain slot where slot: "write_slot (find_file name s) ?s = Some slot" by blast
  note n = blocks_needed_unat [OF assms(5)]
  have "find_free_run (blocks_needed data) (fs_bitmap ?s) \<noteq> None"
    using assms(7,8) o(5) by (intro find_free_run_complete [of r]) (auto simp: n)
  then have F: "\<not> (blocks_needed data > 0 \<and> ?es = [])" by (auto simp: chosen_extents_def choose_extents_def)
  then have "fs_write wr name data s = stored wr name data slot ?es ?s" using assms(4) slot by (auto simp: fs_write_phases)
  moreover obtain b s' where st: "stored wr name data slot ?es ?s = (b, s')" by fastforce
  moreover have "b \<and> works (disk s')"
    using stored_correct [OF o(1) _ _ _ o(4) chosen_extents_free [OF assms(5) F] assms(3,4,5) st] o(6) [OF slot] o(2) assms(2) works_ok by auto
  ultimately show ?thesis by simp
qed

section \<open>Removing and reading\<close>

lemma fs_remove_correct:
  assumes "fs_inv s" "ok (disk s)" "0 \<notin> set name" "fs_remove wr name s = (b, s')"
  shows "fs_outcome content ok s s' (if b then (fs_files (content (disk s)) s)(name := None) else fs_files (content (disk s)) s) \<and>
    (b \<longrightarrow> table_on_disk (content (disk s')) (file_table s')) \<and>
    (works (disk s) \<longrightarrow> b = (fs_files (content (disk s)) s name \<noteq> None) \<and> works (disk s'))"
proof (cases "find_file name s")
  case None
  then show ?thesis using assms by (simp add: fs_remove_def fs_outcome_def fs_files_def)
next
  case (Some i)
  let ?f = "free_entry i s" and ?ft = "file_table s"
  note t = fs_inv_table(1) [OF assms(1)]
  have i: "i < 64" "used (?ft ! i) \<noteq> 0" using find_file_iff [OF t assms(3)] Some by auto
  have o: "opened name s = ?f" using Some by (simp add: opened_def)
  note f = opened_facts [OF assms(1,3), unfolded o]
  obtain b1 s1 where w: "save_file_table wr ?f = (b1, s1)" by fastforce
  obtain b2 s2 where v: "save_bitmap wr s1 = (b2, s2)" by fastforce
  have d: "ok (disk ?f)" using assms(2) f(2) by simp
  note sa = save_all [OF f(1) d w v]
  have ex: "fs_files (content (disk s)) s name \<noteq> None" using Some assms(3) by (simp add: fs_files_def)
  show ?thesis
  proof (cases "b1 \<and> b2")
    case True
    then have "b = True" "s' = s2" using assms(4) Some w v by (simp_all add: fs_remove_def Let_def)
    then show ?thesis using sa f(2,3) ex True by (simp add: fs_outcome_def)
  next
    case False
    have s': "b = False" "s' = s2\<lparr>file_table := (file_table s2)[i := ?ft ! i], fs_bitmap := mark_extents (entry_extents (?ft ! i)) (fs_bitmap s2)\<rparr>"
      using assms(4) Some w v False by (auto simp: fs_remove_def Let_def)
    have ft: "file_table s' = ?ft" using s'(2) sa(1) by (simp add: free_entry_def)
    have bl: "set (blocks_of (entry_extents (?ft ! i))) = file_blocks (?ft ! i)" using i(2) by (simp add: file_blocks_def)
    have "bit_test (fs_bitmap s) b" if "b \<in> file_blocks (?ft ! i)" for b
      using assms(1) i(1) that file_blocks_bound(1) [OF t i(1) that] unfolding fs_inv_def by blast
    then have bits: "bit_test (fs_bitmap s') b = bit_test (fs_bitmap s) b" for b using s'(2) sa(2) bl by (auto simp: free_entry_def)
    have inv': "fs_inv s'" using fs_inv_cong [OF ft bits] assms(1) by simp
    note fs = save_file_table_spec [OF d fs_inv_table(2) [OF f(1)] w]
    note bs = save_bitmap_spec [OF fs(3) v]
    have dk: "disk s' = disk s2" using s'(2) by simp
    have "fs_files (content (disk s')) s' = fs_files (content (disk s)) s"
      using fs(4) bs(4) f(2) dk by (intro fs_files_data [OF assms(1) ft]) simp
    then show ?thesis using s'(1) inv' dk sa(3,5) False f(2) by (auto simp: fs_outcome_def)
  qed
qed

lemma fs_read_correct:
  assumes "fs_inv s" "ok (disk s)" "0 \<notin> set name" "fs_read rd name cap s = (b, bs, s')"
  shows "file_table s' = file_table s \<and> fs_bitmap s' = fs_bitmap s \<and> ok (disk s') \<and> content (disk s') = content (disk s) \<and>
    (b \<longrightarrow> (\<exists>data. fs_files (content (disk s)) s name = Some data \<and> bs = take cap data)) \<and>
    (works (disk s) \<longrightarrow> b = (fs_files (content (disk s)) s name \<noteq> None) \<and> works (disk s'))"
proof (cases "find_file name s")
  case None
  then show ?thesis using assms by (simp add: fs_read_def fs_files_def)
next
  case (Some i)
  let ?e = "file_table s ! i"
  note t = fs_inv_table(1) [OF assms(1)]
  have i: "i < 64" "used ?e \<noteq> 0" using find_file_iff [OF t assms(3)] Some by auto
  have fo: "file_ok ?e" using table_okD(3) [OF t i] .
  let ?es = "entry_extents ?e" and ?n = "min (unat (size_bytes ?e)) cap"
  obtain ok1 bs1 d where r: "read_blocks rd (extent_lbas ?es) ?n (disk s) = (ok1, bs1, d)"
    by (cases "read_blocks rd (extent_lbas ?es) ?n (disk s)") auto
  have e: "b = ok1" "bs = bs1" "s' = s\<lparr>disk := d\<rparr>" using assms(4) Some r by (simp_all add: fs_read_def Let_def)
  have ml: "map unat (extent_lbas ?es) = map (\<lambda>b. 274 + b) (blocks_of ?es)" using fo by (intro extent_lbas_blocks) (simp add: file_ok_def)
  have ll: "length (extent_lbas ?es) = blocks_for (unat (size_bytes ?e))" using arg_cong [OF ml, of length] fo by (simp add: file_ok_def)
  have "\<forall>l\<in>set (map unat (extent_lbas ?es)). l < 268435456"
    unfolding ml using blocks_bound [of ?es] fo by (fastforce simp: file_ok_def)
  then have lb: "\<forall>l\<in>set (extent_lbas ?es). unat l < 268435456" by simp
  have n: "?n \<le> 512 * length (extent_lbas ?es)" unfolding ll blocks_for_def by simp
  note r' = read_blocks_spec [OF assms(2) lb n r]
  have "map (\<lambda>l. content (disk s) (unat l)) (extent_lbas ?es) = map (\<lambda>b. content (disk s) (274 + b)) (blocks_of ?es)"
    using arg_cong [OF ml, of "map (content (disk s))"] by (simp add: comp_def)
  then have "ok1 \<Longrightarrow> bs1 = take cap (file_data (content (disk s)) ?e)" using r' by (simp add: file_data_def min.commute)
  moreover have "fs_files (content (disk s)) s name = Some (file_data (content (disk s)) ?e)" using Some assms(3) by (simp add: fs_files_def)
  ultimately show ?thesis using r' e by auto
qed

end

end
