(* ===== verification/Fs_Theorems.thy ===== *)
theory Fs_Theorems
  imports Fs_Correct
begin

text \<open>
  Formatting and mounting VenomFS, and the properties of the file system on the ATA driver. The driver
  may report a failure at any transfer (\<open>inject_next_failure\<close>); the disk behind it follows the protocol.
\<close>

section \<open>Formatting and mounting\<close>

lemma test_clear_bitmap: "b < 32768 \<Longrightarrow> \<not> bit_test (clear_bitmap bm) b"
  by (simp add: bit_test_def clear_bitmap_def less_mult_imp_div_less)

lemma test_rebuild:
  "bit_test (fold (\<lambda>entry bm. if used entry = 0 then bm else mark_extents (entry_extents entry) bm) ft bm) b \<longleftrightarrow>
     (\<exists>e\<in>set ft. b \<in> file_blocks e) \<or> bit_test bm b"
  by (induction ft arbitrary: bm) (auto simp: file_blocks_def)

lemma rebuild_inv:
  assumes "table_ok (file_table s)"
  shows "fs_inv (rebuild_bitmap_from_file_table s)"
proof -
  have l: "length (file_table s) = 64" using assms by (simp add: table_ok_def table_typed_def)
  have "(\<exists>e\<in>set (file_table s). b \<in> file_blocks e) \<longleftrightarrow> (\<exists>i<64. b \<in> file_blocks (file_table s ! i))" for b
    using l by (metis in_set_conv_nth)
  then show ?thesis using assms test_clear_bitmap
    by (simp add: fs_inv_def rebuild_bitmap_from_file_table_def test_rebuild)
qed

lemma empty_table_ok: "table_ok (replicate 64 empty_entry)"
proof -
  have "entry_typed empty_entry" "used empty_entry = 0" by (simp_all add: entry_typed_def empty_entry_def)
  then show ?thesis by (simp add: table_ok_def table_typed_def cleared_apart)
qed

lemma superblock_length: "length superblock_bytes = 32" "valid_magic (superblock_bytes @ zs)"
  by (simp_all add: superblock_bytes_def valid_magic_def nth_append)

text \<open>The disk holds what is needed to mount the file system again.\<close>

definition fs_mountable :: "(nat \<Rightarrow> u8 list) \<Rightarrow> FileEntry list \<Rightarrow> bool" where
  "fs_mountable c ft \<longleftrightarrow> valid_magic (c 256) \<and> table_on_disk c ft"

context block_device
begin

lemma fs_format_correct:
  assumes "ok (disk s)" "fs_format wr s = (b, s')"
  shows "ok (disk s') \<and> (b \<longrightarrow> fs_inv s' \<and> fs_files (content (disk s')) s' = Map.empty \<and> fs_mountable (content (disk s')) (file_table s')) \<and>
    (works (disk s) \<longrightarrow> b \<and> works (disk s'))"
proof -
  obtain b0 d where w: "wr SUPERBLOCK_LBA 1 (superblock_bytes @ replicate 480 0) (disk s) = (b0, d)" by fastforce
  have "unat SUPERBLOCK_LBA < 268435456" "length (superblock_bytes @ replicate 480 0) = 512" "unat SUPERBLOCK_LBA = 256"
    by (simp_all add: SUPERBLOCK_LBA_def superblock_length)
  note w' = wr_one [OF assms(1) this(1,2) w, unfolded this(3)]
  let ?s0 = "s\<lparr>disk := d\<rparr>" and ?s1 = "s\<lparr>disk := d, file_table := replicate 64 empty_entry\<rparr>"
  obtain b1 s1 where f: "save_file_table wr ?s1 = (b1, s1)" by fastforce
  have "table_typed (file_table ?s1)" using empty_table_ok by (simp add: table_ok_def)
  note f' = save_file_table_spec [OF _ this f]
  let ?s2 = "s1\<lparr>fs_bitmap := clear_bitmap (fs_bitmap s1)\<rparr>"
  obtain b2 s2 where g: "save_bitmap wr ?s2 = (b2, s2)" by fastforce
  note g' = save_bitmap_spec [OF _ g]
  have fm: "fs_format wr s = (if \<not> b0 then (False, ?s0) else if \<not> b1 then (False, s1) else if \<not> b2 then (False, s2) else (True, s2))"
    using w f g by (auto simp: fs_format_def Let_def)
  have ok1: "ok (disk s1)" using f'(3) w'(1) by simp
  then have ok2: "ok (disk s2)" using g'(3) by simp
  show ?thesis
  proof (cases "b0 \<and> b1 \<and> b2")
    case False
    then show ?thesis using assms(2) fm w'(1,4) ok1 ok2 f'(6) g'(5) by (auto split: if_splits)
  next
    case True
    then have r: "b = True" "s' = s2" using assms(2) fm by auto
    have ft: "file_table s2 = replicate 64 empty_entry" "fs_bitmap s2 = clear_bitmap (fs_bitmap s1)"
      using f'(1) g'(1,2) w'(1) ok1 by simp_all
    have fb: "file_blocks (replicate 64 empty_entry ! i) = {}" "used (replicate 64 empty_entry ! i) = 0" if "i < 64" for i
      using that by (simp_all add: file_blocks_def empty_entry_def)
    then have inv: "fs_inv s2" using empty_table_ok test_clear_bitmap by (auto simp: fs_inv_def ft)
    have "fs_files (content (disk s2)) s2 = Map.empty"
      using fb(2) by (intro fs_files_eqI) (auto simp: fs_files_iff [OF fs_inv_table(1) [OF inv]] ft(1))
    moreover have "content (disk s2) 256 = superblock_bytes @ replicate 480 0" using f'(4) g'(4) w'(1,3) ok1 True by simp
    moreover have "table_on_disk (content (disk s2)) (file_table s2)"
    proof -
      have "map (content (disk s2)) [257..<266] = map (content (disk s1)) [257..<266]" using g'(4) ok1 by (intro map_cong) auto
      then show ?thesis using f'(5) True w'(1) g'(1) ok1 unfolding table_on_disk_def by simp
    qed
    ultimately show ?thesis using r inv ok2 w'(4) f'(6) g'(5) w'(1) ok1 superblock_length(2) by (auto simp: fs_mountable_def)
  qed
qed

lemma fs_init_correct:
  assumes "ok (disk t)" "disk t = disk s" "table_ok (file_table s)" "fs_mountable (content (disk s)) (file_table s)" "fs_init rd wr t = (b, t')"
  shows "ok (disk t') \<and> (b \<longrightarrow> file_table t' = file_table s \<and> fs_inv t' \<and> fs_files (content (disk t')) t' = fs_files (content (disk s)) s \<and>
    fs_mountable (content (disk t')) (file_table t')) \<and> (works (disk t) \<longrightarrow> b \<and> works (disk t'))"
proof -
  obtain b0 sb d where r: "rd SUPERBLOCK_LBA 1 (disk t) = (b0, sb, d)" by (cases "rd SUPERBLOCK_LBA 1 (disk t)") auto
  have u: "unat SUPERBLOCK_LBA < 268435456" "unat SUPERBLOCK_LBA = 256" by (simp_all add: SUPERBLOCK_LBA_def)
  note r' = rd_one [OF assms(1) u(1) r, unfolded u(2)]
  obtain b1 tb d1 where q: "rd FILE_TABLE_LBA FILE_TABLE_SECTORS d = (b1, tb, d1)" by (cases "rd FILE_TABLE_LBA FILE_TABLE_SECTORS d") auto
  have n: "unat FILE_TABLE_LBA = 257" "unat FILE_TABLE_SECTORS = 9" by (simp_all add: FILE_TABLE_LBA_def FILE_TABLE_SECTORS_def)
  have q': "ok d1 \<and> content d1 = content d \<and> (b1 \<longrightarrow> tb = concat (map (content d) [257..<257 + 9])) \<and> (works d \<longrightarrow> b1 \<and> works d1)"
    using rd_law [OF r'(1) _ _ _ q] unfolding n by simp
  let ?t = "t\<lparr>disk := d1, file_table := table_of_bytes (tb @ drop (length tb) (table_bytes (file_table t)))\<rparr>"
  obtain b2 t2 where g: "save_bitmap wr (rebuild_bitmap_from_file_table ?t) = (b2, t2)" by fastforce
  have dk: "disk (rebuild_bitmap_from_file_table ?t) = d1" by (simp add: rebuild_bitmap_from_file_table_def)
  note g' = save_bitmap_spec [OF _ g, unfolded dk]
  have vm: "b0 \<Longrightarrow> valid_magic sb" using r'(3) assms(2,4) by (simp add: fs_mountable_def)
  have eq: "fs_init rd wr t = (if \<not> b0 then (False, t\<lparr>disk := d\<rparr>) else if \<not> b1 then (False, ?t) else if \<not> b2 then (False, t2) else (True, t2))"
    using r q g vm by (auto simp: fs_init_def Let_def)
  show ?thesis
  proof (cases "b0 \<and> b1 \<and> b2")
    case False
    then show ?thesis using assms(5) eq r'(1,4) q' g'(3,5) by (auto split: if_splits)
  next
    case True
    then have e: "b = True" "t' = t2" using assms(5) eq by auto
    have "tb = table_bytes (file_table s)" using q' True r'(2) assms(2,4) by (simp add: fs_mountable_def table_on_disk_def)
    then have ft: "file_table ?t = file_table s" using table_round_trip [of "file_table s"] assms(3) by (simp add: table_ok_def)
    then have ft2: "file_table t2 = file_table s" using g'(1) q' by (simp add: rebuild_bitmap_from_file_table_def)
    have "fs_inv (rebuild_bitmap_from_file_table ?t)" using rebuild_inv [of ?t] ft assms(3) by simp
    then have inv: "fs_inv t2" using fs_inv_cong [of t2 "rebuild_bitmap_from_file_table ?t"] g'(1,2) q' by simp
    have c: "k < 266 \<or> 274 \<le> k \<Longrightarrow> content (disk t2) k = content (disk s) k" for k using g'(4) q' r'(2) assms(2) by simp
    have "fs_files (content (disk t2)) t2 = fs_files (content (disk s)) s"
      using assms(3) ft2 c by (intro fs_files_cong) auto
    moreover have "map (content (disk t2)) [257..<266] = map (content (disk s)) [257..<266]" using c by (intro map_cong) auto
    then have "fs_mountable (content (disk t2)) (file_table t2)"
      using assms(4) c [of 256] ft2 unfolding fs_mountable_def table_on_disk_def by simp
    ultimately show ?thesis using e inv ft2 g'(3,5) q' r'(4) by simp
  qed
qed

end

section \<open>The shape of the table\<close>

lemma table_typed_update: "table_typed ft \<Longrightarrow> entry_typed e \<Longrightarrow> table_typed (ft[i := e])"
  using set_update_subset_insert [of ft i e] by (auto simp: table_typed_def)

lemma table_typed_nth: "table_typed ft \<Longrightarrow> i < 64 \<Longrightarrow> entry_typed (ft ! i)"
  by (simp add: table_typed_def)

lemma save_table_same:
  "file_table (snd (save_file_table wr s)) = file_table s" "file_table (snd (save_bitmap wr s)) = file_table s"
  "file_table (save_both wr s) = file_table s"
  by (simp_all add: save_file_table_def save_bitmap_def save_both_def split: prod.splits)

lemma save_table_eq: "save_file_table wr s = (b, s') \<Longrightarrow> file_table s' = file_table s" "save_bitmap wr s = (b, s') \<Longrightarrow> file_table s' = file_table s"
  using save_table_same [of wr s] by auto

lemma find_file_bound: "find_file name s = Some i \<Longrightarrow> i < 64"
  by (simp add: find_file_def find_upt)

lemma opened_typed:
  assumes "table_typed (file_table s)"
  shows "table_typed (file_table (opened name s))" "write_slot (find_file name s) t = Some slot \<Longrightarrow> slot < 64"
proof -
  show "table_typed (file_table (opened name s))"
    using assms find_file_bound [of name s] table_typed_nth [OF assms]
    by (auto simp: opened_def free_entry_def cleared_entry_typed intro!: table_typed_update split: option.split)
  show "write_slot (find_file name s) t = Some slot \<Longrightarrow> slot < 64"
    using find_file_bound [of name s] by (auto simp: write_slot_def find_upt split: option.splits)
qed

lemma chosen_extents_length: "length (chosen_extents data s) \<le> 4"
proof -
  have "length (choose_extents n bm) \<le> 4" if "0 < unat n" for n bm
    using choose_extents_free(1) [OF refl that] by (cases "choose_extents n bm = []") (auto simp: free_extents_def)
  then show ?thesis by (simp add: chosen_extents_def word_gt_0 unat_gt_0)
qed

lemma filled_typed: "entry_typed e \<Longrightarrow> length es \<le> 4 \<Longrightarrow> entry_typed (filled_entry name n es e)"
proof -
  assume e: "entry_typed e" "length es \<le> 4"
  have "length (takeWhile (\<lambda>c. c \<noteq> 0) (take 31 name)) \<le> length (take 31 name)" by (rule length_takeWhile_le)
  then have "length (takeWhile (\<lambda>c. c \<noteq> 0) (take 31 name)) \<le> min (length name) 31" by simp
  then have "length (copy_name (fe_name e) name) = 32" using e(1) by (simp add: copy_name_def Let_def entry_typed_def)
  then show ?thesis using e by (simp add: entry_typed_def filled_entry_def)
qed

lemma stored_typed:
  assumes "table_typed (file_table s)" "slot < 64" "length es \<le> 4"
  shows "table_typed (file_table (snd (stored wr name data slot es s)))"
proof -
  have "entry_typed (filled_entry name (length data) es (file_table s ! slot))" (is "entry_typed ?e")
    using filled_typed [OF table_typed_nth [OF assms(1,2)] assms(3)] .
  moreover have "(file_table s)[slot := ?e] ! slot = ?e" using assms(1,2) by (simp add: table_typed_def)
  ultimately show ?thesis using assms(1)
    by (auto simp: stored_def Let_def save_table_same cleared_entry_typed intro!: table_typed_update dest!: save_table_eq split: prod.splits)
qed

lemma fs_write_typed: "table_typed (file_table s) \<Longrightarrow> table_typed (file_table (snd (fs_write wr name data s)))"
  by (auto simp: fs_write_phases save_table_same intro!: stored_typed opened_typed(1) chosen_extents_length intro: opened_typed(2)
      split: option.split)

lemma fs_remove_typed: "table_typed (file_table s) \<Longrightarrow> table_typed (file_table (snd (fs_remove wr name s)))"
  using table_typed_nth [of "file_table s"] find_file_bound [of name s]
  by (auto simp: fs_remove_def Let_def free_entry_def cleared_entry_typed intro!: table_typed_update dest!: save_table_eq
      split: option.split prod.splits)

lemma fs_format_typed: "table_typed (file_table s) \<Longrightarrow> table_typed (file_table (snd (fs_format wr s)))"
  using empty_table_ok by (auto simp: fs_format_def Let_def table_ok_def dest!: save_table_eq split: prod.splits)

lemma fs_init_typed:
  assumes "table_typed (file_table s)"
  shows "table_typed (file_table (snd (fs_init rd wr s)))"
proof -
  have "table_typed (table_of_bytes (tb @ drop (length tb) (table_bytes (file_table s))))" for tb
    using table_bytes_length [OF assms] by (intro table_of_bytes_typed) simp
  then show ?thesis using assms
    by (auto simp: fs_init_def Let_def rebuild_bitmap_from_file_table_def intro!: fs_format_typed dest!: save_table_eq split: prod.splits)
qed

section \<open>Properties\<close>

text \<open>
  C2. Writing a file refines the update of a map from names to contents, whichever transfers fail: on
  success the name maps to exactly the data and every other file is as before; a name of 32 or more
  characters is refused without effect; on any other failure a file of that name is gone and every other
  file is as before. The invariant (disjoint extents, exact bitmap, distinct names) holds afterwards.
\<close>

theorem fs_write_refines:
  assumes "fs_inv s" "disk_idle (disk s)" "0 \<notin> set name" "length data < 2 ^ 32" "fs_write (ata_write pio) name data s = (b, s')"
  shows "fs_inv s' \<and> disk_idle (disk s') \<and> fs_files (disk_sector (disk s')) s' =
    (if b then (fs_files (disk_sector (disk s)) s)(name \<mapsto> data)
     else if length name \<ge> 32 then fs_files (disk_sector (disk s)) s
     else (fs_files (disk_sector (disk s)) s)(name := None))"
  using ata_disk.fs_write_correct [OF assms] by (simp add: fs_outcome_def)

definition empty_fs :: "pio_disk ata_state \<Rightarrow> pio_disk ata_state fs_state" where
  "empty_fs d = \<lparr>file_table = replicate 64 empty_entry, fs_bitmap = (\<lambda>_. 0), disk = d\<rparr>"

lemma empty_fs_facts: "fs_inv (empty_fs d)" "disk (empty_fs d) = d" "fs_files c (empty_fs d) = Map.empty"
proof -
  have fb: "file_blocks (replicate 64 empty_entry ! i) = {}" "used (replicate 64 empty_entry ! i) = 0" if "i < 64" for i
    using that by (simp_all add: file_blocks_def empty_entry_def)
  then show i: "fs_inv (empty_fs d)" using empty_table_ok by (auto simp: fs_inv_def empty_fs_def bit_test_def)
  show "disk (empty_fs d) = d" by (simp add: empty_fs_def)
  show "fs_files c (empty_fs d) = Map.empty"
    using fb(2) by (intro fs_files_eqI) (auto simp: fs_files_iff [OF fs_inv_table(1) [OF i]] simp: empty_fs_def [THEN arg_cong [of _ _ file_table]])
qed

lemma blank_disk_works: "disk_works blank_disk" "disk_idle blank_disk"
  by (simp_all add: disk_works_def disk_idle_def blank_disk_def)

theorem fs_write_refines_witness:
  "\<exists>b s'. fs_write (ata_write pio) [97] [1, 2, 3] (empty_fs blank_disk) = (b, s') \<and>
     fs_files (disk_sector (disk s')) s' = (if b then [[97] \<mapsto> [1, 2, 3]] else Map.empty)"
proof -
  obtain b s' where w: "fs_write (ata_write pio) [97] [1, 2, 3] (empty_fs blank_disk) = (b, s')" by fastforce
  show ?thesis using fs_write_refines [OF empty_fs_facts(1) _ _ _ w] w blank_disk_works(2) by (auto simp: empty_fs_facts)
qed

text \<open>
  C22. What was written is read back: on a disk without failures, if the name has at most 31 characters,
  an entry is available and enough consecutive blocks are free, then the write succeeds, and a read of
  that name returns the data, cut off at the capacity of the buffer.
\<close>

theorem fs_write_read:
  assumes "fs_inv s" "disk_works (disk s)" "0 \<notin> set name" "length name < 32" "length data < 2 ^ 32"
    "find_file name s \<noteq> None \<or> (\<exists>i<64. used (file_table s ! i) = 0)"
    "r + (length data + 511) div 512 \<le> 32494" "\<forall>b\<in>{r..<r + (length data + 511) div 512}. \<not> bit_test (fs_bitmap s) b"
  shows "\<exists>s1 s2. fs_write (ata_write pio) name data s = (True, s1) \<and> fs_read (ata_read pio) name cap s1 = (True, take cap data, s2)"
proof -
  obtain b s1 where w: "fs_write (ata_write pio) name data s = (b, s1)" by fastforce
  have b: "b" "disk_works (disk s1)"
    using ata_disk.fs_write_succeeds [OF assms(1-6), of r] assms(7,8) w by (simp_all add: blocks_for_def)
  have "disk_idle (disk s)" using assms(2) by (simp add: disk_works_def)
  then have i: "fs_inv s1" "disk_idle (disk s1)" "fs_files (disk_sector (disk s1)) s1 name = Some data"
    using ata_disk.fs_write_correct [OF assms(1) _ assms(3,5) w] b(1) by (simp_all add: fs_outcome_def)
  obtain c bs s2 where r: "fs_read (ata_read pio) name cap s1 = (c, bs, s2)" by (cases "fs_read (ata_read pio) name cap s1") auto
  show ?thesis using ata_disk.fs_read_correct [OF i(1,2) assms(3) r] i(3) b w r by auto
qed

theorem fs_write_read_witness:
  "\<exists>s1 s2. fs_write (ata_write pio) [97] [1, 2, 3] (empty_fs blank_disk) = (True, s1) \<and>
     fs_read (ata_read pio) [97] 2 s1 = (True, [1, 2], s2)"
proof -
  have "used (file_table (empty_fs blank_disk) ! 0) = 0" by (simp add: empty_fs_def empty_entry_def)
  then have e: "\<exists>i<64. used (file_table (empty_fs blank_disk) ! i) = 0" by (intro exI [of _ 0]) simp
  have f: "\<not> bit_test (fs_bitmap (empty_fs blank_disk)) b" for b by (simp add: empty_fs_def bit_test_def)
  show ?thesis
    using fs_write_read [OF empty_fs_facts(1) [of blank_disk], of "[97]" "[1, 2, 3]" 0 2]
      e f blank_disk_works(1) by (simp add: empty_fs_facts(2))
qed



text \<open>
  C9. Files survive a reboot: after a successful write or removal on a formatted disk, mounting the disk
  with any table and bitmap in memory (reading the table, rebuilding the bitmap from it) restores the
  invariant and exactly the files that were there, and the disk stays mountable.
\<close>

theorem fs_reboot:
  assumes "fs_inv s" "disk_idle (disk s)" "valid_magic (disk_sector (disk s) 256)" "0 \<notin> set name" "length data < 2 ^ 32"
    "fs_write (ata_write pio) name data s = (True, s') \<and> files = (fs_files (disk_sector (disk s)) s)(name \<mapsto> data) \<or>
     fs_remove (ata_write pio) name s = (True, s') \<and> files = (fs_files (disk_sector (disk s)) s)(name := None)"
    "disk t = disk s'" "fs_init (ata_read pio) (ata_write pio) t = (True, t')"
  shows "fs_inv t' \<and> fs_files (disk_sector (disk t')) t' = files \<and> fs_mountable (disk_sector (disk t')) (file_table t')"
proof -
  have o: "fs_outcome disk_sector disk_idle s s' files \<and> table_on_disk (disk_sector (disk s')) (file_table s')"
    using assms(6) ata_disk.fs_write_correct [OF assms(1,2,4,5), of True s'] ata_disk.fs_remove_correct [OF assms(1,2,4), of True s'] by auto
  then have "fs_mountable (disk_sector (disk s')) (file_table s')" "table_ok (file_table s')" "disk_idle (disk t)"
    using assms(3,7) fs_inv_table(1) by (auto simp: fs_outcome_def fs_mountable_def)
  then show ?thesis using ata_disk.fs_init_correct [OF _ assms(7) _ _ assms(8)] o unfolding fs_outcome_def by metis
qed

lemma first_file:
  obtains s s' where "fs_format (ata_write pio) (empty_fs blank_disk) = (True, s)" "fs_inv s" "disk_works (disk s)"
    "fs_files (disk_sector (disk s)) s = Map.empty" "valid_magic (disk_sector (disk s) 256)"
    "fs_write (ata_write pio) [97] [1, 2, 3] s = (True, s')" "disk_works (disk s')"
proof -
  obtain b s where f: "fs_format (ata_write pio) (empty_fs blank_disk) = (b, s)" by fastforce
  have s: "b" "fs_inv s" "disk_works (disk s)" "fs_files (disk_sector (disk s)) s = Map.empty" "valid_magic (disk_sector (disk s) 256)"
    using ata_disk.fs_format_correct [OF _ f] blank_disk_works by (auto simp: empty_fs_facts fs_mountable_def)
  have no: "fs_files (disk_sector (disk s)) s n = None" for n using s(4) by simp
  have un: "used (file_table s ! i) = 0" if "i < 64" for i
    using no [of "cname (fe_name (file_table s ! i))"] fs_files_iff [OF fs_inv_table(1) [OF s(2)] cname_no_zero] that by (metis option.distinct(1))
  then have "\<not> bit_test (fs_bitmap s) 0" using s(2) by (simp add: fs_inv_def file_blocks_def)
  moreover have "\<exists>i<64. used (file_table s ! i) = 0" using un by (intro exI [of _ 0]) simp
  ultimately have "fst (fs_write (ata_write pio) [97] [1, 2, 3] s) \<and> disk_works (disk (snd (fs_write (ata_write pio) [97] [1, 2, 3] s)))"
    using s(2,3) by (intro ata_disk.fs_write_succeeds [of s _ _ 0]) (simp_all add: blocks_for_def)
  then show thesis using that [OF _ s(2-5)] f s(1) by (metis prod.collapse)
qed

theorem fs_reboot_witness:
  "\<exists>s s' t'. fs_format (ata_write pio) (empty_fs blank_disk) = (True, s) \<and> fs_write (ata_write pio) [97] [1, 2, 3] s = (True, s') \<and>
     fs_init (ata_read pio) (ata_write pio) s' = (True, t') \<and> fs_files (disk_sector (disk t')) t' = [[97] \<mapsto> [1, 2, 3]]"
proof -
  obtain s s' where s: "fs_format (ata_write pio) (empty_fs blank_disk) = (True, s)" "fs_inv s" "disk_works (disk s)"
    "fs_files (disk_sector (disk s)) s = Map.empty" "valid_magic (disk_sector (disk s) 256)"
    "fs_write (ata_write pio) [97] [1, 2, 3] s = (True, s')" "disk_works (disk s')" using first_file .
  have i: "disk_idle (disk s)" "disk_idle (disk s')" using s(3,7) by (simp_all add: disk_works_def)
  obtain b t' where t: "fs_init (ata_read pio) (ata_write pio) s' = (b, t')" by fastforce
  have o: "fs_outcome disk_sector disk_idle s s' [[97] \<mapsto> [1, 2, 3]]" "table_on_disk (disk_sector (disk s')) (file_table s')"
    using ata_disk.fs_write_correct [OF s(2) i(1) _ _ s(6)] s(4) by simp_all
  have "table_ok (file_table s')" "fs_mountable (disk_sector (disk s')) (file_table s')"
    using o s(5) fs_inv_table(1) [of s'] by (simp_all add: fs_outcome_def fs_mountable_def)
  then have b: "b = True" using ata_disk.fs_init_correct [OF i(2) refl _ _ t] s(7) by simp
  have "fs_files (disk_sector (disk t')) t' = [[97] \<mapsto> [1, 2, 3]]"
    using fs_reboot [OF s(2) i(1) s(5), of "[97]" "[1, 2, 3]" s' "[[97] \<mapsto> [1, 2, 3]]" s' t'] s(4,6) t b by simp
  then show ?thesis using s(1,6) t b by blast
qed

text \<open>
  The table keeps its shape whatever the device does: after formatting, mounting, writing or removing
  there are 64 entries, with 32 characters of name, 2 reserved bytes and 4 extents each, as the layout on
  disk needs; neither a failing nor a lying device can change that.
\<close>

lemma fs_table_typed:
  assumes "table_typed (file_table s)"
  shows "table_typed (file_table (snd (fs_format wr s))) \<and> table_typed (file_table (snd (fs_init rd wr s))) \<and>
    table_typed (file_table (snd (fs_write wr name data s))) \<and> table_typed (file_table (snd (fs_remove wr name s)))"
  using fs_format_typed [OF assms] fs_init_typed [OF assms] fs_write_typed [OF assms] fs_remove_typed [OF assms] by simp

lemma fs_table_typed_witness:
  "table_typed (file_table (snd (fs_init (\<lambda>lba n d. (False, [1, 2, 3], d)) (\<lambda>lba n bs d. (False, d)) (empty_fs blank_disk))))"
  using fs_table_typed [OF fs_inv_table(2) [OF empty_fs_facts(1)]] by blast

end
