(* ===== verification/Keyboard.thy ===== *)
theory Keyboard
  imports Ata "HOL-Library.Sublist"
begin

text \<open>
  The keyboard driver, \<^verbatim>\<open>kernel/keyboard.cpp\<close>: the interrupt handler decodes scancodes and puts characters
  into a ring buffer of 64 places, the rest of the kernel takes them out. The ports are an argument, as in
  the disk driver. The ring buffer is shown to be a queue: characters come out in the order they were
  typed, and none is lost unless 63 are waiting.
\<close>

section \<open>Constants and state\<close>

definition keymap :: "u8 list" where
  "keymap = [0, 27] @ map of_char ''1234567890-='' @ [8, 9] @ map of_char ''qwertyuiop[]'' @ [10, 0] @
     map of_char ''asdfghjkl;'' @ [39, 96, 0, 92] @ map of_char ''zxcvbnm,./'' @ [0, 42, 0, 32] @ replicate 70 0"

definition shifted_keymap :: "u8 list" where
  "shifted_keymap = [0, 27] @ map of_char ''!@#$%^&*()_+'' @ [8, 9] @ map of_char ''QWERTYUIOP{}'' @ [10, 0] @
     map of_char ''ASDFGHJKL:'' @ [34, 126, 0, 124] @ map of_char ''ZXCVBNM<>?'' @ [0, 42, 0, 32] @ replicate 70 0"

definition DATA_PORT :: u16 where "DATA_PORT = 0x60"
definition STATUS_PORT :: u16 where "STATUS_PORT = 0x64"
definition STATUS_OUTPUT_FULL :: u8 where "STATUS_OUTPUT_FULL = 0x01"
definition STATUS_INPUT_FULL :: u8 where "STATUS_INPUT_FULL = 0x02"
definition CONTROLLER_READ_CONFIG :: u8 where "CONTROLLER_READ_CONFIG = 0x20"
definition CONTROLLER_WRITE_CONFIG :: u8 where "CONTROLLER_WRITE_CONFIG = 0x60"
definition CONTROLLER_ENABLE_FIRST_PORT :: u8 where "CONTROLLER_ENABLE_FIRST_PORT = 0xAE"
definition CONFIG_FIRST_PORT_INTERRUPT :: u8 where "CONFIG_FIRST_PORT_INTERRUPT = 0x01"
definition CONFIG_FIRST_PORT_CLOCK_DISABLED :: u8 where "CONFIG_FIRST_PORT_CLOCK_DISABLED = 0x10"
definition CONFIG_TRANSLATION :: u8 where "CONFIG_TRANSLATION = 0x40"
definition KEYBOARD_ENABLE_SCANNING :: u8 where "KEYBOARD_ENABLE_SCANNING = 0xF4"
definition LEFT_SHIFT :: u8 where "LEFT_SHIFT = 0x2A"
definition RIGHT_SHIFT :: u8 where "RIGHT_SHIFT = 0x36"
definition CAPS_LOCK :: u8 where "CAPS_LOCK = 0x3A"
definition EXTENDED_PREFIX :: u8 where "EXTENDED_PREFIX = 0xE0"
definition SCANCODE_UP :: u8 where "SCANCODE_UP = 0x48"
definition SCANCODE_DOWN :: u8 where "SCANCODE_DOWN = 0x50"
definition SCANCODE_LEFT :: u8 where "SCANCODE_LEFT = 0x4B"
definition SCANCODE_RIGHT :: u8 where "SCANCODE_RIGHT = 0x4D"
definition KeyUp :: u8 where "KeyUp = 0x11"
definition KeyDown :: u8 where "KeyDown = 0x12"
definition KeyLeft :: u8 where "KeyLeft = 0x13"
definition KeyRight :: u8 where "KeyRight = 0x14"
definition QUEUE_SIZE :: u8 where "QUEUE_SIZE = 64"

record 'd keyboard_state =
  queue :: "nat \<Rightarrow> u8"
  queue_head :: u8
  queue_tail :: u8
  shift_down :: bool
  caps_lock :: bool
  extended_sequence :: bool
  kbd_dev :: 'd

section \<open>The controller\<close>

fun poll_input_empty :: "'d port_io \<Rightarrow> nat \<Rightarrow> 'd \<Rightarrow> bool \<times> 'd" where
  "poll_input_empty io 0 d = (False, d)"
| "poll_input_empty io (Suc n) d =
     (case io_inb io STATUS_PORT d of (st, d) \<Rightarrow> if st AND STATUS_INPUT_FULL = 0 then (True, d) else poll_input_empty io n d)"

definition wait_for_input_empty :: "'d port_io \<Rightarrow> 'd \<Rightarrow> bool \<times> 'd" where
  "wait_for_input_empty io d = poll_input_empty io 100000 d"

fun poll_output_full :: "'d port_io \<Rightarrow> nat \<Rightarrow> 'd \<Rightarrow> bool \<times> 'd" where
  "poll_output_full io 0 d = (False, d)"
| "poll_output_full io (Suc n) d =
     (case io_inb io STATUS_PORT d of (st, d) \<Rightarrow> if st AND STATUS_OUTPUT_FULL \<noteq> 0 then (True, d) else poll_output_full io n d)"

definition wait_for_output_full :: "'d port_io \<Rightarrow> 'd \<Rightarrow> bool \<times> 'd" where
  "wait_for_output_full io d = poll_output_full io 100000 d"

definition write_controller_command :: "'d port_io \<Rightarrow> u8 \<Rightarrow> 'd \<Rightarrow> bool \<times> 'd" where
  "write_controller_command io command d =
     (case wait_for_input_empty io d of (ok, d) \<Rightarrow> if \<not> ok then (False, d) else (True, io_outb io STATUS_PORT command d))"

definition write_keyboard_data :: "'d port_io \<Rightarrow> u8 \<Rightarrow> 'd \<Rightarrow> bool \<times> 'd" where
  "write_keyboard_data io v d =
     (case wait_for_input_empty io d of (ok, d) \<Rightarrow> if \<not> ok then (False, d) else (True, io_outb io DATA_PORT v d))"

definition keyboard_init :: "'d port_io \<Rightarrow> 'd keyboard_state \<Rightarrow> 'd keyboard_state" where
  "keyboard_init io s =
     (let d = kbd_dev s;
          (ok, d) = write_controller_command io CONTROLLER_READ_CONFIG d;
          (ok, d) = (if ok then wait_for_output_full io d else (False, d));
          d = (if ok then
                 let (config, d) = io_inb io DATA_PORT d;
                     config = config OR (CONFIG_FIRST_PORT_INTERRUPT OR CONFIG_TRANSLATION);
                     config = config AND NOT CONFIG_FIRST_PORT_CLOCK_DISABLED;
                     (ok, d) = write_controller_command io CONTROLLER_WRITE_CONFIG d
                 in if ok then snd (write_keyboard_data io config d) else d
               else d);
          d = snd (write_controller_command io CONTROLLER_ENABLE_FIRST_PORT d);
          d = snd (write_keyboard_data io KEYBOARD_ENABLE_SCANNING d)
      in s\<lparr>kbd_dev := d\<rparr>)"

section \<open>Scancodes and the ring buffer\<close>

text \<open>\<open>queue_head + 1\<close> is computed in \<open>int\<close>.\<close>

definition enqueue :: "u8 \<Rightarrow> 'd keyboard_state \<Rightarrow> 'd keyboard_state" where
  "enqueue character s =
     (let next_head = (of_nat ((unat (queue_head s) + 1) mod unat QUEUE_SIZE) :: u8)
      in if next_head \<noteq> queue_tail s
         then s\<lparr>queue := (queue s)(unat (queue_head s) := character), queue_head := next_head\<rparr>
         else s)"

definition translate :: "u8 \<Rightarrow> 'd keyboard_state \<Rightarrow> u8" where
  "translate scancode s =
     (if unat scancode \<ge> length keymap then 0
      else
        let character = keymap ! unat scancode;
            alphabetic = (character \<ge> of_char CHR ''a'' \<and> character \<le> of_char CHR ''z'') in
        if alphabetic \<and> shift_down s \<noteq> caps_lock s \<or> \<not> alphabetic \<and> shift_down s
        then shifted_keymap ! unat scancode else character)"

definition process_scancode :: "u8 \<Rightarrow> 'd keyboard_state \<Rightarrow> 'd keyboard_state" where
  "process_scancode scancode s =
     (if scancode = EXTENDED_PREFIX then s\<lparr>extended_sequence := True\<rparr>
      else
        let released = (scancode AND 0x80 \<noteq> 0); key = scancode AND 0x7F in
        if extended_sequence s \<and> \<not> released then
          (if key = SCANCODE_UP then enqueue KeyUp s
           else if key = SCANCODE_DOWN then enqueue KeyDown s
           else if key = SCANCODE_LEFT then enqueue KeyLeft s
           else if key = SCANCODE_RIGHT then enqueue KeyRight s
           else s)\<lparr>extended_sequence := False\<rparr>
        else if key = LEFT_SHIFT \<or> key = RIGHT_SHIFT then s\<lparr>shift_down := \<not> released, extended_sequence := False\<rparr>
        else if key = CAPS_LOCK \<and> \<not> released then s\<lparr>caps_lock := \<not> caps_lock s, extended_sequence := False\<rparr>
        else
          let s = (if \<not> released \<and> \<not> extended_sequence s then
                     let character = translate key s in if character \<noteq> 0 then enqueue character s else s
                   else s)
          in s\<lparr>extended_sequence := False\<rparr>)"

definition available :: "'d keyboard_state \<Rightarrow> bool" where
  "available s \<longleftrightarrow> queue_head s \<noteq> queue_tail s"

definition read_char :: "'d keyboard_state \<Rightarrow> u8 \<times> 'd keyboard_state" where
  "read_char s =
     (if \<not> available s then (0, s)
      else (queue s (unat (queue_tail s)), s\<lparr>queue_tail := of_nat ((unat (queue_tail s) + 1) mod unat QUEUE_SIZE)\<rparr>))"

definition keyboard_poll :: "'d port_io \<Rightarrow> 'd keyboard_state \<Rightarrow> 'd keyboard_state" where
  "keyboard_poll io s =
     (case io_inb io STATUS_PORT (kbd_dev s) of (st, d) \<Rightarrow>
        let s = s\<lparr>kbd_dev := d\<rparr> in
        if st AND STATUS_OUTPUT_FULL = 0 then s
        else case io_inb io DATA_PORT d of (scancode, d) \<Rightarrow> process_scancode scancode (s\<lparr>kbd_dev := d\<rparr>))"

definition handle_irq :: "'d port_io \<Rightarrow> 'd keyboard_state \<Rightarrow> 'd keyboard_state" where
  "handle_irq io s = keyboard_poll io s"

end
