(* ===== verification/Keyboard_Correct.thy ===== *)
theory Keyboard_Correct
  imports Keyboard
begin

text \<open>
  The ring buffer of the keyboard driver is a bounded queue, and the driver as a whole hands on the
  characters that were typed, in order.
\<close>

section \<open>A bounded queue\<close>

locale bounded_queue =
  fixes inv :: "'s \<Rightarrow> bool"
    and items :: "'s \<Rightarrow> 'c list"
    and put :: "'c \<Rightarrow> 's \<Rightarrow> 's"
    and some :: "'s \<Rightarrow> bool"
    and get :: "'s \<Rightarrow> 'c \<times> 's"
    and cap :: nat
  assumes put_law: "inv s \<Longrightarrow> inv (put c s) \<and> items (put c s) = (if length (items s) < cap then items s @ [c] else items s)"
    and some_law: "inv s \<Longrightarrow> some s \<longleftrightarrow> items s \<noteq> []"
    and get_law: "inv s \<Longrightarrow> some s \<Longrightarrow> get s = (c, s') \<Longrightarrow> inv s' \<and> items s = c # items s'"
begin

lemma put_subseq: "inv s \<Longrightarrow> subseq (items (put c s)) (items s @ [c])"
  using put_law [of s c] by (auto intro: subseq_rev_drop_many)

lemma put_exact: "inv s \<Longrightarrow> length (items s) < cap \<Longrightarrow> items (put c s) = items s @ [c]"
  using put_law by simp

end

definition kbd_inv :: "'d keyboard_state \<Rightarrow> bool" where
  "kbd_inv s \<longleftrightarrow> unat (queue_head s) < 64 \<and> unat (queue_tail s) < 64"

definition waiting :: "'d keyboard_state \<Rightarrow> u8 list" where
  "waiting s = map (\<lambda>i. queue s ((unat (queue_tail s) + i) mod 64)) [0..<(unat (queue_head s) + 64 - unat (queue_tail s)) mod 64]"

lemma next_place: "unat (of_nat ((unat (h :: u8) + 1) mod unat QUEUE_SIZE) :: u8) = (unat h + 1) mod 64"
  by (simp add: QUEUE_SIZE_def unat_of_nat mod_mod_cancel take_bit_eq_mod)

lemma ring_length: "h < 64 \<Longrightarrow> t < 64 \<Longrightarrow> (h + 64 - t) mod 64 = (if t \<le> h then h - t else h + 64 - t)" for h t :: nat
proof (cases "t \<le> h")
  case True
  assume "h < 64" "t < 64"
  moreover have "h + 64 - t = (h - t) + 64" using True by simp
  ultimately show ?thesis using True by (simp only: mod_add_self2) simp
qed simp

lemma ring_next: "h < 64 \<Longrightarrow> (h + 1) mod 64 = (if h = 63 then 0 else h + 1)" for h :: nat
  by (cases "h = 63") simp_all

lemma ring_at: "t < 64 \<Longrightarrow> i < 64 \<Longrightarrow> (t + i) mod 64 = (if t + i < 64 then t + i else t + i - 64)" for t i :: nat
  by (simp add: le_mod_geq)

lemma ring_advance:
  assumes "h < 64" "t < (64 :: nat)"
  shows "(h + 1) mod 64 \<noteq> t \<Longrightarrow> ((h + 1) mod 64 + 64 - t) mod 64 = Suc ((h + 64 - t) mod 64)"
    "(t + (h + 64 - t) mod 64) mod 64 = h" "(h + 1) mod 64 = t \<longleftrightarrow> (h + 64 - t) mod 64 = 63"
    "h \<noteq> t \<Longrightarrow> (h + 64 - t) mod 64 = Suc ((h + 64 - (t + 1) mod 64) mod 64)" "h = t \<longleftrightarrow> (h + 64 - t) mod 64 = 0"
    "i < (h + 64 - t) mod 64 \<Longrightarrow> (t + i) mod 64 \<noteq> h"
proof -
  define h' where "h' = (h + 1) mod 64"
  define t' where "t' = (t + 1) mod 64"
  have n: "h' < 64" "t' < 64" by (simp_all add: h'_def t'_def)
  have e: "h' = (if h = 63 then 0 else h + 1)" "t' = (if t = 63 then 0 else t + 1)"
    unfolding h'_def t'_def using assms by (simp_all add: ring_next del: One_nat_def)
  note r = ring_length [OF assms]
  show "(h + 1) mod 64 \<noteq> t \<Longrightarrow> ((h + 1) mod 64 + 64 - t) mod 64 = Suc ((h + 64 - t) mod 64)"
    unfolding h'_def [symmetric] ring_length [OF n(1) assms(2)] r using e assms by (auto split: if_splits)
  show "(t + (h + 64 - t) mod 64) mod 64 = h" unfolding r using assms by (auto simp: le_mod_geq)
  show "(h + 1) mod 64 = t \<longleftrightarrow> (h + 64 - t) mod 64 = 63" unfolding h'_def [symmetric] r using e assms by (auto split: if_splits)
  show "h \<noteq> t \<Longrightarrow> (h + 64 - t) mod 64 = Suc ((h + 64 - (t + 1) mod 64) mod 64)"
    unfolding t'_def [symmetric] ring_length [OF assms(1) n(2)] r using e assms by (auto split: if_splits)
  show "h = t \<longleftrightarrow> (h + 64 - t) mod 64 = 0" unfolding r using assms by auto
  show "(t + i) mod 64 \<noteq> h" if "i < (h + 64 - t) mod 64"
  proof -
    have i: "i < 64" using that by (rule less_trans) simp
    show ?thesis using that assms unfolding r ring_at [OF assms(2) i] by (auto split: if_splits)
  qed
qed

lemma enqueue_queue:
  assumes "kbd_inv s"
  shows "kbd_inv (enqueue c s) \<and> waiting (enqueue c s) = (if length (waiting s) < 63 then waiting s @ [c] else waiting s)"
proof -
  let ?h = "unat (queue_head s)" and ?t = "unat (queue_tail s)"
  have b: "?h < 64" "?t < 64" using assms by (simp_all add: kbd_inv_def)
  let ?n = "(?h + 64 - ?t) mod 64"
  have full: "of_nat ((?h + 1) mod unat QUEUE_SIZE) = queue_tail s \<longleftrightarrow> ?n = 63"
    unfolding word_unat_eq_iff next_place using ring_advance(3) [OF b] .
  have n: "?n \<le> 63" by simp
  show ?thesis
  proof (cases "?n = 63")
    case True
    then show ?thesis using assms full by (simp add: enqueue_def waiting_def)
  next
    case False
    let ?s = "enqueue c s"
    have s: "queue ?s = (queue s)(?h := c)" "unat (queue_head ?s) = (?h + 1) mod 64" "queue_tail ?s = queue_tail s"
      using False full next_place [of "queue_head s"] by (simp_all add: enqueue_def Let_def)
    have "(?h + 1) mod 64 \<noteq> ?t" using ring_advance(3) [OF b] False by simp
    then have len: "(unat (queue_head ?s) + 64 - ?t) mod 64 = Suc ?n" unfolding s(2) using ring_advance(1) [OF b] by simp
    have "(?t + i) mod 64 \<noteq> ?h" if "i < ?n" for i using ring_advance(6) [OF b that] .
    then have "map (\<lambda>i. queue ?s ((?t + i) mod 64)) [0..<?n] = waiting s" unfolding waiting_def s(1) by (intro map_cong) auto
    moreover have "queue ?s ((?t + ?n) mod 64) = c" unfolding s(1) ring_advance(2) [OF b] by simp
    ultimately have "waiting ?s = waiting s @ [c]" unfolding waiting_def [of ?s] s(3) len by simp
    then show ?thesis using b s False n by (simp add: kbd_inv_def waiting_def [of s])
  qed
qed

interpretation kbd_queue: bounded_queue kbd_inv waiting enqueue available read_char 63
proof (unfold_locales, goal_cases)
  case (1 s c)
  then show ?case by (rule enqueue_queue)
next
  case (2 s)
  then have b: "unat (queue_head s) < 64" "unat (queue_tail s) < 64" by (simp_all add: kbd_inv_def)
  show ?case using ring_advance(5) [OF b] by (auto simp: available_def waiting_def word_unat_eq_iff)
next
  case (3 s c s')
  let ?h = "unat (queue_head s)" and ?t = "unat (queue_tail s)"
  have b: "?h < 64" "?t < 64" using 3(1) by (simp_all add: kbd_inv_def)
  have r: "c = queue s ?t" "queue s' = queue s" "queue_head s' = queue_head s" "unat (queue_tail s') = (?t + 1) mod 64"
    using 3(2,3) next_place [of "queue_tail s"] by (auto simp: read_char_def)
  have "?h \<noteq> ?t" using 3(2) by (simp add: available_def word_unat_eq_iff)
  then have len: "(?h + 64 - ?t) mod 64 = Suc ((?h + 64 - (?t + 1) mod 64) mod 64)" using ring_advance(4) [OF b] by simp
  have "(?t + Suc i) mod 64 = ((?t + 1) mod 64 + i) mod 64" for i by (simp add: mod_simps)
  then have "waiting s = c # waiting s'"
    unfolding waiting_def len r(2,3,4) using r(1) b by (simp add: upt_conv_Cons map_Suc_upt [symmetric] comp_def del: upt_Suc)
  then show ?case using b r by (simp add: kbd_inv_def)
qed

section \<open>Decoding\<close>

text \<open>What a scancode means, given shift, caps lock and a preceding prefix: the characters it produces and the new modifiers.\<close>

type_synonym modifiers = "bool \<times> bool \<times> bool"

definition key_char :: "bool \<Rightarrow> bool \<Rightarrow> u8 \<Rightarrow> u8" where
  "key_char shift caps key =
     (let c = keymap ! unat key in
      if (if 97 \<le> c \<and> c \<le> 122 then shift \<noteq> caps else shift) then shifted_keymap ! unat key else c)"

definition arrow_char :: "u8 \<Rightarrow> u8" where
  "arrow_char key = (if key = 0x48 then 0x11 else if key = 0x50 then 0x12 else if key = 0x4B then 0x13 else if key = 0x4D then 0x14 else 0)"

definition typed :: "u8 \<Rightarrow> u8 list" where
  "typed c = (if c = 0 then [] else [c])"

fun decode :: "u8 \<Rightarrow> modifiers \<Rightarrow> u8 list \<times> modifiers" where
  "decode code (shift, caps, ext) =
     (let key = code AND 0x7F; released = bit code 7 in
      if code = 0xE0 then ([], shift, caps, True)
      else if ext \<and> \<not> released then (typed (arrow_char key), shift, caps, False)
      else if key = 0x2A \<or> key = 0x36 then ([], \<not> released, caps, False)
      else if released then ([], shift, caps, False)
      else if key = 0x3A then ([], shift, \<not> caps, False)
      else (typed (key_char shift caps key), shift, caps, False))"

definition modifiers_of :: "'d keyboard_state \<Rightarrow> modifiers" where
  "modifiers_of s = (shift_down s, caps_lock s, extended_sequence s)"

lemma enqueue_frame [simp]:
  "shift_down (enqueue c s) = shift_down s" "caps_lock (enqueue c s) = caps_lock s" "extended_sequence (enqueue c s) = extended_sequence s"
  "kbd_dev (enqueue c s) = kbd_dev s"
  by (simp_all add: enqueue_def Let_def)

lemma queue_cong:
  assumes "queue s' = queue s" "queue_head s' = queue_head s" "queue_tail s' = queue_tail s"
  shows "kbd_inv s' = kbd_inv s" "waiting s' = waiting s"
  using assms by (simp_all add: kbd_inv_def waiting_def)

lemmas key_codes = EXTENDED_PREFIX_def LEFT_SHIFT_def RIGHT_SHIFT_def CAPS_LOCK_def SCANCODE_UP_def SCANCODE_DOWN_def SCANCODE_LEFT_def
  SCANCODE_RIGHT_def KeyUp_def KeyDown_def KeyLeft_def KeyRight_def

lemma translate_key_char:
  assumes "unat key < 128"
  shows "translate key s = key_char (shift_down s) (caps_lock s) key"
proof -
  have "length keymap = 128" by (simp add: keymap_def)
  moreover have "(of_char CHR ''a'' :: u8) = 97" "(of_char CHR ''z'' :: u8) = 122" by simp_all
  ultimately show ?thesis using assms unfolding translate_def key_char_def Let_def by (simp only: if_False not_le) auto
qed

definition put_all :: "u8 list \<Rightarrow> 'd keyboard_state \<Rightarrow> 'd keyboard_state" where
  "put_all cs s = fold enqueue cs s"

lemma released_bit: "scancode AND 0x80 \<noteq> 0 \<longleftrightarrow> bit scancode 7" for scancode :: u8
  using bit_iff_and_push_bit_not_eq_0 [of scancode 7] by (simp add: push_bit_eq_mult)

lemma process_scancode_decode:
  assumes "decode code (modifiers_of s) = (cs, m)"
  shows "modifiers_of (process_scancode code s) = m" "kbd_dev (process_scancode code s) = kbd_dev s"
    "queue (process_scancode code s) = queue (put_all cs s)" "queue_head (process_scancode code s) = queue_head (put_all cs s)"
    "queue_tail (process_scancode code s) = queue_tail (put_all cs s)" "length cs \<le> 1"
proof -
  have k: "unat (code AND 0x7F) < 128"
  proof -
    have "code AND 0x7F \<le> 0x7F" by (rule word_and_le1)
    then show ?thesis by (simp add: word_le_nat_alt)
  qed
  have d: "decode code (shift_down s, caps_lock s, extended_sequence s) = (cs, m)" using assms by (simp add: modifiers_of_def)
  let ?p = "process_scancode code s" and ?key = "code AND 0x7F"
  have "modifiers_of ?p = m \<and> kbd_dev ?p = kbd_dev s \<and> queue ?p = queue (put_all cs s) \<and> queue_head ?p = queue_head (put_all cs s) \<and>
      queue_tail ?p = queue_tail (put_all cs s) \<and> length cs \<le> 1" (is ?goal)
  proof (cases "code = 0xE0")
    case True
    then show ?thesis using d by (auto simp: process_scancode_def key_codes modifiers_of_def put_all_def)
  next
    case e0: False
    define ext rel where "ext = extended_sequence s" and "rel = bit code 7"
    have dd: "(if ext \<and> \<not> rel then (typed (arrow_char ?key), shift_down s, caps_lock s, False)
        else if ?key = 0x2A \<or> ?key = 0x36 then ([], \<not> rel, caps_lock s, False)
        else if rel then ([], shift_down s, caps_lock s, False)
        else if ?key = 0x3A then ([], shift_down s, \<not> caps_lock s, False)
        else (typed (key_char (shift_down s) (caps_lock s) ?key), shift_down s, caps_lock s, False)) = (cs, m)"
      using d e0 unfolding decode.simps Let_def ext_def rel_def by simp
    note p = process_scancode_def [of code s, unfolded released_bit translate_key_char [OF k] key_codes Let_def, folded ext_def rel_def]
    consider "ext \<and> \<not> rel" | "\<not> (ext \<and> \<not> rel)" "?key = 0x2A \<or> ?key = 0x36"
      | "\<not> (ext \<and> \<not> rel)" "\<not> (?key = 0x2A \<or> ?key = 0x36)" by blast
    then show ?thesis
    proof cases
      case 1
      have q: "?p = (put_all (typed (arrow_char ?key)) s)\<lparr>extended_sequence := False\<rparr>"
        unfolding p using e0 1 by (simp add: arrow_char_def typed_def put_all_def)
      have "cs = typed (arrow_char ?key)" "m = (shift_down s, caps_lock s, False)" using dd 1 by auto
      then show ?thesis unfolding q by (simp add: modifiers_of_def typed_def put_all_def)
    next
      case 2
      have q: "?p = s\<lparr>shift_down := \<not> rel, extended_sequence := False\<rparr>"
        unfolding p if_not_P [OF e0] if_not_P [OF 2(1)] if_P [OF 2(2)] ..
      have "cs = []" "m = (\<not> rel, caps_lock s, False)" using dd 2 by auto
      then show ?thesis unfolding q by (simp add: modifiers_of_def put_all_def)
    next
      case 3
      show ?thesis
      proof (cases "rel \<or> ?key = 0x3A")
        case True
        then show ?thesis unfolding p using e0 3 dd by (auto simp: modifiers_of_def put_all_def split: if_splits)
      next
        case False
        let ?c = "key_char (shift_down s) (caps_lock s) ?key"
        have q: "?p = (put_all (typed ?c) s)\<lparr>extended_sequence := False\<rparr>" unfolding p using e0 3 False by (simp add: typed_def put_all_def)
        have "cs = typed ?c" "m = (shift_down s, caps_lock s, False)" using dd 3 False by auto
        then show ?thesis unfolding q by (simp add: modifiers_of_def typed_def put_all_def)
      qed
    qed
  qed
  then show "modifiers_of ?p = m" "kbd_dev ?p = kbd_dev s" "queue ?p = queue (put_all cs s)" "queue_head ?p = queue_head (put_all cs s)"
    "queue_tail ?p = queue_tail (put_all cs s)" "length cs \<le> 1" by simp_all
qed

section \<open>Interrupts and reads\<close>

text \<open>
  An interleaving of interrupts and of kernel code that takes a character if one is available. The
  scancodes are whatever the device delivers at the interrupts.
\<close>

datatype kbd_event = Irq | Take

fun kbd_run :: "'d port_io \<Rightarrow> kbd_event list \<Rightarrow> 'd keyboard_state \<Rightarrow> u8 list \<times> 'd keyboard_state" where
  "kbd_run io [] s = ([], s)"
| "kbd_run io (Irq # evs) s = kbd_run io evs (handle_irq io s)"
| "kbd_run io (Take # evs) s =
     (if available s then case read_char s of (c, s) \<Rightarrow> case kbd_run io evs s of (out, s) \<Rightarrow> (c # out, s)
      else kbd_run io evs s)"

fun kbd_typed :: "'d port_io \<Rightarrow> kbd_event list \<Rightarrow> 'd \<Rightarrow> modifiers \<Rightarrow> u8 list" where
  "kbd_typed io [] d m = []"
| "kbd_typed io (Irq # evs) d m =
     (case io_inb io STATUS_PORT d of (st, d) \<Rightarrow>
        if \<not> bit st 0 then kbd_typed io evs d m
        else case io_inb io DATA_PORT d of (code, d) \<Rightarrow> case decode code m of (cs, m) \<Rightarrow> cs @ kbd_typed io evs d m)"
| "kbd_typed io (Take # evs) d m = kbd_typed io evs d m"

lemma put_all_waiting:
  assumes "kbd_inv s" "length cs \<le> 1"
  shows "kbd_inv (put_all cs s)" "subseq (waiting (put_all cs s)) (waiting s @ cs)"
    "length (waiting s) < 63 \<Longrightarrow> waiting (put_all cs s) = waiting s @ cs" "length (waiting (put_all cs s)) \<le> length (waiting s) + 1"
proof -
  have "cs = [] \<or> (\<exists>c. cs = [c])" using assms(2) by (cases cs) auto
  then show "kbd_inv (put_all cs s)" "subseq (waiting (put_all cs s)) (waiting s @ cs)"
    "length (waiting s) < 63 \<Longrightarrow> waiting (put_all cs s) = waiting s @ cs" "length (waiting (put_all cs s)) \<le> length (waiting s) + 1"
    using assms(1) kbd_queue.put_law [OF assms(1)] kbd_queue.put_subseq [OF assms(1)] by (auto simp: put_all_def)
qed

lemma take_frame: "read_char s = (c, s') \<Longrightarrow> modifiers_of s' = modifiers_of s \<and> kbd_dev s' = kbd_dev s"
  by (auto simp: read_char_def modifiers_of_def split: if_splits)

text \<open>One interrupt: nothing, or one scancode, whose characters are queued.\<close>

lemma handle_irq_step:
  assumes "kbd_inv s"
  obtains cs where "kbd_inv (handle_irq io s)" "subseq (waiting (handle_irq io s)) (waiting s @ cs)"
    "length (waiting s) < 63 \<Longrightarrow> waiting (handle_irq io s) = waiting s @ cs" "length (waiting (handle_irq io s)) \<le> length (waiting s) + 1"
    "\<And>evs. kbd_typed io (Irq # evs) (kbd_dev s) (modifiers_of s) = cs @ kbd_typed io evs (kbd_dev (handle_irq io s)) (modifiers_of (handle_irq io s))"
proof -
  obtain st d where st: "io_inb io STATUS_PORT (kbd_dev s) = (st, d)" by fastforce
  obtain code d2 where code: "io_inb io DATA_PORT d = (code, d2)" by fastforce
  have b: "st AND STATUS_OUTPUT_FULL = 0 \<longleftrightarrow> \<not> bit st 0"
    using bit_iff_and_push_bit_not_eq_0 [of st 0] by (simp add: STATUS_OUTPUT_FULL_def)
  show thesis
  proof (cases "bit st 0")
    case False
    then have h: "handle_irq io s = s\<lparr>kbd_dev := d\<rparr>" using st b by (simp add: handle_irq_def keyboard_poll_def)
    have q: "kbd_inv (s\<lparr>kbd_dev := d\<rparr>) = kbd_inv s" "waiting (s\<lparr>kbd_dev := d\<rparr>) = waiting s" by (rule queue_cong; simp)+
    show thesis using False st h q assms by (intro that [of "[]"]) (simp_all add: modifiers_of_def)
  next
    case True
    let ?s = "s\<lparr>kbd_dev := d2\<rparr>"
    have h: "handle_irq io s = process_scancode code ?s" using True st code b by (simp add: handle_irq_def keyboard_poll_def)
    have q: "kbd_inv ?s = kbd_inv s" "waiting ?s = waiting s" by (rule queue_cong; simp)+
    obtain cs m where d: "decode code (modifiers_of ?s) = (cs, m)" by (metis surj_pair)
    note p = process_scancode_decode [OF d]
    note pa = put_all_waiting [of ?s cs, unfolded q, OF assms p(6)]
    note c = queue_cong [OF p(3-5)]
    have "modifiers_of ?s = modifiers_of s" by (simp add: modifiers_of_def)
    then show thesis using pa c p(1,2) d st code True by (intro that [of cs]) (simp_all add: h c)
  qed
qed

section \<open>Properties\<close>

text \<open>
  C15. The driver is a queue between the interrupt handler and the readers: in every interleaving of
  interrupts and reads, the characters read so far followed by those still waiting are the characters the
  delivered scancodes stand for, in order, with at most some left out; and none is left out while there
  can be no more than 63 waiting.
\<close>

theorem keyboard_fifo:
  assumes "kbd_inv s" "kbd_run io evs s = (out, s')"
  shows "kbd_inv s' \<and> subseq (out @ waiting s') (waiting s @ kbd_typed io evs (kbd_dev s) (modifiers_of s)) \<and>
    (length (waiting s) + length (filter ((=) Irq) evs) \<le> 63 \<longrightarrow> out @ waiting s' = waiting s @ kbd_typed io evs (kbd_dev s) (modifiers_of s))"
  using assms
proof (induction evs arbitrary: s out)
  case Nil
  then show ?case by simp
next
  case (Cons e evs)
  show ?case
  proof (cases e)
    case Irq
    obtain cs where h: "kbd_inv (handle_irq io s)" "subseq (waiting (handle_irq io s)) (waiting s @ cs)"
      "length (waiting s) < 63 \<Longrightarrow> waiting (handle_irq io s) = waiting s @ cs" "length (waiting (handle_irq io s)) \<le> length (waiting s) + 1"
      "\<And>evs. kbd_typed io (Irq # evs) (kbd_dev s) (modifiers_of s) = cs @ kbd_typed io evs (kbd_dev (handle_irq io s)) (modifiers_of (handle_irq io s))"
      using handle_irq_step [OF Cons.prems(1), of io] by blast
    have r: "kbd_run io evs (handle_irq io s) = (out, s')" using Cons.prems(2) Irq by simp
    let ?t = "kbd_typed io evs (kbd_dev (handle_irq io s)) (modifiers_of (handle_irq io s))"
    note ih = Cons.IH [OF h(1) r]
    have "subseq (waiting (handle_irq io s) @ ?t) ((waiting s @ cs) @ ?t)" using h(2) by (intro list_emb_append_mono) auto
    then have "subseq (out @ waiting s') (waiting s @ cs @ ?t)" using ih subseq_order.trans by fastforce
    then show ?thesis using ih h(3,4) unfolding Irq h(5) by auto
  next
    case Take
    show ?thesis
    proof (cases "available s")
      case False
      then show ?thesis using Cons Take by simp
    next
      case True
      obtain c s1 where c: "read_char s = (c, s1)" by fastforce
      obtain o2 s2 where r: "kbd_run io evs s1 = (o2, s2)" by fastforce
      have g: "kbd_inv s1" "waiting s = c # waiting s1" using kbd_queue.get_law [OF Cons.prems(1) True c] by auto
      have e: "out = c # o2" "s' = s2" using Cons.prems(2) Take True c r by auto
      then show ?thesis using Cons.IH [OF g(1) r [folded e(2)]] g(2) take_frame [OF c] Take by auto
    qed
  qed
qed

text \<open>A controller with a list of scancodes to deliver.\<close>

definition scan_list :: "u8 list port_io" where
  "scan_list = \<lparr>io_inb = (\<lambda>port codes. if port = STATUS_PORT then (if codes = [] then 0 else 1, codes)
       else case codes of [] \<Rightarrow> (0, []) | c # cs \<Rightarrow> (c, cs)),
     io_outb = (\<lambda>_ _ d. d), io_inw = (\<lambda>_ d. (0, d)), io_outw = (\<lambda>_ _ d. d)\<rparr>"

definition idle_keyboard :: "u8 list \<Rightarrow> u8 list keyboard_state" where
  "idle_keyboard codes = \<lparr>queue = (\<lambda>_. 0), queue_head = 62, queue_tail = 62, shift_down = False, caps_lock = False,
     extended_sequence = False, kbd_dev = codes\<rparr>"

text \<open>Shift and h, shift up, i, arrow up; the first character is read before the last key.\<close>

theorem keyboard_fifo_witness:
  "fst (kbd_run scan_list [Irq, Irq, Irq, Irq, Take, Irq, Irq] (idle_keyboard [0x2A, 0x23, 0xAA, 0x17, 0xE0, 0x48])) @
     waiting (snd (kbd_run scan_list [Irq, Irq, Irq, Irq, Take, Irq, Irq] (idle_keyboard [0x2A, 0x23, 0xAA, 0x17, 0xE0, 0x48]))) =
     [72, 105, 0x11]"
proof -
  let ?evs = "[Irq, Irq, Irq, Irq, Take, Irq, Irq]" and ?s = "idle_keyboard [0x2A, 0x23, 0xAA, 0x17, 0xE0, 0x48]"
  have i: "kbd_inv ?s" "waiting ?s = []" by (simp_all add: kbd_inv_def waiting_def idle_keyboard_def)
  have "kbd_typed scan_list ?evs (kbd_dev ?s) (modifiers_of ?s) = [72, 105, 0x11]"
    by (simp add: scan_list_def idle_keyboard_def modifiers_of_def STATUS_PORT_def DATA_PORT_def key_char_def keymap_def shifted_keymap_def
        typed_def arrow_char_def)
  then show ?thesis using keyboard_fifo [OF i(1), of scan_list ?evs "fst (kbd_run scan_list ?evs ?s)" "snd (kbd_run scan_list ?evs ?s)"] i(2) by simp
qed

end
