(* ===== verification/Fat32.thy ===== *)
theory Fat32
  imports Fs
begin

text \<open>
  The read-only FAT32 driver, \<^verbatim>\<open>kernel/fat32.cpp\<close>. The sector reader is a function the driver is given when
  it mounts a volume and keeps. Paths and names are lists of characters without the terminating zero.

  The two loops over clusters count their steps and give up when they exceed the number of clusters; the
  first argument of \<open>walk_clusters\<close> and \<open>read_clusters\<close> is the number of steps left.
\<close>

section \<open>State\<close>

definition FAT_EOC_MIN :: u32 where "FAT_EOC_MIN = 0x0FFFFFF8"
definition FAT_BAD :: u32 where "FAT_BAD = 0x0FFFFFF7"
definition FAT_MASK :: u32 where "FAT_MASK = 0x0FFFFFFF"
definition ATTR_DIRECTORY :: u8 where "ATTR_DIRECTORY = 0x10"
definition ATTR_VOLUME_ID :: u8 where "ATTR_VOLUME_ID = 0x08"
definition ATTR_LFN :: u8 where "ATTR_LFN = 0x0F"
definition DISK_VOLUME_LBA :: u32 where "DISK_VOLUME_LBA = 32768"
definition CHAIN_ERROR :: u32 where "CHAIN_ERROR = 0xFFFFFFFF"

record 's Volume =
  vreader :: "'s reader option"
  volume_lba :: u32
  sectors_per_cluster :: u32
  reserved_sectors :: u32
  fat_sectors :: u32
  data_start :: u32
  root_cluster :: u32
  cluster_count :: u32
  vol_ok :: bool

definition no_volume :: "'s Volume" where
  "no_volume = \<lparr>vreader = None, volume_lba = 0, sectors_per_cluster = 0, reserved_sectors = 0, fat_sectors = 0, data_start = 0,
     root_cluster = 0, cluster_count = 0, vol_ok = False\<rparr>"

record 's fat_state =
  vol :: "'s Volume"
  sector_buf :: "u8 list"
  fat_cache :: "u8 list"
  fat_cache_sector :: u32
  fat_dev :: 's

definition rd16 :: "nat \<Rightarrow> u8 list \<Rightarrow> u16" where
  "rd16 p b = ucast (b ! p) OR push_bit 8 (ucast (b ! (p + 1)))"

definition rd32 :: "nat \<Rightarrow> u8 list \<Rightarrow> u32" where
  "rd32 p b = ucast (b ! p) OR push_bit 8 (ucast (b ! (p + 1))) OR push_bit 16 (ucast (b ! (p + 2))) OR push_bit 24 (ucast (b ! (p + 3)))"

section \<open>Clusters\<close>

text \<open>A call through a missing reader does not happen: every caller has tested \<open>vol_ok\<close>.\<close>

definition read_volume_sector :: "u32 \<Rightarrow> 's fat_state \<Rightarrow> bool \<times> u8 list \<times> 's fat_state" where
  "read_volume_sector sector s =
     (case vreader (vol s) of
        None \<Rightarrow> (False, [], s)
      | Some rd \<Rightarrow> case rd (volume_lba (vol s) + sector) 1 (fat_dev s) of (ok, bs, d) \<Rightarrow> (ok, bs, s\<lparr>fat_dev := d\<rparr>))"

definition valid_cluster :: "'s Volume \<Rightarrow> u32 \<Rightarrow> bool" where
  "valid_cluster v c \<longleftrightarrow> c \<ge> 2 \<and> c < cluster_count v + 2"

definition cluster_sector :: "'s Volume \<Rightarrow> u32 \<Rightarrow> u32" where
  "cluster_sector v c = data_start v + (c - 2) * sectors_per_cluster v"

definition next_cluster :: "u32 \<Rightarrow> 's fat_state \<Rightarrow> u32 \<times> 's fat_state" where
  "next_cluster c s =
     (let byte_off = c * 4; sector = reserved_sectors (vol s) + byte_off div 512 in
      if byte_off div 512 \<ge> fat_sectors (vol s) then (CHAIN_ERROR, s)
      else
        let (ok, s) = (if fat_cache_sector s \<noteq> sector then
                         case read_volume_sector sector s of (ok, bs, s) \<Rightarrow>
                           if \<not> ok then (False, s\<lparr>fat_cache := bs @ drop (length bs) (fat_cache s), fat_cache_sector := 0xFFFFFFFF\<rparr>)
                           else (True, s\<lparr>fat_cache := bs, fat_cache_sector := sector\<rparr>)
                       else (True, s)) in
        if \<not> ok then (CHAIN_ERROR, s)
        else
          let v = rd32 (unat (byte_off mod 512)) (fat_cache s) AND FAT_MASK in
          if v \<ge> FAT_EOC_MIN then (0, s)
          else if v = FAT_BAD \<or> \<not> valid_cluster (vol s) v \<or> v = c then (CHAIN_ERROR, s)
          else (v, s))"

section \<open>Names\<close>

definition upper :: "u8 \<Rightarrow> u8" where
  "upper c = (if c \<ge> 97 \<and> c \<le> 122 then c - 97 + 65 else c)"

text \<open>The name up to the dot, with the rest of the input, and the extension.\<close>

fun base_loop :: "u8 list \<Rightarrow> nat \<Rightarrow> u8 list \<Rightarrow> (nat \<times> u8 list \<times> u8 list) option" where
  "base_loop [] n out = Some (n, out, [])"
| "base_loop (c # cs) n out =
     (if c = 46 then Some (n, out, c # cs)
      else if n \<ge> 8 then None
      else base_loop cs (n + 1) (out[n := upper c]))"

fun ext_loop :: "u8 list \<Rightarrow> nat \<Rightarrow> u8 list \<Rightarrow> u8 list option" where
  "ext_loop [] e out = Some out"
| "ext_loop (c # cs) e out = (if c = 46 \<or> e \<ge> 3 then None else ext_loop cs (e + 1) (out[8 + e := upper c]))"

definition to_short_name :: "u8 list \<Rightarrow> u8 list option" where
  "to_short_name part =
     (if part = [] then None
      else case base_loop part 0 (replicate 11 32) of
        None \<Rightarrow> None
      | Some (n, out, rest) \<Rightarrow>
          if n = 0 then None
          else case rest of
            [] \<Rightarrow> Some out
          | _ # ext \<Rightarrow> if ext = [] then None else ext_loop ext 0 out)"

section \<open>Directories\<close>

record Found =
  first_cluster :: u32
  fsize :: u32
  is_dir :: bool

text \<open>\<open>True\<close> with the first component: the walk is over, because the directory ended or the visitor stopped it.\<close>

fun scan_entries :: "(u8 list \<Rightarrow> 'v \<Rightarrow> bool \<times> 'v) \<Rightarrow> u8 list list \<Rightarrow> 'v \<Rightarrow> bool \<times> 'v" where
  "scan_entries visit [] v = (False, v)"
| "scan_entries visit (e # es) v =
     (if e ! 0 = 0 then (True, v)
      else if e ! 0 = 0xE5 then scan_entries visit es v
      else
        let attr = e ! 11 in
        if attr = ATTR_LFN \<or> attr AND ATTR_VOLUME_ID \<noteq> 0 then scan_entries visit es v
        else case visit e v of (stop, v) \<Rightarrow> if stop then (True, v) else scan_entries visit es v)"

definition dir_entries :: "u8 list \<Rightarrow> u8 list list" where
  "dir_entries buf = map (\<lambda>k. take 32 (drop (32 * k) buf)) [0..<16]"

text \<open>The sectors of one cluster; \<open>Some\<close> is the value the walk returns.\<close>

fun scan_sectors :: "(u8 list \<Rightarrow> 'v \<Rightarrow> bool \<times> 'v) \<Rightarrow> u32 list \<Rightarrow> 'v \<Rightarrow> 's fat_state \<Rightarrow> bool option \<times> 'v \<times> 's fat_state" where
  "scan_sectors visit [] v s = (None, v, s)"
| "scan_sectors visit (sec # secs) v s =
     (case read_volume_sector sec s of (ok, bs, s) \<Rightarrow>
        let s = s\<lparr>sector_buf := bs @ drop (length bs) (sector_buf s)\<rparr> in
        if \<not> ok then (Some False, v, s)
        else case scan_entries visit (dir_entries (sector_buf s)) v of (stop, v) \<Rightarrow>
          if stop then (Some True, v, s) else scan_sectors visit secs v s)"

definition cluster_sectors :: "'s Volume \<Rightarrow> u32 \<Rightarrow> u32 list" where
  "cluster_sectors v c = map (\<lambda>i. cluster_sector v c + of_nat i) [0..<unat (sectors_per_cluster v)]"

fun walk_clusters :: "nat \<Rightarrow> (u8 list \<Rightarrow> 'v \<Rightarrow> bool \<times> 'v) \<Rightarrow> u32 \<Rightarrow> 'v \<Rightarrow> 's fat_state \<Rightarrow> bool \<times> 'v \<times> 's fat_state" where
  "walk_clusters 0 visit cluster v s = (cluster = 0, v, s)"
| "walk_clusters (Suc n) visit cluster v s =
     (if cluster = 0 then (True, v, s)
      else if \<not> valid_cluster (vol s) cluster then (False, v, s)
      else case scan_sectors visit (cluster_sectors (vol s) cluster) v s of (r, v, s) \<Rightarrow>
        case r of Some b \<Rightarrow> (b, v, s)
        | None \<Rightarrow> case next_cluster cluster s of (c, s) \<Rightarrow> if c = CHAIN_ERROR then (False, v, s) else walk_clusters n visit c v s)"

definition walk_dir :: "u32 \<Rightarrow> (u8 list \<Rightarrow> 'v \<Rightarrow> bool \<times> 'v) \<Rightarrow> 'v \<Rightarrow> 's fat_state \<Rightarrow> bool \<times> 'v \<times> 's fat_state" where
  "walk_dir dir_cluster visit v s = walk_clusters (unat (cluster_count (vol s))) visit dir_cluster v s"

definition entry_cluster :: "u8 list \<Rightarrow> u32" where
  "entry_cluster e = push_bit 16 (ucast (rd16 20 e)) OR ucast (rd16 26 e)"

text \<open>The components of a path, without empty ones.\<close>

function path_parts :: "u8 list \<Rightarrow> u8 list list" where
  "path_parts p =
     (let p = dropWhile ((=) 47) p in
      if p = [] then [] else takeWhile ((\<noteq>) 47) p # path_parts (dropWhile ((\<noteq>) 47) p))"
  by pat_completeness auto
termination
proof (relation "measure length")
  fix p x :: "u8 list" assume x: "x = dropWhile ((=) 47) p" "x \<noteq> []"
  then have "hd x \<noteq> 47" using hd_dropWhile [of "(=) 47" p] by auto
  then have "length (dropWhile ((\<noteq>) 47) x) < length x" using x(2) by (cases x) (auto simp: le_imp_less_Suc length_dropWhile_le)
  also have "\<dots> \<le> length p" unfolding x(1) by (rule length_dropWhile_le)
  finally show "(dropWhile ((\<noteq>) 47) x, p) \<in> measure length" by simp
qed simp

declare path_parts.simps [simp del]

definition find_visitor :: "u8 list \<Rightarrow> u8 list \<Rightarrow> Found option \<Rightarrow> bool \<times> Found option" where
  "find_visitor want e v =
     (if take 11 e \<noteq> want then (False, v)
      else (True, Some \<lparr>first_cluster = entry_cluster e, fsize = rd32 28 e, is_dir = e ! 11 AND ATTR_DIRECTORY \<noteq> 0\<rparr>))"

fun resolve_parts :: "u8 list list \<Rightarrow> Found \<Rightarrow> 's fat_state \<Rightarrow> Found option \<times> 's fat_state" where
  "resolve_parts [] cur s = (Some cur, s)"
| "resolve_parts (part # parts) cur s =
     (case to_short_name part of
        None \<Rightarrow> (None, s)
      | Some want \<Rightarrow>
          if \<not> is_dir cur then (None, s)
          else case walk_dir (first_cluster cur) (find_visitor want) None s of (walked, found, s) \<Rightarrow>
            if \<not> walked then (None, s)
            else case found of
              None \<Rightarrow> (None, s)
            | Some next \<Rightarrow>
                let next = (if is_dir next \<and> first_cluster next = 0 then next\<lparr>first_cluster := root_cluster (vol s)\<rparr> else next)
                in resolve_parts parts next s)"

definition resolve :: "u8 list \<Rightarrow> 's fat_state \<Rightarrow> Found option \<times> 's fat_state" where
  "resolve path s =
     (if \<not> vol_ok (vol s) then (None, s)
      else resolve_parts (path_parts path) \<lparr>first_cluster = root_cluster (vol s), fsize = 0, is_dir = True\<rparr> s)"

section \<open>Mounting\<close>

definition fat_mount :: "'s reader option \<Rightarrow> u32 \<Rightarrow> 's fat_state \<Rightarrow> bool \<times> 's fat_state" where
  "fat_mount reader lba s =
     (let s = s\<lparr>vol := no_volume, fat_cache_sector := 0xFFFFFFFF\<rparr> in
      case reader of
        None \<Rightarrow> (False, s)
      | Some rd \<Rightarrow>
          case rd lba 1 (fat_dev s) of (ok, bs, d) \<Rightarrow>
            let s = s\<lparr>fat_dev := d\<rparr> in
            if \<not> ok then (False, s)
            else if bs ! 510 \<noteq> 0x55 \<or> bs ! 511 \<noteq> 0xAA then (False, s)
            else
              let bytes_per_sector = rd16 11 bs; spc = bs ! 13; reserved = rd16 14 bs; num_fats = bs ! 16; root_entries = rd16 17 bs;
                  total16 = rd16 19 bs; fat16 = rd16 22 bs; total32 = rd32 32 bs; fat32_sectors = rd32 36 bs; fs_version = rd16 42 bs;
                  rootc = rd32 44 bs in
              if bytes_per_sector \<noteq> 512 then (False, s)
              else if spc = 0 \<or> spc AND (spc - 1) \<noteq> 0 then (False, s)
              else if reserved = 0 \<or> num_fats = 0 then (False, s)
              else if root_entries \<noteq> 0 \<or> total16 \<noteq> 0 \<or> fat16 \<noteq> 0 then (False, s)
              else if fs_version \<noteq> 0 then (False, s)
              else if fat32_sectors = 0 \<or> total32 = 0 then (False, s)
              else
                let fats_total = (ucast num_fats * ucast fat32_sectors :: u64);
                    dstart = ucast reserved + fats_total in
                if dstart \<ge> ucast total32 then (False, s)
                else
                  let clusters = (ucast ((ucast total32 - dstart) div ucast spc) :: u32) in
                  if clusters < 65525 then (False, s)
                  else if ucast fat32_sectors * 128 < (ucast clusters + 2 :: u64) then (False, s)
                  else if rootc < 2 \<or> rootc \<ge> clusters + 2 then (False, s)
                  else (True, s\<lparr>vol := \<lparr>vreader = reader, volume_lba = lba, sectors_per_cluster = ucast spc, reserved_sectors = ucast reserved,
                     fat_sectors = fat32_sectors, data_start = ucast dstart, root_cluster = rootc, cluster_count = clusters, vol_ok = True\<rparr>\<rparr>))"

definition mounted :: "'s fat_state \<Rightarrow> bool" where
  "mounted s \<longleftrightarrow> vol_ok (vol s)"

definition mount_disk :: "'d port_io \<Rightarrow> 'd ata_state fat_state \<Rightarrow> bool \<times> 'd ata_state fat_state" where
  "mount_disk io s = fat_mount (Some (ata_read io)) DISK_VOLUME_LBA s"

section \<open>Listing and reading\<close>

record DirEntryInfo =
  info_name :: "u8 list"
  info_is_dir :: bool
  info_size :: u32

text \<open>The callback is called once per entry; the model collects what it is called with.\<close>

definition entry_info :: "u8 list \<Rightarrow> DirEntryInfo" where
  "entry_info e =
     (let base = takeWhile ((\<noteq>) 32) (take 8 e);
          ext = (if e ! 8 \<noteq> 32 then 46 # takeWhile ((\<noteq>) 32) (take 3 (drop 8 e)) else []);
          dir = (e ! 11 AND ATTR_DIRECTORY \<noteq> 0)
      in \<lparr>info_name = base @ ext, info_is_dir = dir, info_size = (if dir then 0 else rd32 28 e)\<rparr>)"

definition fat_list :: "u8 list \<Rightarrow> 's fat_state \<Rightarrow> bool \<times> DirEntryInfo list \<times> 's fat_state" where
  "fat_list path s =
     (case resolve path s of (f, s) \<Rightarrow>
        case f of
          None \<Rightarrow> (False, [], s)
        | Some dir \<Rightarrow>
            if \<not> is_dir dir then (False, [], s)
            else walk_dir (first_cluster dir) (\<lambda>e infos. (False, infos @ [entry_info e])) [] s)"

definition fat_file_size :: "u8 list \<Rightarrow> 's fat_state \<Rightarrow> int \<times> 's fat_state" where
  "fat_file_size path s =
     (case resolve path s of (f, s) \<Rightarrow>
        (case f of None \<Rightarrow> (- 1, s) | Some f \<Rightarrow> if is_dir f then (- 1, s) else (int (unat (fsize f)), s)))"

text \<open>\<open>todo\<close> is what is left of \<open>to_read\<close>; the bytes are those stored in the buffer.\<close>

fun read_cluster :: "u32 list \<Rightarrow> nat \<Rightarrow> 's fat_state \<Rightarrow> bool \<times> u8 list \<times> 's fat_state" where
  "read_cluster [] todo s = (True, [], s)"
| "read_cluster (sec # secs) todo s =
     (if todo = 0 then (True, [], s)
      else case read_volume_sector sec s of (ok, bs, s) \<Rightarrow>
        let s = s\<lparr>sector_buf := bs @ drop (length bs) (sector_buf s)\<rparr> in
        if \<not> ok then (False, [], s)
        else
          let chunk = min todo 512 in
          case read_cluster secs (todo - chunk) s of (ok, out, s') \<Rightarrow> (ok, take chunk (sector_buf s) @ out, s'))"

fun read_clusters :: "nat \<Rightarrow> u32 \<Rightarrow> nat \<Rightarrow> 's fat_state \<Rightarrow> bool \<times> u8 list \<times> 's fat_state" where
  "read_clusters 0 cluster todo s = (todo = 0, [], s)"
| "read_clusters (Suc n) cluster todo s =
     (if todo = 0 then (True, [], s)
      else if \<not> valid_cluster (vol s) cluster then (False, [], s)
      else case read_cluster (cluster_sectors (vol s) cluster) todo s of (ok, out, s) \<Rightarrow>
        if \<not> ok then (False, out, s)
        else if length out \<ge> todo then (True, out, s)
        else case next_cluster cluster s of (c, s) \<Rightarrow>
          if c = 0 \<or> c = CHAIN_ERROR then (False, out, s)
          else case read_clusters n c (todo - length out) s of (ok, out2, s) \<Rightarrow> (ok, out @ out2, s))"

definition fat_read :: "u8 list \<Rightarrow> nat \<Rightarrow> 's fat_state \<Rightarrow> bool \<times> u8 list \<times> 's fat_state" where
  "fat_read path capacity s =
     (case resolve path s of (f, s) \<Rightarrow>
        case f of
          None \<Rightarrow> (False, [], s)
        | Some f \<Rightarrow>
            if is_dir f then (False, [], s)
            else read_clusters (unat (cluster_count (vol s))) (first_cluster f) (min (unat (fsize f)) capacity) s)"

end
