(* ===== verification/Fat32_Correct.thy ===== *)
theory Fat32_Correct
  imports Fat32
begin

text \<open>
  The FAT32 driver: a volume that mounts has a consistent geometry, so that every sector the driver
  computes from a valid cluster lies in the volume's data area, and reading a file returns the bytes
  of the clusters of its chain.
\<close>

section \<open>Geometry\<close>

definition geometry :: "'s Volume \<Rightarrow> nat \<Rightarrow> bool" where
  "geometry v tot \<longleftrightarrow> tot < 2 ^ 32 \<and> 0 < unat (sectors_per_cluster v) \<and>
     unat (reserved_sectors v) + unat (fat_sectors v) \<le> unat (data_start v) \<and>
     unat (data_start v) + unat (cluster_count v) * unat (sectors_per_cluster v) \<le> tot \<and>
     unat (cluster_count v) + 2 < 2 ^ 32 \<and> unat (cluster_count v) + 2 \<le> 128 * unat (fat_sectors v) \<and> valid_cluster v (root_cluster v)"

lemma valid_cluster_iff:
  assumes "geometry v tot"
  shows "valid_cluster v c \<longleftrightarrow> 2 \<le> unat c \<and> unat c < unat (cluster_count v) + 2"
proof -
  have "unat (cluster_count v + 2) = unat (cluster_count v) + 2"
    using assms by (simp add: geometry_def unat_word_ariths)
  then show ?thesis by (simp add: valid_cluster_def word_le_nat_alt word_less_nat_alt)
qed

lemma cluster_sector_nat:
  assumes "geometry v tot" "valid_cluster v c" "i < unat (sectors_per_cluster v)"
  shows "unat (cluster_sector v c + of_nat i) = unat (data_start v) + (unat c - 2) * unat (sectors_per_cluster v) + i"
    "unat (data_start v) + (unat c - 2) * unat (sectors_per_cluster v) + i < tot"
proof -
  let ?d = "unat (data_start v)" and ?n = "unat (cluster_count v)" and ?p = "unat (sectors_per_cluster v)"
  have c: "2 \<le> unat c" "unat c < ?n + 2" using assms(2) valid_cluster_iff [OF assms(1)] by auto
  have g: "?d + ?n * ?p \<le> tot" "tot < 2 ^ 32" using assms(1) by (auto simp: geometry_def)
  have "Suc (unat c - 2) \<le> ?n" using c by simp
  then have "Suc (unat c - 2) * ?p \<le> ?n * ?p" by (rule mult_le_mono1)
  then show b: "?d + (unat c - 2) * ?p + i < tot" using g(1) assms(3) by simp
  have u2: "unat (c - 2) = unat c - 2" using c(1) by (subst unat_sub_no_wrap) (simp_all add: word_le_nat_alt)
  have "(unat c - 2) * ?p < 2 ^ 32" using b g(2) by linarith
  then have m: "unat ((c - 2) * sectors_per_cluster v) = (unat c - 2) * ?p" by (simp add: unat_word_ariths u2)
  have s: "unat (cluster_sector v c) = ?d + (unat c - 2) * ?p"
    unfolding cluster_sector_def using b g(2) by (simp add: unat_word_ariths(1) m)
  have "unat (of_nat i :: u32) = i" using b g(2) by (simp add: unat_of_nat)
  then show "unat (cluster_sector v c + of_nat i) = ?d + (unat c - 2) * ?p + i"
    using b g(2) by (simp add: unat_word_ariths(1) s)
qed

lemma fat_position:
  assumes "geometry v tot" "valid_cluster v c" "unat c < 2 ^ 28"
  shows "unat (c * 4) = 4 * unat c" "unat (c * 4 div 512) = 4 * unat c div 512" "unat (c * 4 mod 512) = 4 * unat c mod 512"
    "4 * unat c div 512 < unat (fat_sectors v)"
proof -
  show a: "unat (c * 4) = 4 * unat c" using assms(3) by (simp add: unat_word_ariths mult.commute)
  show "unat (c * 4 div 512) = 4 * unat c div 512" "unat (c * 4 mod 512) = 4 * unat c mod 512" using a by (simp_all add: unat_div_distrib unat_mod_distrib)
  have "unat c < 128 * unat (fat_sectors v)" using valid_cluster_iff [OF assms(1)] assms(1,2) by (simp add: geometry_def)
  then show "4 * unat c div 512 < unat (fat_sectors v)" by (simp add: less_mult_imp_div_less)
qed

text \<open>Fields of a boot sector that the driver accepts, as numbers.\<close>

lemma unat_upcast:
  "unat (ucast (b :: u8) :: u32) = unat b" "unat (ucast (b :: u8) :: u64) = unat b" "unat (ucast (h :: u16) :: u32) = unat h"
  "unat (ucast (h :: u16) :: u64) = unat h" "unat (ucast (w :: u32) :: u64) = unat w"
  by (simp_all add: unsigned_ucast_eq take_bit_nat_eq_self_iff order_less_le_trans [OF unsigned_less])

lemma unat_bounds: "unat (b :: u8) < 256" "unat (h :: u16) < 65536" "unat (w :: u32) < 4294967296"
  by (rule order_less_le_trans [OF unsigned_less], simp)+

lemma mount_geometry:
  assumes "rd lba 1 (fat_dev s) = (True, bs, d)" "fat_mount (Some rd) lba s = (True, s')"
  shows "geometry (vol s') (unat (rd32 32 bs))" "volume_lba (vol s') = lba" "vreader (vol s') = Some rd" "vol_ok (vol s')"
    "fat_cache_sector s' = 0xFFFFFFFF" "fat_dev s' = d"
proof -
  let ?T = "rd32 32 bs" and ?S = "bs ! 13" and ?R = "rd16 14 bs" and ?N = "bs ! 16" and ?F = "rd32 36 bs"
  let ?D = "ucast ?R + ucast ?N * ucast ?F :: u64"
  let ?C = "ucast ((ucast ?T - ?D) div ucast ?S) :: u32"
  have h: "?S \<noteq> 0" "?R \<noteq> 0" "?N \<noteq> 0" "?F \<noteq> 0" "\<not> ?D \<ge> ucast ?T" "\<not> ucast ?F * 128 < (ucast ?C + 2 :: u64)"
    "\<not> (rd32 44 bs < 2 \<or> rd32 44 bs \<ge> ?C + 2)"
    and v: "vol s' = \<lparr>vreader = Some rd, volume_lba = lba, sectors_per_cluster = ucast ?S, reserved_sectors = ucast ?R, fat_sectors = ?F,
      data_start = ucast ?D, root_cluster = rd32 44 bs, cluster_count = ?C, vol_ok = True\<rparr>"
    and e: "fat_cache_sector s' = 0xFFFFFFFF" "fat_dev s' = d"
    using assms by (auto simp: fat_mount_def Let_def split: if_splits)
  show "volume_lba (vol s') = lba" "vreader (vol s') = Some rd" "vol_ok (vol s')" using v by simp_all
  show "fat_cache_sector s' = 0xFFFFFFFF" "fat_dev s' = d" using e by simp_all
  note b = unat_bounds(3) [of ?T] unat_bounds(3) [of ?F] unat_bounds(2) [of ?R] unat_bounds(1) [of ?N] unat_bounds(1) [of ?S]
  have nf: "unat ?N * unat ?F < 256 * 4294967296" using b by (intro mult_strict_mono) auto
  then have m: "unat (ucast ?N * ucast ?F :: u64) = unat ?N * unat ?F" by (simp add: unat_word_ariths(2) unat_upcast)
  have D: "unat ?D = unat ?R + unat ?N * unat ?F" using nf b(3) by (simp add: unat_word_ariths(1) unat_upcast m)
  have lt: "unat ?R + unat ?N * unat ?F < unat ?T" using h(5) D by (simp add: word_le_nat_alt unat_upcast)
  have pos: "0 < unat ?R" "0 < unat ?N" "0 < unat ?F" "0 < unat ?S" using h(1-4) by (simp_all add: unat_gt_0)
  have nF: "unat ?F \<le> unat ?N * unat ?F" using pos(2) by (cases "unat ?N") simp_all
  have "unat (ucast ?T - ?D) = unat ?T - unat ?D" using h(5) by (subst unat_sub_no_wrap) (simp_all add: unat_upcast)
  then have q: "unat ((ucast ?T - ?D) div ucast ?S) = (unat ?T - (unat ?R + unat ?N * unat ?F)) div unat ?S"
    by (simp only: unat_div_distrib unat_upcast D)
  have qle: "(unat ?T - (unat ?R + unat ?N * unat ?F)) div unat ?S \<le> unat ?T - (unat ?R + unat ?N * unat ?F)" by (rule div_le_dividend)
  then have qb: "unat ((ucast ?T - ?D) div ucast ?S :: u64) < 2 ^ 32"
  proof -
    have "unat ?T - (unat ?R + unat ?N * unat ?F) < 2 ^ 32" by (rule le_less_trans [OF diff_le_self]) simp
    then show ?thesis unfolding q using qle by (rule le_less_trans [rotated])
  qed
  have C: "unat ?C = (unat ?T - (unat ?R + unat ?N * unat ?F)) div unat ?S"
    unfolding q [symmetric] unsigned_ucast_eq using qb by (simp add: take_bit_nat_eq_self_iff)
  have c1: "unat ?C * unat ?S \<le> unat ?T - (unat ?R + unat ?N * unat ?F)" unfolding C by (rule div_times_less_eq_dividend)
  have "unat ?C + 2 < 4294967296" unfolding C using qle b(1) pos nF lt by linarith
  then have c2: "unat ?C + 2 < 2 ^ 32" by simp
  have DS: "unat (ucast ?D :: u32) = unat ?R + unat ?N * unat ?F"
    unfolding unsigned_ucast_eq D using less_trans [OF lt b(1)] by (simp add: take_bit_nat_eq_self_iff)
  have c3: "unat ?C + 2 \<le> 128 * unat ?F"
  proof -
    have "unat ?F * 128 < 18446744073709551616" using b(2) by linarith
    then have "unat (ucast ?F * 128 :: u64) = unat ?F * 128" by (simp add: unat_word_ariths(2) unat_upcast)
    moreover have "unat (ucast ?C + 2 :: u64) = unat ?C + 2" using c2 by (simp add: unat_word_ariths(1) unat_upcast)
    ultimately show ?thesis using h(6) by (simp add: word_less_nat_alt)
  qed
  have "valid_cluster (vol s') (rd32 44 bs)" using h(7) by (simp add: valid_cluster_def v not_less not_le)
  moreover have "unat ?R + unat ?F \<le> unat (ucast ?D :: u32)" unfolding DS using nF by simp
  moreover have "unat (ucast ?D :: u32) + unat ?C * unat ?S \<le> unat ?T" unfolding DS using c1 lt by linarith
  ultimately show "geometry (vol s') (unat ?T)" using b(1) pos(4) c2 c3 unfolding geometry_def v by (simp add: unat_upcast)
qed

section \<open>The file allocation table\<close>

text \<open>What the table on disk says about a cluster, and the bytes of a cluster.\<close>

definition fat_link :: "(nat \<Rightarrow> u8 list) \<Rightarrow> 's Volume \<Rightarrow> u32 \<Rightarrow> u32" where
  "fat_link c v k = rd32 (4 * unat k mod 512) (c (unat (volume_lba v) + unat (reserved_sectors v) + 4 * unat k div 512)) AND FAT_MASK"

definition cluster_bytes :: "(nat \<Rightarrow> u8 list) \<Rightarrow> 's Volume \<Rightarrow> u32 \<Rightarrow> u8 list" where
  "cluster_bytes c v k = concat (map (\<lambda>i. c (unat (volume_lba v) + unat (data_start v) + (unat k - 2) * unat (sectors_per_cluster v) + i))
     [0..<unat (sectors_per_cluster v)])"

text \<open>A chain of valid clusters, each linked to the next one.\<close>

fun cluster_chain :: "(nat \<Rightarrow> u8 list) \<Rightarrow> 's Volume \<Rightarrow> u32 list \<Rightarrow> bool" where
  "cluster_chain c v [] = True"
| "cluster_chain c v [k] = (valid_cluster v k \<and> unat k < 2 ^ 28)"
| "cluster_chain c v (k # l # ks) = (valid_cluster v k \<and> unat k < 2 ^ 28 \<and> fat_link c v k = l \<and> l \<noteq> k \<and> l < FAT_BAD \<and> cluster_chain c v (l # ks))"

text \<open>The volume is within the reach of the reader, and a cached sector of the table is the one on disk.\<close>

definition fat_inv :: "'s reader \<Rightarrow> ('s \<Rightarrow> nat \<Rightarrow> u8 list) \<Rightarrow> ('s \<Rightarrow> bool) \<Rightarrow> nat \<Rightarrow> 's fat_state \<Rightarrow> bool" where
  "fat_inv rd content ok tot s \<longleftrightarrow> vreader (vol s) = Some rd \<and> geometry (vol s) tot \<and> unat (volume_lba (vol s)) + tot \<le> 268435456 \<and>
     ok (fat_dev s) \<and>
     (fat_cache_sector s \<noteq> 0xFFFFFFFF \<longrightarrow> fat_cache s = content (fat_dev s) (unat (volume_lba (vol s)) + unat (fat_cache_sector s)))"

text \<open>What no operation changes: the volume and the contents of the disk.\<close>

definition fat_frame :: "('s \<Rightarrow> nat \<Rightarrow> u8 list) \<Rightarrow> ('s \<Rightarrow> bool) \<Rightarrow> 's fat_state \<Rightarrow> 's fat_state \<Rightarrow> bool" where
  "fat_frame content works s s' \<longleftrightarrow> vol s' = vol s \<and> content (fat_dev s') = content (fat_dev s) \<and> (works (fat_dev s) \<longrightarrow> works (fat_dev s'))"

lemma fat_frame_trans: "fat_frame c w s t \<Longrightarrow> fat_frame c w t u \<Longrightarrow> fat_frame c w s u"
  and fat_frame_refl [simp]: "fat_frame c w s s"
  by (auto simp: fat_frame_def)

lemma fat_sector_nat:
  assumes "geometry v tot" "b < fat_sectors v"
  shows "unat (reserved_sectors v + b) = unat (reserved_sectors v) + unat b" "unat (reserved_sectors v) + unat b < tot"
    "reserved_sectors v + b \<noteq> 0xFFFFFFFF"
proof -
  have g: "unat (reserved_sectors v) + unat (fat_sectors v) \<le> unat (data_start v)" "unat (data_start v) \<le> tot" "tot < 4294967296"
    using assms(1) by (auto simp: geometry_def)
  have b: "unat b < unat (fat_sectors v)" using assms(2) by (simp add: word_less_nat_alt)
  then show lt: "unat (reserved_sectors v) + unat b < tot" using g by linarith
  then show u: "unat (reserved_sectors v + b) = unat (reserved_sectors v) + unat b" using g(3) by (simp add: unat_word_ariths(1))
  show "reserved_sectors v + b \<noteq> 0xFFFFFFFF"
  proof
    assume "reserved_sectors v + b = 0xFFFFFFFF"
    then have "unat (reserved_sectors v + b) = 4294967295" by simp
    then show False using u lt g(3) by linarith
  qed
qed

lemma cluster_sectors_in:
  assumes "geometry v tot" "valid_cluster v k"
  shows "\<forall>l\<in>set (cluster_sectors v k). unat l < tot"
  using cluster_sector_nat [OF assms] by (auto simp: cluster_sectors_def)

context block_device
begin

lemma sector_read:
  assumes "fat_inv rd content ok tot s" "unat sec < tot" "read_volume_sector sec s = (b, bs, s')"
  shows "fat_inv rd content ok tot s'" "fat_frame content works s s'" "fat_cache s' = fat_cache s" "fat_cache_sector s' = fat_cache_sector s"
    "b \<Longrightarrow> bs = content (fat_dev s) (unat (volume_lba (vol s)) + unat sec)" "works (fat_dev s) \<Longrightarrow> b"
proof -
  let ?v = "vol s"
  have i: "vreader ?v = Some rd" "unat (volume_lba ?v) + tot \<le> 268435456" "ok (fat_dev s)" using assms(1) by (auto simp: fat_inv_def)
  obtain d where r: "rd (volume_lba ?v + sec) 1 (fat_dev s) = (b, bs, d)" and s': "s' = s\<lparr>fat_dev := d\<rparr>"
    using assms(3) i(1) by (auto simp: read_volume_sector_def split: prod.splits)
  have u: "unat (volume_lba ?v + sec) = unat (volume_lba ?v) + unat sec" using i(2) assms(2) by (simp add: unat_word_ariths(1))
  then have "unat (volume_lba ?v + sec) < 268435456" using i(2) assms(2) by simp
  note l = rd_one [OF i(3) this r, unfolded u]
  show "fat_inv rd content ok tot s'" using assms(1) l(1,2) s' by (simp add: fat_inv_def)
  show "fat_frame content works s s'" using l(2,4) s' by (auto simp: fat_frame_def)
  show "fat_cache s' = fat_cache s" "fat_cache_sector s' = fat_cache_sector s" using s' by simp_all
  show "b \<Longrightarrow> bs = content (fat_dev s) (unat (volume_lba (vol s)) + unat sec)" using l(3) by simp
  show "works (fat_dev s) \<Longrightarrow> b" using l(4) by blast
qed

lemma buf_update: "fat_inv rd content ok tot (s\<lparr>sector_buf := b\<rparr>) = fat_inv rd content ok tot s"
    "fat_frame content works t (s\<lparr>sector_buf := b\<rparr>) = fat_frame content works t s"
  by (simp_all add: fat_inv_def fat_frame_def)

lemma next_cluster_law:
  assumes "fat_inv rd content ok tot s" "next_cluster c s = (r, s')"
  shows "fat_inv rd content ok tot s' \<and> fat_frame content works s s' \<and> (r = 0 \<or> r = CHAIN_ERROR \<or> valid_cluster (vol s) r) \<and>
    (works (fat_dev s) \<and> valid_cluster (vol s) c \<and> unat c < 2 ^ 28 \<and> fat_link (content (fat_dev s)) (vol s) c = l \<and> l \<noteq> c \<and> l < FAT_BAD \<and>
      valid_cluster (vol s) l \<longrightarrow> r = l)"
proof -
  let ?v = "vol s" and ?b = "c * 4 div 512"
  have g: "geometry ?v tot" using assms(1) by (simp add: fat_inv_def)
  show ?thesis
  proof (cases "?b < fat_sectors ?v")
    case False
    then have "r = CHAIN_ERROR" "s' = s" using assms(2) by (simp_all add: next_cluster_def Let_def not_less)
    moreover have "\<not> (valid_cluster ?v c \<and> unat c < 2 ^ 28)" using fat_position [OF g] False by (auto simp: word_less_nat_alt)
    ultimately show ?thesis using assms(1) by auto
  next
    case True
    note sn = fat_sector_nat [OF g True]
    let ?sec = "reserved_sectors ?v + ?b"
    define load where "load = (if fat_cache_sector s \<noteq> ?sec then
        case read_volume_sector ?sec s of (ok, bs, s) \<Rightarrow>
          if \<not> ok then (False, s\<lparr>fat_cache := bs @ drop (length bs) (fat_cache s), fat_cache_sector := 0xFFFFFFFF\<rparr>)
          else (True, s\<lparr>fat_cache := bs, fat_cache_sector := ?sec\<rparr>)
      else (True, s))"
    obtain b s1 where ld: "load = (b, s1)" by fastforce
    have L: "fat_inv rd content ok tot s1" "fat_frame content works s s1" "works (fat_dev s) \<Longrightarrow> b"
      "b \<Longrightarrow> fat_cache s1 = content (fat_dev s) (unat (volume_lba ?v) + unat ?sec)"
    proof -
      have "fat_inv rd content ok tot s1 \<and> fat_frame content works s s1 \<and> (works (fat_dev s) \<longrightarrow> b) \<and>
          (b \<longrightarrow> fat_cache s1 = content (fat_dev s) (unat (volume_lba ?v) + unat ?sec))"
      proof (cases "fat_cache_sector s = ?sec")
        case True
        then show ?thesis using ld assms(1) sn(3) by (auto simp: load_def fat_inv_def)
      next
        case False
        obtain b' bs t where q: "read_volume_sector ?sec s = (b', bs, t)" by (cases "read_volume_sector ?sec s") auto
        have "unat ?sec < tot" using sn by simp
        note sr = sector_read [OF assms(1) this q]
        show ?thesis using ld False q sr by (auto simp: load_def fat_inv_def fat_frame_def split: if_splits)
      qed
      then show "fat_inv rd content ok tot s1" "fat_frame content works s s1" "works (fat_dev s) \<Longrightarrow> b"
        "b \<Longrightarrow> fat_cache s1 = content (fat_dev s) (unat (volume_lba ?v) + unat ?sec)" by auto
    qed
    have v1: "vol s1 = ?v" using L(2) by (simp add: fat_frame_def)
    have n: "next_cluster c s = (if \<not> b then (CHAIN_ERROR, s1)
        else let w = rd32 (unat (c * 4 mod 512)) (fat_cache s1) AND FAT_MASK in
          if w \<ge> FAT_EOC_MIN then (0, s1) else if w = FAT_BAD \<or> \<not> valid_cluster ?v w \<or> w = c then (CHAIN_ERROR, s1) else (w, s1))"
    proof -
      have "\<not> ?b \<ge> fat_sectors ?v" using True by simp
      then show ?thesis unfolding next_cluster_def Let_def load_def [symmetric] ld by (simp only: if_False prod.case v1)
    qed
    have s': "s' = s1" "r = 0 \<or> r = CHAIN_ERROR \<or> valid_cluster ?v r" using assms(2) n by (auto simp: Let_def split: if_splits)
    have "r = l" if "works (fat_dev s)" "valid_cluster ?v c" "unat c < 2 ^ 28" "fat_link (content (fat_dev s)) ?v c = l" "l \<noteq> c" "l < FAT_BAD" "valid_cluster ?v l"
    proof -
      note fp = fat_position [OF g that(2,3)]
      have "rd32 (unat (c * 4 mod 512)) (fat_cache s1) AND FAT_MASK = l"
        using L(3,4) that(1,4) sn(1) fp by (simp add: fat_link_def add.assoc)
      moreover have "\<not> l \<ge> FAT_EOC_MIN" using that(6) by (simp add: FAT_BAD_def FAT_EOC_MIN_def word_less_nat_alt word_le_nat_alt)
      ultimately show ?thesis using assms(2) n L(3) that by (simp add: Let_def split: if_splits)
    qed
    then show ?thesis using L(1,2) s' by blast
  qed
qed

section \<open>Reading\<close>

lemma read_cluster_law:
  assumes "fat_inv rd content ok tot s" "works (fat_dev s)" "\<forall>l\<in>set secs. unat l < tot" "read_cluster secs n s = (b, out, s')"
  shows "b \<and> fat_inv rd content ok tot s' \<and> fat_frame content works s s' \<and>
    out = take n (concat (map (\<lambda>l. content (fat_dev s) (unat (volume_lba (vol s)) + unat l)) secs))"
  using assms
proof (induction secs arbitrary: n s out)
  case (Cons l secs)
  show ?case
  proof (cases "n = 0")
    case True
    then show ?thesis using Cons.prems by simp
  next
    case False
    obtain b1 bs t where r: "read_volume_sector l s = (b1, bs, t)" by (cases "read_volume_sector l s") auto
    have "unat l < tot" using Cons.prems(3) by simp
    note sr = sector_read [OF Cons.prems(1) this r]
    have b1: "b1" "bs = content (fat_dev s) (unat (volume_lba (vol s)) + unat l)" using sr(5,6) Cons.prems(2) by auto
    have len: "length bs = 512" unfolding b1(2) using Cons.prems(1) by (intro content_length) (simp add: fat_inv_def)
    let ?t = "t\<lparr>sector_buf := bs @ drop (length bs) (sector_buf t)\<rparr>"
    obtain b2 o2 u where c: "read_cluster secs (n - min n 512) ?t = (b2, o2, u)" by (cases "read_cluster secs (n - min n 512) ?t") auto
    have e: "b = b2" "out = take (min n 512) bs @ o2" "s' = u" using Cons.prems(4) False r b1(1) c len by (simp_all add: Let_def)
    have t: "fat_inv rd content ok tot ?t" "fat_frame content works s ?t" using sr(1,2) by (simp_all add: buf_update)
    then have f: "vol ?t = vol s" "content (fat_dev ?t) = content (fat_dev s)" "works (fat_dev ?t)" using Cons.prems(2) by (auto simp: fat_frame_def)
    have "\<forall>l\<in>set secs. unat l < tot" using Cons.prems(3) by simp
    note ih = Cons.IH [OF t(1) f(3) this c [folded e(1,3)], unfolded f(1,2)]
    have "take n (bs @ xs) = take (min n 512) bs @ take (n - min n 512) xs" for xs using len by (simp add: min_def)
    then show ?thesis using ih e(1,2) b1(2) fat_frame_trans [OF t(2)] by simp
  qed
qed simp

lemma cluster_read:
  assumes "fat_inv rd content ok tot s" "works (fat_dev s)" "valid_cluster (vol s) k" "read_cluster (cluster_sectors (vol s) k) n s = (b, out, s')"
  shows "b \<and> fat_inv rd content ok tot s' \<and> fat_frame content works s s' \<and> out = take n (cluster_bytes (content (fat_dev s)) (vol s) k)"
proof -
  have g: "geometry (vol s) tot" using assms(1) by (simp add: fat_inv_def)
  have "map (\<lambda>l. content (fat_dev s) (unat (volume_lba (vol s)) + unat l)) (cluster_sectors (vol s) k) =
      map (\<lambda>i. content (fat_dev s) (unat (volume_lba (vol s)) + unat (data_start (vol s)) + (unat k - 2) * unat (sectors_per_cluster (vol s)) + i))
        [0..<unat (sectors_per_cluster (vol s))]"
    unfolding cluster_sectors_def map_map comp_def using cluster_sector_nat(1) [OF g assms(3)] by (intro map_cong) (auto simp: add.assoc)
  then have "concat (map (\<lambda>l. content (fat_dev s) (unat (volume_lba (vol s)) + unat l)) (cluster_sectors (vol s) k)) =
      cluster_bytes (content (fat_dev s)) (vol s) k" unfolding cluster_bytes_def by metis
  then show ?thesis using read_cluster_law [OF assms(1,2) cluster_sectors_in [OF g assms(3)] assms(4)] by simp
qed

lemma cluster_bytes_length:
  assumes "ok d"
  shows "length (cluster_bytes (content d) v k) = 512 * unat (sectors_per_cluster v)"
proof -
  have "map length (map (\<lambda>i. content d (a + i)) [0..<n]) = replicate n 512" for a n
    using content_length [OF assms] by (intro nth_equalityI) auto
  then show ?thesis unfolding cluster_bytes_def length_concat by (simp add: sum_list_replicate del: map_map)
qed

lemma one_cluster:
  assumes "fat_inv rd content ok tot s" "works (fat_dev s)" "cluster_chain (content (fat_dev s)) (vol s) (k # ks)" "length ks < n"
    "todo \<le> 512 * unat (sectors_per_cluster (vol s))" "read_clusters n k todo s = (b, out, s')"
  shows "b \<and> fat_inv rd content ok tot s' \<and> fat_frame content works s s' \<and>
    out = take todo (concat (map (cluster_bytes (content (fat_dev s)) (vol s)) (k # ks)))"
proof -
  obtain m where n: "n = Suc m" using assms(4) by (cases n) auto
  have v: "valid_cluster (vol s) k" using assms(3) by (cases ks) auto
  obtain b1 o1 t where r: "read_cluster (cluster_sectors (vol s) k) todo s = (b1, o1, t)"
    by (cases "read_cluster (cluster_sectors (vol s) k) todo s") auto
  note c = cluster_read [OF assms(1,2) v r]
  have d: "ok (fat_dev s)" using assms(1) by (simp add: fat_inv_def)
  note len = cluster_bytes_length [OF d, of "vol s" k]
  show ?thesis
  proof (cases "todo = 0")
    case True
    then show ?thesis using assms(1,6) n by simp
  next
    case False
    have "b = True" "out = o1" "s' = t" using assms(5,6) n False v r c len by (simp_all add: Let_def)
    then show ?thesis using c assms(5) len by simp
  qed
qed

lemma read_clusters_law:
  assumes "fat_inv rd content ok tot s" "works (fat_dev s)" "cluster_chain (content (fat_dev s)) (vol s) (k # ks)" "length ks < n"
    "todo \<le> 512 * unat (sectors_per_cluster (vol s)) * Suc (length ks)" "read_clusters n k todo s = (b, out, s')"
  shows "b \<and> fat_inv rd content ok tot s' \<and> fat_frame content works s s' \<and>
    out = take todo (concat (map (cluster_bytes (content (fat_dev s)) (vol s)) (k # ks)))"
  using assms
proof (induction ks arbitrary: n k s todo out)
  case Nil
  then have "todo \<le> 512 * unat (sectors_per_cluster (vol s))" by simp
  then show ?case using one_cluster [OF Nil.prems(1-4) _ Nil.prems(6)] by simp
next
  case (Cons l ks)
  let ?L = "512 * unat (sectors_per_cluster (vol s))"
  show ?case
  proof (cases "todo \<le> ?L")
    case True
    then show ?thesis using one_cluster [OF Cons.prems(1-4) _ Cons.prems(6)] by simp
  next
    case False
    obtain m where n: "n = Suc m" using Cons.prems(4) by (cases n) auto
    have v: "valid_cluster (vol s) k" "unat k < 2 ^ 28" "fat_link (content (fat_dev s)) (vol s) k = l" "l \<noteq> k" "l < FAT_BAD"
      "cluster_chain (content (fat_dev s)) (vol s) (l # ks)" "valid_cluster (vol s) l"
      using Cons.prems(3) by (cases ks; auto)+
    obtain b1 o1 t where r: "read_cluster (cluster_sectors (vol s) k) todo s = (b1, o1, t)"
      by (cases "read_cluster (cluster_sectors (vol s) k) todo s") auto
    note c = cluster_read [OF Cons.prems(1,2) v(1) r]
    have d: "ok (fat_dev s)" using Cons.prems(1) by (simp add: fat_inv_def)
    have o1: "o1 = cluster_bytes (content (fat_dev s)) (vol s) k" "length o1 = ?L"
      using c cluster_bytes_length [OF d, of "vol s" k] False by simp_all
    have ft: "vol t = vol s" "content (fat_dev t) = content (fat_dev s)" "works (fat_dev t)" using c Cons.prems(2) by (auto simp: fat_frame_def)
    obtain x u where nx: "next_cluster k t = (x, u)" by fastforce
    have ct: "fat_inv rd content ok tot t" using c by blast
    note nl = next_cluster_law [OF ct nx, of l, unfolded ft]
    have x: "x = l" using nl ft(3) v by blast
    have fu: "fat_inv rd content ok tot u" "fat_frame content works s u" using nl c fat_frame_trans by blast+
    then have fu': "vol u = vol s" "content (fat_dev u) = content (fat_dev s)" "works (fat_dev u)" using Cons.prems(2) by (auto simp: fat_frame_def)
    have l0: "l \<noteq> 0" "l \<noteq> CHAIN_ERROR" using v(5,7) by (auto simp: valid_cluster_def CHAIN_ERROR_def FAT_BAD_def)
    obtain b2 o2 w where q: "read_clusters m l (todo - ?L) u = (b2, o2, w)" by (cases "read_clusters m l (todo - ?L) u") auto
    have e: "b = b2" "out = o1 @ o2" "s' = w" using Cons.prems(6) n False v(1) r conjunct1 [OF c] o1(2) nx x l0 q by (simp_all add: Let_def)
    have "b \<and> fat_inv rd content ok tot s' \<and> fat_frame content works u s' \<and>
        o2 = take (todo - ?L) (concat (map (cluster_bytes (content (fat_dev s)) (vol s)) (l # ks)))"
      using Cons.prems(4,5) n v(6) q [folded e(1,3)] unfolding fu'(1,2) [symmetric]
      by (intro Cons.IH [OF fu(1) fu'(3)]) (simp_all add: fu' algebra_simps)
    then show ?thesis using e(2) o1 False fat_frame_trans [OF fu(2)] by simp
  qed
qed

section \<open>Directories\<close>

lemma scan_sectors_frame:
  assumes "fat_inv rd content ok tot s" "\<forall>l\<in>set secs. unat l < tot" "scan_sectors visit secs v s = (r, w, s')"
  shows "fat_inv rd content ok tot s' \<and> fat_frame content works s s'"
  using assms
proof (induction secs arbitrary: v s)
  case (Cons l secs)
  obtain b bs t where q: "read_volume_sector l s = (b, bs, t)" by (cases "read_volume_sector l s") auto
  have "unat l < tot" using Cons.prems(2) by simp
  note sr = sector_read [OF Cons.prems(1) this q]
  let ?t = "t\<lparr>sector_buf := bs @ drop (length bs) (sector_buf t)\<rparr>"
  have t: "fat_inv rd content ok tot ?t" "fat_frame content works s ?t" using sr(1,2) by (simp_all add: buf_update)
  obtain stop x where e: "scan_entries visit (dir_entries (sector_buf ?t)) v = (stop, x)" by fastforce
  show ?case
  proof (cases "b \<and> \<not> stop")
    case True
    then have "scan_sectors visit secs x ?t = (r, w, s')" using Cons.prems(3) q e by (simp add: Let_def)
    then show ?thesis using Cons.IH [OF t(1)] Cons.prems(2) fat_frame_trans [OF t(2)] by fastforce
  next
    case False
    then have "s' = ?t" using Cons.prems(3) q e by (auto simp: Let_def split: if_splits)
    then show ?thesis using t by simp
  qed
qed simp

lemma walk_clusters_frame:
  assumes "fat_inv rd content ok tot s" "walk_clusters n visit k v s = (b, w, s')"
  shows "fat_inv rd content ok tot s' \<and> fat_frame content works s s'"
  using assms
proof (induction n arbitrary: k v s)
  case (Suc n)
  show ?case
  proof (cases "k \<noteq> 0 \<and> valid_cluster (vol s) k")
    case False
    then have "s' = s" using Suc.prems(2) by (auto split: if_splits)
    then show ?thesis using Suc.prems(1) by simp
  next
    case True
    obtain r x t where q: "scan_sectors visit (cluster_sectors (vol s) k) v s = (r, x, t)"
      by (cases "scan_sectors visit (cluster_sectors (vol s) k) v s") auto
    have "geometry (vol s) tot" using Suc.prems(1) by (simp add: fat_inv_def)
    then have t: "fat_inv rd content ok tot t" "fat_frame content works s t"
      using scan_sectors_frame [OF Suc.prems(1) cluster_sectors_in q] True by auto
    show ?thesis
    proof (cases r)
      case (Some c)
      then show ?thesis using Suc.prems(2) True q t by simp
    next
      case None
      obtain c u where nx: "next_cluster k t = (c, u)" by fastforce
      have u: "fat_inv rd content ok tot u" "fat_frame content works s u"
        using next_cluster_law [OF t(1) nx] fat_frame_trans [OF t(2)] by auto
      show ?thesis
      proof (cases "c = CHAIN_ERROR")
        case e: True
        then show ?thesis using Suc.prems(2) True q None nx u by simp
      next
        case e: False
        then have "walk_clusters n visit c x u = (b, w, s')" using Suc.prems(2) True q None nx by simp
        then show ?thesis using Suc.IH [OF u(1)] fat_frame_trans [OF u(2)] by blast
      qed
    qed
  qed
qed simp

lemma resolve_parts_frame:
  assumes "fat_inv rd content ok tot s" "resolve_parts parts cur s = (f, s')"
  shows "fat_inv rd content ok tot s' \<and> fat_frame content works s s'"
  using assms
proof (induction parts arbitrary: cur s)
  case (Cons part parts)
  show ?case
  proof (cases "to_short_name part = None \<or> \<not> is_dir cur")
    case True
    then have "s' = s" using Cons.prems(2) by (auto split: option.splits)
    then show ?thesis using Cons.prems(1) by simp
  next
    case False
    then obtain want where want: "to_short_name part = Some want" "is_dir cur" by auto
    obtain b g t where w: "walk_dir (first_cluster cur) (find_visitor want) None s = (b, g, t)"
      by (cases "walk_dir (first_cluster cur) (find_visitor want) None s") auto
    have t: "fat_inv rd content ok tot t" "fat_frame content works s t"
      using walk_clusters_frame [OF Cons.prems(1) w [unfolded walk_dir_def]] by auto
    show ?thesis
    proof (cases "b \<and> g \<noteq> None")
      case False
      then have "s' = t" using Cons.prems(2) want w by (auto split: if_splits)
      then show ?thesis using t by simp
    next
      case True
      then obtain x where "resolve_parts parts x t = (f, s')" using Cons.prems(2) want w by (auto simp: Let_def)
      then show ?thesis using Cons.IH [OF t(1)] fat_frame_trans [OF t(2)] by blast
    qed
  qed
qed simp

lemma fat_read_law:
  assumes "fat_inv rd content ok tot s" "works (fat_dev s)" "resolve path s = (Some f, s1)" "\<not> is_dir f"
    "cluster_chain (content (fat_dev s)) (vol s) ks" "distinct ks" "ks \<noteq> [] \<longrightarrow> hd ks = first_cluster f"
    "min (unat (fsize f)) cap \<le> 512 * unat (sectors_per_cluster (vol s)) * length ks"
  shows "\<exists>s'. fat_read path cap s = (True, take (min (unat (fsize f)) cap) (concat (map (cluster_bytes (content (fat_dev s)) (vol s)) ks)), s')"
proof -
  have s1: "fat_inv rd content ok tot s1" "fat_frame content works s s1"
    using assms(1,3) resolve_parts_frame [of tot s] by (auto simp: resolve_def split: if_splits)
  then have f: "vol s1 = vol s" "content (fat_dev s1) = content (fat_dev s)" "works (fat_dev s1)" using assms(2) by (auto simp: fat_frame_def)
  let ?n = "unat (cluster_count (vol s))" and ?m = "min (unat (fsize f)) cap"
  have r: "fat_read path cap s = read_clusters ?n (first_cluster f) ?m s1" using assms(3,4) f(1) by (simp add: fat_read_def)
  show ?thesis
  proof (cases ks)
    case Nil
    then have "?m = 0" using assms(8) by simp
    then have "read_clusters ?n (first_cluster f) ?m s1 = (True, [], s1)" by (cases ?n) simp_all
    then show ?thesis using r Nil \<open>?m = 0\<close> by auto
  next
    case (Cons k ks')
    have g: "geometry (vol s) tot" using assms(1) by (simp add: fat_inv_def)
    have "\<forall>x\<in>set ks. valid_cluster (vol s) x" using assms(5) by (induction "content (fat_dev s)" "vol s" ks rule: cluster_chain.induct) auto
    then have "unat ` set ks \<subseteq> {2..<?n + 2}" using valid_cluster_iff [OF g] by auto
    then have "card (unat ` set ks) \<le> ?n" using card_mono [of "{2..<?n + 2}"] by fastforce
    moreover have "card (unat ` set ks) = length ks"
      using assms(6) by (subst card_image) (auto simp: inj_on_def word_unat_eq_iff distinct_card)
    ultimately have len: "length ks' < ?n" using Cons by simp
    obtain b out s' where q: "read_clusters ?n k ?m s1 = (b, out, s')" by (cases "read_clusters ?n k ?m s1") auto
    have "b \<and> out = take ?m (concat (map (cluster_bytes (content (fat_dev s1)) (vol s1)) (k # ks')))"
      using read_clusters_law [OF s1(1) f(3) _ len _ q] assms(5,8) Cons unfolding f(1,2) by simp
    then show ?thesis using r q assms(7) Cons f(1,2) by simp
  qed
qed

end

end
