(* ===== verification/Fat32_Theorems.thy ===== *)
theory Fat32_Theorems
  imports Fat32_Correct Fs_Theorems
begin

text \<open>
  Properties of the FAT32 driver, on the ATA driver where the device matters, and a small volume on which
  they are applied.
\<close>

section \<open>A sample volume\<close>

lemma byte_of_words:
  "i < n \<Longrightarrow> bytes_of_words (map f [a..<a + n]) ! (2 * i) = ucast (f (a + i)) \<and>
     bytes_of_words (map f [a..<a + n]) ! (2 * i + 1) = ucast (drop_bit 8 (f (a + i)))"
proof (induction n arbitrary: a i)
  case (Suc n)
  have u: "[a..<a + Suc n] = a # [Suc a..<Suc a + n]" by (simp add: upt_conv_Cons)
  show ?case
  proof (cases i)
    case 0
    then show ?thesis unfolding u by simp
  next
    case (Suc j)
    then show ?thesis using Suc.IH [of j "Suc a"] Suc.prems unfolding u by simp
  qed
qed simp

lemma disk_sector_byte:
  "k < 512 \<Longrightarrow> disk_sector s sec ! k = (let w = pd_words (dev s) (256 * sec + k div 2) in if even k then ucast w else ucast (drop_bit 8 w))"
  using byte_of_words [of "k div 2" 256 "pd_words (dev s)" "256 * sec"]
  by (cases "even k") (auto simp: disk_sector_def Let_def elim!: evenE oddE)

text \<open>65525 clusters of one sector; a root directory in cluster 2 with one file, of five bytes, in cluster 3.\<close>

definition fat_words :: "nat \<Rightarrow> u16" where
  "fat_words n =
     (if n = 8388608 + 6 then 0x102 else if n = 8388608 + 7 then 1 else if n = 8388608 + 8 then 1 else if n = 8388608 + 16 then 0x1F6
      else if n = 8388608 + 17 then 1 else if n = 8388608 + 18 then 0x200 else if n = 8388608 + 22 then 2 else if n = 8388608 + 255 then 0xAA55
      else if n = 8519936 then 0x2041 else if 8519937 \<le> n \<and> n \<le> 8519941 then 0x2020 else if n = 8519949 then 3 else if n = 8519950 then 5
      else if n = 8520192 then 0x6968 else 0)"

definition fat_disk :: "pio_disk ata_state fat_state" where
  "fat_disk = \<lparr>vol = no_volume, sector_buf = [], fat_cache = [], fat_cache_sector = 0,
     fat_dev = blank_disk\<lparr>dev := (dev blank_disk)\<lparr>pd_words := fat_words\<rparr>\<rparr>\<rparr>"

lemma fat_disk_works: "disk_works (fat_dev fat_disk)" "disk_idle (fat_dev fat_disk)" "pd_words (dev (fat_dev fat_disk)) = fat_words"
  by (simp_all add: fat_disk_def disk_works_def disk_idle_def blank_disk_def)

lemma fat_disk_boot:
  defines "bs \<equiv> disk_sector (fat_dev fat_disk) 32768"
  shows "bs ! 510 = 0x55" "bs ! 511 = 0xAA" "rd16 11 bs = 512" "bs ! 13 = 1" "rd16 14 bs = 1" "bs ! 16 = 1" "rd16 17 bs = 0" "rd16 19 bs = 0"
    "rd16 22 bs = 0" "rd32 32 bs = 66038" "rd32 36 bs = 512" "rd16 42 bs = 0" "rd32 44 bs = 2"
  by (simp_all add: bs_def rd16_def rd32_def disk_sector_byte fat_disk_works fat_words_def)

definition sample_volume :: "pio_disk ata_state Volume" where
  "sample_volume = \<lparr>vreader = Some (ata_read pio), volume_lba = 32768, sectors_per_cluster = 1, reserved_sectors = 1, fat_sectors = 512,
     data_start = 513, root_cluster = 2, cluster_count = 65525, vol_ok = True\<rparr>"

lemma fat_disk_mounts:
  obtains s where "mount_disk pio fat_disk = (True, s)" "vol s = sample_volume" "disk_works (fat_dev s)"
    "disk_sector (fat_dev s) = disk_sector (fat_dev fat_disk)"
proof -
  obtain b bs d where r: "ata_read pio 32768 1 (fat_dev fat_disk) = (b, bs, d)" by (cases "ata_read pio 32768 1 (fat_dev fat_disk)") auto
  note l = ata_disk.rd_one [OF fat_disk_works(2) _ r]
  have bs: "b" "bs = disk_sector (fat_dev fat_disk) 32768" "disk_works d" using l(3,4) fat_disk_works(1) by auto
  let ?s = "fat_disk\<lparr>vol := sample_volume, fat_cache_sector := 0xFFFFFFFF, fat_dev := d\<rparr>"
  have "mount_disk pio fat_disk = (True, ?s)"
    using r bs(1) by (simp add: mount_disk_def fat_mount_def DISK_VOLUME_LBA_def bs(2) fat_disk_boot Let_def sample_volume_def)
  then show thesis using bs(3) l(2) by (intro that [of ?s]) simp_all
qed

lemma root_entry:
  fixes rest :: "u8 list"
  defines "e \<equiv> take 32 (drop (32 * 0) (disk_sector (fat_dev fat_disk) 33281 @ rest))"
  shows "e ! 0 = 65" "e ! 11 = 0x20" "take 11 e = [65, 32, 32, 32, 32, 32, 32, 32, 32, 32, 32]" "entry_cluster e = 3" "rd32 28 e = 5"
proof -
  have l: "length (disk_sector (fat_dev fat_disk) 33281) = 512" by (rule ata_disk.content_length [OF fat_disk_works(2)])
  have n: "e ! i = disk_sector (fat_dev fat_disk) 33281 ! i" if "i < 32" for i using that l by (simp add: e_def nth_append)
  have b: "e ! i = (let w = fat_words (8519936 + i div 2) in if even i then ucast w else ucast (drop_bit 8 w))" if "i < 32" for i
    using n [OF that] disk_sector_byte [of i "fat_dev fat_disk" 33281] that by (simp add: fat_disk_works)
  show "e ! 0 = 65" "e ! 11 = 0x20" by (simp_all add: b fat_words_def)
  have "length (take 11 e) = 11" using l by (simp add: e_def)
  then have "take 11 e = map (\<lambda>i. e ! i) [0..<11]" by (intro nth_equalityI) auto
  also have "\<dots> = [65, 32, 32, 32, 32, 32, 32, 32, 32, 32, 32]" by (simp add: upt_rec b fat_words_def)
  finally show "take 11 e = [65, 32, 32, 32, 32, 32, 32, 32, 32, 32, 32]" .
  show "entry_cluster e = 3" "rd32 28 e = 5" by (simp_all add: entry_cluster_def rd16_def rd32_def b fat_words_def)
qed

lemma mounted_inv:
  assumes "disk_works (fat_dev s0)" "mount_disk pio s0 = (True, s)"
    "32768 + unat (rd32 32 (disk_sector (fat_dev s0) 32768)) \<le> 2 ^ 28"
  shows "fat_inv (ata_read pio) disk_sector disk_idle (unat (rd32 32 (disk_sector (fat_dev s0) 32768))) s" "disk_works (fat_dev s)"
    "disk_sector (fat_dev s) = disk_sector (fat_dev s0)"
proof -
  obtain b bs d where r: "ata_read pio 32768 1 (fat_dev s0) = (b, bs, d)" by (cases "ata_read pio 32768 1 (fat_dev s0)") auto
  have i: "disk_idle (fat_dev s0)" using assms(1) by (simp add: disk_works_def)
  note l = ata_disk.rd_one [OF i _ r]
  have bs: "b" "bs = disk_sector (fat_dev s0) 32768" "disk_works d" using l(3,4) assms(1) by auto
  have m: "fat_mount (Some (ata_read pio)) 32768 s0 = (True, s)" using assms(2) by (simp add: mount_disk_def DISK_VOLUME_LBA_def)
  have r': "ata_read pio 32768 1 (fat_dev s0) = (True, bs, d)" using r bs(1) by simp
  note g = mount_geometry [OF r' m]
  show "fat_inv (ata_read pio) disk_sector disk_idle (unat (rd32 32 (disk_sector (fat_dev s0) 32768))) s" "disk_works (fat_dev s)"
    using g bs(2,3) assms(3) by (simp_all add: fat_inv_def disk_works_def)
  show "disk_sector (fat_dev s) = disk_sector (fat_dev s0)" using g(6) l(2) by simp
qed

lemma sample_resolve:
  assumes "vol s = sample_volume" "disk_works (fat_dev s)" "disk_sector (fat_dev s) = disk_sector (fat_dev fat_disk)"
    "fat_inv (ata_read pio) disk_sector disk_idle tot s" "tot = 66038"
  shows "\<exists>s1. resolve [65] s = (Some \<lparr>first_cluster = 3, fsize = 5, is_dir = False\<rparr>, s1)"
proof -
  have pp: "path_parts [65] = [[65]]" by (simp add: path_parts.simps)
  have sn: "to_short_name [65] = Some [65, 32, 32, 32, 32, 32, 32, 32, 32, 32, 32]" by code_simp
  obtain b bs t where r: "read_volume_sector 513 s = (b, bs, t)" by (cases "read_volume_sector 513 s") auto
  note sr = ata_disk.sector_read [OF assms(4) _ r]
  have bs: "b" "bs = disk_sector (fat_dev fat_disk) 33281" using sr(5,6) assms by (auto simp: sample_volume_def)
  let ?w = "[65, 32, 32, 32, 32, 32, 32, 32, 32, 32, 32] :: u8 list" and ?f = "\<lparr>first_cluster = 3, fsize = 5, is_dir = False\<rparr>"
  let ?t = "t\<lparr>sector_buf := bs @ drop (length bs) (sector_buf t)\<rparr>"
  have de: "dir_entries xs = take 32 (drop (32 * 0) xs) # map (\<lambda>k. take 32 (drop (32 * k) xs)) [1..<16]" for xs :: "u8 list"
    by (simp add: dir_entries_def upt_conv_Cons)
  define e where "e = take 32 (drop (32 * 0) (disk_sector (fat_dev fat_disk) 33281 @ drop (length bs) (sector_buf t)))"
  note re = root_entry [of "drop (length bs) (sector_buf t)", folded e_def]
  have "scan_entries (find_visitor ?w) (e # es) None = (True, Some ?f)" for es
    by (simp add: re find_visitor_def Let_def ATTR_LFN_def ATTR_VOLUME_ID_def ATTR_DIRECTORY_def)
  moreover have "dir_entries (sector_buf ?t) = e # map (\<lambda>k. take 32 (drop (32 * k) (sector_buf ?t))) [1..<16]"
    unfolding de [of "sector_buf ?t"] by (simp add: e_def bs(2))
  ultimately have "scan_entries (find_visitor ?w) (dir_entries (sector_buf ?t)) None = (True, Some ?f)" by (simp only:)
  then have "scan_sectors (find_visitor ?w) [513] None s = (Some True, Some ?f, ?t)" using r bs(1) by (simp add: Let_def)
  moreover have "cluster_sectors (vol s) 2 = [513]" by (simp add: assms(1) sample_volume_def cluster_sectors_def cluster_sector_def)
  moreover have "valid_cluster (vol s) 2" by (simp add: assms(1) sample_volume_def valid_cluster_def)
  moreover have "unat (cluster_count (vol s)) \<noteq> 0" by (simp add: assms(1) sample_volume_def)
  then obtain n where "unat (cluster_count (vol s)) = Suc n" using not0_implies_Suc by blast
  ultimately have "walk_dir 2 (find_visitor ?w) None s = (True, Some ?f, ?t)" by (simp add: walk_dir_def del: scan_sectors.simps)
  then show ?thesis using sn by (simp add: resolve_def pp assms(1)) (simp add: sample_volume_def)
qed

section \<open>Properties\<close>

text \<open>
  C38. A volume that mounts is consistent with its boot sector: the first sectors hold the reserved area
  and the table, the table has an entry for every cluster, the sectors of every valid cluster are computed
  without wrapping around and lie between the table and the end of the volume, and different clusters
  never share a sector.
\<close>

theorem fat_mount_geometry:
  assumes "rd lba 1 (fat_dev s) = (True, bs, d)" "fat_mount (Some rd) lba s = (True, s')" "valid_cluster (vol s') c"
    "i < unat (sectors_per_cluster (vol s'))"
  shows "unat (reserved_sectors (vol s')) + unat (fat_sectors (vol s')) \<le> unat (cluster_sector (vol s') c + of_nat i) \<and>
    unat (cluster_sector (vol s') c + of_nat i) < unat (rd32 32 bs) \<and> unat c < 128 * unat (fat_sectors (vol s')) \<and>
    (\<forall>c' j. valid_cluster (vol s') c' \<and> j < unat (sectors_per_cluster (vol s')) \<and>
       cluster_sector (vol s') c + of_nat i = cluster_sector (vol s') c' + of_nat j \<longrightarrow> c = c' \<and> i = j)"
proof -
  let ?v = "vol s'" and ?p = "unat (sectors_per_cluster (vol s'))"
  note g = mount_geometry(1) [OF assms(1,2)]
  note n = cluster_sector_nat [OF g assms(3,4)]
  have c: "2 \<le> unat c" "unat c < unat (cluster_count ?v) + 2" using valid_cluster_iff [OF g] assms(3) by auto
  have "c = c' \<and> i = j" if x: "valid_cluster ?v c'" "j < ?p" "cluster_sector ?v c + of_nat i = cluster_sector ?v c' + of_nat j" for c' j
  proof -
    have "2 \<le> unat c'" using valid_cluster_iff [OF g] x(1) by auto
    have e: "(unat c - 2) * ?p + i = (unat c' - 2) * ?p + j"
      using n(1) cluster_sector_nat(1) [OF g x(1,2)] x(3) by simp
    have "((unat c - 2) * ?p + i) div ?p = unat c - 2" "((unat c' - 2) * ?p + j) div ?p = unat c' - 2" using assms(4) x(2) by simp_all
    then have "unat c - 2 = unat c' - 2" using e by simp
    then show ?thesis using e c(1) \<open>2 \<le> unat c'\<close> by (auto simp: word_unat_eq_iff)
  qed
  then show ?thesis using n g c by (auto simp: geometry_def)
qed

theorem fat_mount_geometry_witness:
  "\<exists>s'. mount_disk pio fat_disk = (True, s') \<and> valid_cluster (vol s') 3 \<and> unat (cluster_sector (vol s') 3) < 66038"
proof -
  obtain s where s: "mount_disk pio fat_disk = (True, s)" "vol s = sample_volume" "disk_works (fat_dev s)"
    "disk_sector (fat_dev s) = disk_sector (fat_dev fat_disk)" using fat_disk_mounts .
  obtain b bs d where r: "ata_read pio 32768 1 (fat_dev fat_disk) = (b, bs, d)" by (cases "ata_read pio 32768 1 (fat_dev fat_disk)") auto
  have b: "b" "bs = disk_sector (fat_dev fat_disk) 32768" using ata_disk.rd_one(3,4) [OF fat_disk_works(2) _ r] fat_disk_works(1) by auto
  have m: "fat_mount (Some (ata_read pio)) 32768 fat_disk = (True, s)" using s(1) by (simp add: mount_disk_def DISK_VOLUME_LBA_def)
  have v: "valid_cluster (vol s) 3" "0 < unat (sectors_per_cluster (vol s))" by (simp_all add: s(2) sample_volume_def valid_cluster_def)
  show ?thesis using fat_mount_geometry [OF _ m v, of bs d] r b s(1) v(1) fat_disk_boot(10) by auto
qed

text \<open>
  C16. Reading a file of a mounted volume returns its contents: if the path leads to a file whose clusters
  are linked by the table in a chain without repetition that is long enough, the read succeeds and returns
  the bytes of these clusters, up to the size of the file or the capacity of the buffer. The cached sector
  of the table never makes a difference.
\<close>

theorem fat_read_correct:
  assumes "disk_works (fat_dev s0)" "mount_disk pio s0 = (True, s)" "32768 + unat (rd32 32 (disk_sector (fat_dev s0) 32768)) \<le> 2 ^ 28"
    "resolve path s = (Some f, s1)" "\<not> is_dir f" "cluster_chain (disk_sector (fat_dev s0)) (vol s) ks" "distinct ks"
    "ks \<noteq> [] \<longrightarrow> hd ks = first_cluster f" "min (unat (fsize f)) cap \<le> 512 * unat (sectors_per_cluster (vol s)) * length ks"
  shows "\<exists>s'. fat_read path cap s =
    (True, take (min (unat (fsize f)) cap) (concat (map (cluster_bytes (disk_sector (fat_dev s0)) (vol s)) ks)), s')"
proof -
  note i = mounted_inv [OF assms(1-3)]
  show ?thesis using ata_disk.fat_read_law [OF i(1,2) assms(4,5) _ assms(7,8,9)] assms(6) unfolding i(3) by simp
qed

theorem fat_read_correct_witness:
  "\<exists>s s'. mount_disk pio fat_disk = (True, s) \<and> fat_read [65] 100 s = (True, [0x68, 0x69, 0, 0, 0], s')"
proof -
  obtain s where s: "mount_disk pio fat_disk = (True, s)" "vol s = sample_volume" "disk_works (fat_dev s)"
    "disk_sector (fat_dev s) = disk_sector (fat_dev fat_disk)" using fat_disk_mounts .
  have b: "32768 + unat (rd32 32 (disk_sector (fat_dev fat_disk) 32768)) \<le> 2 ^ 28" by (simp add: fat_disk_boot)
  note i = mounted_inv [OF fat_disk_works(1) s(1) b]
  obtain s1 where r: "resolve [65] s = (Some \<lparr>first_cluster = 3, fsize = 5, is_dir = False\<rparr>, s1)"
    using sample_resolve [OF s(2-4) i(1)] by (auto simp: fat_disk_boot)
  have c: "cluster_chain (disk_sector (fat_dev fat_disk)) (vol s) [3]" by (simp add: s(2) sample_volume_def valid_cluster_def)
  have l: "length (disk_sector (fat_dev fat_disk) 33282) = 512" by (rule ata_disk.content_length [OF fat_disk_works(2)])
  have "take 5 (disk_sector (fat_dev fat_disk) 33282) = map (\<lambda>i. disk_sector (fat_dev fat_disk) 33282 ! i) [0..<5]"
    using l by (intro nth_equalityI) auto
  also have "\<dots> = [0x68, 0x69, 0, 0, 0]" by (simp add: upt_rec disk_sector_byte fat_disk_works fat_words_def)
  finally have "take 5 (cluster_bytes (disk_sector (fat_dev fat_disk)) (vol s) 3) = [0x68, 0x69, 0, 0, 0]"
    by (simp add: cluster_bytes_def s(2) sample_volume_def)
  then show ?thesis using fat_read_correct [OF fat_disk_works(1) s(1) b r _ c, of 100] s(1) by (auto simp: s(2)) (simp add: sample_volume_def)
qed

end
