(* ===== verification/Elf.thy ===== *)
theory Elf
  imports Kernel_Prelude
begin

text \<open>
  The ELF validator of \<^verbatim>\<open>kernel/elf.cpp\<close>. The file is a list of bytes; the structures the code overlays on
  it are decoded from the bytes at their offsets. A read past the end of the file gives \<open>None\<close>, a
  rejected file its error message.
\<close>

section \<open>Structures\<close>

definition ELFMAG0 :: u8 where "ELFMAG0 = 0x7F"
definition ELFMAG1 :: u8 where "ELFMAG1 = 0x45"
definition ELFMAG2 :: u8 where "ELFMAG2 = 0x4C"
definition ELFMAG3 :: u8 where "ELFMAG3 = 0x46"
definition ELFCLASS64 :: u8 where "ELFCLASS64 = 2"
definition ELFDATA2LSB :: u8 where "ELFDATA2LSB = 1"
definition ET_EXEC :: u16 where "ET_EXEC = 2"
definition EM_X86_64 :: u16 where "EM_X86_64 = 62"
definition PT_NULL :: u32 where "PT_NULL = 0"
definition PT_LOAD :: u32 where "PT_LOAD = 1"
definition PT_GNU_STACK :: u32 where "PT_GNU_STACK = 0x6474E551"
definition PF_EXEC :: u32 where "PF_EXEC = 1"
definition PF_WRITE :: u32 where "PF_WRITE = 2"
definition PF_READ :: u32 where "PF_READ = 4"
definition PF_KNOWN_MASK :: u32 where "PF_KNOWN_MASK = PF_EXEC OR PF_WRITE OR PF_READ"
definition USER_SPACE_MIN :: u64 where "USER_SPACE_MIN = 0x40000000"
definition USER_SPACE_MAX :: u64 where "USER_SPACE_MAX = 0x800000000000"
definition MAX_LOAD_SEGMENTS :: u16 where "MAX_LOAD_SEGMENTS = 16"
definition PAGE_SIZE :: u64 where "PAGE_SIZE = 0x1000"
definition PAGE_MASK :: u64 where "PAGE_MASK = PAGE_SIZE - 1"
definition U64_MAX :: u64 where "U64_MAX = NOT 0"

record Elf64_Ehdr =
  e_ident :: "u8 list"
  e_type :: u16
  e_machine :: u16
  e_version :: u32
  e_entry :: u64
  e_phoff :: u64
  e_shoff :: u64
  e_flags :: u32
  e_ehsize :: u16
  e_phentsize :: u16
  e_phnum :: u16
  e_shentsize :: u16
  e_shnum :: u16
  e_shstrndx :: u16

record Elf64_Phdr =
  p_type :: u32
  p_flags :: u32
  p_offset :: u64
  p_vaddr :: u64
  p_paddr :: u64
  p_filesz :: u64
  p_memsz :: u64
  p_align :: u64

definition SIZEOF_Ehdr :: nat where "SIZEOF_Ehdr = 64"
definition SIZEOF_Phdr :: nat where "SIZEOF_Phdr = 56"

text \<open>A little-endian field of \<open>n\<close> bytes at an offset.\<close>

fun le_nat :: "u8 list \<Rightarrow> nat" where
  "le_nat [] = 0"
| "le_nat (b # bs) = unat b + 256 * le_nat bs"

definition field :: "nat \<Rightarrow> nat \<Rightarrow> u8 list \<Rightarrow> 'w::len word" where
  "field off n bs = of_nat (le_nat (take n (drop off bs)))"

definition parse_ehdr :: "u8 list \<Rightarrow> Elf64_Ehdr" where
  "parse_ehdr bs = \<lparr>e_ident = take 16 bs, e_type = field 16 2 bs, e_machine = field 18 2 bs, e_version = field 20 4 bs,
     e_entry = field 24 8 bs, e_phoff = field 32 8 bs, e_shoff = field 40 8 bs, e_flags = field 48 4 bs,
     e_ehsize = field 52 2 bs, e_phentsize = field 54 2 bs, e_phnum = field 56 2 bs, e_shentsize = field 58 2 bs,
     e_shnum = field 60 2 bs, e_shstrndx = field 62 2 bs\<rparr>"

definition parse_phdr :: "u8 list \<Rightarrow> Elf64_Phdr" where
  "parse_phdr bs = \<lparr>p_type = field 0 4 bs, p_flags = field 4 4 bs, p_offset = field 8 8 bs, p_vaddr = field 16 8 bs,
     p_paddr = field 24 8 bs, p_filesz = field 32 8 bs, p_memsz = field 40 8 bs, p_align = field 48 8 bs\<rparr>"

definition read_at :: "u8 list \<Rightarrow> nat \<Rightarrow> nat \<Rightarrow> u8 list option" where
  "read_at file off n = (if off + n \<le> length file then Some (take n (drop off file)) else None)"

fun read_phdrs :: "u8 list \<Rightarrow> nat \<Rightarrow> nat \<Rightarrow> Elf64_Phdr list option" where
  "read_phdrs file off 0 = Some []"
| "read_phdrs file off (Suc n) =
     (case read_at file off SIZEOF_Phdr of
        None \<Rightarrow> None
      | Some bs \<Rightarrow> map_option ((#) (parse_phdr bs)) (read_phdrs file (off + SIZEOF_Phdr) n))"

section \<open>Validation\<close>

definition add_overflows :: "u64 \<Rightarrow> u64 \<Rightarrow> bool" where
  "add_overflows a b \<longleftrightarrow> b > U64_MAX - a"

definition is_power_of_two :: "u64 \<Rightarrow> bool" where
  "is_power_of_two x \<longleftrightarrow> x \<noteq> 0 \<and> x AND (x - 1) = 0"

text \<open>The checks of one loadable segment, up to its page range.\<close>

definition check_segment :: "u64 \<Rightarrow> Elf64_Phdr \<Rightarrow> string + u64 \<times> u64" where
  "check_segment file_size phdr =
     (if p_flags phdr = 0 then Inl ''A PT_LOAD segment has no permissions set.''
      else if p_flags phdr AND NOT PF_KNOWN_MASK \<noteq> 0 then Inl ''A PT_LOAD segment has unrecognized flag bits set.''
      else if p_flags phdr AND PF_WRITE \<noteq> 0 \<and> p_flags phdr AND PF_EXEC \<noteq> 0 then
        Inl ''A PT_LOAD segment is both writable and executable (W^X violation).''
      else if p_memsz phdr < p_filesz phdr then Inl ''A segment's p_memsz is smaller than its p_filesz.''
      else if add_overflows (p_offset phdr) (p_filesz phdr) then Inl ''A segment's file offset+size overflows.''
      else if p_offset phdr + p_filesz phdr > file_size then Inl ''A segment's data runs past end of file.''
      else if add_overflows (p_vaddr phdr) (p_memsz phdr) then Inl ''A segment's virtual address+size overflows.''
      else
        let seg_end = p_vaddr phdr + p_memsz phdr in
        if p_vaddr phdr < USER_SPACE_MIN then Inl ''A segment targets kernel-shared address space.''
        else if seg_end > USER_SPACE_MAX then Inl ''A segment targets non-canonical/reserved address space.''
        else if p_align phdr \<noteq> 0 \<and> \<not> is_power_of_two (p_align phdr) then
          Inl ''A segment's alignment is not a power of two.''
        else if p_align phdr \<noteq> 0 \<and> p_vaddr phdr mod p_align phdr \<noteq> p_offset phdr mod p_align phdr then
          Inl ''A segment's virtual address and file offset disagree modulo its alignment.''
        else
          let page_start = p_vaddr phdr AND NOT PAGE_MASK;
              page_end = (seg_end + PAGE_MASK) AND NOT PAGE_MASK
          in if page_end \<le> page_start then Inl ''A segment's page-aligned range is empty or overflowed.''
             else Inr (page_start, page_end))"

fun check_segments :: "u64 \<Rightarrow> Elf64_Phdr list \<Rightarrow> (u64 \<times> u64) list \<Rightarrow> string + (u64 \<times> u64) list" where
  "check_segments file_size [] loads = Inr loads"
| "check_segments file_size (phdr # phdrs) loads =
     (if p_type phdr = PT_NULL \<or> p_type phdr = PT_GNU_STACK then check_segments file_size phdrs loads
      else if p_type phdr \<noteq> PT_LOAD then
        Inl ''Unsupported program header type (only PT_LOAD, PT_NULL, and PT_GNU_STACK are allowed).''
      else
        case check_segment file_size phdr of
          Inl e \<Rightarrow> Inl e
        | Inr (page_start, page_end) \<Rightarrow>
            if \<exists>l \<in> set loads. page_start < snd l \<and> fst l < page_end then Inl ''Two PT_LOAD segments overlap.''
            else check_segments file_size phdrs (loads @ [(page_start, page_end)]))"

definition entry_in :: "u64 \<Rightarrow> Elf64_Phdr \<Rightarrow> bool" where
  "entry_in entry phdr \<longleftrightarrow> p_type phdr = PT_LOAD \<and> entry \<ge> p_vaddr phdr \<and> entry < p_vaddr phdr + p_memsz phdr"

definition check_header :: "u64 \<Rightarrow> Elf64_Ehdr \<Rightarrow> string option" where
  "check_header file_size header =
     (if e_ident header ! 0 \<noteq> ELFMAG0 \<or> e_ident header ! 1 \<noteq> ELFMAG1 \<or> e_ident header ! 2 \<noteq> ELFMAG2 \<or> e_ident header ! 3 \<noteq> ELFMAG3
      then Some ''Bad ELF magic - not an ELF file.''
      else if e_ident header ! 4 \<noteq> ELFCLASS64 then Some ''Not a 64-bit ELF file (ELFCLASS64 required).''
      else if e_ident header ! 5 \<noteq> ELFDATA2LSB then Some ''Not little-endian (ELFDATA2LSB required).''
      else if e_type header \<noteq> ET_EXEC then Some ''Not a static executable (ET_EXEC required - no PIE/shared objects).''
      else if e_machine header \<noteq> EM_X86_64 then Some ''Not an x86-64 executable.''
      else if e_phnum header = 0 then Some ''ELF file has no program headers.''
      else if e_phnum header > MAX_LOAD_SEGMENTS then Some ''Too many program headers.''
      else if e_phentsize header \<noteq> of_nat SIZEOF_Phdr then Some ''Unexpected program header entry size.''
      else
        let phdr_table_bytes = ucast (e_phnum header) * of_nat SIZEOF_Phdr in
        if add_overflows (e_phoff header) phdr_table_bytes then Some ''Program header table offset overflows.''
        else if e_phoff header + phdr_table_bytes > file_size then Some ''Program header table runs past end of file.''
        else None)"

definition validate :: "u8 list \<Rightarrow> (string + Elf64_Ehdr \<times> Elf64_Phdr list) option" where
  "validate file =
     (let file_size = of_nat (length file) :: u64 in
      if file_size < of_nat SIZEOF_Ehdr then Some (Inl ''File too small to contain an ELF header.'')
      else
        case read_at file 0 SIZEOF_Ehdr of
          None \<Rightarrow> None
        | Some bs \<Rightarrow>
            let header = parse_ehdr bs in
            case check_header file_size header of
              Some e \<Rightarrow> Some (Inl e)
            | None \<Rightarrow>
                case read_phdrs file (unat (e_phoff header)) (unat (e_phnum header)) of
                  None \<Rightarrow> None
                | Some phdrs \<Rightarrow>
                    case check_segments file_size phdrs [] of
                      Inl e \<Rightarrow> Some (Inl e)
                    | Inr loads \<Rightarrow>
                        if loads = [] then Some (Inl ''ELF file has no PT_LOAD segments - nothing to run.'')
                        else if \<not> list_ex (entry_in (e_entry header)) phdrs then
                          Some (Inl ''Entry point does not fall within any loaded segment.'')
                        else Some (Inr (header, phdrs)))"

end
