(* ===== verification/Usercopy.thy ===== *)
theory Usercopy
  imports Task Elf Paging_Map
begin

text \<open>
  Copies between kernel and user memory, \<^verbatim>\<open>kernel/usercopy.cpp\<close>: a user pointer is accepted only if every
  page it reaches is accessible to user mode. The state is extended by the bytes of physical memory, which
  the copies reach through the translation of the processor. A kernel buffer is the list of its bytes.
\<close>

record machine_state = task_state +
  phys_mem :: "u64 \<Rightarrow> u8"

section \<open>The code\<close>

definition page_is_user_accessible :: "u64 \<Rightarrow> bool \<Rightarrow> 'a paging_state_scheme \<Rightarrow> bool" where
  "page_is_user_accessible page_addr require_writable s =
     (let pml4 = cr3 s AND ADDR_MASK; pml4_entry = ptab s pml4 (pml4_index page_addr) in
      if \<not> has_flag pml4_entry PAGE_PRESENT \<or> \<not> has_flag pml4_entry PAGE_USER then False
      else
        let pdpt = pml4_entry AND ADDR_MASK; pdpt_entry = ptab s pdpt (pdpt_index page_addr) in
        if \<not> has_flag pdpt_entry PAGE_PRESENT \<or> \<not> has_flag pdpt_entry PAGE_USER then False
        else if has_flag pdpt_entry PAGE_HUGE then \<not> require_writable \<or> has_flag pdpt_entry PAGE_WRITABLE
        else
          let pd = pdpt_entry AND ADDR_MASK; pd_entry = ptab s pd (pd_index page_addr) in
          if \<not> has_flag pd_entry PAGE_PRESENT \<or> \<not> has_flag pd_entry PAGE_USER then False
          else if has_flag pd_entry PAGE_HUGE then \<not> require_writable \<or> has_flag pd_entry PAGE_WRITABLE
          else
            let pt = pd_entry AND ADDR_MASK; pt_entry = ptab s pt (pt_index page_addr) in
            if \<not> has_flag pt_entry PAGE_PRESENT \<or> \<not> has_flag pt_entry PAGE_USER then False
            else \<not> require_writable \<or> has_flag pt_entry PAGE_WRITABLE)"

text \<open>The loop over the pages ends when it meets the last one; \<open>None\<close> would mean that it never does.\<close>

partial_function (option) check_pages :: "u64 \<Rightarrow> u64 \<Rightarrow> bool \<Rightarrow> 'a paging_state_scheme \<Rightarrow> bool option" where
  "check_pages page last_page require_writable s =
     (if \<not> page_is_user_accessible page require_writable s then Some False
      else if page = last_page then Some True
      else check_pages (page + 0x1000) last_page require_writable s)"

definition validate_user_range :: "u64 \<Rightarrow> u64 \<Rightarrow> bool \<Rightarrow> 'a paging_state_scheme \<Rightarrow> bool option" where
  "validate_user_range addr len require_writable s =
     (if len = 0 then Some True
      else
        let end_addr = addr + len in
        if end_addr < addr then Some False
        else if addr < USER_SPACE_MIN then Some False
        else if end_addr > USER_SPACE_MAX then Some False
        else check_pages (addr AND NOT 0xFFF) ((end_addr - 1) AND NOT 0xFFF) require_writable s)"

text \<open>
  The translation of a virtual address by the processor: the entries it uses, from the root down to the
  one that maps the page, and the physical address. A missing entry faults; so does a root entry with the
  bit that means a huge page further down.
\<close>

definition mmu_entries :: "'a paging_state_scheme \<Rightarrow> u64 \<Rightarrow> u64 list option" where
  "mmu_entries s v =
     (let e4 = ptab s (cr3 s AND ADDR_MASK) (pml4_index v) in
      if \<not> has_flag e4 PAGE_PRESENT \<or> has_flag e4 PAGE_HUGE then None
      else
        let e3 = ptab s (e4 AND ADDR_MASK) (pdpt_index v) in
        if \<not> has_flag e3 PAGE_PRESENT then None
        else if has_flag e3 PAGE_HUGE then Some [e4, e3]
        else
          let e2 = ptab s (e3 AND ADDR_MASK) (pd_index v) in
          if \<not> has_flag e2 PAGE_PRESENT then None
          else if has_flag e2 PAGE_HUGE then Some [e4, e3, e2]
          else
            let e1 = ptab s (e2 AND ADDR_MASK) (pt_index v) in
            if \<not> has_flag e1 PAGE_PRESENT then None else Some [e4, e3, e2, e1])"

definition mmu_address :: "u64 list \<Rightarrow> u64 \<Rightarrow> u64" where
  "mmu_address es v =
     (if length es = 2 then (last es AND 0x000FFFFFC0000000) OR (v AND 0x3FFFFFFF)
      else if length es = 3 then (last es AND 0x000FFFFFFFE00000) OR (v AND 0x1FFFFF)
      else (last es AND ADDR_MASK) OR (v AND 0xFFF))"

definition mmu_translate :: "'a paging_state_scheme \<Rightarrow> u64 \<Rightarrow> u64 option" where
  "mmu_translate s v = map_option (\<lambda>es. mmu_address es v) (mmu_entries s v)"

text \<open>An access of the kernel; \<open>None\<close> is a page fault.\<close>

definition load8 :: "'a machine_state_scheme \<Rightarrow> u64 \<Rightarrow> u8 option" where
  "load8 s v = map_option (phys_mem s) (mmu_translate s v)"

definition store8 :: "u64 \<Rightarrow> u8 \<Rightarrow> 'a machine_state_scheme \<Rightarrow> 'a machine_state_scheme option" where
  "store8 v b s = map_option (\<lambda>p. s\<lparr>phys_mem := (phys_mem s)(p := b)\<rparr>) (mmu_translate s v)"

fun load_bytes :: "u64 \<Rightarrow> nat \<Rightarrow> 'a machine_state_scheme \<Rightarrow> u8 list option" where
  "load_bytes src 0 s = Some []"
| "load_bytes src (Suc n) s =
     (case load8 s src of None \<Rightarrow> None | Some b \<Rightarrow> map_option (\<lambda>bs. b # bs) (load_bytes (src + 1) n s))"

fun store_bytes :: "u64 \<Rightarrow> u8 list \<Rightarrow> 'a machine_state_scheme \<Rightarrow> 'a machine_state_scheme option" where
  "store_bytes dst [] s = Some s"
| "store_bytes dst (b # bs) s = (case store8 dst b s of None \<Rightarrow> None | Some s \<Rightarrow> store_bytes (dst + 1) bs s)"

text \<open>
  \<open>None\<close> stands for a fault or a loop that does not end; otherwise the boolean result with the bytes
  copied or the new state.
\<close>

definition copy_from_user :: "u64 \<Rightarrow> u64 \<Rightarrow> 'a machine_state_scheme \<Rightarrow> (bool \<times> u8 list) option" where
  "copy_from_user user_src len s =
     (case validate_user_range user_src len False s of
        None \<Rightarrow> None
      | Some ok \<Rightarrow> if \<not> ok then Some (False, []) else map_option (\<lambda>bs. (True, bs)) (load_bytes user_src (unat len) s))"

definition copy_to_user :: "u64 \<Rightarrow> u8 list \<Rightarrow> 'a machine_state_scheme \<Rightarrow> (bool \<times> 'a machine_state_scheme) option" where
  "copy_to_user user_dst kernel_src s =
     (case validate_user_range user_dst (of_nat (length kernel_src)) True s of
        None \<Rightarrow> None
      | Some ok \<Rightarrow> if \<not> ok then Some (False, s) else map_option (\<lambda>s. (True, s)) (store_bytes user_dst kernel_src s))"

end
