(* ===== verification/Process.thy ===== *)
theory Process
  imports Usercopy Fs
begin

text \<open>
  Starting a program, \<^verbatim>\<open>kernel/process.cpp\<close>: the file is read and validated, its segments are loaded into a
  new address space, the initial stack with the arguments is built and mapped, and a task is created.
  Where the code prints a message and returns false, the model returns the message. The kernel writes a
  frame through its physical address.
\<close>

section \<open>Constants\<close>

definition MAX_ELF_SIZE :: nat where "MAX_ELF_SIZE = 64 * 1024"
definition STACK_VIRT :: u64 where "STACK_VIRT = 0x7FFFF000"
definition STACK_SIZE :: u64 where "STACK_SIZE = 4 * 4096"
definition MAX_ARGS :: nat where "MAX_ARGS = 16"
definition MAX_ENVS :: nat where "MAX_ENVS = 8"
definition MAX_ARG_BYTES :: nat where "MAX_ARG_BYTES = 2048"

section \<open>Segments\<close>

definition segment_page_flags :: "u32 \<Rightarrow> u64" where
  "segment_page_flags seg_flags =
     (let flags = PAGE_PRESENT OR PAGE_USER OR PAGE_OWNED in
      if seg_flags AND PF_WRITE \<noteq> 0 then flags OR (PAGE_WRITABLE OR PAGE_NX)
      else if seg_flags AND PF_EXEC = 0 then flags OR PAGE_NX
      else flags)"

definition file_byte :: "u8 list \<Rightarrow> nat \<Rightarrow> u8" where
  "file_byte file_buffer i = (if i < length file_buffer then file_buffer ! i else 0)"

definition zero_frame :: "u64 \<Rightarrow> (u64 \<Rightarrow> u8) \<Rightarrow> u64 \<Rightarrow> u8" where
  "zero_frame dest m = fold (\<lambda>b m. m(dest + of_nat b := 0)) [0..<4096] m"

definition copy_file :: "u8 list \<Rightarrow> u64 \<Rightarrow> u64 \<Rightarrow> u64 \<Rightarrow> (u64 \<Rightarrow> u8) \<Rightarrow> u64 \<Rightarrow> u8" where
  "copy_file file_buffer file_off dest len m =
     fold (\<lambda>b m. m(dest + of_nat b := file_byte file_buffer (unat (file_off + of_nat b)))) [0..<unat len] m"

text \<open>One page of a segment; \<open>Some\<close> is the message of a failure.\<close>

definition load_page :: "u8 list \<Rightarrow> Elf64_Phdr \<Rightarrow> u64 \<Rightarrow> u64 \<Rightarrow> u64 \<Rightarrow> nat \<Rightarrow> 'a machine_state_scheme \<Rightarrow> string option \<times> 'a machine_state_scheme" where
  "load_page file_buffer phdr flags page_start pml4 p s =
     (case alloc_frame s of (frame, s) \<Rightarrow>
        if frame = 0 then (Some ''Out of physical memory while loading the process.'', s)
        else
          let s = s\<lparr>phys_mem := zero_frame frame (phys_mem s)\<rparr>;
              frame_vaddr = page_start + of_nat p * 4096;
              seg_data_start = p_vaddr phdr;
              seg_data_end = p_vaddr phdr + p_filesz phdr;
              copy_start = (if frame_vaddr > seg_data_start then frame_vaddr else seg_data_start);
              copy_end = (if frame_vaddr + 4096 < seg_data_end then frame_vaddr + 4096 else seg_data_end);
              s = (if copy_end > copy_start then
                     let file_off = p_offset phdr + (copy_start - p_vaddr phdr);
                         page_off = copy_start - frame_vaddr;
                         len = copy_end - copy_start
                     in s\<lparr>phys_mem := copy_file file_buffer file_off (frame + page_off) len (phys_mem s)\<rparr>
                   else s)
          in case map_page_in pml4 frame_vaddr frame flags s of (ok, s) \<Rightarrow>
               if \<not> ok then (Some ''Failed to map a segment of the process.'', free_frame frame s) else (None, s))"

fun load_pages :: "u8 list \<Rightarrow> Elf64_Phdr \<Rightarrow> u64 \<Rightarrow> u64 \<Rightarrow> u64 \<Rightarrow> nat list \<Rightarrow> 'a machine_state_scheme \<Rightarrow> string option \<times> 'a machine_state_scheme" where
  "load_pages file_buffer phdr flags page_start pml4 [] s = (None, s)"
| "load_pages file_buffer phdr flags page_start pml4 (p # ps) s =
     (case load_page file_buffer phdr flags page_start pml4 p s of (e, s) \<Rightarrow>
        if e \<noteq> None then (e, s) else load_pages file_buffer phdr flags page_start pml4 ps s)"

definition segment_start :: "Elf64_Phdr \<Rightarrow> u64" where
  "segment_start phdr = p_vaddr phdr AND NOT 0xFFF"

definition segment_page_count :: "Elf64_Phdr \<Rightarrow> u64" where
  "segment_page_count phdr = (((p_vaddr phdr + p_memsz phdr + 0xFFF) AND NOT 0xFFF) - segment_start phdr) div 4096"

fun load_segments :: "u8 list \<Rightarrow> Elf64_Phdr list \<Rightarrow> u64 \<Rightarrow> 'a machine_state_scheme \<Rightarrow> string option \<times> 'a machine_state_scheme" where
  "load_segments file_buffer [] pml4 s = (None, s)"
| "load_segments file_buffer (phdr # phdrs) pml4 s =
     (if p_type phdr \<noteq> PT_LOAD then load_segments file_buffer phdrs pml4 s
      else
        case load_pages file_buffer phdr (segment_page_flags (p_flags phdr)) (segment_start phdr) pml4 [0..<unat (segment_page_count phdr)] s of
          (e, s) \<Rightarrow> if e \<noteq> None then (e, s) else load_segments file_buffer phdrs pml4 s)"

section \<open>The initial stack\<close>

text \<open>The stack range as the list of its bytes, with the two cursors of the code.\<close>

record stack_image =
  window :: "u8 list"
  word_cursor :: u64
  str_cursor :: u64

text \<open>The length of all strings with their terminators; \<open>None\<close> if it exceeds the limit.\<close>

fun string_bytes :: "u8 list list \<Rightarrow> nat \<Rightarrow> nat option" where
  "string_bytes [] n = Some n"
| "string_bytes (s # ss) n =
     (let n = n + (length s + 1) in if n > MAX_ARG_BYTES then None else string_bytes ss n)"

definition le64 :: "u64 \<Rightarrow> u8 list" where
  "le64 v = map (\<lambda>b. ucast (drop_bit (8 * b) v)) [0..<8]"

definition put_bytes :: "nat \<Rightarrow> u8 list \<Rightarrow> u8 list \<Rightarrow> u8 list" where
  "put_bytes at bs w = fold (\<lambda>i w. w[at + i := bs ! i]) [0..<length bs] w"

definition put_word :: "u64 \<Rightarrow> stack_image \<Rightarrow> stack_image" where
  "put_word v st = st\<lparr>window := put_bytes (unat (word_cursor st - STACK_VIRT)) (le64 v) (window st), word_cursor := word_cursor st + 8\<rparr>"

definition put_string :: "u8 list \<Rightarrow> stack_image \<Rightarrow> u64 \<times> stack_image" where
  "put_string s st =
     (str_cursor st, st\<lparr>window := put_bytes (unat (str_cursor st - STACK_VIRT)) (s @ [0]) (window st),
        str_cursor := str_cursor st + of_nat (length s + 1)\<rparr>)"

definition put_pointer :: "u8 list \<Rightarrow> stack_image \<Rightarrow> stack_image" where
  "put_pointer s st = (case put_string s st of (a, st) \<Rightarrow> put_word a st)"

definition build_initial_stack :: "u8 list \<Rightarrow> u8 list list \<Rightarrow> u8 list list \<Rightarrow> (u64 \<times> u8 list) option" where
  "build_initial_stack w argv envp =
     (if length argv > MAX_ARGS \<or> length envp > MAX_ENVS then None
      else if length w \<noteq> unat STACK_SIZE then None
      else
        case string_bytes argv 0 of
          None \<Rightarrow> None
        | Some n \<Rightarrow>
            case string_bytes envp n of
              None \<Rightarrow> None
            | Some n \<Rightarrow>
                let top_addr = STACK_VIRT + STACK_SIZE;
                    words = 1 + length argv + 1 + length envp + 1 + 2;
                    pointer_bytes = words * 8 in
                if n + pointer_bytes + 16 > MAX_ARG_BYTES then None
                else
                  let strings_base = top_addr - of_nat n;
                      sp = (strings_base - of_nat pointer_bytes) AND NOT 15;
                      st = \<lparr>window = put_bytes (unat (sp - STACK_VIRT)) (replicate (unat (top_addr - sp)) 0) w,
                            word_cursor = sp, str_cursor = strings_base\<rparr>;
                      st = put_word (of_nat (length argv)) st;
                      st = fold put_pointer argv st;
                      st = put_word 0 st;
                      st = fold put_pointer envp st;
                      st = put_word 0 st;
                      st = put_word 0 st;
                      st = put_word 0 st
                  in Some (sp, window st))"

section \<open>Running a file\<close>

definition fill_frame :: "u64 \<Rightarrow> u8 list \<Rightarrow> (u64 \<Rightarrow> u8) \<Rightarrow> u64 \<Rightarrow> u8" where
  "fill_frame dst bs m = fold (\<lambda>b m. m(dst + of_nat b := bs ! b)) [0..<4096] m"

fun map_stack :: "u8 list \<Rightarrow> u64 \<Rightarrow> nat list \<Rightarrow> 'a machine_state_scheme \<Rightarrow> bool \<times> 'a machine_state_scheme" where
  "map_stack stack_window pml4 [] s = (True, s)"
| "map_stack stack_window pml4 (offset # offsets) s =
     (case alloc_frame s of (stack_frame, s) \<Rightarrow>
        if stack_frame = 0 then (False, s)
        else
          let s = s\<lparr>phys_mem := fill_frame stack_frame (drop offset stack_window) (phys_mem s)\<rparr>
          in case map_page_in pml4 (STACK_VIRT + of_nat offset) stack_frame
                    (PAGE_PRESENT OR PAGE_WRITABLE OR PAGE_USER OR PAGE_OWNED OR PAGE_NX) s of (ok, s) \<Rightarrow>
               if \<not> ok then (False, free_frame stack_frame s) else map_stack stack_window pml4 offsets s)"

text \<open>
  The part of \<open>run\<close> that works on the file's contents. The stack window is a static buffer, whose old
  contents are an argument; the addresses of the two entry functions are arguments. \<open>None\<close> is a call that
  does not return, from the task table's walks or from reading outside the file.
\<close>

definition run_image :: "u64 \<Rightarrow> u64 \<Rightarrow> u8 list \<Rightarrow> u8 list \<Rightarrow> u8 list list \<Rightarrow> u8 list list \<Rightarrow> u8 list \<Rightarrow> 'a machine_state_scheme \<Rightarrow>
    ((string + nat) \<times> 'a machine_state_scheme) option" where
  "run_image trampoline process_entry old_window filename argv envp file_buffer s =
     (case validate file_buffer of
        None \<Rightarrow> None
      | Some (Inl e) \<Rightarrow> Some (Inl (''Rejected: '' @ e), s)
      | Some (Inr (header, phdrs)) \<Rightarrow>
          case create_address_space s of (pml4, s) \<Rightarrow>
            if pml4 = 0 then Some (Inl ''Failed to create an address space (out of memory).'', s)
            else
              case load_segments file_buffer phdrs pml4 s of
                (Some e, s) \<Rightarrow> Some (Inl e, destroy_address_space pml4 s)
              | (None, s) \<Rightarrow>
                  let argv = (if argv = [] then [filename] else argv) in
                  case build_initial_stack old_window argv envp of
                    None \<Rightarrow> Some (Inl ''Too many or too long arguments/environment strings for the process stack.'', destroy_address_space pml4 s)
                  | Some (initial_sp, stack_window) \<Rightarrow>
                      case map_stack stack_window pml4 (map (\<lambda>i. 4096 * i) [0..<4]) s of (ok, s) \<Rightarrow>
                        if \<not> ok then Some (Inl ''Failed to map the process's stack.'', destroy_address_space pml4 s)
                        else if count_wx_pages pml4 s \<noteq> 0 then
                          Some (Inl ''Refusing to run: the process image would have writable+executable pages.'', destroy_address_space pml4 s)
                        else
                          case create_process trampoline process_entry (map (\<lambda>c. char_of (unat c)) filename) pml4 (e_entry header) initial_sp s of
                            None \<Rightarrow> None
                          | Some (None, s) \<Rightarrow>
                              Some (Inl ''Failed to create a task for this process (out of task slots or memory).'', destroy_address_space pml4 s)
                          | Some (Some slot, s) \<Rightarrow> Some (Inr slot, s))"

definition run :: "'s reader \<Rightarrow> u64 \<Rightarrow> u64 \<Rightarrow> u8 list \<Rightarrow> u8 list \<Rightarrow> u8 list list \<Rightarrow> u8 list list \<Rightarrow> 's fs_state \<Rightarrow> 'a machine_state_scheme \<Rightarrow>
    ((string + nat) \<times> 's fs_state \<times> 'a machine_state_scheme) option" where
  "run rd trampoline process_entry old_window filename argv envp fs s =
     (if \<not> fs_exists filename fs then Some (Inl ''File not found.'', fs, s)
      else if file_size filename fs \<le> 0 then Some (Inl ''Cannot run an empty file.'', fs, s)
      else if file_size filename fs > int MAX_ELF_SIZE then Some (Inl ''File is too large to run (max 64KB).'', fs, s)
      else
        case fs_read rd filename MAX_ELF_SIZE fs of (ok, file_buffer, fs) \<Rightarrow>
          if \<not> ok \<or> file_buffer = [] then Some (Inl ''Failed to read the file.'', fs, s)
          else map_option (\<lambda>(r, s). (r, fs, s)) (run_image trampoline process_entry old_window filename argv envp file_buffer s))"

end
