(* ===== verification/Elf_Correct.thy ===== *)
theory Elf_Correct
  imports Elf
begin

text \<open>
  The validator of ELF files against a declarative description of a loadable file, in unbounded
  arithmetic: it never reads past the end of the file and accepts exactly the loadable files.
\<close>

section \<open>What a loadable file is\<close>

definition seg_pages :: "Elf64_Phdr \<Rightarrow> nat set" where
  "seg_pages ph = {unat (p_vaddr ph) div 4096 ..< (unat (p_vaddr ph) + unat (p_memsz ph) + 4095) div 4096}"

text \<open>
  A segment that may be mapped: known permissions, never writable and executable; its bytes inside the
  file; its memory inside the user half of the address space and at least one page; its alignment a
  power of two that address and offset agree on.
\<close>

definition segment_ok :: "nat \<Rightarrow> Elf64_Phdr \<Rightarrow> bool" where
  "segment_ok fsize ph \<longleftrightarrow>
     p_flags ph \<in> {1, 2, 4, 5, 6} \<and>
     unat (p_filesz ph) \<le> unat (p_memsz ph) \<and> unat (p_offset ph) + unat (p_filesz ph) \<le> fsize \<and>
     0x40000000 \<le> unat (p_vaddr ph) \<and> unat (p_vaddr ph) + unat (p_memsz ph) \<le> 2 ^ 47 \<and>
     (p_align ph \<noteq> 0 \<longrightarrow> (\<exists>n. unat (p_align ph) = 2 ^ n) \<and>
        unat (p_vaddr ph) mod unat (p_align ph) = unat (p_offset ph) mod unat (p_align ph)) \<and>
     seg_pages ph \<noteq> {}"

definition pt_loads :: "Elf64_Phdr list \<Rightarrow> Elf64_Phdr list" where
  "pt_loads phs = filter (\<lambda>ph. p_type ph = PT_LOAD) phs"

definition header_ok :: "nat \<Rightarrow> Elf64_Ehdr \<Rightarrow> bool" where
  "header_ok fsize h \<longleftrightarrow> take 6 (e_ident h) = [0x7F, 0x45, 0x4C, 0x46, 2, 1] \<and> e_type h = 2 \<and> e_machine h = 62 \<and>
     1 \<le> unat (e_phnum h) \<and> unat (e_phnum h) \<le> 16 \<and> e_phentsize h = 56 \<and>
     unat (e_phoff h) + 56 * unat (e_phnum h) \<le> fsize"

fun disjoint_pages :: "Elf64_Phdr list \<Rightarrow> bool" where
  "disjoint_pages [] \<longleftrightarrow> True"
| "disjoint_pages (ph # phs) \<longleftrightarrow> (\<forall>q\<in>set phs. seg_pages ph \<inter> seg_pages q = {}) \<and> disjoint_pages phs"

definition loadable :: "u8 list \<Rightarrow> Elf64_Ehdr \<Rightarrow> Elf64_Phdr list \<Rightarrow> bool" where
  "loadable file h phs \<longleftrightarrow>
     64 \<le> length file \<and> h = parse_ehdr (take 64 file) \<and> header_ok (length file) h \<and>
     phs = map (\<lambda>i. parse_phdr (take 56 (drop (unat (e_phoff h) + 56 * i) file))) [0..<unat (e_phnum h)] \<and>
     (\<forall>ph\<in>set phs. p_type ph \<in> {PT_NULL, PT_GNU_STACK, PT_LOAD}) \<and>
     (\<forall>ph\<in>set (pt_loads phs). segment_ok (length file) ph) \<and> disjoint_pages (pt_loads phs) \<and>
     (\<exists>ph\<in>set (pt_loads phs). unat (p_vaddr ph) \<le> unat (e_entry h) \<and> unat (e_entry h) < unat (p_vaddr ph) + unat (p_memsz ph))"

section \<open>Arithmetic\<close>

lemma add_overflows_iff: "add_overflows a b \<longleftrightarrow> 2 ^ 64 \<le> unat a + unat b"
proof -
  have "unat (U64_MAX - a) = 2 ^ 64 - 1 - unat a"
    by (subst unat_sub_no_wrap) (simp_all add: U64_MAX_def unsigned_minus_1_eq_mask mask_eq_exp_minus_1)
  then have "add_overflows a b \<longleftrightarrow> 2 ^ 64 - 1 - unat a < unat b" by (simp add: add_overflows_def word_less_nat_alt)
  moreover have "unat a < 2 ^ 64" by simp
  ultimately show ?thesis by linarith
qed

lemma power_of_two_nat: "0 < x \<Longrightarrow> x AND (x - 1) = 0 \<Longrightarrow> \<exists>n. (x :: nat) = 2 ^ n"
proof (induction x rule: less_induct)
  case (less x)
  show ?case
  proof (cases "even x")
    case True
    then obtain y where y: "x = 2 * y" "0 < y" using less.prems(1) by auto
    have d: "(x - 1) div 2 = y - 1" using y by simp
    have "x AND (x - 1) = of_bool (odd x \<and> odd (x - 1)) + 2 * ((x div 2) AND ((x - 1) div 2))" by (rule and_rec)
    then have "y AND (y - 1) = 0" using less.prems(2) y(1) unfolding d by simp
    then obtain n where "y = 2 ^ n" using less.IH [of y] y by auto
    then show ?thesis using y(1) by (intro exI [of _ "Suc n"]) simp
  next
    case False
    then obtain y where y: "x = 2 * y + 1" by (auto elim: oddE)
    have "x AND (x - 1) = of_bool (odd x \<and> odd (x - 1)) + 2 * ((x div 2) AND ((x - 1) div 2))" by (rule and_rec)
    then have "y = 0" using less.prems(2) y by simp
    then show ?thesis using y by (intro exI [of _ 0]) simp
  qed
qed

lemma is_power_of_two_iff: "is_power_of_two x \<longleftrightarrow> (\<exists>n. unat x = 2 ^ n)"
proof
  assume "is_power_of_two x"
  then have x: "x \<noteq> 0" "x AND (x - 1) = 0" by (auto simp: is_power_of_two_def)
  then have p: "0 < unat x" by (simp add: unat_gt_0)
  have "unat x AND (unat x - 1) = unat (x AND (x - 1))" using unat_minus_one_pos [OF p] by (simp add: unsigned_and_eq)
  then show "\<exists>n. unat x = 2 ^ n" using power_of_two_nat [OF p] x(2) by simp
next
  assume "\<exists>n. unat x = 2 ^ n"
  then obtain n where n: "unat x = 2 ^ n" by blast
  then have p: "0 < unat x" by simp
  have "unat (x AND (x - 1)) = 2 ^ n AND (2 ^ n - 1)" using unat_minus_one_pos [OF p] n by (simp add: unsigned_and_eq)
  also have "\<dots> = take_bit n (2 ^ n :: nat)" by (simp add: take_bit_eq_mask mask_eq_exp_minus_1)
  also have "\<dots> = 0" by simp
  finally show "is_power_of_two x" using p by (auto simp: is_power_of_two_def unat_eq_zero)
qed

lemma flags_ok: "f \<noteq> 0 \<and> f AND NOT PF_KNOWN_MASK = 0 \<and> \<not> (f AND PF_WRITE \<noteq> 0 \<and> f AND PF_EXEC \<noteq> 0) \<longleftrightarrow> f \<in> {1, 2, 4, 5, 6}"
proof -
  have k: "PF_KNOWN_MASK = mask 3" by (simp add: PF_KNOWN_MASK_def PF_EXEC_def PF_WRITE_def PF_READ_def mask_eq_exp_minus_1)
  have "f \<in> {0, 1, 2, 3, 4, 5, 6, 7}" if "f AND NOT PF_KNOWN_MASK = 0"
  proof -
    have "unat f div 2 ^ 3 * 2 ^ 3 = 0" using that unat_clear_low_bits [of f 3] unfolding k by simp
    then have "unat f < 8" by simp
    then have "unat f \<in> {0, 1, 2, 3, 4, 5, 6, 7}" by auto
    then have "(of_nat (unat f) :: u32) \<in> {0, 1, 2, 3, 4, 5, 6, 7}" by fastforce
    then show ?thesis by simp
  qed
  then show ?thesis by (auto simp: PF_KNOWN_MASK_def PF_EXEC_def PF_WRITE_def PF_READ_def)
qed

lemma unat_sum: "\<not> add_overflows a b \<Longrightarrow> unat (a + b) = unat a + unat b"
  by (simp add: add_overflows_iff unat_word_ariths)

section \<open>One segment\<close>

definition seg_range :: "Elf64_Phdr \<Rightarrow> u64 \<times> u64" where
  "seg_range ph = (p_vaddr ph AND NOT PAGE_MASK, (p_vaddr ph + p_memsz ph + PAGE_MASK) AND NOT PAGE_MASK)"

lemma page_mask: "PAGE_MASK = mask 12"
  by (simp add: PAGE_MASK_def PAGE_SIZE_def mask_eq_exp_minus_1)

lemma seg_range_pages:
  assumes "unat (p_vaddr ph) + unat (p_memsz ph) \<le> 2 ^ 47"
  shows "unat (fst (seg_range ph)) = unat (p_vaddr ph) div 4096 * 4096"
    "unat (snd (seg_range ph)) = (unat (p_vaddr ph) + unat (p_memsz ph) + 4095) div 4096 * 4096"
proof -
  show "unat (fst (seg_range ph)) = unat (p_vaddr ph) div 4096 * 4096"
    unfolding seg_range_def fst_conv page_mask unat_clear_low_bits by simp
  have "unat (p_vaddr ph + p_memsz ph + PAGE_MASK) = unat (p_vaddr ph) + unat (p_memsz ph) + 4095"
    using assms by (simp add: PAGE_MASK_def PAGE_SIZE_def unat_word_ariths)
  then show "unat (snd (seg_range ph)) = (unat (p_vaddr ph) + unat (p_memsz ph) + 4095) div 4096 * 4096"
    unfolding seg_range_def snd_conv page_mask unat_clear_low_bits by simp
qed

lemma seg_pages_nonempty:
  assumes "unat (p_vaddr ph) + unat (p_memsz ph) \<le> 2 ^ 47"
  shows "\<not> snd (seg_range ph) \<le> fst (seg_range ph) \<longleftrightarrow> seg_pages ph \<noteq> {}"
  unfolding word_le_nat_alt seg_range_pages [OF assms] seg_pages_def by auto

lemma check_segment_iff:
  assumes "n < 2 ^ 64"
  shows "check_segment (of_nat n) ph = Inr r \<longleftrightarrow> segment_ok n ph \<and> r = seg_range ph"
proof -
  have n: "unat (of_nat n :: u64) = n" using assms by (simp add: unat_of_nat)
  define fl where "fl \<longleftrightarrow> p_flags ph \<in> {1, 2, 4, 5, 6}"
  define sz where "sz \<longleftrightarrow> \<not> p_memsz ph < p_filesz ph \<and> \<not> add_overflows (p_offset ph) (p_filesz ph) \<and> \<not> p_offset ph + p_filesz ph > of_nat n"
  define ad where "ad \<longleftrightarrow> \<not> add_overflows (p_vaddr ph) (p_memsz ph) \<and> \<not> p_vaddr ph < USER_SPACE_MIN \<and> \<not> p_vaddr ph + p_memsz ph > USER_SPACE_MAX"
  define al where "al \<longleftrightarrow> (p_align ph \<noteq> 0 \<longrightarrow> is_power_of_two (p_align ph) \<and> p_vaddr ph mod p_align ph = p_offset ph mod p_align ph)"
  have chk: "check_segment (of_nat n) ph = Inr r \<longleftrightarrow> fl \<and> sz \<and> ad \<and> al \<and> \<not> snd (seg_range ph) \<le> fst (seg_range ph) \<and> r = seg_range ph"
    unfolding check_segment_def fl_def flags_ok [symmetric] sz_def ad_def al_def seg_range_def Let_def by auto
  have "sz \<longleftrightarrow> unat (p_filesz ph) \<le> unat (p_memsz ph) \<and> unat (p_offset ph) + unat (p_filesz ph) \<le> n"
    using assms unat_sum [of "p_offset ph" "p_filesz ph"]
    by (auto simp: sz_def word_less_nat_alt n add_overflows_iff)
  moreover have a: "ad \<longleftrightarrow> 0x40000000 \<le> unat (p_vaddr ph) \<and> unat (p_vaddr ph) + unat (p_memsz ph) \<le> 2 ^ 47"
    using unat_sum [of "p_vaddr ph" "p_memsz ph"]
    by (auto simp: ad_def word_less_nat_alt add_overflows_iff USER_SPACE_MIN_def USER_SPACE_MAX_def)
  moreover have "al \<longleftrightarrow> (p_align ph \<noteq> 0 \<longrightarrow> (\<exists>n. unat (p_align ph) = 2 ^ n) \<and>
        unat (p_vaddr ph) mod unat (p_align ph) = unat (p_offset ph) mod unat (p_align ph))"
    unfolding al_def is_power_of_two_iff word_unat_eq_iff [of "_ mod _"] unat_mod_distrib ..
  ultimately show ?thesis unfolding chk segment_ok_def fl_def using seg_pages_nonempty by blast
qed

lemma seg_overlap:
  assumes "segment_ok n ph" "segment_ok n q"
  shows "fst (seg_range ph) < snd (seg_range q) \<and> fst (seg_range q) < snd (seg_range ph) \<longleftrightarrow> seg_pages ph \<inter> seg_pages q \<noteq> {}"
proof -
  have b: "unat (p_vaddr ph) + unat (p_memsz ph) \<le> 2 ^ 47" "unat (p_vaddr q) + unat (p_memsz q) \<le> 2 ^ 47"
    "seg_pages ph \<noteq> {}" "seg_pages q \<noteq> {}" using assms by (auto simp: segment_ok_def)
  have "{a..<b} \<inter> {c..<d} \<noteq> {} \<longleftrightarrow> a < d \<and> c < b" if "a < b" "c < d" for a b c d :: nat
    using that by (auto simp: Int_atLeastLessThan)
  then show ?thesis using b(3,4) unfolding word_less_nat_alt seg_range_pages [OF b(1)] seg_range_pages [OF b(2)] seg_pages_def
    by auto
qed

section \<open>All segments\<close>

lemma check_segments_iff:
  assumes n: "n < 2 ^ 64" and q: "\<forall>q\<in>set qs. segment_ok n q"
  shows "check_segments (of_nat n) phs (map seg_range qs) = Inr ls \<longleftrightarrow>
    (\<forall>ph\<in>set phs. p_type ph \<in> {PT_NULL, PT_GNU_STACK, PT_LOAD}) \<and>
    (\<forall>ph\<in>set (pt_loads phs). segment_ok n ph) \<and> disjoint_pages (pt_loads phs) \<and>
    (\<forall>q\<in>set qs. \<forall>ph\<in>set (pt_loads phs). seg_pages q \<inter> seg_pages ph = {}) \<and>
    ls = map seg_range (qs @ pt_loads phs)"
  using q
proof (induction phs arbitrary: qs)
  case Nil
  then show ?case by (auto simp: pt_loads_def)
next
  case (Cons ph phs)
  have types: "PT_NULL \<noteq> PT_LOAD" "PT_GNU_STACK \<noteq> PT_LOAD" by (simp_all add: PT_NULL_def PT_GNU_STACK_def PT_LOAD_def)
  show ?case
  proof (cases "p_type ph = PT_LOAD \<and> segment_ok n ph")
    case False
    then show ?thesis using Cons types check_segment_iff [OF n, of ph]
      by (auto simp: pt_loads_def split: sum.split)
  next
    case True
    then have c: "check_segment (of_nat n) ph = Inr (seg_range ph)" using check_segment_iff [OF n] by simp
    have ov: "(\<exists>l\<in>set (map seg_range qs). fst (seg_range ph) < snd l \<and> fst l < snd (seg_range ph)) \<longleftrightarrow>
        (\<exists>q\<in>set qs. seg_pages q \<inter> seg_pages ph \<noteq> {})"
      using Cons.prems True seg_overlap [of n ph] by (auto simp: Int_commute)
    have ih: "check_segments (of_nat n) phs (map seg_range (qs @ [ph])) = Inr ls \<longleftrightarrow>
        (\<forall>ph\<in>set phs. p_type ph \<in> {PT_NULL, PT_GNU_STACK, PT_LOAD}) \<and>
        (\<forall>ph\<in>set (pt_loads phs). segment_ok n ph) \<and> disjoint_pages (pt_loads phs) \<and>
        (\<forall>q\<in>set (qs @ [ph]). \<forall>ph\<in>set (pt_loads phs). seg_pages q \<inter> seg_pages ph = {}) \<and>
        ls = map seg_range ((qs @ [ph]) @ pt_loads phs)"
      using Cons.prems True by (intro Cons.IH) auto
    have "check_segments (of_nat n) (ph # phs) (map seg_range qs) =
        (if \<exists>q\<in>set qs. seg_pages q \<inter> seg_pages ph \<noteq> {} then Inl ''Two PT_LOAD segments overlap.''
         else check_segments (of_nat n) phs (map seg_range (qs @ [ph])))"
      using True types c ov by (simp add: split_def)
    moreover have "pt_loads (ph # phs) = ph # pt_loads phs" using True by (simp add: pt_loads_def)
    ultimately show ?thesis using True ih by auto
  qed
qed

section \<open>Header and table\<close>

lemma read_phdrs_eq:
  assumes "off + 56 * n \<le> length file"
  shows "read_phdrs file off n = Some (map (\<lambda>i. parse_phdr (take 56 (drop (off + 56 * i) file))) [0..<n])"
  using assms
proof (induction n arbitrary: off)
  case (Suc n)
  have "[0..<Suc n] = 0 # map Suc [0..<n]" by (simp add: map_Suc_upt upt_conv_Cons del: upt_Suc)
  then show ?case using Suc.IH [of "off + 56"] Suc.prems
    by (simp add: read_at_def SIZEOF_Phdr_def o_def add.assoc del: upt_Suc)
qed simp

lemma check_header_iff:
  assumes "n < 2 ^ 64" "length (e_ident h) = 16"
  shows "check_header (of_nat n) h = None \<longleftrightarrow> header_ok n h"
proof -
  have n: "unat (of_nat n :: u64) = n" using assms by (simp add: unat_of_nat)
  let ?b = "ucast (e_phnum h) * of_nat SIZEOF_Phdr :: u64"
  have p: "unat (e_phnum h) < 2 ^ 16" using unsigned_less [of "e_phnum h"] by simp
  have "unat ?b = (unat (e_phnum h) * 56) mod 2 ^ 64"
    using p by (simp add: unat_word_ariths SIZEOF_Phdr_def unsigned_ucast_eq take_bit_nat_eq_self)
  then have b: "unat ?b = 56 * unat (e_phnum h)" using p by simp
  have t: "\<not> add_overflows (e_phoff h) ?b \<and> \<not> e_phoff h + ?b > of_nat n \<longleftrightarrow> unat (e_phoff h) + 56 * unat (e_phnum h) \<le> n"
    using unat_sum [of "e_phoff h" ?b] assms(1) by (auto simp: word_less_nat_alt n add_overflows_iff b)
  have "take 6 (e_ident h) = map (\<lambda>i. e_ident h ! i) [0..<6]"
    using assms(2) by (intro nth_equalityI) simp_all
  then have i: "take 6 (e_ident h) = [0x7F, 0x45, 0x4C, 0x46, 2, 1] \<longleftrightarrow>
      e_ident h ! 0 = 0x7F \<and> e_ident h ! 1 = 0x45 \<and> e_ident h ! 2 = 0x4C \<and> e_ident h ! 3 = 0x46 \<and> e_ident h ! 4 = 2 \<and> e_ident h ! 5 = 1"
    by (simp add: upt_rec numeral_eq_Suc)
  have z: "e_phnum h \<noteq> 0 \<longleftrightarrow> 1 \<le> unat (e_phnum h)" "\<not> e_phnum h > MAX_LOAD_SEGMENTS \<longleftrightarrow> unat (e_phnum h) \<le> 16"
    by (auto simp: word_less_nat_alt MAX_LOAD_SEGMENTS_def unat_gt_0 Suc_le_eq)
  have s: "of_nat SIZEOF_Phdr = (56 :: u16)" by (simp add: SIZEOF_Phdr_def)
  show ?thesis
    unfolding check_header_def header_ok_def Let_def i ELFMAG0_def ELFMAG1_def ELFMAG2_def ELFMAG3_def ELFCLASS64_def ELFDATA2LSB_def
      ET_EXEC_def EM_X86_64_def s z(1) [symmetric] z(2) [symmetric] t [symmetric]
    by auto
qed

lemma entry_iff:
  assumes "\<forall>ph\<in>set (pt_loads phs). segment_ok n ph"
  shows "list_ex (entry_in e) phs \<longleftrightarrow>
    (\<exists>ph\<in>set (pt_loads phs). unat (p_vaddr ph) \<le> unat e \<and> unat e < unat (p_vaddr ph) + unat (p_memsz ph))"
proof -
  have "entry_in e ph \<longleftrightarrow> unat (p_vaddr ph) \<le> unat e \<and> unat e < unat (p_vaddr ph) + unat (p_memsz ph)"
    if "ph \<in> set (pt_loads phs)" for ph
  proof -
    have "unat (p_vaddr ph) + unat (p_memsz ph) \<le> 2 ^ 47" "p_type ph = PT_LOAD"
      using assms that by (auto simp: segment_ok_def pt_loads_def)
    then show ?thesis by (simp add: entry_in_def word_le_nat_alt word_less_nat_alt unat_word_ariths)
  qed
  moreover have "entry_in e ph \<Longrightarrow> ph \<in> set phs \<Longrightarrow> ph \<in> set (pt_loads phs)" for ph
    by (simp add: entry_in_def pt_loads_def)
  moreover have "set (pt_loads phs) \<subseteq> set phs" by (auto simp: pt_loads_def)
  ultimately show ?thesis by (auto simp: list_ex_iff)
qed

lemma header_read:
  assumes "64 \<le> length file"
  shows "read_at file 0 SIZEOF_Ehdr = Some (take 64 file)" "length (e_ident (parse_ehdr (take 64 file))) = 16"
  using assms by (simp_all add: read_at_def SIZEOF_Ehdr_def parse_ehdr_def)

section \<open>A file to evaluate on\<close>

text \<open>A file with one executable segment that covers the whole file.\<close>

definition sample_ehdr :: "u8 list" where
  "sample_ehdr =
    [127, 69, 76, 70, 2, 1, 1, 0, 0, 0, 0, 0, 0, 0, 0, 0,
     2, 0, 62, 0, 1, 0, 0, 0, 120, 0, 0, 64, 0, 0, 0, 0,
     64, 0, 0, 0, 0, 0, 0, 0, 0, 0, 0, 0, 0, 0, 0, 0,
     0, 0, 0, 0, 64, 0, 56, 0, 1, 0, 0, 0, 0, 0, 0, 0]"

definition sample_phdr :: "u8 list" where
  "sample_phdr =
    [1, 0, 0, 0, 5, 0, 0, 0, 0, 0, 0, 0, 0, 0, 0, 0,
     0, 0, 0, 64, 0, 0, 0, 0, 0, 0, 0, 0, 0, 0, 0, 0,
     120, 0, 0, 0, 0, 0, 0, 0, 0, 16, 0, 0, 0, 0, 0, 0,
     0, 16, 0, 0, 0, 0, 0, 0]"

lemma sample_elf_parsed:
  "parse_phdr sample_phdr = \<lparr>p_type = 1, p_flags = 5, p_offset = 0, p_vaddr = 0x40000000, p_paddr = 0, p_filesz = 120,
     p_memsz = 4096, p_align = 4096\<rparr>"
  "take 6 (e_ident (parse_ehdr sample_ehdr)) = [0x7F, 0x45, 0x4C, 0x46, 2, 1]" "e_type (parse_ehdr sample_ehdr) = 2"
  "e_machine (parse_ehdr sample_ehdr) = 62" "e_entry (parse_ehdr sample_ehdr) = 0x40000078" "e_phoff (parse_ehdr sample_ehdr) = 64"
  "e_phentsize (parse_ehdr sample_ehdr) = 56" "e_phnum (parse_ehdr sample_ehdr) = 1" "length sample_ehdr = 64" "length sample_phdr = 56"
  by (simp_all add: parse_phdr_def parse_ehdr_def field_def sample_ehdr_def sample_phdr_def)

lemma sample_elf_loadable:
  "loadable (sample_ehdr @ sample_phdr) (parse_ehdr sample_ehdr) [parse_phdr sample_phdr]"
proof -
  have "(\<exists>n. 4096 = (2 :: nat) ^ n)" by (rule exI [of _ 12]) simp
  then have "segment_ok 120 (parse_phdr sample_phdr)"
    by (simp add: segment_ok_def sample_elf_parsed(1) seg_pages_def)
  moreover have "header_ok 120 (parse_ehdr sample_ehdr)" by (simp add: header_ok_def sample_elf_parsed)
  ultimately show ?thesis
    by (simp add: loadable_def sample_elf_parsed pt_loads_def PT_LOAD_def)
qed

section \<open>The validator\<close>

lemma validate_loadable:
  assumes "length file < 2 ^ 64"
  shows "validate file = Some (Inr (h, phs)) \<longleftrightarrow> loadable file h phs"
proof (cases "64 \<le> length file")
  case False
  then have "unat (of_nat (length file) :: u64) < 64" using assms by (simp add: unat_of_nat)
  then show ?thesis using False by (simp add: validate_def loadable_def SIZEOF_Ehdr_def word_less_nat_alt)
next
  case True
  note r = header_read [OF True]
  let ?n = "of_nat (length file) :: u64" and ?h = "parse_ehdr (take 64 file)"
  let ?p = "map (\<lambda>i. parse_phdr (take 56 (drop (unat (e_phoff ?h) + 56 * i) file))) [0..<unat (e_phnum ?h)]"
  have big: "\<not> ?n < of_nat SIZEOF_Ehdr" using True assms by (simp add: word_less_nat_alt SIZEOF_Ehdr_def unat_of_nat)
  have step: "validate file = (case check_header ?n ?h of Some e \<Rightarrow> Some (Inl e) | None \<Rightarrow>
      (case read_phdrs file (unat (e_phoff ?h)) (unat (e_phnum ?h)) of None \<Rightarrow> None | Some phdrs \<Rightarrow>
        (case check_segments ?n phdrs [] of Inl e \<Rightarrow> Some (Inl e) | Inr loads \<Rightarrow>
           if loads = [] then Some (Inl ''ELF file has no PT_LOAD segments - nothing to run.'')
           else if \<not> list_ex (entry_in (e_entry ?h)) phdrs then Some (Inl ''Entry point does not fall within any loaded segment.'')
           else Some (Inr (?h, phdrs)))))"
    by (simp only: validate_def Let_def big if_False r(1) option.case)
  show ?thesis
  proof (cases "header_ok (length file) ?h")
    case hd: True
    then have b: "unat (e_phoff ?h) + 56 * unat (e_phnum ?h) \<le> length file" by (simp add: header_ok_def)
    have v: "validate file = (case check_segments ?n ?p [] of Inl e \<Rightarrow> Some (Inl e) | Inr loads \<Rightarrow>
           if loads = [] then Some (Inl ''ELF file has no PT_LOAD segments - nothing to run.'')
           else if \<not> list_ex (entry_in (e_entry ?h)) ?p then Some (Inl ''Entry point does not fall within any loaded segment.'')
           else Some (Inr (?h, ?p)))"
      using step check_header_iff [OF assms r(2)] hd by (simp only: read_phdrs_eq [OF b] option.case simp_thms)
    note cs = check_segments_iff [OF assms, of "[]" ?p, simplified]
    have "validate file = Some (Inr (h, phs)) \<longleftrightarrow> h = ?h \<and> phs = ?p \<and>
        (\<exists>ls. check_segments ?n ?p [] = Inr ls \<and> ls \<noteq> [] \<and> list_ex (entry_in (e_entry ?h)) ?p)"
      unfolding v by (auto split: sum.split)
    also have "\<dots> \<longleftrightarrow> loadable file h phs"
      using True hd cs entry_iff [of ?p "length file" "e_entry ?h"] by (auto simp: loadable_def)
    finally show ?thesis .
  next
    case False
    then obtain e where "check_header ?n ?h = Some e" using check_header_iff [OF assms r(2)] by (cases "check_header ?n ?h") auto
    then show ?thesis using step False by (auto simp: loadable_def)
  qed
qed

section \<open>Properties\<close>

text \<open>
  C25. The validator is memory safe and total: whatever bytes the file holds, it never reads past the end
  of the file and always answers, with the program headers or with an error message.
\<close>

theorem validate_memory_safe:
  assumes "length file < 2 ^ 64"
  shows "validate file \<noteq> None"
proof (cases "64 \<le> length file")
  case False
  then have "unat (of_nat (length file) :: u64) < 64" using assms by (simp add: unat_of_nat)
  then show ?thesis by (simp add: validate_def SIZEOF_Ehdr_def word_less_nat_alt)
next
  case True
  note r = header_read [OF True]
  let ?h = "parse_ehdr (take 64 file)"
  show ?thesis
  proof (cases "header_ok (length file) ?h")
    case h: True
    then have "unat (e_phoff ?h) + 56 * unat (e_phnum ?h) \<le> length file" by (simp add: header_ok_def)
    from read_phdrs_eq [OF this] show ?thesis
      using check_header_iff [OF assms r(2)] h by (auto simp: validate_def r(1) Let_def split: sum.split)
  next
    case False
    then show ?thesis using check_header_iff [OF assms r(2)] by (auto simp: validate_def r(1) Let_def)
  qed
qed

theorem validate_memory_safe_witness:
  "validate (replicate 64 0) = Some (Inl ''Bad ELF magic - not an ELF file.'')"
proof -
  have "validate (replicate 64 0) \<noteq> None" by (rule validate_memory_safe) simp
  moreover have "e_ident (parse_ehdr (replicate 64 0)) ! 0 \<noteq> ELFMAG0" by (simp add: parse_ehdr_def ELFMAG0_def)
  ultimately show ?thesis
    by (simp add: validate_def read_at_def SIZEOF_Ehdr_def check_header_def Let_def)
qed

text \<open>
  C6. The validator accepts exactly the loadable files: with every sum computed in 64-bit arithmetic it
  answers with header and program headers if and only if the file satisfies the declarative description
  in unbounded arithmetic (segments inside the file and inside user space, permissions known and never
  both writable and executable, no two segments on one page, the entry point inside a segment).
\<close>

theorem validate_iff_loadable:
  assumes "length file < 2 ^ 64"
  shows "validate file = Some (Inr (h, phs)) \<longleftrightarrow> loadable file h phs"
  using assms by (rule validate_loadable)

theorem validate_iff_loadable_witness:
  "\<exists>h phs. validate (sample_ehdr @ sample_phdr) = Some (Inr (h, phs)) \<and> e_entry h = 0x40000078"
  using validate_iff_loadable [of "sample_ehdr @ sample_phdr"] sample_elf_loadable sample_elf_parsed(5,9,10) by auto

end
