(* ===== verification/Usercopy_Correct.thy ===== *)
theory Usercopy_Correct
  imports Usercopy Task_Theorems
begin

text \<open>
  The checks on user pointers are exactly what the processor would allow user mode to do, and the copies
  neither fault nor touch anything but the range they were given.
\<close>

section \<open>One page\<close>

definition user_may :: "'a paging_state_scheme \<Rightarrow> bool \<Rightarrow> u64 \<Rightarrow> bool" where
  "user_may s write v \<longleftrightarrow> (case mmu_entries s v of None \<Rightarrow> False
     | Some es \<Rightarrow> list_all (\<lambda>e. has_flag e PAGE_USER \<and> (write \<longrightarrow> has_flag e PAGE_WRITABLE)) es)"

text \<open>
  What holds of the tables the kernel builds: no huge page in the root, and every link to a table below is
  writable (\<open>get_or_create_table\<close> sets the bit).
\<close>

definition links_ok :: "'a paging_state_scheme \<Rightarrow> bool" where
  "links_ok s \<longleftrightarrow> (\<forall>i<512. \<not> is_huge (ptab s (cr3 s AND ADDR_MASK) i)) \<and>
     (\<forall>v es. mmu_entries s v = Some es \<longrightarrow> list_all (\<lambda>e. has_flag e PAGE_WRITABLE) (butlast es))"

lemma accessible_iff:
  assumes "links_ok s"
  shows "page_is_user_accessible v w s \<longleftrightarrow> user_may s w v"
proof -
  have h: "has_flag (ptab s (cr3 s AND ADDR_MASK) (pml4_index v)) PAGE_PRESENT \<Longrightarrow>
      \<not> has_flag (ptab s (cr3 s AND ADDR_MASK) (pml4_index v)) PAGE_HUGE"
    using assms by (auto simp: links_ok_def is_huge_def)
  have l: "mmu_entries s v = Some es \<Longrightarrow> list_all (\<lambda>e. has_flag e PAGE_WRITABLE) (butlast es)" for es
    using assms by (auto simp: links_ok_def)
  show ?thesis using h l unfolding page_is_user_accessible_def user_may_def mmu_entries_def Let_def
    by (auto split: if_splits)
qed

lemma page_index:
  assumes "drop_bit 12 v = drop_bit 12 (u :: u64)"
  shows "pml4_index v = pml4_index u" "pdpt_index v = pdpt_index u" "pd_index v = pd_index u" "pt_index v = pt_index u"
proof -
  have d: "drop_bit (k + 12) v = drop_bit (k + 12) u" for k using assms by (metis drop_bit_drop_bit)
  show "pml4_index v = pml4_index u" "pdpt_index v = pdpt_index u" "pd_index v = pd_index u" "pt_index v = pt_index u"
    using d [of 27] d [of 18] d [of 9] d [of 0] by (simp_all add: pml4_index_def pdpt_index_def pd_index_def pt_index_def)
qed

lemma same_page_entries:
  assumes "drop_bit 12 v = drop_bit 12 (u :: u64)"
  shows "mmu_entries s v = mmu_entries s u" "page_is_user_accessible v w s = page_is_user_accessible u w s"
  unfolding mmu_entries_def page_is_user_accessible_def page_index [OF assms] by (rule refl)+

section \<open>A range\<close>

lemma offset_mask: "(0xFFF :: u64) = mask 12"
  by (simp add: mask_eq_exp_minus_1)

lemma unat_page_start: "unat (v AND NOT 0xFFF) = 4096 * (unat v div 4096)" for v :: u64
  using unat_clear_low_bits [of v 12] unfolding offset_mask by simp

lemma page_start: "v AND NOT 0xFFF = of_nat (4096 * (unat v div 4096))" for v :: u64
proof -
  have "unat (of_nat (4096 * (unat v div 4096)) :: u64) = 4096 * (unat v div 4096)"
  proof -
    have "4096 * (unat v div 4096) \<le> unat v" by simp
    moreover have "unat v < 2 ^ 64" by simp
    ultimately have "4096 * (unat v div 4096) < 2 ^ 64" by (rule le_less_trans)
    moreover have "unat (of_nat (4096 * (unat v div 4096)) :: u64) = 4096 * (unat v div 4096) mod 2 ^ 64" by (subst unat_of_nat) simp
    ultimately show ?thesis by (simp only: mod_less)
  qed
  then show ?thesis using unat_page_start [of v] by (simp only: word_unat_eq_iff)
qed

lemma drop_page:
  assumes "unat u div 4096 = unat v div 4096"
  shows "drop_bit 12 u = drop_bit 12 (v :: u64)"
proof -
  have "unat (drop_bit 12 w) = unat w div 4096" for w :: u64 unfolding unat_drop_bit_eq by (simp only: drop_bit_eq_div) simp
  then show ?thesis using assms by (simp only: word_unat_eq_iff)
qed

lemma check_pages_result:
  assumes "a \<le> b" "b < 4503599627370496"
  shows "check_pages (of_nat (4096 * a)) (of_nat (4096 * b)) w s = Some (\<forall>k\<in>{a..b}. page_is_user_accessible (of_nat (4096 * k)) w s)"
  using assms
proof (induction "b - a" arbitrary: a)
  case 0
  then have "a = b" by simp
  then show ?case by (subst check_pages.simps) simp
next
  case (Suc d)
  have ab: "a < b" using Suc.hyps(2) by simp
  have "of_nat (4096 * a) \<noteq> (of_nat (4096 * b) :: u64)"
  proof
    assume "of_nat (4096 * a) = (of_nat (4096 * b) :: u64)"
    then have "unat (of_nat (4096 * a) :: u64) = unat (of_nat (4096 * b) :: u64)" by simp
    then show False using ab Suc.prems(2) by (simp only: unat_of_nat) simp
  qed
  moreover have "of_nat (4096 * a) + 0x1000 = (of_nat (4096 * Suc a) :: u64)" by (simp add: add.commute)
  moreover have "check_pages (of_nat (4096 * Suc a)) (of_nat (4096 * b)) w s =
      Some (\<forall>k\<in>{Suc a..b}. page_is_user_accessible (of_nat (4096 * k)) w s)"
    using Suc.hyps ab Suc.prems(2) by (intro Suc.hyps(1)) simp_all
  moreover have "{a..b} = insert a {Suc a..b}" using ab by auto
  ultimately show ?case by (subst check_pages.simps) (simp only: ball_simps if_False if_True not_True_eq_False not_False_eq_True split: if_split; blast)
qed

lemma validate_result:
  "validate_user_range addr len w s = Some (len = 0 \<or> unat addr + unat len \<le> unat USER_SPACE_MAX \<and> unat USER_SPACE_MIN \<le> unat addr \<and>
     (\<forall>v. unat addr \<le> unat v \<and> unat v < unat addr + unat len \<longrightarrow> page_is_user_accessible v w s))"
proof (cases "len = 0 \<or> unat addr + unat len > unat USER_SPACE_MAX \<or> unat addr < unat USER_SPACE_MIN")
  case True
  have "addr + len < addr" if "unat addr + unat len \<ge> 2 ^ 64"
  proof -
    have b: "unat addr < 2 ^ 64" "unat len < 2 ^ 64" by simp_all
    then have m: "unat addr + unat len - 2 ^ 64 < 2 ^ 64" "unat addr + unat len - 2 ^ 64 < unat addr" using that by linarith+
    have "unat (addr + len) = (unat addr + unat len) mod 2 ^ 64" by (simp add: unat_word_ariths)
    also have "\<dots> = unat addr + unat len - 2 ^ 64" using that m(1) by (simp only: le_mod_geq mod_less)
    finally show ?thesis using m(2) by (simp only: word_less_nat_alt)
  qed
  moreover have "unat (addr + len) = unat addr + unat len" if "unat addr + unat len < 2 ^ 64"
    using that by (simp add: unat_add_no_wrap)
  ultimately show ?thesis using True unfolding validate_user_range_def Let_def
    by (cases "unat addr + unat len < 2 ^ 64") (auto simp: word_less_nat_alt)
next
  case False
  have m: "unat USER_SPACE_MAX = 140737488355328" by (simp add: USER_SPACE_MAX_def)
  have u: "unat (addr + len) = unat addr + unat len" using False m by (intro unat_add_no_wrap) simp
  have l: "0 < unat len" using False by (simp add: unat_gt_0)
  have e: "unat (addr + len - 1) = unat addr + unat len - 1"
    using u l by (metis add_gr_0 unat_minus_one_pos)
  let ?a = "unat addr div 4096" and ?b = "(unat addr + unat len - 1) div 4096"
  have ab: "?a \<le> ?b" "?b < 4503599627370496" using l False m by (auto intro: div_le_mono)
  have "validate_user_range addr len w s = check_pages (of_nat (4096 * ?a)) (of_nat (4096 * ?b)) w s"
    using False u unfolding validate_user_range_def Let_def page_start e by (auto simp: word_less_nat_alt)
  also have "\<dots> = Some (\<forall>k\<in>{?a..?b}. page_is_user_accessible (of_nat (4096 * k)) w s)" using check_pages_result [OF ab] .
  also have "(\<forall>k\<in>{?a..?b}. page_is_user_accessible (of_nat (4096 * k)) w s) \<longleftrightarrow>
      (\<forall>v. unat addr \<le> unat v \<and> unat v < unat addr + unat len \<longrightarrow> page_is_user_accessible v w s)" (is "?L = ?R")
  proof
    assume L: ?L
    show ?R
    proof (intro allI impI)
      fix v :: u64 assume v: "unat addr \<le> unat v \<and> unat v < unat addr + unat len"
      then have "unat v div 4096 \<in> {?a..?b}" using l by (auto intro: div_le_mono)
      then have "page_is_user_accessible (v AND NOT 0xFFF) w s" unfolding page_start using L by blast
      moreover have "unat (v AND NOT 0xFFF) div 4096 = unat v div 4096"
        unfolding unat_page_start by simp
      ultimately show "page_is_user_accessible v w s" using same_page_entries(2) [OF drop_page] by metis
    qed
  next
    assume R: ?R
    show ?L
    proof
      fix k assume k: "k \<in> {?a..?b}"
      define v where "v = max (unat addr) (4096 * k)"
      have vk: "v div 4096 = k" using k unfolding v_def by (cases "unat addr \<le> 4096 * k") (auto simp: max_def div_le_mono)
      have vr: "unat addr \<le> v" "v < unat addr + unat len" using k l unfolding v_def by (auto simp: max_def)
      then have v64: "v < 2 ^ 64" using False m by simp
      then have "unat (of_nat v :: u64) = v" by (simp add: unat_of_nat)
      moreover have "unat (of_nat (4096 * k) :: u64) = 4096 * k" using k ab(2) by (subst unat_of_nat) simp
      ultimately show "page_is_user_accessible (of_nat (4096 * k)) w s"
        using R vr same_page_entries(2) [OF drop_page, of "of_nat (4096 * k)" "of_nat v"] vk by (metis nonzero_mult_div_cancel_left zero_neq_numeral)
    qed
  qed
  finally show ?thesis using False by (auto simp: not_less)
qed

section \<open>The copies\<close>

definition range_of :: "u64 \<Rightarrow> nat \<Rightarrow> u64 set" where
  "range_of addr n = {v. unat addr \<le> unat v \<and> unat v < unat addr + n}"

lemma range_of_Suc:
  assumes "unat addr + Suc n \<le> 140737488355328"
  shows "unat (addr + 1) = unat addr + 1" "range_of addr (Suc n) = insert addr (range_of (addr + 1) n)" "addr \<notin> range_of (addr + 1) n"
proof -
  show u: "unat (addr + 1) = unat addr + 1" using assms unat_add_no_wrap [of addr 1] by simp
  show "range_of addr (Suc n) = insert addr (range_of (addr + 1) n)" unfolding range_of_def u by (auto simp: word_unat_eq_iff)
  show "addr \<notin> range_of (addr + 1) n" unfolding range_of_def u by simp
qed

lemma translate_mem: "mmu_translate (s\<lparr>phys_mem := m\<rparr>) = mmu_translate s"
  by (simp add: fun_eq_iff mmu_translate_def mmu_entries_def Let_def cong: if_cong)

lemma upt_Cons: "[0..<Suc n] = 0 # map Suc [0..<n]"
  by (simp add: map_Suc_upt upt_conv_Cons del: upt_Suc)

lemma load_bytes_result:
  assumes "unat addr + n \<le> 140737488355328" "None \<notin> mmu_translate s ` range_of addr n"
  shows "load_bytes addr n s = Some (map (\<lambda>i. phys_mem s (the (mmu_translate s (addr + of_nat i)))) [0..<n])"
  using assms
proof (induction n arbitrary: addr)
  case (Suc n)
  note r = range_of_Suc [OF Suc.prems(1)]
  obtain p where p: "mmu_translate s addr = Some p" using Suc.prems(2) r(2) by (cases "mmu_translate s addr") auto
  have "load_bytes (addr + 1) n s = Some (map (\<lambda>i. phys_mem s (the (mmu_translate s (addr + 1 + of_nat i)))) [0..<n])"
    using Suc.prems r by (intro Suc.IH) auto
  then show ?case using p by (simp add: load8_def comp_def add.assoc upt_Cons del: upt_Suc)
qed simp

text \<open>
  A store of bytes where every address is translated: it changes physical memory at the addresses the
  range is translated to and nowhere else, and if these are different each byte is there afterwards.
\<close>

lemma store_bytes_result:
  assumes "unat addr + length bs \<le> 140737488355328" "None \<notin> mmu_translate s ` range_of addr (length bs)"
  shows "\<exists>m. store_bytes addr bs s = Some (s\<lparr>phys_mem := m\<rparr>) \<and>
    (\<forall>p. Some p \<notin> mmu_translate s ` range_of addr (length bs) \<longrightarrow> m p = phys_mem s p) \<and>
    (inj_on (mmu_translate s) (range_of addr (length bs)) \<longrightarrow>
      map (\<lambda>i. m (the (mmu_translate s (addr + of_nat i)))) [0..<length bs] = bs)"
  using assms
proof (induction bs arbitrary: addr s)
  case Nil
  show ?case by (intro exI [of _ "phys_mem s"]) simp
next
  case (Cons b bs)
  have len: "unat addr + Suc (length bs) \<le> 140737488355328" using Cons.prems(1) by simp
  note r = range_of_Suc [OF len]
  let ?R = "range_of (addr + 1) (length bs)"
  obtain p where p: "mmu_translate s addr = Some p" using Cons.prems(2) r(2) by (cases "mmu_translate s addr") auto
  let ?s = "s\<lparr>phys_mem := (phys_mem s)(p := b)\<rparr>"
  have "unat (addr + 1) + length bs \<le> 140737488355328" "None \<notin> mmu_translate ?s ` ?R" using len Cons.prems(2) r unfolding translate_mem by auto
  from Cons.IH [OF this] obtain m where m: "store_bytes (addr + 1) bs ?s = Some (?s\<lparr>phys_mem := m\<rparr>)"
    "\<forall>q. Some q \<notin> mmu_translate s ` ?R \<longrightarrow> m q = phys_mem ?s q"
    "inj_on (mmu_translate s) ?R \<longrightarrow> map (\<lambda>i. m (the (mmu_translate s (addr + 1 + of_nat i)))) [0..<length bs] = bs"
    unfolding translate_mem by blast
  have "map (\<lambda>i. m (the (mmu_translate s (addr + of_nat i)))) [0..<length (b # bs)] = b # bs"
    if inj: "inj_on (mmu_translate s) (range_of addr (length (b # bs)))"
  proof -
    have i: "inj_on (mmu_translate s) ?R" "Some p \<notin> mmu_translate s ` ?R" using inj r(2,3) p by auto
    then have "m p = b" using m(2) by simp
    moreover have "map (\<lambda>i. m (the (mmu_translate s (addr + 1 + of_nat i)))) [0..<length bs] = bs" using m(3) i(1) by blast
    ultimately show ?thesis using p by (simp add: comp_def add.assoc upt_Cons del: upt_Suc)
  qed
  moreover have "store_bytes addr (b # bs) s = Some (s\<lparr>phys_mem := m\<rparr>)" using p m(1) by (simp add: store8_def)
  moreover have "m q = phys_mem s q" if "Some q \<notin> mmu_translate s ` range_of addr (length (b # bs))" for q
  proof -
    have "q \<noteq> p" "Some q \<notin> mmu_translate s ` ?R" using that r(2) p by auto
    then show ?thesis using m(2) by simp
  qed
  ultimately show ?case by (intro exI [of _ m] conjI allI impI)
qed

lemma user_may_translates: "user_may s w v \<Longrightarrow> mmu_translate s v \<noteq> None"
  by (auto simp: user_may_def mmu_translate_def split: option.splits)

lemma user_may_read: "user_may s w v \<Longrightarrow> user_may s False v"
  by (auto simp: user_may_def list_all_iff split: option.splits)

lemma validate_exact:
  assumes "links_ok s"
  shows "validate_user_range addr len w s = Some (len = 0 \<or> unat USER_SPACE_MIN \<le> unat addr \<and> unat addr + unat len \<le> unat USER_SPACE_MAX \<and>
    (\<forall>v\<in>range_of addr (unat len). user_may s w v))"
  unfolding validate_result accessible_iff [OF assms] range_of_def by auto

lemma mem_same:
  "mmu_entries (s\<lparr>phys_mem := m\<rparr>) = mmu_entries s" "links_ok (s\<lparr>phys_mem := m\<rparr>) = links_ok s" "user_may (s\<lparr>phys_mem := m\<rparr>) = user_may s"
proof -
  show e: "mmu_entries (s\<lparr>phys_mem := m\<rparr>) = mmu_entries s" by (simp add: fun_eq_iff mmu_entries_def Let_def cong: if_cong)
  show "links_ok (s\<lparr>phys_mem := m\<rparr>) = links_ok s" by (simp add: links_ok_def e)
  show "user_may (s\<lparr>phys_mem := m\<rparr>) = user_may s" by (simp add: fun_eq_iff user_may_def e)
qed

lemma copy_to_user_result:
  assumes "links_ok s" "length data < 2 ^ 64"
  shows "\<exists>b s'. copy_to_user dst data s = Some (b, s') \<and> (\<not> b \<longrightarrow> s' = s) \<and>
    (b \<and> data \<noteq> [] \<longrightarrow> unat USER_SPACE_MIN \<le> unat dst \<and> unat dst + length data \<le> unat USER_SPACE_MAX \<and>
       (\<forall>v\<in>range_of dst (length data). user_may s True v)) \<and>
    (\<exists>m. s' = s\<lparr>phys_mem := m\<rparr> \<and> (\<forall>p. Some p \<notin> mmu_translate s ` range_of dst (length data) \<longrightarrow> m p = phys_mem s p)) \<and>
    (b \<and> inj_on (mmu_translate s) (range_of dst (length data)) \<longrightarrow> copy_from_user dst (of_nat (length data)) s' = Some (True, data))"
proof -
  let ?len = "of_nat (length data) :: u64" and ?R = "range_of dst (length data)"
  have u: "unat ?len = length data" using assms(2) by (subst unat_of_nat) simp
  have z: "?len = 0 \<longleftrightarrow> data = []" using u by (metis length_0_conv unat_eq_zero)
  note v = validate_exact [OF assms(1), of dst ?len True, unfolded u z]
  show ?thesis
  proof (cases "data = [] \<or> unat USER_SPACE_MIN \<le> unat dst \<and> unat dst + length data \<le> unat USER_SPACE_MAX \<and> (\<forall>v\<in>?R. user_may s True v)")
    case False
    then have "copy_to_user dst data s = Some (False, s)" using v by (simp add: copy_to_user_def)
    then show ?thesis using False by (intro exI [of _ False] exI [of _ s]) (auto intro: exI [of _ "phys_mem s"])
  next
    case True
    show ?thesis
    proof (cases "data = []")
      case e: True
      have "copy_to_user dst data s = Some (True, s)" using v e by (simp add: copy_to_user_def)
      moreover have "copy_from_user dst 0 s = Some (True, [])" by (simp add: copy_from_user_def validate_user_range_def)
      ultimately show ?thesis using e by (intro exI [of _ True] exI [of _ s]) (auto intro: exI [of _ "phys_mem s"])
    next
      case ne: False
      have b: "unat dst + length data \<le> 140737488355328" using True ne by (simp add: USER_SPACE_MAX_def)
      have n: "None \<notin> mmu_translate s ` ?R" using True ne user_may_translates by fastforce
      obtain m where m: "store_bytes dst data s = Some (s\<lparr>phys_mem := m\<rparr>)" "\<forall>p. Some p \<notin> mmu_translate s ` ?R \<longrightarrow> m p = phys_mem s p"
        "inj_on (mmu_translate s) ?R \<longrightarrow> map (\<lambda>i. m (the (mmu_translate s (dst + of_nat i)))) [0..<length data] = data"
        using store_bytes_result [OF b n] by blast
      let ?s = "s\<lparr>phys_mem := m\<rparr>"
      have w: "copy_to_user dst data s = Some (True, ?s)" using v True m(1) by (simp add: copy_to_user_def)
      have "validate_user_range dst ?len False ?s = Some True"
        using validate_exact [of ?s dst ?len False] assms(1) True ne user_may_read unfolding mem_same u z by auto
      moreover have "load_bytes dst (length data) ?s = Some (map (\<lambda>i. m (the (mmu_translate s (dst + of_nat i)))) [0..<length data])"
        using load_bytes_result [of dst "length data" ?s] b n unfolding translate_mem by simp
      ultimately have "copy_from_user dst ?len ?s = Some (True, data)" if "inj_on (mmu_translate s) ?R"
        using m(3) that u by (simp add: copy_from_user_def)
      then show ?thesis using w True m(2) by (intro exI [of _ True] exI [of _ ?s]) (auto intro!: exI [of _ m])
    qed
  qed
qed

section \<open>Properties\<close>

text \<open>
  C11. The check of a user range ends on every input and is exact: a range that is not empty passes if and
  only if it lies in user space without wrapping around and the processor would let user mode read, or
  write if that is asked for, every single byte of it, through all levels of the page tables. Empty ranges
  pass.
\<close>

theorem validate_user_range_exact:
  assumes "links_ok s"
  shows "validate_user_range addr len w s = Some (len = 0 \<or> unat USER_SPACE_MIN \<le> unat addr \<and> unat addr + unat len \<le> unat USER_SPACE_MAX \<and>
    (\<forall>v. unat addr \<le> unat v \<and> unat v < unat addr + unat len \<longrightarrow> user_may s w v))"
  unfolding validate_exact [OF assms] range_of_def by simp

text \<open>A state in which every page is mapped to one frame by entries with given flags.\<close>

definition flat_space :: "u64 \<Rightarrow> machine_state" where
  "flat_space flags = task_state.extend (sample_table\<lparr>cr3 := 0x1000, ptab := (\<lambda>_ _. 0x1000 OR flags)\<rparr>) (machine_state.fields (\<lambda>_. 0))"

lemma flat_space_fields: "cr3 (flat_space e) = 0x1000" "ptab (flat_space e) = (\<lambda>_ _. 0x1000 OR e)" "phys_mem (flat_space e) = (\<lambda>_. 0)"
  by (simp_all add: flat_space_def task_state.defs machine_state.defs sample_table_def)

lemma flat_space_mmu: "mmu_entries (flat_space 7) v = Some [0x1007, 0x1007, 0x1007, 0x1007]" "mmu_entries (flat_space 5) v = Some [0x1005, 0x1005, 0x1005, 0x1005]"
  by (simp_all add: mmu_entries_def flat_space_fields has_flag_def page_flags Let_def)

lemma flat_space_links: "links_ok (flat_space 7)"
  unfolding links_ok_def flat_space_mmu by (simp add: flat_space_fields is_huge_def has_flag_def page_flags)

theorem validate_user_range_exact_witness:
  "links_ok (flat_space 7) \<and> validate_user_range 0x40000FF0 100 True (flat_space 7) = Some True \<and>
   validate_user_range 0x3FFFFFFF 2 False (flat_space 7) = Some False"
proof -
  have "user_may (flat_space 7) True v" for v by (simp add: user_may_def flat_space_mmu has_flag_def page_flags)
  then show ?thesis
    using validate_user_range_exact [OF flat_space_links, of "0x40000FF0" 100 True] validate_user_range_exact [OF flat_space_links, of "0x3FFFFFFF" 2 False]
      flat_space_links by (simp add: USER_SPACE_MIN_def USER_SPACE_MAX_def)
qed

text \<open>
  C12. Copying to user memory neither faults nor runs forever. A refused copy changes nothing. A copy that
  is carried out stays within user space, within pages user mode may write, and changes physical memory
  only where the range is translated to; if these places are different, copying back from the same
  address returns the data.
\<close>

theorem copy_to_user_correct:
  assumes "links_ok s" "length data < 2 ^ 64"
  shows "\<exists>b s'. copy_to_user dst data s = Some (b, s') \<and> (\<not> b \<longrightarrow> s' = s) \<and>
    (b \<and> data \<noteq> [] \<longrightarrow> unat USER_SPACE_MIN \<le> unat dst \<and> unat dst + length data \<le> unat USER_SPACE_MAX \<and>
       (\<forall>v\<in>range_of dst (length data). user_may s True v)) \<and>
    (\<exists>m. s' = s\<lparr>phys_mem := m\<rparr> \<and> (\<forall>p. Some p \<notin> mmu_translate s ` range_of dst (length data) \<longrightarrow> m p = phys_mem s p)) \<and>
    (b \<and> inj_on (mmu_translate s) (range_of dst (length data)) \<longrightarrow> copy_from_user dst (of_nat (length data)) s' = Some (True, data))"
  using assms by (rule copy_to_user_result)

theorem copy_to_user_correct_witness:
  "\<exists>s'. copy_to_user 0x40000000 [5, 6] (flat_space 7) = Some (True, s') \<and> copy_from_user 0x40000000 2 s' = Some (True, [5, 6])"
proof -
  let ?s = "flat_space 7"
  have r: "range_of 0x40000000 (Suc (Suc 0)) = {0x40000000, 0x40000001}"
    using range_of_Suc(2) [of "0x40000000" "Suc 0"] range_of_Suc(2) [of "0x40000001" 0] by (auto simp: range_of_def [of _ 0])
  have i: "inj_on (mmu_translate ?s) (range_of 0x40000000 (Suc (Suc 0)))"
    unfolding r by (simp add: mmu_translate_def flat_space_mmu mmu_address_def ADDR_MASK_def)
  have "user_may ?s True v" for v by (simp add: user_may_def flat_space_mmu has_flag_def page_flags)
  then have "validate_user_range 0x40000000 2 True ?s = Some True"
    using validate_exact [OF flat_space_links, of "0x40000000" 2 True] by (simp add: USER_SPACE_MIN_def USER_SPACE_MAX_def)
  then show ?thesis using copy_to_user_correct [OF flat_space_links, of "[5, 6]" "0x40000000"] i
    by (auto simp: copy_to_user_def)
qed

end
