(* ===== verification/Process_Load.thy ===== *)
theory Process_Load
  imports Process Paging_Space Elf_Correct Usercopy_Correct
begin

text \<open>
  Loading the segments of a validated file: in the new address space every page of every segment holds
  exactly the bytes the file describes, zero where the file has none, with the segment's permissions.
\<close>

section \<open>What a loaded page is\<close>

text \<open>The byte that a segment puts at an address, in unbounded arithmetic.\<close>

definition image_byte :: "u8 list \<Rightarrow> Elf64_Phdr \<Rightarrow> nat \<Rightarrow> u8" where
  "image_byte file ph a =
     (if unat (p_vaddr ph) \<le> a \<and> a < unat (p_vaddr ph) + unat (p_filesz ph)
      then file ! (unat (p_offset ph) + (a - unat (p_vaddr ph))) else 0)"

definition page_addr :: "nat \<Rightarrow> u64" where
  "page_addr n = of_nat (4096 * n)"

definition holds_page :: "u8 list \<Rightarrow> Elf64_Phdr \<Rightarrow> u64 \<Rightarrow> nat \<Rightarrow> 'a machine_state_scheme \<Rightarrow> bool" where
  "holds_page file ph root n s \<longleftrightarrow>
     (\<exists>f<262144. leaf s root (page_addr n) = Some (frame_addr f OR (segment_page_flags (p_flags ph) OR PAGE_PRESENT)) \<and>
        f \<notin> free_set s \<and> (\<forall>b<4096. phys_mem s (frame_addr f + of_nat b) = image_byte file ph (4096 * n + b)))"

text \<open>
  A state that differs from an earlier one in pages of a given set only: frames are only taken, the
  contents of frames in use stay, and so do the entries of all other pages.
\<close>

definition extends :: "u64 \<Rightarrow> nat set \<Rightarrow> 'a machine_state_scheme \<Rightarrow> 'a machine_state_scheme \<Rightarrow> bool" where
  "extends root N s s' \<longleftrightarrow> table_tree s' root \<and> free_set s' \<subseteq> free_set s \<and>
     (\<forall>f<262144. f \<notin> free_set s \<longrightarrow> (\<forall>b<4096. phys_mem s' (frame_addr f + of_nat b) = phys_mem s (frame_addr f + of_nat b))) \<and>
     (\<forall>v. unat v < 2 ^ 48 \<longrightarrow> unat v div 4096 \<notin> N \<longrightarrow> leaf s' root v = leaf s root v)"

lemma extends_refl: "table_tree s root \<Longrightarrow> extends root {} s s"
  by (simp add: extends_def)

lemma extends_trans:
  assumes "extends root M s1 s2" "extends root N s2 s3"
  shows "extends root (M \<union> N) s1 s3"
proof -
  have "f \<notin> free_set s2" if "f \<notin> free_set s1" for f using that assms(1) by (auto simp: extends_def)
  then show ?thesis using assms unfolding extends_def by simp blast
qed

lemma unat_page_addr: "n < 2 ^ 36 \<Longrightarrow> unat (page_addr n) = 4096 * n"
  unfolding page_addr_def unat_of_nat by simp

lemma holds_page_extends:
  assumes "holds_page file ph root n s" "extends root N s s'" "n \<notin> N" "n < 2 ^ 36"
  shows "holds_page file ph root n s'"
proof -
  have "unat (page_addr n) < 2 ^ 48" "unat (page_addr n) div 4096 \<notin> N"
    unfolding unat_page_addr [OF assms(4)] using assms(3,4) by simp_all
  then have "leaf s' root (page_addr n) = leaf s root (page_addr n)" using assms(2) unfolding extends_def by blast
  moreover obtain f where "f < 262144" "leaf s root (page_addr n) = Some (frame_addr f OR (segment_page_flags (p_flags ph) OR PAGE_PRESENT))"
    "f \<notin> free_set s" "\<forall>b<4096. phys_mem s (frame_addr f + of_nat b) = image_byte file ph (4096 * n + b)"
    using assms(1) unfolding holds_page_def by blast
  ultimately show ?thesis using assms(2) unfolding holds_page_def extends_def by (intro exI [of _ f]) auto
qed

section \<open>Pages of an address space\<close>

lemma unat_low9: "unat (x AND 0x1FF) = unat x mod 512" for x :: u64
proof -
  have "x AND 0x1FF = take_bit 9 x" by (simp add: take_bit_eq_mask mask_eq_exp_minus_1)
  then have "unat (x AND 0x1FF) = take_bit 9 (unat x)" by (simp only: unsigned_take_bit_eq)
  then show ?thesis by (simp add: take_bit_eq_mod)
qed

lemma index_div:
  "pml4_index v = unat v div 2 ^ 39 mod 512" "pdpt_index v = unat v div 2 ^ 30 mod 512"
  "pd_index v = unat v div 2 ^ 21 mod 512" "pt_index v = unat v div 2 ^ 12 mod 512"
  unfolding pml4_index_def pdpt_index_def pd_index_def pt_index_def unat_low9 unat_drop_bit_eq
  by (simp_all only: drop_bit_eq_div)

lemma digits:
  assumes "x < 2 ^ 48"
  shows "x div 4096 = ((x div 2 ^ 39 mod 512 * 512 + x div 2 ^ 30 mod 512) * 512 + x div 2 ^ 21 mod 512) * 512 + x div 2 ^ 12 mod (512 :: nat)"
proof -
  have "x div 2 ^ 39 < 512" using assms by (simp add: less_mult_imp_div_less)
  moreover have "x div 2 ^ 39 = x div 2 ^ 30 div 512" "x div 2 ^ 30 = x div 2 ^ 21 div 512" "x div 2 ^ 21 = x div 2 ^ 12 div 512"
    by (simp_all add: div_mult2_eq [symmetric])
  ultimately show ?thesis by (simp add: mult.commute)
qed

lemma page_of_indices:
  "unat v < 2 ^ 48 \<Longrightarrow> unat v div 4096 = ((pml4_index v * 512 + pdpt_index v) * 512 + pd_index v) * 512 + pt_index v"
  unfolding index_div by (rule digits)

lemma same_page_iff:
  assumes "unat v < 2 ^ 48" "unat w < 2 ^ 48"
  shows "same_page v w \<longleftrightarrow> unat v div 4096 = unat w div 4096"
proof
  assume "same_page v w"
  then have "pml4_index v = pml4_index w" "pdpt_index v = pdpt_index w" "pd_index v = pd_index w" "pt_index v = pt_index w"
    by (simp_all add: same_page_def page_path_def)
  then show "unat v div 4096 = unat w div 4096"
    unfolding page_of_indices [OF assms(1)] page_of_indices [OF assms(2)] by simp
next
  assume "unat v div 4096 = unat w div 4096"
  from page_index [OF drop_page [OF this]] show "same_page v w" by (simp add: same_page_def page_path_def)
qed

section \<open>Contents of frames\<close>

lemma fold_store:
  assumes "n \<le> 2 ^ 64"
  shows "fold (\<lambda>b m. m(d + of_nat b := f b)) [0..<n] m = (\<lambda>a. if unat (a - d) < n then f (unat (a - d)) else m (a :: u64))"
  using assms
proof (induction n)
  case (Suc n)
  have "a = d + of_nat n \<longleftrightarrow> unat (a - d) = n" for a
  proof -
    have "n < 2 ^ 64" using Suc.prems by simp
    then have "unat (of_nat n :: u64) = n" by (simp add: unat_of_nat)
    then have "unat (a - d) = n \<longleftrightarrow> a - d = of_nat n" by (metis word_unat_eq_iff)
    then show ?thesis by (auto simp: algebra_simps)
  qed
  then show ?case using Suc by (auto simp: fun_eq_iff less_Suc_eq)
qed simp

lemma frame_offset:
  assumes "f < 262144" "g < 262144" "b < 4096"
  shows "unat (frame_addr f + of_nat b - frame_addr g) < 4096 \<longleftrightarrow> f = g"
    "unat (frame_addr f + of_nat b - frame_addr f) = b"
proof -
  show b: "unat (frame_addr f + of_nat b - frame_addr f) = b" using assms(3) by (simp add: unat_of_nat)
  have u: "unat (frame_addr f + of_nat b) = f * 4096 + b"
    using assms unat_frame_addr [of f] by (simp add: unat_word_ariths unat_of_nat)
  show "unat (frame_addr f + of_nat b - frame_addr g) < 4096 \<longleftrightarrow> f = g"
  proof
    assume *: "unat (frame_addr f + of_nat b - frame_addr g) < 4096"
    let ?k = "unat (frame_addr f + of_nat b - frame_addr g)"
    have "unat (frame_addr g + of_nat k) = g * 4096 + k" if "k < 4096" for k
      using assms(2) that unat_frame_addr [of g] by (simp add: unat_word_ariths unat_of_nat)
    from this [OF *] have "unat (frame_addr f + of_nat b) = g * 4096 + ?k" by simp
    then have "f * 4096 + b = g * 4096 + ?k" using u by linarith
    then have "(f * 4096 + b) div 4096 = (g * 4096 + ?k) div 4096" by (rule arg_cong)
    then show "f = g" using * assms(3) by (simp only: div_mult_self3 div_less)
  qed (use b assms(3) in simp)
qed

section \<open>What mapping leaves alone\<close>

lemma clear_table_mem [simp]: "phys_mem (clear_table t s) = phys_mem s"
proof -
  have "phys_mem (fold (\<lambda>i. pt_set t i 0) [0..<n] s) = phys_mem s" for n by (induction n) simp_all
  then show ?thesis by (simp add: clear_table_def)
qed

lemma get_or_create_table_mem:
  "phys_mem (snd (get_or_create_table t i flags s)) = phys_mem s \<and> free_set (snd (get_or_create_table t i flags s)) \<subseteq> free_set s"
  unfolding get_or_create_table_def Let_def
  by (auto simp: alloc_frame_spec free_set_set split: prod.splits if_splits)

lemma map_page_in_mem:
  "phys_mem (snd (map_page_in root v p flags s)) = phys_mem s \<and> free_set (snd (map_page_in root v p flags s)) \<subseteq> free_set s"
proof -
  note step = get_or_create_table_mem
  obtain a s1 where 1: "get_or_create_table root (pml4_index v) flags s = (a, s1)" by fastforce
  obtain b s2 where 2: "get_or_create_table a (pdpt_index v) flags s1 = (b, s2)" by fastforce
  obtain c s3 where 3: "get_or_create_table b (pd_index v) flags s2 = (c, s3)" by fastforce
  have "phys_mem s1 = phys_mem s" "free_set s1 \<subseteq> free_set s" "phys_mem s2 = phys_mem s1" "free_set s2 \<subseteq> free_set s1"
    "phys_mem s3 = phys_mem s2" "free_set s3 \<subseteq> free_set s2"
    using step [of root "pml4_index v" flags s] step [of a "pdpt_index v" flags s1] step [of b "pd_index v" flags s2]
    unfolding 1 2 3 by simp_all
  then show ?thesis unfolding map_page_in_def 1 2 3 by (auto simp: 2 3 invalidate_page_def Let_def free_set_def)
qed

lemma table_tree_keeps:
  assumes "table_tree s root" "ptab s' = ptab s" "free_set s' \<subseteq> free_set s" "pmm_ok s'"
  shows "table_tree s' root"
proof -
  have "pmm_avail s' \<subseteq> pmm_avail s" using assms(3) by (auto simp: pmm_avail_def)
  then show ?thesis using assms unfolding table_tree_def by auto
qed

section \<open>The contents of one page\<close>

lemma zero_frame_result: "zero_frame d m = (\<lambda>a. if unat (a - d) < 4096 then 0 else m a)"
  unfolding zero_frame_def by (rule fold_store) simp

lemma copy_file_result:
  "copy_file file off d len m = (\<lambda>a. if unat (a - d) < unat len then file_byte file (unat (off + (a - d))) else m a)"
proof -
  have "unat len < 2 ^ 64" by simp
  then have "unat len \<le> 2 ^ 64" by (rule less_imp_le)
  then show ?thesis unfolding copy_file_def by (subst fold_store) (simp_all add: fun_eq_iff)
qed

lemma window_offset:
  fixes y po len :: u64
  assumes "unat po + unat len \<le> 4096"
  shows "unat (y - po) < unat len \<longleftrightarrow> unat po \<le> unat y \<and> unat y < unat po + unat len"
    "unat po \<le> unat y \<Longrightarrow> unat (y - po) = unat y - unat po"
proof -
  show s: "unat po \<le> unat y \<Longrightarrow> unat (y - po) = unat y - unat po" by (simp add: unat_sub word_le_nat_alt)
  show "unat (y - po) < unat len \<longleftrightarrow> unat po \<le> unat y \<and> unat y < unat po + unat len"
  proof
    assume *: "unat (y - po) < unat len"
    have "unat ((y - po) + po) = unat (y - po) + unat po"
      by (rule unat_add_lem [THEN iffD1]) (use * assms in simp)
    then have "unat y = unat (y - po) + unat po" by simp
    then show "unat po \<le> unat y \<and> unat y < unat po + unat len" using * by linarith
  qed (use s in linarith)
qed

lemma page_source:
  assumes "segment_ok (length file) ph" "length file < 2 ^ 64"
    and "p_vaddr ph \<le> cs" "fv \<le> cs" "unat (cs - fv) \<le> unat y" "unat fv + unat y < unat (p_vaddr ph) + unat (p_filesz ph)"
  shows "file_byte file (unat (p_offset ph + (cs - p_vaddr ph) + (y - (cs - fv)))) = image_byte file ph (unat fv + unat y)"
proof -
  let ?V = "unat (p_vaddr ph)" and ?F = "unat (p_filesz ph)" and ?O = "unat (p_offset ph)"
  have seg: "?V + ?F \<le> 140737488355328" "?O + ?F \<le> length file" "length file < 18446744073709551616"
    using assms(1,2) by (simp_all add: segment_ok_def)
  have le: "?V \<le> unat cs" "unat fv \<le> unat cs" using assms(3,4) by (simp_all add: word_le_nat_alt)
  have sub: "unat (cs - fv) = unat cs - unat fv" "unat (cs - p_vaddr ph) = unat cs - ?V"
    using assms(3,4) by (simp_all add: unat_sub)
  have x: "unat (y - (cs - fv)) = unat y - (unat cs - unat fv)" using assms(5) sub(1) by (simp add: unat_sub word_le_nat_alt)
  have k: "unat (cs - p_vaddr ph) + unat (y - (cs - fv)) = unat fv + unat y - ?V" "?V \<le> unat fv + unat y"
    unfolding x sub(2) using le assms(5) unfolding sub by linarith+
  have k2: "unat ((cs - p_vaddr ph) + (y - (cs - fv))) = unat fv + unat y - ?V"
    by (subst unat_add_no_wrap) (use k assms(6) seg(1) in linarith)+
  have o: "unat (p_offset ph + ((cs - p_vaddr ph) + (y - (cs - fv)))) = ?O + (unat fv + unat y - ?V)"
    by (subst unat_add_no_wrap) (use k2 k(2) assms(6) seg in linarith)+
  have "?O + (unat fv + unat y - ?V) < length file" using k(2) assms(6) seg(2) by linarith
  then show ?thesis using k(2) assms(6) unfolding file_byte_def image_byte_def add.assoc o by simp
qed

lemma page_memory:
  assumes "segment_ok (length file) ph" "length file < 2 ^ 64" "unat fv < 2 ^ 48"
  defines "cs \<equiv> (if fv > p_vaddr ph then fv else p_vaddr ph)"
    and "ce \<equiv> (if fv + 4096 < p_vaddr ph + p_filesz ph then fv + 4096 else p_vaddr ph + p_filesz ph)"
  shows "(if ce > cs then copy_file file (p_offset ph + (cs - p_vaddr ph)) (d + (cs - fv)) (ce - cs) (zero_frame d m)
      else zero_frame d m) =
    (\<lambda>a. if unat (a - d) < 4096 then image_byte file ph (unat fv + unat (a - d)) else m a)"
proof -
  let ?V = "unat (p_vaddr ph)" and ?F = "unat (p_filesz ph)" and ?O = "unat (p_offset ph)"
  have seg: "?V + ?F \<le> 140737488355328" "?O + ?F \<le> length file" "length file < 18446744073709551616"
    using assms(1,2) by (simp_all add: segment_ok_def)
  have u: "unat (fv + 4096) = unat fv + 4096" "unat (p_vaddr ph + p_filesz ph) = ?V + ?F"
    using seg(1) assms(3) by (simp_all add: unat_add_no_wrap)
  have cs: "unat cs = max (unat fv) ?V" by (simp add: cs_def word_less_nat_alt max_def)
  have ce: "unat ce = min (unat fv + 4096) (?V + ?F)" unfolding ce_def word_less_nat_alt u by (simp add: u min_def)
  show ?thesis
  proof (cases "cs < ce")
    case False
    then have none: "\<not> (?V \<le> unat fv + y \<and> unat fv + y < ?V + ?F)" if "y < 4096" for y
      using that cs ce unfolding word_less_nat_alt by linarith
    show ?thesis using False unfolding zero_frame_result image_byte_def by (auto simp: fun_eq_iff none)
  next
    case True
    then have lt: "unat cs < unat ce" by (simp add: word_less_nat_alt)
    have sub: "unat (cs - fv) = unat cs - unat fv" "unat (ce - cs) = unat ce - unat cs" "unat (cs - p_vaddr ph) = unat cs - ?V"
      using lt cs by (simp_all add: unat_sub word_le_nat_alt)
    have w: "unat (cs - fv) + unat (ce - cs) \<le> 4096" unfolding sub using lt cs ce by linarith
    have e: "a - (d + (cs - fv)) = (a - d) - (cs - fv)" for a by simp
    have inside: "unat (cs - fv) \<le> y \<and> y < unat (cs - fv) + unat (ce - cs) \<longleftrightarrow>
        y < 4096 \<and> ?V \<le> unat fv + y \<and> unat fv + y < ?V + ?F" for y
      unfolding sub using lt cs ce by linarith
    have val: "file_byte file (unat (p_offset ph + (cs - p_vaddr ph) + (a - d - (cs - fv)))) = image_byte file ph (unat fv + unat (a - d))"
      if "unat (cs - fv) \<le> unat (a - d) \<and> unat (a - d) < unat (cs - fv) + unat (ce - cs)" for a
      using page_source [OF assms(1,2), of cs fv "a - d"] that inside [of "unat (a - d)"] cs by (simp add: word_le_nat_alt)
    have "copy_file file (p_offset ph + (cs - p_vaddr ph)) (d + (cs - fv)) (ce - cs) (zero_frame d m) a =
        (if unat (a - d) < 4096 then image_byte file ph (unat fv + unat (a - d)) else m a)" for a
    proof (cases "unat (cs - fv) \<le> unat (a - d) \<and> unat (a - d) < unat (cs - fv) + unat (ce - cs)")
      case True
      then have c: "unat (a - d) < 4096" using inside [of "unat (a - d)"] by blast
      show ?thesis unfolding copy_file_result e window_offset(1) [OF w] if_P [OF True] if_P [OF c] by (rule val [OF True])
    next
      case out: False
      then have "unat (a - d) < 4096 \<Longrightarrow> image_byte file ph (unat fv + unat (a - d)) = 0"
        using inside [of "unat (a - d)"] by (auto simp: image_byte_def)
      then show ?thesis unfolding copy_file_result e window_offset(1) [OF w] if_not_P [OF out] zero_frame_result by simp
    qed
    then show ?thesis using True by (simp add: fun_eq_iff)
  qed
qed

section \<open>Loading pages\<close>

lemma seg_pages_bound:
  assumes "segment_ok fsize ph" "n \<in> seg_pages ph"
  shows "4096 * n < 140737488355328 + 4096" "n < 2 ^ 36"
proof -
  have "unat (p_vaddr ph) + unat (p_memsz ph) \<le> 140737488355328" using assms(1) by (simp add: segment_ok_def)
  moreover have "n < (unat (p_vaddr ph) + unat (p_memsz ph) + 4095) div 4096" using assms(2) by (simp add: seg_pages_def)
  ultimately show "4096 * n < 140737488355328 + 4096" by linarith
  then show "n < 2 ^ 36" by simp
qed

lemma page_of_segment:
  assumes "segment_ok fsize ph" "unat (p_vaddr ph) div 4096 + p \<in> seg_pages ph"
  shows "segment_start ph + of_nat p * 4096 = page_addr (unat (p_vaddr ph) div 4096 + p)"
  unfolding segment_start_def page_start page_addr_def by (simp add: algebra_simps)

lemma frame_addr_mod: "frame_addr f mod 4096 = 0" if "f < 262144"
proof -
  have "unat (frame_addr f mod 4096) = 0" unfolding unat_mod using unat_frame_addr [OF that] by simp
  then show ?thesis by (simp add: unat_eq_0)
qed

text \<open>The state in which a page is mapped: a frame taken and filled.\<close>

lemma load_page_steps:
  assumes "segment_ok (length file) ph" "length file < 2 ^ 64" "table_tree s root" "n \<in> seg_pages ph"
    and "n = unat (p_vaddr ph) div 4096 + p" "load_page file ph flags (segment_start ph) root p s = (None, s')"
  obtains f s1 where "f \<in> free_set s" "f < 262144" "free_set s1 = free_set s - {f}" "table_tree s1 root" "ptab s1 = ptab s"
    "phys_mem s1 = (\<lambda>a. if unat (a - frame_addr f) < 4096 then image_byte file ph (4096 * n + unat (a - frame_addr f)) else phys_mem s a)"
    "map_page_in root (page_addr n) (frame_addr f) flags s1 = (True, s')"
proof -
  let ?f = "Min (free_set s)"
  have ok: "pmm_ok s" using table_treeD(4) [OF assms(3)] .
  have ne: "free_set s \<noteq> {}"
  proof
    assume "free_set s = {}"
    then show False using assms(6) by (simp add: load_page_def alloc_frame_spec)
  qed
  obtain b c where a: "alloc_frame s = (frame_addr ?f, s\<lparr>pmm_bitmap := b, free_count := c\<rparr>)"
    "free_set (s\<lparr>pmm_bitmap := b, free_count := c\<rparr>) = free_set s - {?f}"
    "pmm_ok (s\<lparr>pmm_bitmap := b, free_count := c\<rparr>)" "frame_addr ?f \<noteq> 0"
    using alloc_frame_take [OF ne ok] by blast
  have f: "?f \<in> free_set s" using ne by simp
  then have f2: "?f < 262144" by (rule free_set_bound)
  have fv: "segment_start ph + of_nat p * 4096 = page_addr n" using page_of_segment assms(1,4,5) by blast
  have un: "unat (page_addr n) = 4096 * n" "unat (page_addr n) < 2 ^ 48"
    using unat_page_addr [OF seg_pages_bound(2)] seg_pages_bound assms(1,4) by auto
  define m where "m = (\<lambda>x. if unat (x - frame_addr ?f) < 4096 then image_byte file ph (4096 * n + unat (x - frame_addr ?f)) else phys_mem s x)"
  define s1 where "s1 = s\<lparr>pmm_bitmap := b, free_count := c, phys_mem := m\<rparr>"
  have "load_page file ph flags (segment_start ph) root p s =
      (case map_page_in root (page_addr n) (frame_addr ?f) flags s1 of (ok, s) \<Rightarrow>
         if \<not> ok then (Some ''Failed to map a segment of the process.'', free_frame (frame_addr ?f) s) else (None, s))"
    using page_memory [OF assms(1,2) un(2), of "frame_addr ?f" "phys_mem s", unfolded un(1), folded m_def]
    unfolding load_page_def a(1) Let_def fv s1_def using a(4) by (simp split: if_splits)
  then have "map_page_in root (page_addr n) (frame_addr ?f) flags s1 = (True, s')"
    using assms(6) by (auto split: prod.splits if_splits)
  moreover have "free_set s1 = free_set s - {?f}" "pmm_ok s1" "ptab s1 = ptab s"
    using a(2,3) by (simp_all add: s1_def free_set_def pmm_ok_def pmm_inv_def)
  moreover from this have "table_tree s1 root" using table_tree_keeps [OF assms(3)] by auto
  ultimately show thesis using that [OF f f2] by (simp add: s1_def m_def)
qed

lemma load_page_correct:
  assumes "segment_ok (length file) ph" "length file < 2 ^ 64" "table_tree s root" "n \<in> seg_pages ph"
    and "n = unat (p_vaddr ph) div 4096 + p"
    and "load_page file ph (segment_page_flags (p_flags ph)) (segment_start ph) root p s = (None, s')"
  shows "extends root {n} s s' \<and> holds_page file ph root n s'"
proof -
  obtain f s1 where f: "f \<in> free_set s" "f < 262144" "free_set s1 = free_set s - {f}" "table_tree s1 root" "ptab s1 = ptab s"
    "phys_mem s1 = (\<lambda>a. if unat (a - frame_addr f) < 4096 then image_byte file ph (4096 * n + unat (a - frame_addr f)) else phys_mem s a)"
    "map_page_in root (page_addr n) (frame_addr f) (segment_page_flags (p_flags ph)) s1 = (True, s')"
    using load_page_steps [OF assms] by blast
  have keep: "phys_mem s' = phys_mem s1" "free_set s' \<subseteq> free_set s1"
    using map_page_in_mem [of root "page_addr n" "frame_addr f" "segment_page_flags (p_flags ph)" s1] unfolding f(7) by simp_all
  have map: "table_tree s' root" "leaf s' root (page_addr n) = Some (frame_addr f OR (segment_page_flags (p_flags ph) OR PAGE_PRESENT))"
    "\<not> same_page v (page_addr n) \<Longrightarrow> leaf s' root v = leaf s1 root v" for v
    using map_page_in_leaf [OF f(4,7)] frame_bits(1) [OF f(2)] by simp_all
  have n: "n < 2 ^ 36" using seg_pages_bound assms(1,4) by blast
  have other: "leaf s' root v = leaf s root v" if "unat v < 2 ^ 48" "unat v div 4096 \<notin> {n}" for v
  proof -
    have "\<not> same_page v (page_addr n)"
      using same_page_iff [OF that(1), of "page_addr n"] that(2) n unat_page_addr [OF n] by simp
    then show ?thesis using map(3) f(5) by (simp add: leaf_def)
  qed
  have "phys_mem s' (frame_addr g + of_nat b) = phys_mem s (frame_addr g + of_nat b)" if "g < 262144" "g \<notin> free_set s" "b < 4096" for g b
    using frame_offset(1) [OF that(1) f(2) that(3)] that(2) f(1) unfolding keep(1) f(6) by auto
  then have "extends root {n} s s'" unfolding extends_def using map(1) keep(2) f(3) other by auto
  moreover have "holds_page file ph root n s'"
    unfolding holds_page_def
  proof (intro exI [of _ f] conjI allI impI)
    fix b :: nat assume b: "b < 4096"
    show "phys_mem s' (frame_addr f + of_nat b) = image_byte file ph (4096 * n + b)"
      unfolding keep(1) f(6) frame_offset(2) [OF f(2,2) b] using b by simp
  qed (use f keep map in auto)
  ultimately show ?thesis by blast
qed

lemma load_pages_correct:
  assumes "segment_ok (length file) ph" "length file < 2 ^ 64" "table_tree s root" "distinct ps"
    and "\<forall>p\<in>set ps. unat (p_vaddr ph) div 4096 + p \<in> seg_pages ph"
    and "load_pages file ph (segment_page_flags (p_flags ph)) (segment_start ph) root ps s = (None, s')"
  shows "extends root ((+) (unat (p_vaddr ph) div 4096) ` set ps) s s' \<and>
    (\<forall>p\<in>set ps. holds_page file ph root (unat (p_vaddr ph) div 4096 + p) s')"
  using assms(3-6)
proof (induction ps arbitrary: s)
  case Nil
  then show ?case by (simp add: extends_refl)
next
  case (Cons p ps)
  let ?n = "unat (p_vaddr ph) div 4096 + p"
  obtain s1 where s1: "load_page file ph (segment_page_flags (p_flags ph)) (segment_start ph) root p s = (None, s1)"
    "load_pages file ph (segment_page_flags (p_flags ph)) (segment_start ph) root ps s1 = (None, s')"
    using Cons.prems(4) by (auto split: prod.splits if_splits)
  have one: "extends root {?n} s s1" "holds_page file ph root ?n s1"
    using load_page_correct [OF assms(1,2) Cons.prems(1) _ refl s1(1)] Cons.prems(3) by auto
  then have "table_tree s1 root" by (simp add: extends_def)
  from Cons.IH [OF this _ _ s1(2)] Cons.prems
  have ih: "extends root ((+) (unat (p_vaddr ph) div 4096) ` set ps) s1 s'"
    "\<forall>p\<in>set ps. holds_page file ph root (unat (p_vaddr ph) div 4096 + p) s'" by auto
  have "holds_page file ph root ?n s'"
    by (rule holds_page_extends [OF one(2) ih(1)]) (use Cons.prems seg_pages_bound(2) [OF assms(1)] in auto)
  then show ?case using extends_trans [OF one(1) ih(1)] ih(2) by simp
qed

lemma segment_page_range:
  assumes "segment_ok fsize ph"
  shows "(+) (unat (p_vaddr ph) div 4096) ` set [0..<unat (segment_page_count ph)] = seg_pages ph"
proof -
  have b: "unat (p_vaddr ph) + unat (p_memsz ph) \<le> 2 ^ 47" "seg_pages ph \<noteq> {}" using assms by (simp_all add: segment_ok_def)
  have r: "seg_range ph = (segment_start ph, (p_vaddr ph + p_memsz ph + 0xFFF) AND NOT 0xFFF)"
    by (simp add: seg_range_def segment_start_def PAGE_MASK_def PAGE_SIZE_def)
  note p = seg_range_pages [OF b(1), unfolded r fst_conv snd_conv]
  let ?a = "unat (p_vaddr ph) div 4096" and ?e = "(unat (p_vaddr ph) + unat (p_memsz ph) + 4095) div 4096"
  have le: "?a \<le> ?e" by (rule div_le_mono) simp
  then have "segment_start ph \<le> (p_vaddr ph + p_memsz ph + 0xFFF) AND NOT 0xFFF" unfolding word_le_nat_alt p by simp
  from unat_sub [OF this] have "unat (segment_page_count ph) = (?e * 4096 - ?a * 4096) div 4096"
    unfolding segment_page_count_def unat_div p by simp
  then have "unat (segment_page_count ph) = ?e - ?a" by (simp add: diff_mult_distrib [symmetric])
  then show ?thesis using le by (simp add: seg_pages_def)
qed

lemma load_segments_correct:
  assumes "length file < 2 ^ 64" "\<forall>ph\<in>set (pt_loads phs). segment_ok (length file) ph" "disjoint_pages (pt_loads phs)"
    and "table_tree s root" "load_segments file phs root s = (None, s')"
  shows "extends root (\<Union> (seg_pages ` set (pt_loads phs))) s s' \<and>
    (\<forall>ph\<in>set (pt_loads phs). \<forall>n\<in>seg_pages ph. holds_page file ph root n s')"
  using assms(2-5)
proof (induction phs arbitrary: s)
  case Nil
  then show ?case by (simp add: pt_loads_def extends_refl)
next
  case (Cons ph phs)
  show ?case
  proof (cases "p_type ph = PT_LOAD")
    case False
    then have "pt_loads (ph # phs) = pt_loads phs" by (simp add: pt_loads_def)
    then show ?thesis using Cons False by simp
  next
    case True
    then have l: "pt_loads (ph # phs) = ph # pt_loads phs" by (simp add: pt_loads_def)
    have ok: "segment_ok (length file) ph" "\<forall>q\<in>set (pt_loads phs). seg_pages ph \<inter> seg_pages q = {}"
      using Cons.prems(1,2) by (simp_all add: l)
    note range = segment_page_range [OF ok(1)]
    let ?ps = "[0..<unat (segment_page_count ph)]"
    obtain s1 where s1: "load_pages file ph (segment_page_flags (p_flags ph)) (segment_start ph) root ?ps s = (None, s1)"
      "load_segments file phs root s1 = (None, s')"
      using Cons.prems(4) True by (auto split: prod.splits if_splits)
    have "\<forall>p\<in>set ?ps. unat (p_vaddr ph) div 4096 + p \<in> seg_pages ph" using range by blast
    from load_pages_correct [OF ok(1) assms(1) Cons.prems(3) _ this s1(1)]
    have one: "extends root (seg_pages ph) s s1" "\<forall>n\<in>seg_pages ph. holds_page file ph root n s1"
      unfolding range by (simp_all add: range [symmetric] del: set_upt)
    then have "table_tree s1 root" by (simp add: extends_def)
    from Cons.IH [OF _ _ this s1(2)] Cons.prems
    have ih: "extends root (\<Union> (seg_pages ` set (pt_loads phs))) s1 s'"
      "\<forall>ph\<in>set (pt_loads phs). \<forall>n\<in>seg_pages ph. holds_page file ph root n s'" by (auto simp: l)
    have "holds_page file ph root n s'" if "n \<in> seg_pages ph" for n
      by (rule holds_page_extends [OF _ ih(1)]) (use one(2) that ok seg_pages_bound in blast)+
    then show ?thesis using extends_trans [OF one(1) ih(1)] ih(2) by (simp add: l)
  qed
qed

section \<open>The view of the processor\<close>

lemma leaf_entries:
  assumes "leaf s root v = Some e" "c AND ADDR_MASK = root"
  shows "\<exists>es. mmu_entries (s\<lparr>cr3 := c\<rparr>) v = Some es \<and> length es = 4 \<and> last es = e"
  using assms unfolding leaf_def mmu_entries_def Let_def
  by (auto simp: node_ok_def split: option.splits if_splits)

lemma segment_flags:
  assumes "segment_ok fsize ph" "f < 262144"
  defines "e \<equiv> frame_addr f OR (segment_page_flags (p_flags ph) OR PAGE_PRESENT)"
  shows "e AND ADDR_MASK = frame_addr f" "has_flag e PAGE_USER" "has_flag e PAGE_WRITABLE \<longleftrightarrow> p_flags ph AND PF_WRITE \<noteq> 0"
    "has_flag e PAGE_NX \<longleftrightarrow> p_flags ph AND PF_EXEC = 0"
proof -
  have "segment_page_flags (p_flags ph) AND ADDR_MASK = 0 \<and> PAGE_PRESENT AND ADDR_MASK = 0"
    by (simp add: segment_page_flags_def page_flags ADDR_MASK_def Let_def)
  then show "e AND ADDR_MASK = frame_addr f"
    using frame_bits(1) [OF assms(2)] by (simp add: e_def bit.conj_disj_distrib2)
  have b: "\<not> bit (frame_addr f) (Suc 0)" "\<not> bit (frame_addr f) 2" "\<not> bit (frame_addr f) 63" using frame_bits(2) [OF assms(2)] by simp_all
  have "p_flags ph \<in> {1, 2, 4, 5, 6}" using assms(1) by (simp add: segment_ok_def)
  then show "has_flag e PAGE_USER" "has_flag e PAGE_WRITABLE \<longleftrightarrow> p_flags ph AND PF_WRITE \<noteq> 0"
    "has_flag e PAGE_NX \<longleftrightarrow> p_flags ph AND PF_EXEC = 0"
    by (auto simp: e_def segment_page_flags_def PF_WRITE_def PF_EXEC_def entry_bits b)
qed

lemma frame_or_offset:
  assumes "f < 262144"
  shows "frame_addr f OR (v AND 0xFFF) = frame_addr f + of_nat (unat v mod 4096)"
proof -
  have "\<not> bit (frame_addr f) n \<or> \<not> bit (v AND 0xFFF) n" for n
    using frame_bits(2) [OF assms, of n] unfolding offset_mask bit_and_iff bit_mask_iff by linarith
  then have "frame_addr f AND (v AND 0xFFF) = 0" by (intro bit_eqI) (simp only: bit_and_iff bit_0_eq bot_apply bot_bool_def, blast)
  then have sum: "frame_addr f + (v AND 0xFFF) = frame_addr f OR (v AND 0xFFF)" by (rule disjunctive_add_eq_or)
  have "unat (v AND 0xFFF) = take_bit 12 (unat v)" unfolding offset_mask take_bit_eq_mask [symmetric] by (rule unsigned_take_bit_eq)
  then have u: "unat (v AND 0xFFF) = unat v mod 4096" by (simp add: take_bit_eq_mod)
  have "of_nat (unat (v AND 0xFFF)) = v AND 0xFFF" by simp
  then have "of_nat (unat v mod 4096) = v AND 0xFFF" by (simp only: u)
  then show ?thesis by (simp only: sum)
qed

lemma leaf_same_page:
  assumes "unat v div 4096 = unat w div 4096"
  shows "leaf s root v = leaf s root w"
  unfolding leaf_def page_index [OF drop_page [OF assms]] by (rule refl)

lemma holds_page_read:
  assumes "holds_page file ph root n s" "segment_ok fsize ph" "n \<in> seg_pages ph" "unat v div 4096 = n" "c AND ADDR_MASK = root"
  shows "load8 (s\<lparr>cr3 := c\<rparr>) v = Some (image_byte file ph (unat v)) \<and>
    (\<exists>e. leaf s root v = Some e \<and> has_flag e PAGE_USER \<and> (has_flag e PAGE_WRITABLE \<longleftrightarrow> p_flags ph AND PF_WRITE \<noteq> 0) \<and>
       (has_flag e PAGE_NX \<longleftrightarrow> p_flags ph AND PF_EXEC = 0))"
proof -
  have n: "unat (page_addr n) = 4096 * n" using unat_page_addr [OF seg_pages_bound(2) [OF assms(2,3)]] .
  obtain f where f: "f < 262144" "leaf s root (page_addr n) = Some (frame_addr f OR (segment_page_flags (p_flags ph) OR PAGE_PRESENT))"
    "\<forall>b<4096. phys_mem s (frame_addr f + of_nat b) = image_byte file ph (4096 * n + b)"
    using assms(1) unfolding holds_page_def by blast
  let ?e = "frame_addr f OR (segment_page_flags (p_flags ph) OR PAGE_PRESENT)"
  have l: "leaf s root v = Some ?e" using leaf_same_page [of v "page_addr n" s root] f(2) n assms(4) by simp
  then obtain es where es: "mmu_entries (s\<lparr>cr3 := c\<rparr>) v = Some es" "length es = 4" "last es = ?e"
    using leaf_entries [OF _ assms(5)] by blast
  have "mmu_address es v = frame_addr f + of_nat (unat v mod 4096)"
    unfolding mmu_address_def es segment_flags(1) [OF assms(2) f(1)] frame_or_offset [OF f(1), symmetric] by simp
  then have "load8 (s\<lparr>cr3 := c\<rparr>) v = Some (phys_mem s (frame_addr f + of_nat (unat v mod 4096)))"
    by (simp add: load8_def mmu_translate_def es(1))
  moreover have "4096 * n + unat v mod 4096 = unat v" unfolding assms(4) [symmetric] by (rule mult_div_mod_eq)
  moreover have "unat v mod 4096 < 4096" by (rule mod_less_divisor) simp
  ultimately have "load8 (s\<lparr>cr3 := c\<rparr>) v = Some (image_byte file ph (unat v))" using f(3) by metis
  then show ?thesis using l segment_flags(2-4) [OF assms(2) f(1)] by auto
qed

section \<open>A state to load a file in\<close>

definition sample_machine :: machine_state where
  "sample_machine = task_state.extend (sample_table\<lparr>pmm_bitmap := pmm_bitmap sample_space, free_count := free_count sample_space,
     cr3 := cr3 sample_space, ptab := ptab sample_space\<rparr>) (machine_state.fields (\<lambda>_. 0xAA))"

lemma sample_machine_fields:
  "pmm_bitmap sample_machine = pmm_bitmap sample_space" "free_count sample_machine = free_count sample_space"
  "cr3 sample_machine = cr3 sample_space" "ptab sample_machine = ptab sample_space"
  by (simp_all add: sample_machine_def task_state.defs machine_state.defs sample_table_def)

lemma sample_machine_tree: "table_tree sample_machine 0x11A000" "free_set sample_machine = {287}"
proof -
  have "free_set sample_machine = free_set sample_space" by (simp add: free_set_def sample_machine_fields)
  then have *: "pmm_avail sample_machine = pmm_avail sample_space" "pmm_ok sample_machine = pmm_ok sample_space"
    by (simp_all add: pmm_avail_def pmm_ok_def pmm_inv_def sample_machine_fields)
  then show "table_tree sample_machine 0x11A000"
    using sample_space_tree(1) by (simp add: table_tree_def sample_machine_fields)
  have "free_set sample_machine = free_set sample_one_free"
    by (simp add: free_set_def sample_machine_fields sample_space_def sample_one_free_def)
  then show "free_set sample_machine = {287}" using sample_one_free_ok(1) by simp
qed

lemma sample_machine_maps:
  assumes "ptab s = ptab sample_space"
  shows "fst (map_page_in 0x11A000 0x40000000 0x11F000 (segment_page_flags 5) s)"
proof -
  have i: "pml4_index 0x40000000 = 0" "pdpt_index 0x40000000 = 1" "pd_index 0x40000000 = 0" "pt_index 0x40000000 = 0"
    by (simp_all add: pml4_index_def pdpt_index_def pd_index_def pt_index_def drop_bit_eq_div)
  have f: "segment_page_flags 5 = PAGE_PRESENT OR PAGE_USER OR PAGE_OWNED"
    by (simp add: segment_page_flags_def PF_WRITE_def PF_EXEC_def)
  show ?thesis
    unfolding map_page_in_def i f get_or_create_table_def Let_def
    by (simp add: assms sample_space_def has_flag_def page_flags is_huge_def ADDR_MASK_def)
qed

lemma sample_elf_loads: "fst (load_segments (sample_ehdr @ sample_phdr) [parse_phdr sample_phdr] 0x11A000 sample_machine) = None"
proof -
  let ?ph = "parse_phdr sample_phdr"
  have c: "segment_page_count ?ph = 1" "segment_start ?ph = 0x40000000" "p_flags ?ph = 5" "p_type ?ph = PT_LOAD"
    by (simp_all add: sample_elf_parsed(1) segment_page_count_def segment_start_def PT_LOAD_def)
  have a: "alloc_frame sample_machine = (0x11F000, snd (alloc_frame sample_machine))"
    by (simp add: alloc_frame_spec sample_machine_tree(2) frame_addr_def FRAME_SIZE_def)
  have p: "ptab (snd (alloc_frame sample_machine)\<lparr>phys_mem := m\<rparr>) = ptab sample_space" for m
    by (simp add: alloc_frame_spec sample_machine_tree(2) sample_machine_fields)
  have l: "fst (load_page bs ?ph (segment_page_flags 5) 0x40000000 0x11A000 0 sample_machine) = None" for bs
    using sample_machine_maps [OF p] unfolding load_page_def by (subst a) (simp add: Let_def split_def sample_elf_parsed(1))
  then obtain s1 where "load_page (sample_ehdr @ sample_phdr) ?ph (segment_page_flags 5) 0x40000000 0x11A000 0 sample_machine = (None, s1)"
    by (metis prod.collapse)
  then show ?thesis by (simp add: c)
qed

section \<open>Properties\<close>

text \<open>
  C5. Loading the segments of a file that the validator accepted, into an address space whose tables form
  a tree: when the loader reports success, a processor that uses the new address space reads at every
  address of every page of every segment the byte of the file where the segment has one, and zero
  elsewhere. These pages are accessible to user mode, writable exactly if the segment is and not
  executable exactly if the segment is not executable. No other page of the address space changes.
\<close>

theorem load_segments_image:
  assumes "validate file = Some (Inr (h, phs))" "length file < 2 ^ 64" "table_tree s root" "c AND ADDR_MASK = root"
    and "load_segments file phs root s = (None, s')"
  shows "table_tree s' root \<and>
    (\<forall>ph\<in>set phs. p_type ph = PT_LOAD \<longrightarrow> (\<forall>v. unat v div 4096 \<in> seg_pages ph \<longrightarrow>
       load8 (s'\<lparr>cr3 := c\<rparr>) v = Some (image_byte file ph (unat v)) \<and>
       (\<exists>e. leaf s' root v = Some e \<and> has_flag e PAGE_USER \<and> (has_flag e PAGE_WRITABLE \<longleftrightarrow> p_flags ph AND PF_WRITE \<noteq> 0) \<and>
          (has_flag e PAGE_NX \<longleftrightarrow> p_flags ph AND PF_EXEC = 0)))) \<and>
    (\<forall>v. unat v < 2 ^ 48 \<and> (\<forall>ph\<in>set phs. p_type ph = PT_LOAD \<longrightarrow> unat v div 4096 \<notin> seg_pages ph) \<longrightarrow> leaf s' root v = leaf s root v)"
proof -
  have "loadable file h phs" using validate_loadable [OF assms(2)] assms(1) by blast
  then have seg: "\<forall>ph\<in>set (pt_loads phs). segment_ok (length file) ph" "disjoint_pages (pt_loads phs)"
    unfolding loadable_def by blast+
  have set: "set (pt_loads phs) = {ph \<in> set phs. p_type ph = PT_LOAD}" by (auto simp: pt_loads_def)
  have l: "extends root (\<Union> (seg_pages ` set (pt_loads phs))) s s'"
    "\<forall>ph\<in>set (pt_loads phs). \<forall>n\<in>seg_pages ph. holds_page file ph root n s'"
    using load_segments_correct [OF assms(2) seg assms(3,5)] by blast+
  then have "table_tree s' root" by (simp add: extends_def)
  moreover have "leaf s' root v = leaf s root v"
    if "unat v < 2 ^ 48" "\<forall>ph\<in>set phs. p_type ph = PT_LOAD \<longrightarrow> unat v div 4096 \<notin> seg_pages ph" for v
    using l(1) that unfolding extends_def set by blast
  ultimately show ?thesis using holds_page_read [OF _ _ _ refl assms(4)] l(2) seg(1) unfolding set by blast
qed

theorem load_segments_image_witness:
  "\<exists>s'. load_segments (sample_ehdr @ sample_phdr) [parse_phdr sample_phdr] 0x11A000 sample_machine = (None, s') \<and>
     load8 (s'\<lparr>cr3 := 0x11A000\<rparr>) 0x40000000 = Some 0x7F \<and> load8 (s'\<lparr>cr3 := 0x11A000\<rparr>) 0x40000FFF = Some 0"
proof -
  obtain s' where s': "load_segments (sample_ehdr @ sample_phdr) [parse_phdr sample_phdr] 0x11A000 sample_machine = (None, s')"
    using sample_elf_loads by (metis prod.collapse)
  have len: "length (sample_ehdr @ sample_phdr) < 2 ^ 64" by (simp add: sample_elf_parsed)
  then have v: "validate (sample_ehdr @ sample_phdr) = Some (Inr (parse_ehdr sample_ehdr, [parse_phdr sample_phdr]))"
    using validate_loadable [OF len] sample_elf_loadable by blast
  have seg: "p_type (parse_phdr sample_phdr) = PT_LOAD" "seg_pages (parse_phdr sample_phdr) = {0x40000}"
    by (auto simp: sample_elf_parsed(1) PT_LOAD_def seg_pages_def)
  have b: "image_byte (sample_ehdr @ sample_phdr) (parse_phdr sample_phdr) 0x40000000 = 0x7F"
    "image_byte (sample_ehdr @ sample_phdr) (parse_phdr sample_phdr) 0x40000FFF = 0"
    by (simp_all add: image_byte_def sample_elf_parsed(1)) (simp add: sample_ehdr_def)
  have m: "0x11A000 AND ADDR_MASK = 0x11A000" by (simp add: ADDR_MASK_def)
  have r: "unat v div 4096 = 0x40000 \<Longrightarrow> load8 (s'\<lparr>cr3 := 0x11A000\<rparr>) v =
      Some (image_byte (sample_ehdr @ sample_phdr) (parse_phdr sample_phdr) (unat v))" for v
    using load_segments_image [OF v len sample_machine_tree(1) m s'] seg by simp
  show ?thesis using s' r [of "0x40000000"] r [of "0x40000FFF"] b by simp
qed

end
