(* ===== verification/Process_Stack.thy ===== *)
theory Process_Stack
  imports Process
begin

text \<open>
  The initial stack of a process: what the code writes with two cursors into the stack range is the block
  of words and strings that a program's start-up code expects.
\<close>

section \<open>The layout\<close>

text \<open>
  The strings with their terminators fill the end of the range. Below them are the argument count, the
  addresses of the arguments, a null, the addresses of the environment strings, a null and an empty
  auxiliary vector; the gap up to the strings is filled with zeros. Offsets count from the bottom.
\<close>

definition strings_size :: "u8 list list \<Rightarrow> nat" where
  "strings_size ss = sum_list (map (\<lambda>s. length s + 1) ss)"

definition strings_block :: "u8 list list \<Rightarrow> u8 list" where
  "strings_block ss = concat (map (\<lambda>s. s @ [0]) ss)"

definition words_block :: "u64 list \<Rightarrow> u8 list" where
  "words_block vs = concat (map le64 vs)"

fun string_addrs :: "nat \<Rightarrow> u8 list list \<Rightarrow> u64 list" where
  "string_addrs at [] = []"
| "string_addrs at (s # ss) = (STACK_VIRT + of_nat at) # string_addrs (at + (length s + 1)) ss"

definition stack_words :: "u8 list list \<Rightarrow> u8 list list \<Rightarrow> u64 list" where
  "stack_words argv envp =
     (let base = 16384 - strings_size (argv @ envp)
      in [of_nat (length argv)] @ string_addrs base argv @ [0] @ string_addrs (base + strings_size argv) envp @ [0, 0, 0])"

definition sp_offset :: "u8 list list \<Rightarrow> u8 list list \<Rightarrow> nat" where
  "sp_offset argv envp = (16384 - strings_size (argv @ envp) - 8 * length (stack_words argv envp)) div 16 * 16"

definition stack_layout :: "u8 list \<Rightarrow> u8 list list \<Rightarrow> u8 list list \<Rightarrow> u8 list" where
  "stack_layout w argv envp =
     (let off = sp_offset argv envp; ws = words_block (stack_words argv envp); ss = strings_block (argv @ envp)
      in take off w @ ws @ replicate (16384 - off - length ws - length ss) 0 @ ss)"

definition fits :: "u8 list list \<Rightarrow> u8 list list \<Rightarrow> bool" where
  "fits argv envp \<longleftrightarrow> length argv \<le> MAX_ARGS \<and> length envp \<le> MAX_ENVS \<and>
     strings_size (argv @ envp) + 8 * length (stack_words argv envp) + 16 \<le> MAX_ARG_BYTES"

section \<open>Sizes\<close>

lemma strings_size_simps [simp]:
  "strings_size [] = 0" "strings_size (s # ss) = length s + 1 + strings_size ss" "strings_size (ss @ ts) = strings_size ss + strings_size ts"
  by (simp_all add: strings_size_def)

lemma strings_block_simps [simp]:
  "strings_block [] = []" "strings_block (s # ss) = s @ [0] @ strings_block ss" "strings_block (ss @ ts) = strings_block ss @ strings_block ts"
  by (simp_all add: strings_block_def)

lemma words_block_simps [simp]:
  "words_block [] = []" "words_block (v # vs) = le64 v @ words_block vs" "words_block (vs @ us) = words_block vs @ words_block us"
  by (simp_all add: words_block_def)

lemma length_le64 [simp]: "length (le64 v) = 8"
  by (simp add: le64_def)

lemma length_blocks [simp]:
  "length (strings_block ss) = strings_size ss" "length (words_block vs) = 8 * length vs" "length (string_addrs at ss) = length ss"
proof -
  show "length (strings_block ss) = strings_size ss" by (induction ss) simp_all
  show "length (words_block vs) = 8 * length vs" by (induction vs) simp_all
  show "length (string_addrs at ss) = length ss" by (induction ss arbitrary: at) simp_all
qed

lemma length_stack_words: "length (stack_words argv envp) = length argv + length envp + 5"
  by (simp add: stack_words_def Let_def)

lemma string_bytes_sum:
  "n \<le> MAX_ARG_BYTES \<Longrightarrow> string_bytes ss n = (if n + strings_size ss \<le> MAX_ARG_BYTES then Some (n + strings_size ss) else None)"
  by (induction ss arbitrary: n) (auto simp: Let_def)

section \<open>Writing\<close>

lemma fold_list_update:
  "n \<le> length bs \<Longrightarrow> length bs \<le> length B \<Longrightarrow>
   fold (\<lambda>i w. w[length A + i := bs ! i]) [0..<n] (A @ B) = A @ take n bs @ drop n B"
proof (induction n)
  case (Suc n)
  then have "drop n B = B ! n # drop (Suc n) B" by (simp add: Cons_nth_drop_Suc)
  then show ?case using Suc by (simp add: list_update_append take_Suc_conv_app_nth)
qed simp

lemma put_bytes_append:
  assumes "length bs = length B"
  shows "put_bytes (length A) bs (A @ B @ C) = A @ bs @ C"
  using fold_list_update [of "length bs" bs "B @ C" A] assms by (simp add: put_bytes_def)

text \<open>The state of the two cursors: words written, zeros up to the strings, strings written, zeros.\<close>

definition stack_img :: "u8 list \<Rightarrow> nat \<Rightarrow> u8 list \<Rightarrow> nat \<Rightarrow> stack_image" where
  "stack_img X z S t = \<lparr>window = X @ replicate z 0 @ S @ replicate t 0, word_cursor = STACK_VIRT + of_nat (length X),
     str_cursor = STACK_VIRT + of_nat (length X + z + length S)\<rparr>"

lemma unat_offset: "k < 2 ^ 64 \<Longrightarrow> unat (STACK_VIRT + of_nat k - STACK_VIRT) = k"
  by (simp add: unat_of_nat)

lemma put_word_image:
  assumes "8 \<le> z" "length X + z + length S + t < 2 ^ 64"
  shows "put_word v (stack_img X z S t) = stack_img (X @ le64 v) (z - 8) S t"
proof -
  obtain z' where z: "z = 8 + z'" using assms(1) by (metis le_Suc_ex)
  have "put_bytes (length X) (le64 v) (X @ replicate 8 0 @ replicate z' 0 @ S @ replicate t 0) = X @ le64 v @ replicate z' 0 @ S @ replicate t 0"
    by (rule put_bytes_append) simp
  moreover have "unat (STACK_VIRT + of_nat (length X) - STACK_VIRT) = length X" by (rule unat_offset) (use assms(2) in simp)
  ultimately show ?thesis
    unfolding put_word_def stack_img_def z replicate_add by (simp add: algebra_simps)
qed

lemma put_pointer_image:
  assumes "8 \<le> z" "length s + 1 \<le> t" "length X + z + length S + t < 2 ^ 64"
  shows "put_pointer s (stack_img X z S t) =
    stack_img (X @ le64 (STACK_VIRT + of_nat (length X + z + length S))) (z - 8) (S @ s @ [0]) (t - (length s + 1))"
proof -
  obtain t' where t: "t = (length s + 1) + t'" using assms(2) by (metis le_Suc_ex)
  let ?A = "X @ replicate z 0 @ S"
  have "put_bytes (length ?A) (s @ [0]) (?A @ replicate (length s + 1) 0 @ replicate t' 0) = ?A @ (s @ [0]) @ replicate t' 0"
    by (rule put_bytes_append) simp
  moreover have "unat (STACK_VIRT + of_nat (length ?A) - STACK_VIRT) = length ?A" by (rule unat_offset) (use assms(3) in simp)
  ultimately have "put_string s (stack_img X z S t) = (STACK_VIRT + of_nat (length X + z + length S), stack_img X z (S @ s @ [0]) t')"
    unfolding put_string_def stack_img_def t replicate_add by (simp add: algebra_simps)
  moreover have "put_word v (stack_img X z (S @ s @ [0]) t') = stack_img (X @ le64 v) (z - 8) (S @ s @ [0]) t'" for v
    by (rule put_word_image) (use assms t in simp_all)
  ultimately show ?thesis by (simp add: put_pointer_def t)
qed

lemma put_pointers_image:
  assumes "8 * length ss \<le> z" "strings_size ss \<le> t" "length X + z + length S + t < 2 ^ 64"
  shows "fold put_pointer ss (stack_img X z S t) =
    stack_img (X @ words_block (string_addrs (length X + z + length S) ss)) (z - 8 * length ss) (S @ strings_block ss) (t - strings_size ss)"
  using assms
proof (induction ss arbitrary: X z S t)
  case (Cons s ss)
  let ?X = "X @ le64 (STACK_VIRT + of_nat (length X + z + length S))" and ?S = "S @ s @ [0]"
  have step: "put_pointer s (stack_img X z S t) = stack_img ?X (z - 8) ?S (t - (length s + 1))"
    by (rule put_pointer_image) (use Cons.prems in simp_all)
  have "length ?X + (z - 8) + length ?S = length X + z + length S + (length s + 1)" using Cons.prems by simp
  with Cons.IH [of "z - 8" "t - (length s + 1)" ?X ?S] Cons.prems show ?case
    unfolding fold_simps step by (simp add: add.assoc)
qed simp

section \<open>The addresses\<close>

lemma unat_stack_offset: "k \<le> 16384 \<Longrightarrow> unat (STACK_VIRT + of_nat k) = 0x7FFFF000 + k"
  unfolding STACK_VIRT_def by (simp add: unat_word_ariths unat_of_nat)

lemma strings_base:
  assumes "n \<le> 16384"
  shows "STACK_VIRT + STACK_SIZE - of_nat n = STACK_VIRT + of_nat (16384 - n)"
  using assms by (simp add: STACK_VIRT_def STACK_SIZE_def of_nat_diff)

lemma sp_address:
  assumes "k \<le> 16384"
  shows "(STACK_VIRT + of_nat k) AND NOT 15 = STACK_VIRT + of_nat (k div 16 * 16)"
proof -
  have m: "(15 :: u64) = mask 4" by (simp add: mask_eq_exp_minus_1)
  have "unat ((STACK_VIRT + of_nat k) AND NOT 15) = (0x7FFFF000 + k) div 16 * 16"
    unfolding m unat_clear_low_bits unat_stack_offset [OF assms] by simp
  also have "\<dots> = 0x7FFFF000 + k div 16 * 16" using div_mult_self3 [of 16 134217472 k] by simp
  also have "\<dots> = unat (STACK_VIRT + of_nat (k div 16 * 16))"
    by (rule unat_stack_offset [symmetric]) (use assms in linarith)
  finally show ?thesis by (simp only: word_unat_eq_iff)
qed

section \<open>The whole block\<close>

lemma write_blocks:
  assumes "z = 8 * length (stack_words argv envp) + pad" "t = strings_size (argv @ envp)" "length X + z + t = 16384"
  defines "st \<equiv> put_word (of_nat (length argv)) (stack_img X z [] t)"
  shows "window (put_word 0 (put_word 0 (put_word 0 (fold put_pointer envp (put_word 0 (fold put_pointer argv st)))))) =
    X @ words_block (stack_words argv envp) @ replicate pad 0 @ strings_block (argv @ envp)"
proof -
  have z: "z = 8 * length argv + 8 * length envp + 40 + pad" using assms(1) by (simp add: length_stack_words)
  have t: "t = strings_size argv + strings_size envp" using assms(2) by simp
  have base: "16384 - strings_size (argv @ envp) = length X + z" using assms(2,3) by linarith
  let ?X1 = "X @ le64 (of_nat (length argv))" and ?A = "words_block (string_addrs (length X + z) argv)"
  let ?B = "words_block (string_addrs (length X + z + strings_size argv) envp)"
  have 1: "st = stack_img ?X1 (z - 8) [] t"
    unfolding st_def by (rule put_word_image) (use assms(3) z in simp_all)
  have 2: "fold put_pointer argv st = stack_img (?X1 @ ?A) (z - 8 - 8 * length argv) (strings_block argv) (t - strings_size argv)"
  proof -
    have e: "length ?X1 + (z - 8) + length ([] :: u8 list) = length X + z" using z by simp
    have "8 * length argv \<le> z - 8" "strings_size argv \<le> t" "length ?X1 + (z - 8) + length ([] :: u8 list) + t < 2 ^ 64"
      unfolding e using z t assms(3) by simp_all
    from put_pointers_image [OF this, unfolded e] show ?thesis unfolding 1 by simp
  qed
  have 3: "put_word 0 (fold put_pointer argv st) =
      stack_img (?X1 @ ?A @ le64 0) (z - 16 - 8 * length argv) (strings_block argv) (strings_size envp)"
    unfolding 2 using z t assms(3) by (subst put_word_image) simp_all
  have 4: "fold put_pointer envp (put_word 0 (fold put_pointer argv st)) =
      stack_img (?X1 @ ?A @ le64 0 @ ?B) (24 + pad) (strings_block argv @ strings_block envp) 0"
  proof -
    let ?Y = "?X1 @ ?A @ le64 0" and ?z = "z - 16 - 8 * length argv"
    have e: "length ?Y + ?z + length (strings_block argv) = length X + z + strings_size argv" "?z - 8 * length envp = 24 + pad" using z by simp_all
    have "8 * length envp \<le> ?z" "strings_size envp \<le> strings_size envp" "length ?Y + ?z + length (strings_block argv) + strings_size envp < 2 ^ 64"
      unfolding e using z t assms(3) by simp_all
    from put_pointers_image [OF this, unfolded e] show ?thesis unfolding 3 by simp
  qed
  have 5: "put_word 0 (stack_img Y (k + 8) S 0) = stack_img (Y @ le64 0) k S 0" if "length Y + k + 8 + length S \<le> 16384" for Y k S
    using put_word_image [of "k + 8" Y S 0 0] that by simp
  have 6: "put_word 0 (put_word 0 (put_word 0 (stack_img Y (24 + pad) S 0))) = stack_img (Y @ le64 0 @ le64 0 @ le64 0) pad S 0"
    if "length Y + 24 + pad + length S \<le> 16384" for Y S
    using 5 [of Y "16 + pad" S] 5 [of "Y @ le64 0" "8 + pad" S] 5 [of "Y @ le64 0 @ le64 0" pad S] that by (simp add: add.commute)
  have "length (?X1 @ ?A @ le64 0 @ ?B) + 24 + pad + length (strings_block argv @ strings_block envp) \<le> 16384"
    using z t assms(3) by simp
  from 6 [OF this] show ?thesis unfolding 4 by (simp add: stack_img_def stack_words_def base [unfolded strings_size_simps] Let_def)
qed

lemma sp_offset_bounds:
  assumes "fits argv envp"
  shows "strings_size (argv @ envp) + 8 * length (stack_words argv envp) \<le> 2032"
    "sp_offset argv envp + 8 * length (stack_words argv envp) + strings_size (argv @ envp) \<le> 16384" "sp_offset argv envp mod 16 = 0"
proof -
  show 1: "strings_size (argv @ envp) + 8 * length (stack_words argv envp) \<le> 2032"
    using assms by (simp add: fits_def MAX_ARG_BYTES_def)
  then show "sp_offset argv envp + 8 * length (stack_words argv envp) + strings_size (argv @ envp) \<le> 16384"
    unfolding sp_offset_def by linarith
  show "sp_offset argv envp mod 16 = 0" by (simp add: sp_offset_def)
qed

lemma build_result:
  assumes "length w = 16384" "fits argv envp"
  shows "build_initial_stack w argv envp = Some (STACK_VIRT + of_nat (sp_offset argv envp), stack_layout w argv envp)"
proof -
  let ?n = "strings_size (argv @ envp)" and ?off = "sp_offset argv envp" and ?k = "length (stack_words argv envp)"
  define pad where "pad = 16384 - ?off - 8 * ?k - ?n"
  note b = sp_offset_bounds [OF assms(2)]
  have k: "1 + length argv + 1 + length envp + 1 + 2 = ?k" by (simp add: length_stack_words)
  have n: "string_bytes argv 0 = Some (strings_size argv)" "string_bytes envp (strings_size argv) = Some ?n" "\<not> ?n + ?k * 8 + 16 > MAX_ARG_BYTES"
    using b(1) by (simp_all add: string_bytes_sum MAX_ARG_BYTES_def)
  have sp: "(STACK_VIRT + STACK_SIZE - of_nat ?n - of_nat (?k * 8)) AND NOT 15 = STACK_VIRT + of_nat ?off"
  proof -
    have "STACK_VIRT + STACK_SIZE - of_nat ?n - of_nat (?k * 8) = STACK_VIRT + STACK_SIZE - of_nat (?n + 8 * ?k)" by (simp add: mult.commute)
    also have "\<dots> = STACK_VIRT + of_nat (16384 - (?n + 8 * ?k))" by (rule strings_base) (use b(1) in linarith)
    finally have e: "STACK_VIRT + STACK_SIZE - of_nat ?n - of_nat (?k * 8) = STACK_VIRT + of_nat (16384 - (?n + 8 * ?k))" .
    have "?off = (16384 - (?n + 8 * ?k)) div 16 * 16" by (simp add: sp_offset_def)
    then show ?thesis unfolding e using sp_address [of "16384 - (?n + 8 * ?k)"] by simp
  qed
  have base: "STACK_VIRT + STACK_SIZE - of_nat ?n = STACK_VIRT + of_nat (16384 - ?n)" by (rule strings_base) (use b(1) in linarith)
  have top: "unat (STACK_VIRT + STACK_SIZE - (STACK_VIRT + of_nat ?off)) = 16384 - ?off" "unat (STACK_VIRT + of_nat ?off - STACK_VIRT) = ?off"
  proof -
    have "STACK_VIRT + STACK_SIZE - (STACK_VIRT + of_nat ?off) = (of_nat (16384 - ?off) :: u64)"
      using b(2) by (simp add: STACK_SIZE_def of_nat_diff)
    then show "unat (STACK_VIRT + STACK_SIZE - (STACK_VIRT + of_nat ?off)) = 16384 - ?off" by (simp add: unat_of_nat)
    show "unat (STACK_VIRT + of_nat ?off - STACK_VIRT) = ?off" by (rule unat_offset) (use b(2) in simp)
  qed
  have "put_bytes ?off (replicate (16384 - ?off) 0) w = take ?off w @ replicate (16384 - ?off) 0"
    using put_bytes_append [of "replicate (16384 - ?off) 0" "drop ?off w" "take ?off w" "[]"] assms(1) b(2) by simp
  moreover have "16384 - ?off = (8 * ?k + pad) + ?n" using b(2) unfolding pad_def by linarith
  moreover have sum: "?off + (8 * ?k + pad) + ?n = 16384" and len: "length (take ?off w) = ?off" using b(2) assms(1) unfolding pad_def by simp_all
  moreover have "16384 - ?n = ?off + (8 * ?k + pad)" using sum by linarith
  ultimately have start: "\<lparr>window = put_bytes ?off (replicate (16384 - ?off) 0) w, word_cursor = STACK_VIRT + of_nat ?off,
      str_cursor = STACK_VIRT + of_nat (16384 - ?n)\<rparr> = stack_img (take ?off w) (8 * ?k + pad) [] ?n"
    using sum len by (simp add: stack_img_def replicate_add)
  have "length (take ?off w) + (8 * ?k + pad) + ?n = 16384" using sum len by simp
  note layout = write_blocks [OF refl refl this]
  have lims: "\<not> (MAX_ARGS < length argv \<or> MAX_ENVS < length envp)" "length w = unat STACK_SIZE"
    using assms by (simp_all add: fits_def STACK_SIZE_def)
  show ?thesis
    unfolding build_initial_stack_def Let_def k n option.case base sp [unfolded base] top start layout if_not_P [OF lims(1)] if_not_P [OF n(3)] lims(2)
    by (simp add: stack_layout_def Let_def pad_def)
qed

lemma build_refused:
  assumes "length w = 16384" "\<not> fits argv envp"
  shows "build_initial_stack w argv envp = None"
proof (cases "string_bytes argv 0 = None \<or> MAX_ARGS < length argv \<or> MAX_ENVS < length envp")
  case True
  then show ?thesis by (auto simp: build_initial_stack_def)
next
  case False
  then have "string_bytes argv 0 = Some (strings_size argv)" "strings_size argv \<le> MAX_ARG_BYTES"
    by (auto simp: string_bytes_sum split: if_splits)
  moreover from this have "string_bytes envp (strings_size argv) = (if strings_size (argv @ envp) \<le> MAX_ARG_BYTES then Some (strings_size (argv @ envp)) else None)"
    by (simp add: string_bytes_sum)
  ultimately show ?thesis using False assms
    by (auto simp: build_initial_stack_def fits_def length_stack_words Let_def)
qed

section \<open>Properties\<close>

text \<open>
  C14. The initial stack is built exactly when the numbers of arguments and environment strings and the
  total size are within their limits. Then the stack pointer is a multiple of 16, everything below it is
  untouched, and from it upwards the range holds the argument count, the addresses of the arguments and of
  the environment strings, each list ended by a null, an empty auxiliary vector, zeros, and the strings
  themselves at the addresses that were stored.
\<close>

theorem build_initial_stack_layout:
  assumes "length w = unat STACK_SIZE"
  shows "build_initial_stack w argv envp =
      (if fits argv envp then Some (STACK_VIRT + of_nat (sp_offset argv envp), stack_layout w argv envp) else None) \<and>
    unat (STACK_VIRT + of_nat (sp_offset argv envp)) mod 16 = 0"
proof -
  have "sp_offset argv envp \<le> 16384" "sp_offset argv envp mod 16 = 0" unfolding sp_offset_def by simp_all
  then have "unat (STACK_VIRT + of_nat (sp_offset argv envp)) mod 16 = 0" using unat_stack_offset by (simp add: mod_add_eq [symmetric])
  moreover have "length w = 16384" using assms by (simp add: STACK_SIZE_def)
  ultimately show ?thesis using build_result build_refused by (metis (no_types))
qed

theorem build_initial_stack_layout_witness:
  "build_initial_stack (replicate 16384 0xEE) [[104, 105]] [] =
     Some (0x80002FC0, take 0x3FC0 (replicate 16384 0xEE) @ words_block [1, 0x80002FFD, 0, 0, 0, 0] @ replicate 13 0 @ [104, 105, 0])"
proof -
  have w: "stack_words [[104, 105]] [] = [1, 0x80002FFD, 0, 0, 0, 0]" by (simp add: stack_words_def STACK_VIRT_def)
  have f: "fits [[104, 105]] []" "sp_offset [[104, 105]] [] = 0x3FC0"
    by (simp_all add: fits_def sp_offset_def w MAX_ARGS_def MAX_ENVS_def MAX_ARG_BYTES_def)
  have l: "stack_layout x [[104, 105]] [] = take 0x3FC0 x @ words_block [1, 0x80002FFD, 0, 0, 0, 0] @ replicate 13 0 @ [104, 105, 0]" for x
    by (simp add: stack_layout_def Let_def w f(2))
  have len: "length (replicate 16384 0xEE :: u8 list) = unat STACK_SIZE" unfolding length_replicate by (simp add: STACK_SIZE_def)
  have "STACK_VIRT + of_nat 0x3FC0 = 0x80002FC0" by (simp add: STACK_VIRT_def)
  then show ?thesis using build_initial_stack_layout [OF len, of "[[104, 105]]" "[]"] unfolding l f(2) if_P [OF f(1)] by (simp only:)
qed

end
