(* ===== verification/Vga.thy ===== *)
theory Vga
  imports Kernel_Prelude
begin

text \<open>
  The text screen, \<^verbatim>\<open>kernel/vga.cpp\<close>: the buffer at \<^verbatim>\<open>0xB8000\<close> as a function from cell numbers to
  entries, the cursor, the current colour, and the bytes written to the ports of the cursor registers,
  the latest first.
\<close>

section \<open>State\<close>

datatype Color = Black | Blue | Green | Cyan | Red | Magenta | Brown | LightGrey | DarkGrey | LightBlue | LightGreen
  | LightCyan | LightRed | LightMagenta | Yellow | White

fun color_code :: "Color \<Rightarrow> u8" where
  "color_code Black = 0"
| "color_code Blue = 1"
| "color_code Green = 2"
| "color_code Cyan = 3"
| "color_code Red = 4"
| "color_code Magenta = 5"
| "color_code Brown = 6"
| "color_code LightGrey = 7"
| "color_code DarkGrey = 8"
| "color_code LightBlue = 9"
| "color_code LightGreen = 10"
| "color_code LightCyan = 11"
| "color_code LightRed = 12"
| "color_code LightMagenta = 13"
| "color_code Yellow = 14"
| "color_code White = 15"

definition VGA_WIDTH :: u64 where "VGA_WIDTH = 80"
definition VGA_HEIGHT :: u64 where "VGA_HEIGHT = 25"

record vga_state =
  vga_buffer :: "u64 \<Rightarrow> u16"
  cursor_row :: u64
  cursor_col :: u64
  current_color :: u8
  vga_ports :: "(u16 \<times> u8) list"

section \<open>Cells\<close>

definition make_color :: "Color \<Rightarrow> Color \<Rightarrow> u8" where
  "make_color fg bg = color_code fg OR push_bit 4 (color_code bg)"

definition make_entry :: "u8 \<Rightarrow> u8 \<Rightarrow> u16" where
  "make_entry c color = ucast c OR push_bit 8 (ucast color)"

definition vga_cell :: "u64 \<Rightarrow> u64 \<Rightarrow> u64" where
  "vga_cell row col = row * VGA_WIDTH + col"

definition put_cell :: "u64 \<Rightarrow> u16 \<Rightarrow> vga_state \<Rightarrow> vga_state" where
  "put_cell i e s = s\<lparr>vga_buffer := (vga_buffer s)(i := e)\<rparr>"

definition vga_outb :: "u16 \<Rightarrow> u8 \<Rightarrow> vga_state \<Rightarrow> vga_state" where
  "vga_outb port v s = s\<lparr>vga_ports := (port, v) # vga_ports s\<rparr>"

definition update_hardware_cursor :: "vga_state \<Rightarrow> vga_state" where
  "update_hardware_cursor s =
     (let position = ucast (vga_cell (cursor_row s) (cursor_col s)) :: u16;
          s = vga_outb 0x3D4 0x0F s;
          s = vga_outb 0x3D5 (ucast (position AND 0xFF)) s;
          s = vga_outb 0x3D4 0x0E s
      in vga_outb 0x3D5 (ucast (drop_bit 8 position AND 0xFF)) s)"

definition scroll :: "vga_state \<Rightarrow> vga_state" where
  "scroll s =
     (let s = fold (\<lambda>row. fold (\<lambda>col s. put_cell (vga_cell (of_nat row - 1) (of_nat col)) (vga_buffer s (vga_cell (of_nat row) (of_nat col))) s) [0..<80])
                [1..<25] s;
          s = fold (\<lambda>col s. put_cell (vga_cell (VGA_HEIGHT - 1) (of_nat col)) (make_entry 0x20 (current_color s)) s) [0..<80] s
      in s\<lparr>cursor_row := VGA_HEIGHT - 1, cursor_col := 0\<rparr>)"

section \<open>Operations\<close>

definition vga_init :: "vga_state \<Rightarrow> vga_state" where
  "vga_init s = update_hardware_cursor (s\<lparr>current_color := make_color LightGrey Black, cursor_row := 0, cursor_col := 0\<rparr>)"

definition clear_screen :: "Color \<Rightarrow> Color \<Rightarrow> vga_state \<Rightarrow> vga_state" where
  "clear_screen fg bg s =
     (let s = s\<lparr>current_color := make_color fg bg\<rparr>;
          s = fold (\<lambda>row. fold (\<lambda>col s. put_cell (vga_cell (of_nat row) (of_nat col)) (make_entry 0x20 (current_color s)) s) [0..<80]) [0..<25] s
      in update_hardware_cursor (s\<lparr>cursor_row := 0, cursor_col := 0\<rparr>))"

definition set_color :: "Color \<Rightarrow> Color \<Rightarrow> vga_state \<Rightarrow> vga_state" where
  "set_color fg bg s = s\<lparr>current_color := make_color fg bg\<rparr>"

definition scroll_and_show :: "vga_state \<Rightarrow> vga_state" where
  "scroll_and_show s = update_hardware_cursor (if cursor_row s \<ge> VGA_HEIGHT then scroll s else s)"

definition put_char :: "u8 \<Rightarrow> vga_state \<Rightarrow> vga_state" where
  "put_char c s =
     (if c = 10 then scroll_and_show (s\<lparr>cursor_col := 0, cursor_row := cursor_row s + 1\<rparr>)
      else if c = 8 then
        if cursor_col s \<noteq> 0 then
          let s = s\<lparr>cursor_col := cursor_col s - 1\<rparr>
          in scroll_and_show (put_cell (vga_cell (cursor_row s) (cursor_col s)) (make_entry 0x20 (current_color s)) s)
        else if cursor_row s \<noteq> 0 then
          let s = s\<lparr>cursor_row := cursor_row s - 1, cursor_col := VGA_WIDTH - 1\<rparr>
          in scroll_and_show (put_cell (vga_cell (cursor_row s) (cursor_col s)) (make_entry 0x20 (current_color s)) s)
        else update_hardware_cursor s
      else
        let s = put_cell (vga_cell (cursor_row s) (cursor_col s)) (make_entry c (current_color s)) s;
            s = s\<lparr>cursor_col := cursor_col s + 1\<rparr>
        in scroll_and_show (if cursor_col s \<ge> VGA_WIDTH then s\<lparr>cursor_col := 0, cursor_row := cursor_row s + 1\<rparr> else s))"

definition vga_print :: "u8 list \<Rightarrow> vga_state \<Rightarrow> vga_state" where
  "vga_print str s = fold put_char str s"

definition print_colored :: "u8 list \<Rightarrow> Color \<Rightarrow> Color \<Rightarrow> vga_state \<Rightarrow> vga_state" where
  "print_colored str fg bg s =
     (let saved_color = current_color s; s = vga_print str (set_color fg bg s) in s\<lparr>current_color := saved_color\<rparr>)"

definition put_char_at :: "u64 \<Rightarrow> u64 \<Rightarrow> u8 \<Rightarrow> Color \<Rightarrow> Color \<Rightarrow> vga_state \<Rightarrow> vga_state" where
  "put_char_at row col c fg bg s =
     (if row \<ge> VGA_HEIGHT \<or> col \<ge> VGA_WIDTH then s else put_cell (vga_cell row col) (make_entry c (make_color fg bg)) s)"

text \<open>A string literal of the code.\<close>

definition text_bytes :: "string \<Rightarrow> u8 list" where
  "text_bytes cs = map (\<lambda>c. of_nat (of_char c)) cs"

end
