(* ===== verification/Interrupts.thy ===== *)
theory Interrupts
  imports Usercopy Fs Keyboard Vga
begin

text \<open>
  Interrupts and system calls, \<^verbatim>\<open>kernel/interrupts.cpp\<close>. The kernel's state is the product of the states of
  its components. The addresses of the interrupt stubs, the faulting address in \<^verbatim>\<open>cr2\<close>, the keyboard's ports and
  the block device are arguments. \<open>None\<close> is a call that faults or does not return.
\<close>

section \<open>State\<close>

record InterruptFrame =
  f_r15 :: u64
  f_r14 :: u64
  f_r13 :: u64
  f_r12 :: u64
  f_r11 :: u64
  f_r10 :: u64
  f_r9 :: u64
  f_r8 :: u64
  f_rsi :: u64
  f_rdi :: u64
  f_rbp :: u64
  f_rdx :: u64
  f_rcx :: u64
  f_rbx :: u64
  f_rax :: u64
  f_vector :: u64
  f_error_code :: u64
  f_rip :: u64
  f_cs :: u64
  f_rflags :: u64
  f_rsp :: u64
  f_ss :: u64

record IdtEntry =
  offset_low :: u16
  selector :: u16
  ist :: u8
  type_attributes :: u8
  offset_middle :: u16
  offset_high :: u32
  idt_reserved :: u32

record ('d, 's) kernel_state =
  mach :: machine_state
  scr :: vga_state
  kbd :: "'d keyboard_state"
  fsys :: "'s fs_state"
  idt :: "u8 \<Rightarrow> IdtEntry"
  pic_log :: "(u8 \<times> u8) list"

definition PIC1_COMMAND :: u8 where "PIC1_COMMAND = 0x20"
definition PIC1_DATA :: u8 where "PIC1_DATA = 0x21"
definition PIC2_COMMAND :: u8 where "PIC2_COMMAND = 0xA0"
definition PIC2_DATA :: u8 where "PIC2_DATA = 0xA1"
definition PIC_EOI :: u8 where "PIC_EOI = 0x20"
definition PIC_ICW1_INIT :: u8 where "PIC_ICW1_INIT = 0x10"
definition PIC_ICW1_ICW4 :: u8 where "PIC_ICW1_ICW4 = 0x01"
definition PIC_ICW4_8086 :: u8 where "PIC_ICW4_8086 = 0x01"
definition IRQ_BASE :: u8 where "IRQ_BASE = 32"
definition KERNEL_CODE_SELECTOR :: u16 where "KERNEL_CODE_SELECTOR = 0x18"
definition VECTOR_GENERAL_PROTECTION_FAULT :: u64 where "VECTOR_GENERAL_PROTECTION_FAULT = 13"
definition VECTOR_PAGE_FAULT :: u64 where "VECTOR_PAGE_FAULT = 14"
definition VECTOR_SYSCALL :: u64 where "VECTOR_SYSCALL = 0x80"
definition SYS_EXIT :: u64 where "SYS_EXIT = 0"
definition SYS_WRITE :: u64 where "SYS_WRITE = 1"
definition SYS_SLEEP :: u64 where "SYS_SLEEP = 2"
definition SYS_GETPID :: u64 where "SYS_GETPID = 3"
definition SYS_GETPPID :: u64 where "SYS_GETPPID = 4"
definition SYS_UPTIME :: u64 where "SYS_UPTIME = 5"
definition SYS_READ :: u64 where "SYS_READ = 6"
definition SYS_FILESIZE :: u64 where "SYS_FILESIZE = 7"
definition SYS_READFILE :: u64 where "SYS_READFILE = 8"
definition SYS_WRITE_MAX_LENGTH :: u64 where "SYS_WRITE_MAX_LENGTH = 1024 * 1024"
definition SYS_ERROR :: u64 where "SYS_ERROR = - 1"
definition SYS_READFILE_MAX :: u64 where "SYS_READFILE_MAX = 4096"
definition CHUNK_SIZE :: u64 where "CHUNK_SIZE = 256"
definition STACK_GUARD_VIRT :: u64 where "STACK_GUARD_VIRT = 0x7FFFE000"
definition RING3_STACK_GUARD_VIRT :: u64 where "RING3_STACK_GUARD_VIRT = 0x4000F000"
definition STACK_OVERFLOW_GUARD_VIRT :: u64 where "STACK_OVERFLOW_GUARD_VIRT = 0x4002F000"

definition on_screen :: "(vga_state \<Rightarrow> vga_state) \<Rightarrow> ('d, 's) kernel_state \<Rightarrow> ('d, 's) kernel_state" where
  "on_screen f k = k\<lparr>scr := f (scr k)\<rparr>"

section \<open>The interrupt controller and the descriptor table\<close>

definition set_gate :: "u8 \<Rightarrow> u64 \<Rightarrow> u8 \<Rightarrow> ('d, 's) kernel_state \<Rightarrow> ('d, 's) kernel_state" where
  "set_gate vector handler dpl k =
     k\<lparr>idt := (idt k)(vector := \<lparr>offset_low = ucast handler, selector = KERNEL_CODE_SELECTOR, ist = 0,
         type_attributes = 0x8E OR push_bit 5 dpl, offset_middle = ucast (drop_bit 16 handler),
         offset_high = ucast (drop_bit 32 handler), idt_reserved = 0\<rparr>)\<rparr>"

definition pic_outb :: "u8 \<Rightarrow> u8 \<Rightarrow> ('d, 's) kernel_state \<Rightarrow> ('d, 's) kernel_state" where
  "pic_outb port v k = k\<lparr>pic_log := (port, v) # pic_log k\<rparr>"

definition remap_pic :: "('d, 's) kernel_state \<Rightarrow> ('d, 's) kernel_state" where
  "remap_pic k =
     fold (\<lambda>(port, v). pic_outb port v)
       [(PIC1_COMMAND, PIC_ICW1_INIT OR PIC_ICW1_ICW4), (PIC2_COMMAND, PIC_ICW1_INIT OR PIC_ICW1_ICW4),
        (PIC1_DATA, IRQ_BASE), (PIC2_DATA, IRQ_BASE + 8), (PIC1_DATA, 0x04), (PIC2_DATA, 0x02),
        (PIC1_DATA, PIC_ICW4_8086), (PIC2_DATA, PIC_ICW4_8086), (PIC1_DATA, 0xFC), (PIC2_DATA, 0xFF)] k"

definition send_eoi :: "u8 \<Rightarrow> ('d, 's) kernel_state \<Rightarrow> ('d, 's) kernel_state" where
  "send_eoi irq k = pic_outb PIC1_COMMAND PIC_EOI (if irq \<ge> 8 then pic_outb PIC2_COMMAND PIC_EOI k else k)"

definition interrupts_init :: "(u8 \<Rightarrow> u64) \<Rightarrow> ('d, 's) kernel_state \<Rightarrow> ('d, 's) kernel_state" where
  "interrupts_init isr_stub_table k =
     (let k = fold (\<lambda>vector. set_gate (of_nat vector) (isr_stub_table (of_nat vector)) 0) [0..<256] k;
          k = set_gate (ucast VECTOR_SYSCALL) (isr_stub_table (ucast VECTOR_SYSCALL)) 3 k
      in remap_pic k)"

section \<open>Messages\<close>

definition print_hex :: "u64 \<Rightarrow> vga_state \<Rightarrow> vga_state" where
  "print_hex v s = fold (\<lambda>i. put_char (text_bytes ''0123456789ABCDEF'' ! unat (drop_bit (60 - 4 * i) v AND 0xF))) [0..<16] s"

definition print_text :: "string \<Rightarrow> vga_state \<Rightarrow> vga_state" where
  "print_text cs = vga_print (text_bytes cs)"

definition print_line :: "string \<Rightarrow> vga_state \<Rightarrow> vga_state" where
  "print_line cs = vga_print (text_bytes cs @ [10])"

text \<open>The message of \<open>halt_after_exception\<close>; the processor stops afterwards.\<close>

definition exception_message :: "u64 \<Rightarrow> u64 \<Rightarrow> vga_state \<Rightarrow> vga_state" where
  "exception_message vector error_code s =
     (let s = set_color LightRed Black s;
          s = vga_print (10 # text_bytes ''CPU exception 0x'') s;
          s = print_hex vector s;
          s = print_text '' error 0x'' s;
          s = print_hex error_code s
      in print_line ''. System halted.'' s)"

definition ring3_fault_message :: "InterruptFrame \<Rightarrow> vga_state \<Rightarrow> vga_state" where
  "ring3_fault_message frame s =
     (let s = set_color LightGreen Black s;
          s = vga_print ([10, 10] @ text_bytes ''Ring 3 privilege violation caught by the CPU as a real #GP fault.'' @ [10]) s;
          s = print_text ''Faulting instruction attempted a privileged operation from CS=0x'' s;
          s = print_hex (f_cs frame) s;
          s = print_text '' (RPL='' s;
          s = put_char (0x30 + ucast (f_cs frame AND 0x3)) s;
          s = print_line '') - user mode code cannot execute privileged instructions.'' s;
          s = vga_print (text_bytes ''This proves ring 0 / ring 3 separation is genuinely enforced by the CPU.'' @ [10, 10]) s;
          s = set_color Yellow Black s;
          s = print_line ''Terminating the faulting task and returning control to the scheduler...'' s
      in set_color White Black s)"

definition page_fault_message :: "u64 \<Rightarrow> InterruptFrame \<Rightarrow> vga_state \<Rightarrow> vga_state" where
  "page_fault_message faulting_addr frame s =
     (let guard_page = faulting_addr AND NOT 0xFFF;
          is_stack_guard = (guard_page = STACK_GUARD_VIRT \<or> guard_page = RING3_STACK_GUARD_VIRT \<or> guard_page = STACK_OVERFLOW_GUARD_VIRT);
          s = set_color LightRed Black s;
          s = (if is_stack_guard then
                 let s = vga_print ([10, 10] @ text_bytes ''Stack overflow detected: ring 3 code ran off the bottom of its stack'' @ [10]) s;
                     s = print_text ''and hit the unmapped guard page at 0x'' s
                 in print_line ''.'' (print_hex guard_page s)
               else
                 let s = vga_print ([10, 10] @ text_bytes ''Ring 3 page fault at address 0x'') s;
                     s = print_text '' (error code 0x'' (print_hex faulting_addr s)
                 in print_line '').'' (print_hex (f_error_code frame) s));
          s = set_color Yellow Black s;
          s = print_line ''Terminating the faulting task and returning control to the scheduler...'' s
      in set_color White Black s)"

section \<open>System calls\<close>

text \<open>A path from user memory: \<open>Some None\<close> is a path that is refused.\<close>

fun copy_path_from :: "u64 \<Rightarrow> nat list \<Rightarrow> machine_state \<Rightarrow> u8 list option option" where
  "copy_path_from user_ptr [] s = Some None"
| "copy_path_from user_ptr (i # is) s =
     (case copy_from_user (user_ptr + of_nat i) 1 s of
        None \<Rightarrow> None
      | Some (ok, bs) \<Rightarrow>
          if \<not> ok then Some None
          else if bs ! 0 = 0 then Some (if i > 0 then Some [] else None)
          else map_option (map_option (\<lambda>cs. bs ! 0 # cs)) (copy_path_from user_ptr is s))"

definition copy_user_path :: "u64 \<Rightarrow> nat \<Rightarrow> machine_state \<Rightarrow> u8 list option option" where
  "copy_user_path user_ptr capacity s = copy_path_from user_ptr [0..<capacity] s"

fun read_keys :: "nat \<Rightarrow> 'd keyboard_state \<Rightarrow> u8 list \<times> 'd keyboard_state" where
  "read_keys 0 q = ([], q)"
| "read_keys (Suc n) q =
     (if available q then case read_char q of (c, q) \<Rightarrow> case read_keys n q of (cs, q) \<Rightarrow> (c # cs, q) else ([], q))"

definition sys_read :: "InterruptFrame \<Rightarrow> ('d, 's) kernel_state \<Rightarrow> (u64 \<times> ('d, 's) kernel_state) option" where
  "sys_read frame k =
     (let fd = f_rdi frame; user_buf = f_rsi frame; len = f_rdx frame in
      if fd \<noteq> 0 \<or> len > 256 then Some (SYS_ERROR, k)
      else
        case read_keys (unat len) (kbd k) of (chunk, q) \<Rightarrow>
          let k = k\<lparr>kbd := q\<rparr> in
          if chunk = [] then Some (0, k)
          else
            case copy_to_user user_buf chunk (mach k) of
              None \<Rightarrow> None
            | Some (ok, m) \<Rightarrow> if \<not> ok then Some (SYS_ERROR, k) else Some (of_nat (length chunk), k\<lparr>mach := m\<rparr>))"

definition sys_filesize :: "InterruptFrame \<Rightarrow> ('d, 's) kernel_state \<Rightarrow> (u64 \<times> ('d, 's) kernel_state) option" where
  "sys_filesize frame k =
     (case copy_user_path (f_rdi frame) (MAX_FILENAME + 1) (mach k) of
        None \<Rightarrow> None
      | Some None \<Rightarrow> Some (SYS_ERROR, k)
      | Some (Some name) \<Rightarrow>
          let size = file_size name (fsys k) in Some (if size < 0 then SYS_ERROR else word_of_int size, k))"

definition sys_readfile :: "'s reader \<Rightarrow> InterruptFrame \<Rightarrow> ('d, 's) kernel_state \<Rightarrow> (u64 \<times> ('d, 's) kernel_state) option" where
  "sys_readfile rd frame k =
     (let user_buf = f_rsi frame; len = f_rdx frame in
      case copy_user_path (f_rdi frame) (MAX_FILENAME + 1) (mach k) of
        None \<Rightarrow> None
      | Some None \<Rightarrow> Some (SYS_ERROR, k)
      | Some (Some name) \<Rightarrow>
          let len = (if len > SYS_READFILE_MAX then SYS_READFILE_MAX else len) in
          case validate_user_range user_buf len True (mach k) of
            None \<Rightarrow> None
          | Some valid \<Rightarrow>
              if \<not> valid then Some (SYS_ERROR, k)
              else
                case fs_read rd name (unat len) (fsys k) of (ok, file_chunk, fs) \<Rightarrow>
                  let k = k\<lparr>fsys := fs\<rparr> in
                  if \<not> ok then Some (SYS_ERROR, k)
                  else if file_chunk = [] then Some (0, k)
                  else
                    case copy_to_user user_buf file_chunk (mach k) of
                      None \<Rightarrow> None
                    | Some (ok, m) \<Rightarrow> if \<not> ok then Some (SYS_ERROR, k) else Some (of_nat (length file_chunk), k\<lparr>mach := m\<rparr>))"

partial_function (option) write_chunks :: "u64 \<Rightarrow> u64 \<Rightarrow> u64 \<Rightarrow> ('d, 's) kernel_state \<Rightarrow> (u64 \<times> ('d, 's) kernel_state) option" where
  "write_chunks user_ptr len written k =
     (if written < len then
        let remaining = len - written;
            this_chunk = (if remaining < CHUNK_SIZE then remaining else CHUNK_SIZE) in
        case copy_from_user (user_ptr + written) this_chunk (mach k) of
          None \<Rightarrow> None
        | Some (ok, chunk) \<Rightarrow>
            if \<not> ok then Some (if written > 0 then written else SYS_ERROR, k)
            else write_chunks user_ptr len (written + this_chunk) (on_screen (vga_print chunk) k)
      else Some (written, k))"

definition sys_write :: "InterruptFrame \<Rightarrow> ('d, 's) kernel_state \<Rightarrow> (u64 \<times> ('d, 's) kernel_state) option" where
  "sys_write frame k =
     (let user_ptr = f_rdi frame; len = f_rsi frame in
      if len > SYS_WRITE_MAX_LENGTH then Some (SYS_ERROR, k) else write_chunks user_ptr len 0 k)"

text \<open>
  The result register is part of the caller's frame, which only its own task uses. \<open>SYS_EXIT\<close> does not return
  to the caller, and \<open>SYS_SLEEP\<close> stores its result when the caller runs again; the state is the one after the
  switch to another task.
\<close>

definition handle_syscall :: "'s reader \<Rightarrow> InterruptFrame \<Rightarrow> ('d, 's) kernel_state \<Rightarrow> (InterruptFrame \<times> ('d, 's) kernel_state) option" where
  "handle_syscall rd frame k =
     (let result = map_option (\<lambda>(r, k). (frame\<lparr>f_rax := r\<rparr>, k)) in
      if f_rax frame = SYS_GETPID then
        result (Some (case current (mach k) of Some self \<Rightarrow> t_pid (tasks (mach k) self) | None \<Rightarrow> SYS_ERROR, k))
      else if f_rax frame = SYS_GETPPID then
        result (Some (case current (mach k) of Some self \<Rightarrow> t_parent_pid (tasks (mach k) self) | None \<Rightarrow> SYS_ERROR, k))
      else if f_rax frame = SYS_UPTIME then result (Some (timer_ticks (mach k), k))
      else if f_rax frame = SYS_READ then result (sys_read frame k)
      else if f_rax frame = SYS_FILESIZE then result (sys_filesize frame k)
      else if f_rax frame = SYS_READFILE then result (sys_readfile rd frame k)
      else if f_rax frame = SYS_EXIT then
        map_option (\<lambda>m. (frame, k\<lparr>mach := m\<rparr>)) (exit_current (sint (ucast (f_rdi frame) :: u32)) (mach k))
      else if f_rax frame = SYS_WRITE then result (sys_write frame k)
      else if f_rax frame = SYS_SLEEP then
        result (map_option (\<lambda>m. (0, k\<lparr>mach := m\<rparr>)) (sleep_current (f_rdi frame) (mach k)))
      else result (Some (SYS_ERROR, k)))"

section \<open>Dispatch\<close>

datatype ('d, 's) dispatched = Resumed InterruptFrame "('d, 's) kernel_state" | Halted "('d, 's) kernel_state"

definition from_user_mode :: "InterruptFrame \<Rightarrow> bool" where
  "from_user_mode frame \<longleftrightarrow> f_cs frame AND 0x3 = 3"

definition terminate_task :: "(vga_state \<Rightarrow> vga_state) \<Rightarrow> InterruptFrame \<Rightarrow> ('d, 's) kernel_state \<Rightarrow> ('d, 's) dispatched option" where
  "terminate_task message frame k =
     (let k = on_screen message k in map_option (\<lambda>m. Resumed frame (k\<lparr>mach := m\<rparr>)) (exit_current (- 1) (mach k)))"

definition interrupt_dispatch :: "'d port_io \<Rightarrow> 's reader \<Rightarrow> u64 \<Rightarrow> InterruptFrame \<Rightarrow> ('d, 's) kernel_state \<Rightarrow> ('d, 's) dispatched option" where
  "interrupt_dispatch io rd cr2 frame k =
     (if f_vector frame = VECTOR_SYSCALL then map_option (\<lambda>(frame, k). Resumed frame k) (handle_syscall rd frame k)
      else if f_vector frame < ucast IRQ_BASE then
        if f_vector frame = VECTOR_GENERAL_PROTECTION_FAULT \<and> from_user_mode frame then terminate_task (ring3_fault_message frame) frame k
        else if f_vector frame = VECTOR_PAGE_FAULT \<and> from_user_mode frame then terminate_task (page_fault_message cr2 frame) frame k
        else Some (Halted (on_screen (exception_message (f_vector frame) (f_error_code frame)) k))
      else if f_vector frame < ucast IRQ_BASE + 16 then
        let irq = ucast (f_vector frame - ucast IRQ_BASE) :: u8 in
        if irq = 0 then
          let m = (mach k)\<lparr>timer_ticks := timer_ticks (mach k) + 1\<rparr>;
              k = send_eoi irq (k\<lparr>mach := m\<rparr>)
          in map_option (\<lambda>m. Resumed frame (k\<lparr>mach := m\<rparr>)) (tick (mach k))
        else if irq = 1 then Some (Resumed frame (send_eoi irq (k\<lparr>kbd := handle_irq io (kbd k)\<rparr>)))
        else Some (Resumed frame (send_eoi irq k))
      else Some (Resumed frame k))"

end
