(* ===== verification/Vga_Correct.thy ===== *)
theory Vga_Correct
  imports Vga
begin

text \<open>
  The screen as a terminal: a list of 2000 entries and one position, on which printing a character is a
  single step. The code keeps row and column apart and works on a buffer without bounds; it implements
  the terminal and never touches anything outside the screen.
\<close>

section \<open>The terminal\<close>

definition blank :: "u8 \<Rightarrow> u16" where
  "blank color = make_entry 0x20 color"

definition term_scroll :: "u8 \<Rightarrow> u16 list \<times> nat \<Rightarrow> u16 list \<times> nat" where
  "term_scroll color = (\<lambda>(sc, p). if p < 2000 then (sc, p) else (drop 80 sc @ replicate 80 (blank color), 1920))"

definition term_put :: "u8 \<Rightarrow> u8 \<Rightarrow> u16 list \<times> nat \<Rightarrow> u16 list \<times> nat" where
  "term_put color c = (\<lambda>(sc, p).
     if c = 10 then term_scroll color (sc, (p div 80 + 1) * 80)
     else if c = 8 then (if p = 0 then (sc, p) else (sc[p - 1 := blank color], p - 1))
     else term_scroll color (sc[p := make_entry c color], p + 1))"

definition vga_ok :: "vga_state \<Rightarrow> bool" where
  "vga_ok s \<longleftrightarrow> cursor_row s < VGA_HEIGHT \<and> cursor_col s < VGA_WIDTH"

definition screen :: "vga_state \<Rightarrow> u16 list" where
  "screen s = map (\<lambda>i. vga_buffer s (of_nat i)) [0..<2000]"

definition cursor :: "vga_state \<Rightarrow> nat" where
  "cursor s = 80 * unat (cursor_row s) + unat (cursor_col s)"

definition same_outside :: "vga_state \<Rightarrow> vga_state \<Rightarrow> bool" where
  "same_outside s s' \<longleftrightarrow> (\<forall>i. 2000 \<le> unat i \<longrightarrow> vga_buffer s' i = vga_buffer s i) \<and> current_color s' = current_color s"

text \<open>The position in the cursor registers of the display, from the last bytes written.\<close>

definition shown_at :: "vga_state \<Rightarrow> nat \<Rightarrow> bool" where
  "shown_at s p \<longleftrightarrow> (\<exists>hi lo rest. vga_ports s = (0x3D5, hi) # (0x3D4, 0x0E) # (0x3D5, lo) # (0x3D4, 0x0F) # rest \<and> p = 256 * unat hi + unat lo)"

section \<open>Cells\<close>

lemma length_screen [simp]: "length (screen s) = 2000"
  by (simp add: screen_def)

lemma vga_cell_nat: "vga_cell (of_nat r) (of_nat c) = of_nat (80 * r + c)"
  by (simp add: vga_cell_def VGA_WIDTH_def)

lemma vga_cell_cursor: "vga_cell (cursor_row s) (cursor_col s) = of_nat (cursor s)"
  by (simp add: vga_cell_def VGA_WIDTH_def cursor_def)

lemma cell_of_nat: "i = of_nat k \<longleftrightarrow> unat i = k" if "k < 2 ^ 64" for i :: u64
proof -
  have "unat (of_nat k :: u64) = k" using that by (simp add: unat_of_nat)
  then show ?thesis by (metis word_unat_eq_iff)
qed

lemma screen_put:
  assumes "p < 2000"
  shows "screen (put_cell (of_nat p) e s) = (screen s)[p := e]"
proof (rule nth_equalityI)
  fix i assume "i < length (screen (put_cell (of_nat p) e s))"
  then have i: "i < 2000" by simp
  then have "(of_nat i = (of_nat p :: u64)) = (i = p)" using cell_of_nat [of p "of_nat i"] assms by (simp add: unat_of_nat)
  then show "screen (put_cell (of_nat p) e s) ! i = (screen s)[p := e] ! i"
    using i by (auto simp: screen_def put_cell_def nth_list_update)
qed simp

lemma outside_put:
  "p < 2000 \<Longrightarrow> same_outside s (put_cell (of_nat p) e s)"
  by (auto simp: same_outside_def put_cell_def unat_of_nat)

lemma fold_put_cells:
  assumes "n \<le> 80" "base + n < 2 ^ 64"
  shows "fold (\<lambda>col s. put_cell (of_nat (base + col)) (f col) s) [0..<n] s =
    s\<lparr>vga_buffer := (\<lambda>i. if base \<le> unat i \<and> unat i < base + n then f (unat i - base) else vga_buffer s i)\<rparr>"
  using assms
proof (induction n)
  case (Suc n)
  have "i = of_nat (base + n) \<longleftrightarrow> unat i = base + n" for i :: u64 by (rule cell_of_nat) (use Suc.prems in simp)
  then show ?case using Suc by (auto simp: put_cell_def fun_eq_iff less_Suc_eq)
next
  case 0
  have "(\<lambda>i. if base \<le> unat i \<and> unat i < base + 0 then f (unat i - base) else vga_buffer s i) = vga_buffer s" by (auto simp: fun_eq_iff)
  then show ?case by simp
qed

section \<open>Scrolling\<close>

lemma buffer_upd:
  "vga_buffer (s\<lparr>vga_buffer := m\<rparr>) = m" "(s\<lparr>vga_buffer := m\<rparr>)\<lparr>vga_buffer := m'\<rparr> = s\<lparr>vga_buffer := m'\<rparr>"
  "current_color (s\<lparr>vga_buffer := m\<rparr>) = current_color s"
  by simp_all

lemma fold_upt_Suc: "fold f [0..<Suc n] s = f n (fold f [0..<n] s)"
  by simp

text \<open>A row copied to the one above it; the rows above that one and below stay.\<close>

lemma copy_row:
  assumes "n \<le> 80" "r < 24"
  shows "fold (\<lambda>col s. put_cell (of_nat (80 * r + col)) (vga_buffer s (of_nat (80 * (r + 1) + col))) s) [0..<n] s =
    s\<lparr>vga_buffer := (\<lambda>i. if 80 * r \<le> unat i \<and> unat i < 80 * r + n then vga_buffer s (of_nat (unat i + 80)) else vga_buffer s i)\<rparr>"
  using assms(1)
proof (induction n)
  case (Suc n)
  have e: "i = of_nat (80 * r + n) \<longleftrightarrow> unat i = 80 * r + n" for i :: u64
    by (rule cell_of_nat) (use Suc.prems assms(2) in simp)
  have u: "unat (of_nat (80 * (r + 1) + n) :: u64) = 80 * (r + 1) + n" unfolding unat_of_nat using Suc.prems assms(2) by simp
  let ?m = "\<lambda>n i. if 80 * r \<le> unat i \<and> unat i < 80 * r + n then vga_buffer s (of_nat (unat i + 80)) else vga_buffer s i"
  have r: "?m n (of_nat (80 * (r + 1) + n)) = vga_buffer s (of_nat (80 * (r + 1) + n))" unfolding u using Suc.prems by simp
  have "(?m n)(of_nat (80 * r + n) := vga_buffer s (of_nat (80 * (r + 1) + n))) = ?m (Suc n)"
  proof
    fix i :: u64
    consider "unat i = 80 * r + n" | "unat i \<noteq> 80 * r + n" by blast
    then show "((?m n)(of_nat (80 * r + n) := vga_buffer s (of_nat (80 * (r + 1) + n)))) i = ?m (Suc n) i"
    proof cases
      case 1
      then have "unat i + 80 = 80 * (r + 1) + n" by simp
      then show ?thesis using 1 e [of i] by (simp only: fun_upd_def if_True if_P) simp
    next
      case 2
      then show ?thesis using e [of i] by (auto simp: less_Suc_eq)
    qed
  qed
  then show ?case unfolding fold_upt_Suc Suc.IH [OF Suc_leD [OF Suc.prems]] unfolding put_cell_def by (simp only: buffer_upd r)
next
  case 0
  have "(\<lambda>i. if 80 * r \<le> unat i \<and> unat i < 80 * r + 0 then vga_buffer s (of_nat (unat i + 80)) else vga_buffer s i) = vga_buffer s"
    by (auto simp: fun_eq_iff)
  then show ?case by simp
qed

lemma copy_rows:
  assumes "n \<le> 24"
  shows "fold (\<lambda>r. fold (\<lambda>col s. put_cell (of_nat (80 * r + col)) (vga_buffer s (of_nat (80 * (r + 1) + col))) s) [0..<80]) [0..<n] s =
    s\<lparr>vga_buffer := (\<lambda>i. if unat i < 80 * n then vga_buffer s (of_nat (unat i + 80)) else vga_buffer s i)\<rparr>"
  using assms
proof (induction n)
  case (Suc n)
  let ?m = "\<lambda>n i. if unat i < 80 * n then vga_buffer s (of_nat (unat i + 80)) else vga_buffer s i"
  have "(\<lambda>i. if 80 * n \<le> unat i \<and> unat i < 80 * n + 80 then ?m n (of_nat (unat i + 80)) else ?m n i) = ?m (Suc n)"
  proof
    fix i :: u64
    have "unat (of_nat (unat i + 80) :: u64) = unat i + 80" if "unat i < 80 * n + 80"
      unfolding unat_of_nat using that Suc.prems by simp
    then show "(if 80 * n \<le> unat i \<and> unat i < 80 * n + 80 then ?m n (of_nat (unat i + 80)) else ?m n i) = ?m (Suc n) i" by auto
  qed
  moreover have "n < 24" using Suc.prems by simp
  ultimately show ?case
    unfolding fold_upt_Suc Suc.IH [OF Suc_leD [OF Suc.prems]] copy_row [OF order_refl \<open>n < 24\<close>] by (simp only: buffer_upd)
qed simp

lemma scroll_result:
  "scroll s = s\<lparr>vga_buffer := (\<lambda>i. if unat i < 1920 then vga_buffer s (of_nat (unat i + 80))
       else if unat i < 2000 then blank (current_color s) else vga_buffer s i), cursor_row := 24, cursor_col := 0\<rparr>"
proof -
  let ?m = "\<lambda>i. if unat i < 80 * 24 then vga_buffer s (of_nat (unat i + 80)) else vga_buffer s i"
  have rows: "[1..<25] = map Suc [0..<24]" by (simp add: map_Suc_upt)
  have cells: "vga_cell (of_nat (Suc r) - 1) (of_nat c) = of_nat (80 * r + c)" "vga_cell (of_nat (Suc r)) (of_nat c) = of_nat (80 * (r + 1) + c)" for r c
    using vga_cell_nat [of r c] vga_cell_nat [of "Suc r" c] by simp_all
  have last: "vga_cell (VGA_HEIGHT - 1) (of_nat c) = of_nat (1920 + c)" for c
    using vga_cell_nat [of 24 c] by (simp add: VGA_HEIGHT_def)
  have f: "fold (\<lambda>col s. put_cell (of_nat (1920 + col)) (make_entry 0x20 (current_color s)) s) [0..<n] t =
      fold (\<lambda>col s. put_cell (of_nat (1920 + col)) (blank (current_color t)) s) [0..<n] t" for n t
  proof (induction n)
    case (Suc n)
    have "current_color (fold (\<lambda>col s. put_cell (of_nat (1920 + col)) (blank (current_color t)) s) [0..<n] t) = current_color t"
      by (induction n) (simp_all add: put_cell_def)
    then show ?case unfolding fold_upt_Suc Suc.IH by (simp only: blank_def)
  qed simp
  have b: "(1920 :: nat) + 80 < 2 ^ 64" by simp
  have m: "(\<lambda>i. if 1920 \<le> unat i \<and> unat i < 1920 + 80 then blank (current_color s) else ?m i) =
      (\<lambda>i. if unat i < 1920 then vga_buffer s (of_nat (unat i + 80)) else if unat i < 2000 then blank (current_color s) else vga_buffer s i)"
    by (auto simp: fun_eq_iff)
  show ?thesis
    unfolding scroll_def rows fold_map comp_def cells copy_rows [OF order_refl] Let_def last f fold_put_cells [OF order_refl b] buffer_upd m
    by (simp add: VGA_HEIGHT_def)
qed

lemma screen_scroll: "screen (scroll s) = drop 80 (screen s) @ replicate 80 (blank (current_color s))"
proof (rule nth_equalityI)
  fix i assume "i < length (screen (scroll s))"
  then have i: "i < 2000" by simp
  then have "unat (of_nat i :: u64) = i" by (simp add: unat_of_nat)
  then show "screen (scroll s) ! i = (drop 80 (screen s) @ replicate 80 (blank (current_color s))) ! i"
    using i by (simp add: screen_def scroll_result nth_append add.commute)
qed simp

lemma scroll_keeps: "same_outside s (scroll s)" "vga_ok (scroll s)" "cursor (scroll s) = 1920"
  by (auto simp: same_outside_def vga_ok_def cursor_def scroll_result VGA_HEIGHT_def VGA_WIDTH_def)

section \<open>One character\<close>

lemma position_bytes:
  fixes p :: u16
  shows "unat (ucast (p AND 0xFF) :: u8) = unat p mod 256" "unat p < 65536 \<Longrightarrow> unat (ucast (drop_bit 8 p AND 0xFF) :: u8) = unat p div 256"
proof -
  have m: "x AND 0xFF = take_bit 8 x" for x :: u16 by (simp add: take_bit_eq_mask mask_eq_exp_minus_1)
  have low: "unat (ucast (take_bit 8 x) :: u8) = unat x mod 256" for x :: u16
    unfolding unsigned_ucast_eq unsigned_take_bit_eq by (simp add: take_bit_eq_mod)
  show "unat (ucast (p AND 0xFF) :: u8) = unat p mod 256" unfolding m by (rule low)
  have "unat (drop_bit 8 p) = unat p div 256" unfolding unat_drop_bit_eq by (simp only: drop_bit_eq_div) simp
  then show "unat p < 65536 \<Longrightarrow> unat (ucast (drop_bit 8 p AND 0xFF) :: u8) = unat p div 256"
    unfolding m low by (simp add: less_mult_imp_div_less)
qed

lemma show_cursor:
  assumes "vga_ok s"
  shows "shown_at (update_hardware_cursor s) (cursor s)" "screen (update_hardware_cursor s) = screen s"
    "same_outside s (update_hardware_cursor s)" "vga_ok (update_hardware_cursor s)" "cursor (update_hardware_cursor s) = cursor s"
proof -
  let ?p = "ucast (vga_cell (cursor_row s) (cursor_col s)) :: u16"
  have c: "cursor s < 2000" using assms by (simp add: vga_ok_def cursor_def VGA_HEIGHT_def VGA_WIDTH_def word_less_nat_alt)
  then have p: "unat ?p = cursor s" unfolding vga_cell_cursor unsigned_ucast_eq by (simp add: unat_of_nat take_bit_nat_eq_self)
  have "unat (ucast (?p AND 0xFF) :: u8) = cursor s mod 256" "unat (ucast (drop_bit 8 ?p AND 0xFF) :: u8) = cursor s div 256"
    using position_bytes [of ?p] c unfolding p by simp_all
  then show "shown_at (update_hardware_cursor s) (cursor s)"
    by (simp add: shown_at_def update_hardware_cursor_def vga_outb_def Let_def)
qed (use assms in \<open>simp_all add: update_hardware_cursor_def vga_outb_def Let_def screen_def same_outside_def vga_ok_def cursor_def\<close>)

definition steps_to :: "vga_state \<Rightarrow> u16 list \<times> nat \<Rightarrow> vga_state \<Rightarrow> bool" where
  "steps_to s t s' \<longleftrightarrow> vga_ok s' \<and> (screen s', cursor s') = t \<and> same_outside s s' \<and> shown_at s' (cursor s')"

lemma same_outside_trans: "same_outside r s \<Longrightarrow> same_outside s t \<Longrightarrow> same_outside r t"
  by (simp add: same_outside_def)

lemma steps_to_before: "same_outside r s \<Longrightarrow> steps_to s t s' \<Longrightarrow> steps_to r t s'"
  using same_outside_trans by (auto simp: steps_to_def)

lemma show_step: "vga_ok s \<Longrightarrow> steps_to s (screen s, cursor s) (update_hardware_cursor s)"
  by (simp add: steps_to_def show_cursor)

lemma scroll_and_show_step:
  assumes "vga_ok s \<or> cursor_row s = VGA_HEIGHT \<and> cursor_col s = 0"
  shows "steps_to s (term_scroll (current_color s) (screen s, cursor s)) (scroll_and_show s)"
proof (cases "vga_ok s")
  case True
  then have "cursor s < 2000" "\<not> VGA_HEIGHT \<le> cursor_row s"
    by (simp_all add: vga_ok_def cursor_def VGA_HEIGHT_def VGA_WIDTH_def word_less_nat_alt word_le_nat_alt)
  then show ?thesis using show_step [OF True] by (simp add: scroll_and_show_def term_scroll_def)
next
  case False
  then have r: "cursor_row s = VGA_HEIGHT" "cursor s = 2000" using assms by (simp_all add: cursor_def VGA_HEIGHT_def)
  have "term_scroll (current_color s) (screen s, cursor s) = (screen (scroll s), cursor (scroll s))"
    using r(2) by (simp add: term_scroll_def screen_scroll scroll_keeps)
  then show ?thesis using steps_to_before [OF scroll_keeps(1) show_step [OF scroll_keeps(2)]] r(1) by (simp add: scroll_and_show_def)
qed

lemma vga_ok_nat: "vga_ok s \<longleftrightarrow> unat (cursor_row s) < 25 \<and> unat (cursor_col s) < 80"
  by (simp add: vga_ok_def VGA_HEIGHT_def VGA_WIDTH_def word_less_nat_alt)

lemma newline_step:
  assumes "vga_ok s"
  shows "steps_to s (term_put (current_color s) 10 (screen s, cursor s)) (put_char 10 s)"
proof -
  let ?t = "s\<lparr>cursor_col := 0, cursor_row := cursor_row s + 1\<rparr>"
  have ok: "unat (cursor_row s) < 25" "unat (cursor_col s) < 80" using assms by (simp_all add: vga_ok_nat)
  have row: "unat (cursor_row s + 1) = unat (cursor_row s) + 1" using ok by (simp add: unat_plus_one_bound)
  have p: "cursor s div 80 = unat (cursor_row s)" using ok by (simp add: cursor_def)
  have "vga_ok ?t \<or> cursor_row ?t = VGA_HEIGHT \<and> cursor_col ?t = 0"
    using ok(1) row by (auto simp: vga_ok_nat VGA_HEIGHT_def word_unat_eq_iff)
  moreover have "screen ?t = screen s" "current_color ?t = current_color s" "cursor ?t = (cursor s div 80 + 1) * 80" "same_outside s ?t"
    unfolding p by (simp_all add: screen_def cursor_def row same_outside_def)
  ultimately show ?thesis using scroll_and_show_step [of ?t] steps_to_before [of s ?t] by (simp add: put_char_def term_put_def)
qed

lemma backspace_step:
  assumes "vga_ok s"
  shows "steps_to s (term_put (current_color s) 8 (screen s, cursor s)) (put_char 8 s)"
proof (cases "cursor s = 0")
  case True
  then have "cursor_col s = 0" "cursor_row s = 0" by (simp_all add: cursor_def unat_eq_0)
  then show ?thesis using True show_step [OF assms] by (simp add: put_char_def term_put_def)
next
  case False
  let ?r = "cursor_row s" and ?k = "cursor_col s"
  have ok: "unat ?r < 25" "unat ?k < 80" using assms by (simp_all add: vga_ok_nat)
  define t where "t = (if ?k \<noteq> 0 then s\<lparr>cursor_col := ?k - 1\<rparr> else s\<lparr>cursor_row := ?r - 1, cursor_col := VGA_WIDTH - 1\<rparr>)"
  have pos: "cursor t = cursor s - 1 \<and> vga_ok t"
  proof (cases "?k = 0")
    case True
    then have "0 < unat ?r" using False by (simp add: cursor_def)
    then obtain m where "unat ?r = Suc m" by (metis gr0_conv_Suc)
    then show ?thesis using True ok unat_minus_one_pos [of ?r] by (simp add: t_def cursor_def vga_ok_nat VGA_WIDTH_def)
  next
    case k: False
    then have "0 < unat ?k" by (simp add: unat_gt_0)
    then show ?thesis using k ok unat_minus_one_pos [of ?k] by (simp add: t_def cursor_def vga_ok_nat)
  qed
  have t: "screen t = screen s" "current_color t = current_color s" "same_outside s t"
    by (simp_all add: t_def screen_def same_outside_def)
  let ?u = "put_cell (of_nat (cursor t)) (blank (current_color s)) t"
  have lt: "cursor s < 2000" "cursor t < 2000" using ok pos by (simp_all add: cursor_def)
  have u1: "screen ?u = (screen s)[cursor s - 1 := blank (current_color s)]" using screen_put [OF lt(2)] t(1) pos by simp
  have u5: "same_outside s ?u" by (rule same_outside_trans [OF t(3) outside_put [OF lt(2)]])
  have "cursor ?u = cursor t" "vga_ok ?u = vga_ok t" "current_color ?u = current_color t" by (simp_all add: put_cell_def cursor_def vga_ok_def)
  then have u: "cursor ?u = cursor s - 1" "vga_ok ?u" "current_color ?u = current_color s" using pos t(2) by simp_all
  have "put_char 8 s = scroll_and_show ?u"
    using False unfolding t_def by (auto simp: put_char_def vga_cell_cursor blank_def Let_def cursor_def unat_eq_0)
  moreover have "term_scroll (current_color ?u) (screen ?u, cursor ?u) = ((screen s)[cursor s - 1 := blank (current_color s)], cursor s - 1)"
    unfolding u(1) u1 using lt(1) by (simp add: term_scroll_def)
  ultimately show ?thesis using steps_to_before [OF u5 scroll_and_show_step [OF disjI1 [OF u(2)]]] False by (simp add: term_put_def)
qed

lemma visible_step:
  assumes "vga_ok s" "c \<noteq> 10" "c \<noteq> 8"
  shows "steps_to s (term_put (current_color s) c (screen s, cursor s)) (put_char c s)"
proof -
  let ?r = "cursor_row s" and ?k = "cursor_col s"
  let ?u = "put_cell (of_nat (cursor s)) (make_entry c (current_color s)) s"
  define t where "t = (if unat ?k + 1 < 80 then ?u\<lparr>cursor_col := ?k + 1\<rparr> else ?u\<lparr>cursor_col := 0, cursor_row := ?r + 1\<rparr>)"
  have ok: "unat ?r < 25" "unat ?k < 80" using assms by (simp_all add: vga_ok_nat)
  have row: "unat (?r + 1) = unat ?r + 1" and col: "unat (?k + 1) = unat ?k + 1" using ok by (simp_all add: unat_plus_one_bound)
  have p: "cursor s < 2000" using ok by (simp add: cursor_def)
  have u: "screen ?u = (screen s)[cursor s := make_entry c (current_color s)]" "same_outside s ?u"
    using screen_put [OF p] outside_put [OF p] by blast+
  have t: "screen t = screen ?u" "same_outside s t" "current_color t = current_color s" "cursor t = cursor s + 1"
    "vga_ok t \<or> cursor_row t = VGA_HEIGHT \<and> cursor_col t = 0"
    using u(2) ok row col
    by (auto simp: t_def screen_def same_outside_def put_cell_def cursor_def vga_ok_nat VGA_HEIGHT_def word_unat_eq_iff)
  have "put_char c s = scroll_and_show t"
    using assms(2,3) col by (simp add: put_char_def t_def vga_cell_cursor Let_def VGA_WIDTH_def word_le_nat_alt put_cell_def)
  then show ?thesis using steps_to_before [OF t(2) scroll_and_show_step [OF t(5)]] assms(2,3) t u by (simp add: term_put_def)
qed

lemma put_char_step:
  assumes "vga_ok s"
  shows "steps_to s (term_put (current_color s) c (screen s, cursor s)) (put_char c s)"
  using newline_step [OF assms] backspace_step [OF assms] visible_step [OF assms] by (cases "c = 10"; cases "c = 8") auto

lemma print_steps:
  assumes "vga_ok s"
  shows "vga_ok (vga_print str s) \<and> same_outside s (vga_print str s) \<and>
    (screen (vga_print str s), cursor (vga_print str s)) = fold (term_put (current_color s)) str (screen s, cursor s) \<and>
    (str \<noteq> [] \<longrightarrow> shown_at (vga_print str s) (cursor (vga_print str s)))"
  using assms
proof (induction str arbitrary: s)
  case (Cons c str)
  have one: "vga_ok (put_char c s)" "same_outside s (put_char c s)" "shown_at (put_char c s) (cursor (put_char c s))"
    "(screen (put_char c s), cursor (put_char c s)) = term_put (current_color s) c (screen s, cursor s)"
    using put_char_step [OF Cons.prems] by (simp_all add: steps_to_def)
  then have "current_color (put_char c s) = current_color s" by (simp add: same_outside_def)
  then show ?case using Cons.IH [OF one(1)] one same_outside_trans [OF one(2)] by (cases str) (auto simp: vga_print_def)
qed (simp add: vga_print_def same_outside_def)

section \<open>Properties\<close>

text \<open>
  C34. Printing a string on a screen whose cursor is inside it is, character by character, the step of a
  terminal that keeps 2000 entries and one position: visible characters are stored in the current colour
  and advance, a line feed moves to the next line, a backspace erases the previous cell, and past the last
  line everything moves up by one. The cursor stays on the screen, nothing outside the 2000 cells is
  written, the colour stays, and the cursor registers of the display hold the position.
\<close>

theorem print_refines_terminal:
  assumes "vga_ok s"
  shows "vga_ok (vga_print str s) \<and>
    (screen (vga_print str s), cursor (vga_print str s)) = fold (term_put (current_color s)) str (screen s, cursor s) \<and>
    (\<forall>i. 2000 \<le> unat i \<longrightarrow> vga_buffer (vga_print str s) i = vga_buffer s i) \<and> current_color (vga_print str s) = current_color s \<and>
    (str \<noteq> [] \<longrightarrow> shown_at (vga_print str s) (cursor (vga_print str s)))"
  using print_steps [OF assms, of str] by (simp add: same_outside_def)

definition sample_screen :: vga_state where
  "sample_screen = \<lparr>vga_buffer = (\<lambda>_. 0), cursor_row = 24, cursor_col = 79, current_color = 7, vga_ports = []\<rparr>"

theorem print_refines_terminal_witness:
  "cursor (vga_print [0x41, 0x42] sample_screen) = 1921 \<and> screen (vga_print [0x41, 0x42] sample_screen) ! 1919 = 0x741 \<and>
   vga_buffer (vga_print [0x41, 0x42] sample_screen) 2000 = 0"
proof -
  have ok: "vga_ok sample_screen" by (simp add: vga_ok_def sample_screen_def VGA_HEIGHT_def VGA_WIDTH_def)
  have "fold (term_put 7) [0x41, 0x42] (screen sample_screen, 1999) =
      ((drop 80 ((screen sample_screen)[1999 := 0x741]) @ replicate 80 0x720)[1920 := 0x742], 1921)"
    by (simp add: term_put_def term_scroll_def make_entry_def blank_def)
  moreover have "cursor sample_screen = 1999" "current_color sample_screen = 7" by (simp_all add: cursor_def sample_screen_def)
  ultimately have s: "screen (vga_print [0x41, 0x42] sample_screen) = (drop 80 ((screen sample_screen)[1999 := 0x741]) @ replicate 80 0x720)[1920 := 0x742]"
    "cursor (vga_print [0x41, 0x42] sample_screen) = 1921" "vga_buffer (vga_print [0x41, 0x42] sample_screen) 2000 = vga_buffer sample_screen 2000"
    using print_refines_terminal [OF ok, of "[0x41, 0x42]"] by simp_all
  have "screen (vga_print [0x41, 0x42] sample_screen) ! 1919 = 0x741" unfolding s(1) by (simp add: nth_append)
  then show ?thesis using s by (simp add: sample_screen_def)
qed

end
