(* ===== verification/Interrupts_Correct.thy ===== *)
theory Interrupts_Correct
  imports Interrupts Usercopy_Correct Vga_Correct
begin

text \<open>
  System calls return, and whatever their arguments they change no memory but the bytes of the caller's
  buffer, in pages the caller may write; what \<open>SYS_WRITE\<close> prints are the caller's bytes.
\<close>

section \<open>Reading user memory\<close>

definition readable :: "'a machine_state_scheme \<Rightarrow> u64 \<Rightarrow> nat \<Rightarrow> bool" where
  "readable s src n \<longleftrightarrow> n = 0 \<or> unat USER_SPACE_MIN \<le> unat src \<and> unat src + n \<le> unat USER_SPACE_MAX \<and> (\<forall>v\<in>range_of src n. user_may s False v)"

definition user_bytes :: "'a machine_state_scheme \<Rightarrow> u64 \<Rightarrow> nat \<Rightarrow> u8 list" where
  "user_bytes s src n = map (\<lambda>i. phys_mem s (the (mmu_translate s (src + of_nat i)))) [0..<n]"

lemma copy_from_user_result:
  assumes "links_ok s"
  shows "copy_from_user src len s = Some (if readable s src (unat len) then (True, user_bytes s src (unat len)) else (False, []))"
proof -
  have v: "validate_user_range src len False s = Some (readable s src (unat len))"
    unfolding validate_exact [OF assms] readable_def by (simp add: unat_eq_0)
  have "load_bytes src (unat len) s = Some (user_bytes s src (unat len))" if r: "readable s src (unat len)"
  proof (cases "unat len = 0")
    case False
    then have m: "unat src + unat len \<le> 140737488355328" and u: "\<forall>v\<in>range_of src (unat len). user_may s False v"
      using r unfolding readable_def by (simp_all add: USER_SPACE_MAX_def)
    have "None \<notin> mmu_translate s ` range_of src (unat len)"
    proof
      assume "None \<in> mmu_translate s ` range_of src (unat len)"
      then obtain v where "v \<in> range_of src (unat len)" "mmu_translate s v = None" by (metis imageE)
      then show False using u user_may_translates by blast
    qed
    then show ?thesis unfolding user_bytes_def by (rule load_bytes_result [OF m])
  qed (simp add: user_bytes_def)
  then show ?thesis unfolding copy_from_user_def v by simp
qed

lemma user_bytes_append: "user_bytes s src (m + n) = user_bytes s src m @ user_bytes s (src + of_nat m) n"
proof -
  have "[0..<m + n] = [0..<m] @ map (\<lambda>i. m + i) [0..<n]" by (induction n) simp_all
  then show ?thesis by (simp add: user_bytes_def comp_def add.assoc)
qed

lemma readable_append:
  assumes "readable s src m" "readable s (src + of_nat m) n" "0 < m" "0 < n"
  shows "readable s src (m + n)"
proof -
  have m: "unat USER_SPACE_MIN \<le> unat src" "unat src + m \<le> unat USER_SPACE_MAX" "\<forall>v\<in>range_of src m. user_may s False v"
    using assms(1,3) by (simp_all add: readable_def)
  have lt: "unat src + m < 2 ^ 64" using m(2) by (simp add: USER_SPACE_MAX_def)
  then have "unat (of_nat m :: u64) = m" by (simp add: unat_of_nat)
  then have u: "unat (src + of_nat m) = unat src + m" using lt by (simp add: unat_add_no_wrap)
  then have "range_of src (m + n) = range_of src m \<union> range_of (src + of_nat m) n" by (auto simp: range_of_def)
  moreover have "unat src + m + n \<le> unat USER_SPACE_MAX" "\<forall>v\<in>range_of (src + of_nat m) n. user_may s False v"
    using assms(2,4) u unfolding readable_def by simp_all
  ultimately show ?thesis using m unfolding readable_def by (simp add: ball_Un add.assoc)
qed

lemma copy_path_returns:
  assumes "links_ok s"
  shows "copy_path_from p is s \<noteq> None"
  by (induction "is") (simp_all add: copy_from_user_result [OF assms])

section \<open>Writing to the console\<close>

lemma on_screen_fields [simp]: "mach (on_screen f k) = mach k" "on_screen g (on_screen f k) = on_screen (g \<circ> f) k"
  by (simp_all add: on_screen_def)

lemma vga_print_append: "vga_print b \<circ> vga_print a = vga_print (a @ b)"
  by (rule ext) (simp add: vga_print_def)

definition write_done :: "machine_state \<Rightarrow> u64 \<Rightarrow> nat \<Rightarrow> nat \<Rightarrow> bool" where
  "write_done s ptr len n \<longleftrightarrow> n \<le> len \<and> readable s ptr n \<and>
     (n < len \<longrightarrow> n mod 256 = 0 \<and> \<not> readable s (ptr + of_nat n) (min 256 (len - n)))"

definition write_result :: "nat \<Rightarrow> nat \<Rightarrow> u64" where
  "write_result len n = (if n = 0 \<and> 0 < len then SYS_ERROR else of_nat n)"

lemma write_chunks_result:
  assumes ok: "links_ok s" and len: "unat len \<le> 1048576" and "w \<le> unat len" "readable s ptr w" "w mod 256 = 0 \<or> w = unat len" "mach k = s"
  shows "\<exists>n. write_done s ptr (unat len) n \<and>
    write_chunks ptr len (of_nat w) (on_screen (vga_print (user_bytes s ptr w)) k) =
      Some (write_result (unat len) n, on_screen (vga_print (user_bytes s ptr n)) k)"
  using assms(3-)
proof (induction "unat len - w" arbitrary: w rule: less_induct)
  case less
  have w: "unat (of_nat w :: u64) = w" using less.prems(1) len by (simp add: unat_of_nat)
  show ?case
  proof (cases "w < unat len")
    case False
    then have "w = unat len" using less.prems(1) by simp
    then have "write_done s ptr (unat len) w" "write_result (unat len) w = of_nat w" using less.prems(2) by (auto simp: write_done_def write_result_def)
    moreover have "\<not> (of_nat w :: u64) < len" using False w by (simp add: word_less_nat_alt)
    ultimately show ?thesis by (intro exI [of _ w]) (simp add: write_chunks.simps)
  next
    case True
    define c where "c = min 256 (unat len - w)"
    define cw where "cw = (if len - of_nat w < CHUNK_SIZE then len - of_nat w else CHUNK_SIZE)"
    have lt: "(of_nat w :: u64) < len" using True w by (simp add: word_less_nat_alt)
    then have "unat (len - of_nat w) = unat len - w" using w by (simp add: unat_sub word_le_less_eq)
    then have cw: "unat cw = c" unfolding cw_def c_def by (auto simp: CHUNK_SIZE_def word_less_nat_alt min_def)
    have step: "write_chunks ptr len (of_nat w) (on_screen (vga_print (user_bytes s ptr w)) k) =
      (if \<not> readable s (ptr + of_nat w) c then Some (if (of_nat w :: u64) > 0 then of_nat w else SYS_ERROR, on_screen (vga_print (user_bytes s ptr w)) k)
       else write_chunks ptr len (of_nat w + cw) (on_screen (vga_print (user_bytes s (ptr + of_nat w) c)) (on_screen (vga_print (user_bytes s ptr w)) k)))"
      unfolding write_chunks.simps [of ptr len "of_nat w"] cw_def [symmetric] Let_def if_P [OF lt] on_screen_fields(1) less.prems(4) copy_from_user_result [OF ok] cw by simp
    have w0: "w mod 256 = 0" using less.prems(3) True by simp
    show ?thesis
    proof (cases "readable s (ptr + of_nat w) c")
      case False
      then have "write_done s ptr (unat len) w" using less.prems(2) True w0 by (simp add: write_done_def c_def)
      moreover have "(if (of_nat w :: u64) > 0 then of_nat w else SYS_ERROR) = write_result (unat len) w"
        using w True unfolding write_result_def by (simp add: word_less_nat_alt)
      ultimately show ?thesis using step False by auto
    next
      case rd: True
      have c: "0 < c" "w + c \<le> unat len" using True by (simp_all add: c_def)
      have r: "readable s ptr (w + c)"
      proof (cases "w = 0")
        case False
        then show ?thesis using readable_append [OF less.prems(2) rd] c by simp
      qed (use rd in simp)
      have next_w: "of_nat w + cw = of_nat (w + c)" unfolding cw [symmetric] by simp
      have "(w + c) mod 256 = 0 \<or> w + c = unat len" using w0 by (auto simp: c_def min_def mod_simps)
      from less.hyps [OF _ c(2) r this less.prems(4)] c(1) True
      show ?thesis using step rd unfolding next_w by (simp add: vga_print_append user_bytes_append)
    qed
  qed
qed

section \<open>Writing user memory\<close>

definition confined :: "machine_state \<Rightarrow> u64 \<Rightarrow> nat \<Rightarrow> (u64 \<Rightarrow> u8) \<Rightarrow> bool" where
  "confined s ptr n m \<longleftrightarrow> (\<forall>p. m p \<noteq> phys_mem s p \<longrightarrow> (\<exists>v\<in>range_of ptr n. user_may s True v \<and> mmu_translate s v = Some p))"

definition safe_return :: "InterruptFrame \<Rightarrow> ('d, 's) kernel_state \<Rightarrow> u64 \<times> ('d, 's) kernel_state \<Rightarrow> bool" where
  "safe_return frame k rk \<longleftrightarrow> idt (snd rk) = idt k \<and>
     (\<exists>m. mach (snd rk) = (mach k)\<lparr>phys_mem := m\<rparr> \<and>
          confined (mach k) (f_rsi frame) (if fst rk = SYS_ERROR then 0 else min (unat (fst rk)) (unat (f_rdx frame))) m)"

lemma safe_unchanged: "mach k' = mach k \<Longrightarrow> idt k' = idt k \<Longrightarrow> safe_return frame k (r, k')"
  unfolding safe_return_def by (intro conjI exI [of _ "phys_mem (mach k)"]) (simp_all add: confined_def)

lemma copy_to_user_confined:
  assumes "links_ok s" "length data < 2 ^ 64"
  shows "\<exists>b m. copy_to_user dst data s = Some (b, s\<lparr>phys_mem := m\<rparr>) \<and> (b \<longrightarrow> confined s dst (length data) m)"
proof -
  obtain b s' m where c: "copy_to_user dst data s = Some (b, s')"
    and may: "b \<and> data \<noteq> [] \<longrightarrow> unat USER_SPACE_MIN \<le> unat dst \<and> unat dst + length data \<le> unat USER_SPACE_MAX \<and>
       (\<forall>v\<in>range_of dst (length data). user_may s True v)"
    and s': "s' = s\<lparr>phys_mem := m\<rparr>"
    and keep: "\<forall>p. Some p \<notin> mmu_translate s ` range_of dst (length data) \<longrightarrow> m p = phys_mem s p"
    using copy_to_user_result [OF assms, of dst] by (elim exE conjE) (rule that; assumption)
  have "confined s dst (length data) m" if b
    unfolding confined_def
  proof (intro allI impI)
    fix p
    assume "m p \<noteq> phys_mem s p"
    then have "Some p \<in> mmu_translate s ` range_of dst (length data)" using keep by blast
    then obtain v where v: "Some p = mmu_translate s v" "v \<in> range_of dst (length data)" by (rule imageE)
    then have "data \<noteq> []" by (auto simp: range_of_def)
    then show "\<exists>v\<in>range_of dst (length data). user_may s True v \<and> mmu_translate s v = Some p" using v(2) v(1) [symmetric] may that by blast
  qed
  then have "b \<longrightarrow> confined s dst (length data) m" by (rule impI)
  with c show ?thesis unfolding s' by (intro exI conjI)
qed

text \<open>Both calls that fill the caller's buffer end the same way: copy the data out and report its length.\<close>

lemma copy_out_safe:
  assumes "links_ok (mach k)" "mach k' = mach k" "idt k' = idt k" "length data \<le> unat (f_rdx frame)" "length data \<le> 4096"
  shows "\<exists>rk. (case copy_to_user (f_rsi frame) data (mach k') of
      None \<Rightarrow> None
    | Some (ok, m) \<Rightarrow> if \<not> ok then Some (SYS_ERROR, k') else Some (of_nat (length data), k'\<lparr>mach := m\<rparr>)) = Some rk \<and> safe_return frame k rk"
proof -
  have "length data < 2 ^ 64" using assms(5) by simp
  then obtain b m where c: "copy_to_user (f_rsi frame) data (mach k) = Some (b, (mach k)\<lparr>phys_mem := m\<rparr>)"
    and m: "b \<longrightarrow> confined (mach k) (f_rsi frame) (length data) m"
    using copy_to_user_confined [OF assms(1)] by blast
  have l: "unat (of_nat (length data) :: u64) = length data" using assms(5) by (simp add: unat_of_nat)
  moreover have "unat SYS_ERROR = 18446744073709551615" by (simp add: SYS_ERROR_def unsigned_minus_1_eq_mask mask_eq_exp_minus_1)
  ultimately have "of_nat (length data) \<noteq> SYS_ERROR" using assms(5) by force
  then have "safe_return frame k (of_nat (length data), k'\<lparr>mach := (mach k)\<lparr>phys_mem := m\<rparr>\<rparr>)" if b
    using m l assms(3,4) that unfolding safe_return_def by (auto simp: min_absorb1)
  then show ?thesis unfolding assms(2) c by (simp add: safe_unchanged [OF assms(2,3)])
qed

lemma read_keys_length: "length (fst (read_keys n q)) \<le> n"
proof (induction n arbitrary: q)
  case (Suc n)
  then show ?case by (simp add: case_prod_beta)
qed simp

lemma read_blocks_length: "length (fst (snd (read_blocks rd lbas n d))) \<le> n"
proof (induction lbas arbitrary: n d)
  case (Cons lba lbas)
  obtain ok buf d1 where r: "rd lba 1 d = (ok, buf, d1)" by (metis prod_cases3)
  define c where "c = (if n < SECTOR_SIZE then n else SECTOR_SIZE)"
  have "c \<le> n" by (simp add: c_def)
  moreover obtain ok2 bs d2 where b: "read_blocks rd lbas (n - c) d1 = (ok2, bs, d2)" by (metis prod_cases3)
  moreover have "length bs \<le> n - c" using Cons.IH [of "n - c" d1] b by simp
  ultimately show ?case using min.cobounded2 [of "length buf" c] by (simp add: r c_def [symmetric]) linarith
qed simp

lemma fs_read_length: "length (fst (snd (fs_read rd name n s))) \<le> n"
proof (cases "find_file name s")
  case (Some i)
  define e where "e = file_table s ! i"
  have "length (fst (snd (read_blocks rd (extent_lbas (entry_extents e)) (min (unat (size_bytes e)) n) (disk s)))) \<le> min (unat (size_bytes e)) n"
    by (rule read_blocks_length)
  then show ?thesis unfolding fs_read_def Let_def Some option.case e_def [symmetric] by (simp add: case_prod_beta)
qed (simp add: fs_read_def)

lemma copy_user_path_returns: "links_ok s \<Longrightarrow> copy_user_path p n s \<noteq> None"
  unfolding copy_user_path_def by (rule copy_path_returns)

lemma sys_read_safe:
  assumes "links_ok (mach k)"
  shows "\<exists>rk. sys_read frame k = Some rk \<and> safe_return frame k rk"
proof (cases "f_rdi frame \<noteq> 0 \<or> f_rdx frame > 256")
  case False
  obtain chunk q where c: "read_keys (unat (f_rdx frame)) (kbd k) = (chunk, q)" by fastforce
  then have l: "length chunk \<le> unat (f_rdx frame)" using read_keys_length [of "unat (f_rdx frame)" "kbd k"] by simp
  moreover have "unat (f_rdx frame) \<le> 256" using False by (simp add: word_less_nat_alt)
  ultimately have "length chunk \<le> 4096" by simp
  from copy_out_safe [OF assms, of "k\<lparr>kbd := q\<rparr>" _ frame, OF _ _ l this]
  show ?thesis using False by (cases "chunk = []") (simp_all add: sys_read_def Let_def c safe_unchanged)
qed (simp add: sys_read_def safe_unchanged)

lemma sys_filesize_safe:
  assumes "links_ok (mach k)"
  shows "\<exists>rk. sys_filesize frame k = Some rk \<and> safe_return frame k rk"
  using copy_user_path_returns [OF assms] unfolding sys_filesize_def Let_def
  by (auto split: option.split intro: safe_unchanged)

lemma sys_readfile_safe:
  assumes "links_ok (mach k)"
  shows "\<exists>rk. sys_readfile rd frame k = Some rk \<and> safe_return frame k rk"
proof -
  define len where "len = (if f_rdx frame > SYS_READFILE_MAX then SYS_READFILE_MAX else f_rdx frame)"
  have len: "unat len \<le> unat (f_rdx frame)" "unat len \<le> 4096"
    unfolding len_def by (simp_all add: SYS_READFILE_MAX_def word_less_nat_alt)
  obtain path where p: "copy_user_path (f_rdi frame) (MAX_FILENAME + 1) (mach k) = Some path" using copy_user_path_returns [OF assms] by blast
  obtain valid where v: "validate_user_range (f_rsi frame) len True (mach k) = Some valid" using validate_exact [OF assms] by blast
  show ?thesis
  proof (cases "path = None \<or> \<not> valid")
    case True
    then show ?thesis unfolding sys_readfile_def Let_def p len_def [symmetric] v by (cases path) (simp_all add: safe_unchanged)
  next
    case False
    then obtain name where path: "path = Some name" and valid by auto
    obtain ok data fs where f: "fs_read rd name (unat len) (fsys k) = (ok, data, fs)" by (metis prod_cases3)
    then have "length data \<le> unat len" using fs_read_length [of rd name "unat len" "fsys k"] by simp
    then have "length data \<le> unat (f_rdx frame)" "length data \<le> 4096" using len by simp_all
    then have out: "\<exists>rk. (case copy_to_user (f_rsi frame) data (mach k) of None \<Rightarrow> None
        | Some (ok, m) \<Rightarrow> if \<not> ok then Some (SYS_ERROR, k\<lparr>fsys := fs\<rparr>) else Some (of_nat (length data), k\<lparr>fsys := fs, mach := m\<rparr>)) = Some rk \<and>
      safe_return frame k rk"
      using copy_out_safe [OF assms, of "k\<lparr>fsys := fs\<rparr>" data frame] by simp
    have step: "sys_readfile rd frame k = (if \<not> ok then Some (SYS_ERROR, k\<lparr>fsys := fs\<rparr>) else if data = [] then Some (0, k\<lparr>fsys := fs\<rparr>)
      else case copy_to_user (f_rsi frame) data (mach k) of None \<Rightarrow> None
        | Some (ok, m) \<Rightarrow> if \<not> ok then Some (SYS_ERROR, k\<lparr>fsys := fs\<rparr>) else Some (of_nat (length data), k\<lparr>fsys := fs, mach := m\<rparr>))"
      unfolding sys_readfile_def Let_def p path len_def [symmetric] option.case v f prod.case using \<open>valid\<close> by simp
    have "safe_return frame k (r, k\<lparr>fsys := fs\<rparr>)" for r by (rule safe_unchanged) simp_all
    then show ?thesis unfolding step using out by (cases ok; cases "data = []") simp_all
  qed
qed

lemma sys_write_result:
  assumes "links_ok (mach k)" "unat (f_rsi frame) \<le> 1048576"
  shows "\<exists>n. write_done (mach k) (f_rdi frame) (unat (f_rsi frame)) n \<and>
    sys_write frame k = Some (write_result (unat (f_rsi frame)) n, on_screen (vga_print (user_bytes (mach k) (f_rdi frame) n)) k)"
proof -
  have "\<not> f_rsi frame > SYS_WRITE_MAX_LENGTH" using assms(2) by (simp add: SYS_WRITE_MAX_LENGTH_def word_less_nat_alt)
  moreover have "on_screen (vga_print (user_bytes (mach k) (f_rdi frame) 0)) k = k" by (simp add: on_screen_def user_bytes_def vga_print_def)
  ultimately show ?thesis using write_chunks_result [OF assms, of 0 "f_rdi frame" k] by (simp add: sys_write_def readable_def)
qed

lemma sys_write_too_long: "unat (f_rsi frame) > 1048576 \<Longrightarrow> sys_write frame k = Some (SYS_ERROR, k)"
  by (simp add: sys_write_def SYS_WRITE_MAX_LENGTH_def word_less_nat_alt)

lemma sys_write_safe:
  assumes "links_ok (mach k)"
  shows "\<exists>rk. sys_write frame k = Some rk \<and> safe_return frame k rk"
proof (cases "unat (f_rsi frame) \<le> 1048576")
  case True
  have "safe_return frame k (r, on_screen f k)" for r f by (rule safe_unchanged) (simp_all add: on_screen_def)
  then show ?thesis using sys_write_result [OF assms True] by blast
qed (simp add: sys_write_too_long safe_unchanged)

section \<open>The descriptor table\<close>

definition gate :: "u64 \<Rightarrow> u8 \<Rightarrow> IdtEntry" where
  "gate handler dpl = \<lparr>offset_low = ucast handler, selector = KERNEL_CODE_SELECTOR, ist = 0, type_attributes = 0x8E OR push_bit 5 dpl,
     offset_middle = ucast (drop_bit 16 handler), offset_high = ucast (drop_bit 32 handler), idt_reserved = 0\<rparr>"

text \<open>What the processor reads in a gate: the handler's address, the present bit and the privilege that may call it.\<close>

definition gate_address :: "IdtEntry \<Rightarrow> u64" where
  "gate_address e = ucast (offset_low e) OR push_bit 16 (ucast (offset_middle e)) OR push_bit 32 (ucast (offset_high e))"

definition gate_present :: "IdtEntry \<Rightarrow> bool" where
  "gate_present e \<longleftrightarrow> bit (type_attributes e) 7"

definition gate_dpl :: "IdtEntry \<Rightarrow> u8" where
  "gate_dpl e = drop_bit 5 (type_attributes e) AND 3"

lemma gate_address_gate: "gate_address (gate handler dpl) = handler"
proof (rule bit_word_eqI)
  fix n
  assume "n < LENGTH(64)"
  then show "bit (gate_address (gate handler dpl)) n \<longleftrightarrow> bit handler n"
    by (cases "n < 32") (auto simp: gate_address_def gate_def bit_simps)
qed

lemma idt_set_gate [simp]: "idt (set_gate v handler dpl k) = (idt k)(v := gate handler dpl)"
  by (simp add: set_gate_def gate_def)

lemma idt_remap_pic [simp]: "idt (remap_pic k) = idt k"
  by (simp add: remap_pic_def pic_outb_def)

lemma idt_fold_gates:
  "n \<le> 256 \<Longrightarrow> idt (fold (\<lambda>v. set_gate (of_nat v) (h (of_nat v)) 0) [0..<n] k) x = (if unat x < n then gate (h x) 0 else idt k x)" for x :: u8
proof (induction n)
  case (Suc n)
  have "x = of_nat n \<longleftrightarrow> unat x = n" using Suc.prems by (auto simp: unat_of_nat)
  then show ?case using Suc by auto
qed simp

lemma idt_after_init:
  "idt (interrupts_init h k) v = gate (h v) (if v = 0x80 then 3 else 0)"
proof -
  have "unat v < 256" by (rule order.strict_trans2 [OF unsigned_less]) simp
  then show ?thesis unfolding interrupts_init_def Let_def by (simp add: idt_fold_gates VECTOR_SYSCALL_def)
qed

section \<open>Properties\<close>

text \<open>
  After initialisation every one of the 256 gates of the interrupt descriptor table is present and leads to the
  stub of its vector: the address the processor assembles from the three parts of the gate is the stub's. Only the
  gate of the system call vector can be called from user mode.
\<close>

lemma interrupts_init_gates:
  "gate_address (idt (interrupts_init isr_stub_table k) v) = isr_stub_table v \<and>
   gate_present (idt (interrupts_init isr_stub_table k) v) \<and>
   selector (idt (interrupts_init isr_stub_table k) v) = KERNEL_CODE_SELECTOR \<and>
   gate_dpl (idt (interrupts_init isr_stub_table k) v) = (if v = 0x80 then 3 else 0)"
  unfolding idt_after_init gate_address_gate by (simp add: gate_def gate_present_def gate_dpl_def)

lemma handle_syscall_safe:
  assumes "links_ok (mach k)" "f_rax frame \<notin> {SYS_EXIT, SYS_SLEEP}"
  shows "\<exists>r k'. handle_syscall rd frame k = Some (frame\<lparr>f_rax := r\<rparr>, k') \<and> safe_return frame k (r, k')"
proof -
  define good where "good x \<longleftrightarrow> (\<exists>r k'. x = Some (frame\<lparr>f_rax := r\<rparr>, k') \<and> safe_return frame k (r, k'))" for x
  have ok: "good (map_option (\<lambda>(r, k). (frame\<lparr>f_rax := r\<rparr>, k)) x)" if "\<exists>rk. x = Some rk \<and> safe_return frame k rk" for x
    using that unfolding good_def by auto
  have same: "\<exists>rk. Some (r, k) = Some rk \<and> safe_return frame k rk" for r using safe_unchanged [of k k] by simp
  have branch: "good (if c then x else y)" if "c \<Longrightarrow> good x" "\<not> c \<Longrightarrow> good y" for c x y using that by simp
  note calls = ok [OF same] ok [OF sys_read_safe [OF assms(1)]] ok [OF sys_filesize_safe [OF assms(1)]]
    ok [OF sys_readfile_safe [OF assms(1)]] ok [OF sys_write_safe [OF assms(1)]]
  have "good (handle_syscall rd frame k)" unfolding handle_syscall_def Let_def
    using assms(2) by (intro branch calls) simp_all
  then show ?thesis unfolding good_def .
qed

text \<open>
  C4. Every system call but exit and sleep returns to its caller, whatever the caller passes and whatever the disk
  answers: of the frame only the result register changes, the descriptor table and every part of the machine but
  the memory stay as they were, and each byte of memory that changes lies in the caller's buffer, within both the
  length passed and the length reported, in a page the caller may write. A call that reports an error changes no
  memory.
\<close>

theorem syscall_memory_safe:
  assumes "links_ok (mach k)" "f_rax frame \<notin> {SYS_EXIT, SYS_SLEEP}"
  shows "\<exists>r m k'. handle_syscall rd frame k = Some (frame\<lparr>f_rax := r\<rparr>, k') \<and> idt k' = idt k \<and> mach k' = (mach k)\<lparr>phys_mem := m\<rparr> \<and>
    (\<forall>p. m p \<noteq> phys_mem (mach k) p \<longrightarrow> r \<noteq> SYS_ERROR \<and>
       (\<exists>v. unat (f_rsi frame) \<le> unat v \<and> unat v < unat (f_rsi frame) + min (unat r) (unat (f_rdx frame)) \<and>
            user_may (mach k) True v \<and> mmu_translate (mach k) v = Some p))"
proof -
  obtain r m k' where call: "handle_syscall rd frame k = Some (frame\<lparr>f_rax := r\<rparr>, k')" "idt k' = idt k" "mach k' = (mach k)\<lparr>phys_mem := m\<rparr>"
    and c: "confined (mach k) (f_rsi frame) (if r = SYS_ERROR then 0 else min (unat r) (unat (f_rdx frame))) m"
    using handle_syscall_safe [OF assms, of rd] unfolding safe_return_def fst_conv snd_conv by (elim exE conjE) (rule that; assumption)
  have "r \<noteq> SYS_ERROR \<and> (\<exists>v. unat (f_rsi frame) \<le> unat v \<and> unat v < unat (f_rsi frame) + min (unat r) (unat (f_rdx frame)) \<and>
      user_may (mach k) True v \<and> mmu_translate (mach k) v = Some p)" if "m p \<noteq> phys_mem (mach k) p" for p
    using c [unfolded confined_def, rule_format, OF that] by (cases "r = SYS_ERROR") (auto simp: range_of_def)
  then have "\<forall>p. m p \<noteq> phys_mem (mach k) p \<longrightarrow> r \<noteq> SYS_ERROR \<and>
       (\<exists>v. unat (f_rsi frame) \<le> unat v \<and> unat v < unat (f_rsi frame) + min (unat r) (unat (f_rdx frame)) \<and>
            user_may (mach k) True v \<and> mmu_translate (mach k) v = Some p)"
    by (intro allI impI)
  with call show ?thesis by (intro exI conjI)
qed

definition sample_kernel :: "(unit, unit) kernel_state" where
  "sample_kernel = \<lparr>mach = flat_space 7, scr = sample_screen,
     kbd = \<lparr>queue = (\<lambda>_. 0x61), queue_head = 2, queue_tail = 0, shift_down = False, caps_lock = False, extended_sequence = False, kbd_dev = ()\<rparr>,
     fsys = \<lparr>file_table = [], fs_bitmap = (\<lambda>_. 0), disk = ()\<rparr>, idt = (\<lambda>_. gate 0 0), pic_log = []\<rparr>"

definition sample_frame :: "u64 \<Rightarrow> u64 \<Rightarrow> u64 \<Rightarrow> u64 \<Rightarrow> InterruptFrame" where
  "sample_frame rax rdi rsi rdx = \<lparr>f_r15 = 0, f_r14 = 0, f_r13 = 0, f_r12 = 0, f_r11 = 0, f_r10 = 0, f_r9 = 0, f_r8 = 0, f_rsi = rsi, f_rdi = rdi,
     f_rbp = 0, f_rdx = rdx, f_rcx = 0, f_rbx = 0, f_rax = rax, f_vector = 0x80, f_error_code = 0, f_rip = 0, f_cs = 0x23, f_rflags = 0, f_rsp = 0, f_ss = 0x1B\<rparr>"

lemma sample_kernel_mach [simp]: "mach sample_kernel = flat_space 7"
  by (simp add: sample_kernel_def)

lemma sample_kernel_scr [simp]: "scr sample_kernel = sample_screen"
  by (simp add: sample_kernel_def)

lemma flat_space_translate: "mmu_translate (flat_space 7) v = Some (0x1000 OR (v AND 0xFFF))"
  by (simp add: mmu_translate_def flat_space_mmu mmu_address_def ADDR_MASK_def)

theorem syscall_memory_safe_witness:
  "\<exists>r m k'. handle_syscall (\<lambda>_ _ d. (False, [], d)) (sample_frame SYS_READ 0 0x40000000 2) sample_kernel =
     Some ((sample_frame SYS_READ 0 0x40000000 2)\<lparr>f_rax := r\<rparr>, k') \<and> mach k' = (flat_space 7)\<lparr>phys_mem := m\<rparr> \<and> m 0x5000 = 0"
proof -
  let ?f = "sample_frame SYS_READ 0 0x40000000 2"
  have rax: "f_rax ?f \<notin> {SYS_EXIT, SYS_SLEEP}" by (simp add: sample_frame_def SYS_READ_def SYS_EXIT_def SYS_SLEEP_def)
  have "links_ok (mach sample_kernel)" using flat_space_links by simp
  from syscall_memory_safe [OF this rax, of "\<lambda>_ _ d. (False, [], d)"]
  obtain r m k' where c: "handle_syscall (\<lambda>_ _ d. (False, [], d)) ?f sample_kernel = Some (?f\<lparr>f_rax := r\<rparr>, k')" "mach k' = (flat_space 7)\<lparr>phys_mem := m\<rparr>"
    and m: "\<forall>p. m p \<noteq> phys_mem (flat_space 7) p \<longrightarrow> (\<exists>v. mmu_translate (flat_space 7) v = Some p)"
    unfolding sample_kernel_mach by blast
  have "0x1000 OR (v AND 0xFFF) \<noteq> 0x5000" for v :: u64
  proof
    assume "0x1000 OR (v AND 0xFFF) = 0x5000"
    then have "bit (0x1000 OR (v AND 0xFFF)) 14 \<longleftrightarrow> bit (0x5000 :: u64) 14" by (rule arg_cong)
    then show False by (simp add: bit_simps)
  qed
  then have "m 0x5000 = 0" using m by (auto simp: flat_space_translate flat_space_fields)
  then show ?thesis using c by blast
qed

text \<open>
  C32. A write call prints exactly bytes of the caller's memory, in order. It prints all of them and reports the
  length, or it stops at the first chunk of 256 bytes that the caller may not read and reports what it printed,
  an error when that is nothing. A request of more than a mebibyte is an error and prints nothing.
\<close>

theorem sys_write_prints:
  assumes "links_ok (mach k)" "f_rax frame = SYS_WRITE"
  shows "if unat (f_rsi frame) > 1048576 then handle_syscall rd frame k = Some (frame\<lparr>f_rax := SYS_ERROR\<rparr>, k)
    else \<exists>n. n \<le> unat (f_rsi frame) \<and> readable (mach k) (f_rdi frame) n \<and>
      (n < unat (f_rsi frame) \<longrightarrow> n mod 256 = 0 \<and> \<not> readable (mach k) (f_rdi frame + of_nat n) (min 256 (unat (f_rsi frame) - n))) \<and>
      handle_syscall rd frame k = Some (frame\<lparr>f_rax := if n = 0 \<and> 0 < unat (f_rsi frame) then SYS_ERROR else of_nat n\<rparr>,
        k\<lparr>scr := vga_print (user_bytes (mach k) (f_rdi frame) n) (scr k)\<rparr>)"
proof -
  have h: "handle_syscall rd frame k = map_option (\<lambda>(r, k). (frame\<lparr>f_rax := r\<rparr>, k)) (sys_write frame k)"
    unfolding handle_syscall_def assms(2) Let_def
    by (simp add: SYS_GETPID_def SYS_GETPPID_def SYS_UPTIME_def SYS_READ_def SYS_FILESIZE_def SYS_READFILE_def SYS_EXIT_def SYS_WRITE_def)
  show ?thesis
  proof (cases "unat (f_rsi frame) > 1048576")
    case True
    then show ?thesis unfolding h by (simp add: sys_write_too_long)
  next
    case False
    then have "unat (f_rsi frame) \<le> 1048576" by simp
    from sys_write_result [OF assms(1) this] obtain n where n: "write_done (mach k) (f_rdi frame) (unat (f_rsi frame)) n"
      and w: "sys_write frame k = Some (write_result (unat (f_rsi frame)) n, on_screen (vga_print (user_bytes (mach k) (f_rdi frame) n)) k)"
      by (elim exE conjE)
    show ?thesis unfolding if_not_P [OF False] h w on_screen_def write_result_def
      using n [unfolded write_done_def] by (elim conjE, intro exI [of _ n] conjI) (simp_all only: option.map prod.case)
  qed
qed

theorem sys_write_prints_witness:
  "handle_syscall (\<lambda>_ _ d. (False, [], d)) (sample_frame SYS_WRITE 0x40000000 3 0) sample_kernel =
     Some ((sample_frame SYS_WRITE 0x40000000 3 0)\<lparr>f_rax := 3\<rparr>, sample_kernel\<lparr>scr := vga_print [0, 0, 0] sample_screen\<rparr>)"
proof -
  let ?f = "sample_frame SYS_WRITE 0x40000000 3 0"
  have f: "f_rax ?f = SYS_WRITE" "f_rsi ?f = 3" "f_rdi ?f = 0x40000000" by (simp_all add: sample_frame_def)
  have "user_may (flat_space 7) False v" for v by (simp add: user_may_def flat_space_mmu has_flag_def page_flags)
  then have rd: "readable (flat_space 7) 0x40000000 3" by (simp add: readable_def USER_SPACE_MIN_def USER_SPACE_MAX_def)
  have nat: "unat (3 :: u64) = 3" and lt: "\<not> (3 :: nat) > 1048576" by simp_all
  have "links_ok (mach sample_kernel)" using flat_space_links by simp
  from sys_write_prints [OF this f(1), of "\<lambda>_ _ d. (False, [], d)"] obtain n where n: "n \<le> 3"
      "n < 3 \<longrightarrow> n mod 256 = 0 \<and> \<not> readable (flat_space 7) (0x40000000 + of_nat n) (min 256 (3 - n))"
    and c: "handle_syscall (\<lambda>_ _ d. (False, [], d)) ?f sample_kernel = Some (?f\<lparr>f_rax := if n = 0 \<and> (0::nat) < 3 then SYS_ERROR else of_nat n\<rparr>,
        sample_kernel\<lparr>scr := vga_print (user_bytes (flat_space 7) 0x40000000 n) sample_screen\<rparr>)"
    unfolding f sample_kernel_mach sample_kernel_scr nat if_not_P [OF lt] by (elim exE conjE) (rule that; assumption)
  have "n = 3" using n rd by (cases "n = 0") auto
  then show ?thesis unfolding c by (simp add: user_bytes_def flat_space_fields upt_rec)
qed

end
