(* ===== verification/Snake.thy ===== *)
theory Snake
  imports Vga Keyboard
begin

text \<open>
  The game, \<^verbatim>\<open>kernel/snake.cpp\<close>. The body is an array of \<open>MAX_SEGMENTS\<close> points of which the first \<open>snake_length\<close>
  are in use. Coordinates are unbounded integers: they never leave the range from 0 to 51. The loop that
  looks for a free place for the food may run for ever; \<open>None\<close> is a call that does not return.
\<close>

section \<open>State\<close>

definition BOARD_WIDTH :: u32 where "BOARD_WIDTH = 50"
definition BOARD_HEIGHT :: u32 where "BOARD_HEIGHT = 17"
definition MAX_SEGMENTS :: u32 where "MAX_SEGMENTS = 128"
definition MOVE_INTERVAL_TICKS :: u32 where "MOVE_INTERVAL_TICKS = 3"

record Point =
  pt_x :: int
  pt_y :: int

datatype Direction = Up | Down | Left | Right

record snake_state =
  body :: "Point list"
  food :: Point
  snake_length :: u32
  tick_count :: u32
  random_state :: u32
  direction :: Direction
  requested_direction :: Direction
  running :: bool

section \<open>Food\<close>

definition occupies :: "Point \<Rightarrow> u32 \<Rightarrow> snake_state \<Rightarrow> bool" where
  "occupies point count s =
     list_ex (\<lambda>index. pt_x (body s ! index) = pt_x point \<and> pt_y (body s ! index) = pt_y point) [0..<unat count]"

definition next_random :: "u32 \<Rightarrow> u32" where
  "next_random r = r * 1664525 + 1013904223"

definition roll_food :: "snake_state \<Rightarrow> snake_state" where
  "roll_food s =
     (let s = s\<lparr>random_state := next_random (random_state s)\<rparr>;
          s = s\<lparr>food := (food s)\<lparr>pt_x := 1 + uint (random_state s mod BOARD_WIDTH)\<rparr>\<rparr>;
          s = s\<lparr>random_state := next_random (random_state s)\<rparr>
      in s\<lparr>food := (food s)\<lparr>pt_y := 1 + uint (random_state s mod BOARD_HEIGHT)\<rparr>\<rparr>)"

partial_function (option) spawn_food :: "snake_state \<Rightarrow> snake_state option" where
  "spawn_food s =
     (let s = roll_food s in if occupies (food s) (snake_length s) s then spawn_food s else Some s)"

section \<open>Drawing\<close>

definition board_char :: "snake_state \<Rightarrow> nat \<Rightarrow> nat \<Rightarrow> u8" where
  "board_char s x y =
     (if x = 0 \<or> x = unat BOARD_WIDTH + 1 \<or> y = 0 \<or> y = unat BOARD_HEIGHT + 1 then 0x23
      else if pt_x (food s) = int x \<and> pt_y (food s) = int y then 0x2A
      else case find (\<lambda>index. pt_x (body s ! index) = int x \<and> pt_y (body s ! index) = int y) [0..<unat (snake_length s)] of
             Some index \<Rightarrow> if index = 0 then 0x40 else 0x6F
           | None \<Rightarrow> 0x20)"

definition render :: "snake_state \<Rightarrow> vga_state \<Rightarrow> vga_state" where
  "render s v =
     (let v = clear_screen LightGrey Black v;
          v = set_color LightGreen Black v;
          v = vga_print (text_bytes ''VenomOS Snake  |  Arrow keys: move  |  Esc: exit'' @ [10]) v
      in fold (\<lambda>y v. put_char 10 (fold (\<lambda>x. put_char (board_char s x y)) [0..<unat BOARD_WIDTH + 2] v)) [0..<unat BOARD_HEIGHT + 2] v)"

section \<open>Operations\<close>

definition is_opposite :: "Direction \<Rightarrow> Direction \<Rightarrow> bool" where
  "is_opposite first second \<longleftrightarrow>
     first = Up \<and> second = Down \<or> first = Down \<and> second = Up \<or> first = Left \<and> second = Right \<or> first = Right \<and> second = Left"

definition snake_start :: "snake_state \<Rightarrow> vga_state \<Rightarrow> (snake_state \<times> vga_state) option" where
  "snake_start s v =
     (let s = s\<lparr>snake_length := 3, body := (body s)[0 := \<lparr>pt_x = 25, pt_y = 9\<rparr>, 1 := \<lparr>pt_x = 24, pt_y = 9\<rparr>, 2 := \<lparr>pt_x = 23, pt_y = 9\<rparr>],
               direction := Right, requested_direction := Right, tick_count := 0, running := True\<rparr>
      in case spawn_food s of None \<Rightarrow> None | Some s \<Rightarrow> Some (s, render s v))"

definition snake_stop :: "snake_state \<Rightarrow> snake_state" where
  "snake_stop s = s\<lparr>running := False\<rparr>"

definition snake_active :: "snake_state \<Rightarrow> bool" where
  "snake_active s = running s"

definition request_direction :: "Direction \<Rightarrow> snake_state \<Rightarrow> snake_state" where
  "request_direction candidate s = (if is_opposite (direction s) candidate then s else s\<lparr>requested_direction := candidate\<rparr>)"

definition handle_key :: "u8 \<Rightarrow> snake_state \<Rightarrow> snake_state" where
  "handle_key key s =
     (if key = KeyUp then request_direction Up s
      else if key = KeyDown then request_direction Down s
      else if key = KeyLeft then request_direction Left s
      else if key = KeyRight then request_direction Right s
      else s)"

definition advance :: "Direction \<Rightarrow> Point \<Rightarrow> Point" where
  "advance d p =
     (case d of Up \<Rightarrow> p\<lparr>pt_y := pt_y p - 1\<rparr> | Down \<Rightarrow> p\<lparr>pt_y := pt_y p + 1\<rparr>
      | Left \<Rightarrow> p\<lparr>pt_x := pt_x p - 1\<rparr> | Right \<Rightarrow> p\<lparr>pt_x := pt_x p + 1\<rparr>)"

definition shift_body :: "nat \<Rightarrow> Point list \<Rightarrow> Point list" where
  "shift_body new_length b = fold (\<lambda>index b. b[index := b ! (index - 1)]) (rev [1..<new_length]) b"

text \<open>One tick of the game; the result says whether the game goes on.\<close>

definition snake_tick :: "snake_state \<Rightarrow> vga_state \<Rightarrow> (bool \<times> snake_state \<times> vga_state) option" where
  "snake_tick s v =
     (if \<not> running s then Some (False, s, v)
      else
        let s = s\<lparr>tick_count := tick_count s + 1\<rparr> in
        if tick_count s < MOVE_INTERVAL_TICKS then Some (True, s, v)
        else
          let s = s\<lparr>tick_count := 0, direction := requested_direction s\<rparr>;
              next = advance (direction s) (body s ! 0);
              ate_food = (pt_x next = pt_x (food s) \<and> pt_y next = pt_y (food s));
              collision_count = (if ate_food then snake_length s else snake_length s - 1)
          in if pt_x next < 1 \<or> pt_x next > int (unat BOARD_WIDTH) \<or> pt_y next < 1 \<or> pt_y next > int (unat BOARD_HEIGHT) \<or>
                occupies next collision_count s
             then Some (False, s\<lparr>running := False\<rparr>, v)
             else
               let new_length = (if ate_food \<and> snake_length s < MAX_SEGMENTS then snake_length s + 1 else snake_length s);
                   s = s\<lparr>body := (shift_body (unat new_length) (body s))[0 := next], snake_length := new_length\<rparr>
               in case (if ate_food then spawn_food s else Some s) of
                    None \<Rightarrow> None
                  | Some s \<Rightarrow> Some (True, s, render s v))"

end
