(* ===== verification/Snake_Food.thy ===== *)
theory Snake_Food
  imports Snake
begin

text \<open>
  The search for a place for the food ends. The random numbers come from a linear congruential generator
  whose period is the whole range of 32-bit words; the first number of a pair keeps its parity from pair
  to pair, but each parity still reaches 425 different cells, more than the longest body can cover.
\<close>

section \<open>The period of the generator\<close>

text \<open>The generator on integers; it is considered modulo powers of two.\<close>

definition lcg :: "int \<Rightarrow> int" where
  "lcg x = 1664525 * x + 1013904223"

fun lcg_sum :: "nat \<Rightarrow> int" where
  "lcg_sum 0 = 0"
| "lcg_sum (Suc n) = 1664525 * lcg_sum n + 1"

lemma lcg_power: "(lcg ^^ n) x = 1664525 ^ n * x + 1013904223 * lcg_sum n"
  by (induction n) (simp_all add: lcg_def algebra_simps)

lemma lcg_sum_add: "lcg_sum (n + m) = 1664525 ^ m * lcg_sum n + lcg_sum m"
  by (induction m) (simp_all add: algebra_simps)

lemma power_two_mod: "2 ^ (k + 2) dvd 1664525 ^ (2 ^ k) - (1 :: int)"
proof (induction k)
  case (Suc k)
  let ?a = "1664525 ^ (2 ^ k) :: int"
  have "1664525 ^ (2 ^ Suc k) - 1 = (?a - 1) * (?a + 1)" by (simp add: power_mult power2_eq_square algebra_simps mult_2 power_add)
  moreover have "2 dvd ?a + 1" by simp
  ultimately show ?case using Suc mult_dvd_mono [of "2 ^ (k + 2)" "?a - 1" 2 "?a + 1"] by (simp add: mult.commute)
qed simp

text \<open>After \<open>2 ^ k\<close> steps the lowest \<open>k\<close> bits are back and the next one is flipped.\<close>

lemma lcg_sum_two: "\<exists>u. odd u \<and> lcg_sum (2 ^ k) = 2 ^ k * u"
proof (induction k)
  case (Suc k)
  then obtain u where u: "odd u" "lcg_sum (2 ^ k) = 2 ^ k * u" by blast
  let ?a = "1664525 ^ (2 ^ k) :: int"
  have "4 dvd ?a - 1" using power_two_mod [of k] dvd_trans [of 4 "2 ^ (k + 2)" "?a - 1"] by (simp add: power_add)
  then obtain w where "?a - 1 = 4 * w" by (rule dvdE)
  then have a: "?a = 4 * w + 1" by linarith
  have "lcg_sum (2 ^ Suc k) = ?a * lcg_sum (2 ^ k) + lcg_sum (2 ^ k)"
    using lcg_sum_add [of "2 ^ k" "2 ^ k"] by (simp only: power_Suc mult_2)
  also have "\<dots> = (4 * w + 1) * (2 ^ k * u) + 2 ^ k * u" by (simp only: a u(2))
  also have "\<dots> = 2 ^ Suc k * (u * (2 * w + 1))" by (simp add: algebra_simps)
  finally have "lcg_sum (2 ^ Suc k) = 2 ^ Suc k * (u * (2 * w + 1))" .
  then show ?case using u(1) by (intro exI [of _ "u * (2 * w + 1)"]) simp
qed (auto intro!: exI [of _ 1])

lemma lcg_flip: "2 ^ Suc k dvd (lcg ^^ (2 ^ k)) x - (x + 2 ^ k)"
proof -
  obtain u where u: "odd u" "lcg_sum (2 ^ k) = 2 ^ k * u" using lcg_sum_two by blast
  then have "odd (1013904223 * u)" by simp
  then obtain v where v: "1013904223 * u = 2 * v + 1" by (rule oddE)
  have "(lcg ^^ (2 ^ k)) x - (x + 2 ^ k) = (1664525 ^ (2 ^ k) - 1) * x + 2 ^ k * (1013904223 * u - 1)"
    unfolding lcg_power u(2) by (simp add: algebra_simps)
  also have "\<dots> = (1664525 ^ (2 ^ k) - 1) * x + 2 ^ Suc k * v" unfolding v by simp
  finally show ?thesis
    using dvd_trans [OF _ power_two_mod, of "2 ^ Suc k" k] by (simp add: power_add dvd_add dvd_mult2)
qed

lemma lcg_reaches: "\<exists>n. 2 ^ k dvd (lcg ^^ n) x - t"
proof (induction k)
  case (Suc k)
  then obtain n where n: "2 ^ k dvd (lcg ^^ n) x - t" by blast
  then obtain q where q: "(lcg ^^ n) x - t = 2 ^ k * q" by (auto elim: dvdE)
  show ?case
  proof (cases "even q")
    case True
    then show ?thesis using q by (intro exI [of _ n]) (auto elim!: evenE)
  next
    case False
    then obtain w where w: "q = 2 * w + 1" by (auto elim: oddE)
    have "(lcg ^^ (2 ^ k + n)) x - t = ((lcg ^^ (2 ^ k)) ((lcg ^^ n) x) - ((lcg ^^ n) x + 2 ^ k)) + 2 ^ Suc k * (w + 1)"
      using q unfolding funpow_add comp_apply w by (simp add: algebra_simps)
    then show ?thesis using lcg_flip by (intro exI [of _ "2 ^ k + n"]) (metis dvd_add dvd_triv_left)
  qed
qed simp

lemma lcg_parity: "2 dvd (lcg ^^ n) x - (x + int n)"
proof (induction n)
  case (Suc n)
  have "(lcg ^^ Suc n) x - (x + int (Suc n)) = ((lcg ^^ n) x - (x + int n)) + 2 * (832262 * (lcg ^^ n) x + 506952111)"
    by (simp add: lcg_def)
  then show ?case using Suc by (metis dvd_add dvd_triv_left)
qed simp

section \<open>The generator on words\<close>

lemma next_random_int: "(next_random ^^ n) (word_of_int x) = word_of_int ((lcg ^^ n) x)"
  by (induction n) (simp_all add: next_random_def lcg_def)

lemma random_pairs_reach:
  assumes "even (unat r) = even (unat t)"
  shows "\<exists>n. (next_random ^^ (2 * n)) r = t"
proof -
  obtain n where n: "2 ^ 32 dvd (lcg ^^ n) (uint r) - uint t" using lcg_reaches by blast
  then have "(word_of_int ((lcg ^^ n) (uint r)) :: u32) = word_of_int (uint t)"
    unfolding word_of_int_eq_iff take_bit_eq_mod mod_eq_dvd_iff by simp
  then have t: "(next_random ^^ n) r = t" using next_random_int [of n "uint r"] by simp
  have "(2 :: int) dvd 2 ^ 32" by simp
  then have "2 dvd (lcg ^^ n) (uint r) - uint t" using n by (rule dvd_trans)
  moreover have "even (uint x) = even (unat x)" for x :: u32 using even_of_nat [where 'a = int and n = "unat x"] by (simp only: of_nat_unat)
  then have "even (uint r) = even (uint t)" using assms by simp
  ultimately have "2 dvd int n" using lcg_parity [of n "uint r"] by auto
  then obtain m where "n = 2 * m" by (metis dvdE int_dvd_int_iff of_nat_numeral)
  then show ?thesis using t by blast
qed

section \<open>Cells\<close>

definition food_cell :: "u32 \<Rightarrow> Point" where
  "food_cell q = \<lparr>pt_x = 1 + uint (q mod BOARD_WIDTH), pt_y = 1 + uint (next_random q mod BOARD_HEIGHT)\<rparr>"

lemma roll_food_eq:
  "roll_food s = s\<lparr>random_state := next_random (next_random (random_state s)), food := food_cell (next_random (random_state s))\<rparr>"
  by (simp add: roll_food_def food_cell_def Let_def)

lemma mod_eq_dvd_nat: "(m :: nat) mod k = n mod k \<Longrightarrow> int k dvd int m - int n"
  by (metis mod_eq_dvd_iff of_nat_mod)

lemma small_cells_distinct:
  assumes "i < 850" "j < 850" "food_cell (of_nat i) = food_cell (of_nat j)"
  shows "i = j"
proof -
  have u: "unat (of_nat k :: u32) = k" "unat (next_random (of_nat k)) = 1664525 * k + 1013904223" if "k < 850" for k
    using that by (simp_all add: next_random_def unat_word_ariths unat_of_nat)
  have "unat ((of_nat i :: u32) mod BOARD_WIDTH) = unat ((of_nat j :: u32) mod BOARD_WIDTH)"
    "unat (next_random (of_nat i) mod BOARD_HEIGHT) = unat (next_random (of_nat j) mod BOARD_HEIGHT)"
    using assms(3) by (simp_all add: food_cell_def word_uint_eq_iff [symmetric])
  then have m: "i mod 50 = j mod 50" "(1664525 * i + 1013904223) mod 17 = (1664525 * j + 1013904223) mod 17"
    unfolding unat_mod u(1) [OF assms(1)] u(1) [OF assms(2)] u(2) [OF assms(1)] u(2) [OF assms(2)]
    by (simp_all add: BOARD_WIDTH_def BOARD_HEIGHT_def)
  obtain d where d: "int i - int j = 50 * d" using mod_eq_dvd_nat [OF m(1)] by (auto elim: dvdE)
  have "17 dvd 1664525 * (int i - int j)" using mod_eq_dvd_nat [OF m(2)] by (simp add: right_diff_distrib)
  then have "17 dvd 1664525 * (50 * d) * 4" unfolding d by (rule dvd_mult2)
  then have "17 dvd 1664525 * (50 * d) * 4 - 17 * (19582647 * d)" by (rule dvd_diff) (rule dvd_triv_left)
  then have "17 dvd d" by simp
  then have "850 dvd int i - int j" unfolding d by (auto elim: dvdE)
  then show ?thesis using zdvd_imp_le [of 850 "int i - int j"] zdvd_imp_le [of 850 "int j - int i"] assms(1,2)
    by (cases i j rule: linorder_cases) (auto simp: dvd_diff_commute)
qed

lemma free_cell:
  assumes "finite B" "card B \<le> 128"
  shows "\<exists>t :: u32. even (unat t) = b \<and> food_cell t \<notin> B"
proof (rule ccontr)
  define c where "c = (if b then 0 else 1 :: nat)"
  let ?f = "\<lambda>k. food_cell (of_nat (2 * k + c))"
  assume none: "\<nexists>t :: u32. even (unat t) = b \<and> food_cell t \<notin> B"
  have "?f k \<in> B" if "k < 425" for k
  proof -
    have "unat (of_nat (2 * k + c) :: u32) = 2 * k + c" unfolding unat_of_nat using that by (simp add: c_def)
    then have "even (unat (of_nat (2 * k + c) :: u32)) = b" by (simp add: c_def)
    then show ?thesis using none by blast
  qed
  then have "?f ` {..<425} \<subseteq> B" by blast
  moreover have "inj_on ?f {..<425}"
  proof (rule inj_onI)
    fix i j assume *: "i \<in> {..<425}" "j \<in> {..<425}" "?f i = ?f j"
    then have "2 * i + c < 850" "2 * j + c < 850" by (auto simp: c_def)
    from small_cells_distinct [OF this *(3)] show "i = j" by simp
  qed
  ultimately have "425 \<le> card B" using card_inj_on_le [of ?f "{..<425}" B] assms(1) by simp
  then show False using assms(2) by simp
qed

section \<open>The search ends\<close>

lemma rolls:
  "(roll_food ^^ Suc n) s = s\<lparr>random_state := (next_random ^^ (2 * Suc n)) (random_state s),
     food := food_cell ((next_random ^^ (2 * n)) (next_random (random_state s)))\<rparr>"
proof (induction n)
  case (Suc n)
  have "(roll_food ^^ Suc (Suc n)) s = roll_food ((roll_food ^^ Suc n) s)" by (simp only: funpow.simps comp_apply)
  moreover have "next_random (next_random ((next_random ^^ (2 * Suc n)) q)) = (next_random ^^ (2 * Suc (Suc n))) q"
    "next_random ((next_random ^^ (2 * Suc n)) q) = (next_random ^^ (2 * Suc n)) (next_random q)" for q
    by (simp_all add: funpow_swap1)
  ultimately show ?case unfolding Suc.IH roll_food_eq by (simp del: funpow.simps mult_Suc_right)
next
  case 0
  have "(next_random ^^ 2) q = next_random (next_random q)" for q by (simp add: numeral_2_eq_2)
  then show ?case by (simp add: roll_food_eq)
qed

lemma occupies_roll: "occupies p (snake_length ((roll_food ^^ n) s)) ((roll_food ^^ n) s) = occupies p (snake_length s) s"
  by (cases n) (simp_all only: rolls occupies_def, simp_all)

lemma spawn_step:
  "spawn_food s = (if occupies (food (roll_food s)) (snake_length s) s then spawn_food (roll_food s) else Some (roll_food s))"
proof -
  have "occupies p (snake_length (roll_food s)) (roll_food s) = occupies p (snake_length s) s" for p
    using occupies_roll [of p "Suc 0" s] by (simp only: funpow.simps comp_apply id_apply)
  then show ?thesis by (subst spawn_food.simps) (simp only: Let_def)
qed

lemma spawn_ends:
  "\<not> occupies (food ((roll_food ^^ Suc n) s)) (snake_length s) s \<Longrightarrow>
   \<exists>m. spawn_food s = Some ((roll_food ^^ Suc m) s) \<and> \<not> occupies (food ((roll_food ^^ Suc m) s)) (snake_length s) s"
proof (induction n arbitrary: s)
  case (Suc n)
  show ?case
  proof (cases "occupies (food (roll_food s)) (snake_length s) s")
    case False
    then have "spawn_food s = Some ((roll_food ^^ Suc 0) s)" using spawn_step [of s] by (simp only: if_False) simp
    then show ?thesis using False by (intro exI [of _ 0]) simp
  next
    case True
    have o: "occupies p (snake_length (roll_food s)) (roll_food s) = occupies p (snake_length s) s" for p
      using occupies_roll [of p "Suc 0" s] by (simp only: funpow.simps comp_apply id_apply)
    have swap: "(roll_food ^^ Suc (Suc k)) s = (roll_food ^^ Suc k) (roll_food s)" for k by (simp only: funpow_Suc_right comp_apply)
    obtain m where m: "spawn_food (roll_food s) = Some ((roll_food ^^ Suc m) (roll_food s))"
      "\<not> occupies (food ((roll_food ^^ Suc m) (roll_food s))) (snake_length s) s"
      using Suc.IH [of "roll_food s", unfolded o, folded swap] Suc.prems unfolding swap by blast
    have "spawn_food s = spawn_food (roll_food s)" using spawn_step [of s] True by (simp only: if_True)
    then show ?thesis using m unfolding swap [symmetric] by (intro exI [of _ "Suc m"]) (simp only: simp_thms)
  qed
next
  case 0
  then have "\<not> occupies (food (roll_food s)) (snake_length s) s" by simp
  then show ?case using spawn_step [of s] by (intro exI [of _ 0]) simp
qed

text \<open>The first points of the body.\<close>

definition segments :: "snake_state \<Rightarrow> Point list" where
  "segments s = map (\<lambda>i. body s ! i) [0..<unat (snake_length s)]"

lemma occupies_segments: "occupies p (snake_length s) s \<longleftrightarrow> p \<in> set (segments s)"
proof -
  have "pt_x q = pt_x p \<and> pt_y q = pt_y p \<longleftrightarrow> p = q" for q by (auto intro: Point.equality)
  then show ?thesis by (auto simp: occupies_def segments_def list_ex_iff)
qed

lemma spawn_food_returns:
  assumes "unat (snake_length s) \<le> 128"
  shows "\<exists>q r. spawn_food s = Some (s\<lparr>random_state := r, food := food_cell q\<rparr>) \<and> food_cell q \<notin> set (segments s)"
proof -
  let ?q = "next_random (random_state s)"
  have "card (set (segments s)) \<le> 128" using card_length [of "segments s"] assms by (simp add: segments_def)
  then obtain t where t: "even (unat t) = even (unat ?q)" "food_cell t \<notin> set (segments s)" using free_cell by blast
  then obtain n where "(next_random ^^ (2 * n)) ?q = t" using random_pairs_reach [of ?q t] by blast
  then have "\<not> occupies (food ((roll_food ^^ Suc n) s)) (snake_length s) s" unfolding rolls occupies_segments using t(2) by simp
  from spawn_ends [OF this] obtain m where
    m: "spawn_food s = Some ((roll_food ^^ Suc m) s)" "food ((roll_food ^^ Suc m) s) \<notin> set (segments s)" unfolding occupies_segments by blast
  have "food_cell ((next_random ^^ (2 * m)) ?q) \<notin> set (segments s)" using m(2) unfolding rolls by simp
  then show ?thesis using m(1) unfolding rolls by blast
qed

end
