(* ===== verification/Snake_Correct.thy ===== *)
theory Snake_Correct
  imports Snake_Food Vga_Correct
begin

text \<open>
  The game as a list of points: every move puts the next point in front and drops the last one unless the
  snake has eaten, every call returns, and the snake never overlaps itself, leaves the board or covers
  the food.
\<close>

section \<open>Invariant\<close>

definition on_board :: "Point \<Rightarrow> bool" where
  "on_board p \<longleftrightarrow> 1 \<le> pt_x p \<and> pt_x p \<le> 50 \<and> 1 \<le> pt_y p \<and> pt_y p \<le> 17"

fun connected :: "Point list \<Rightarrow> bool" where
  "connected (p # q # ps) \<longleftrightarrow> (\<exists>d. p = advance d q) \<and> connected (q # ps)"
| "connected _ \<longleftrightarrow> True"

definition snake_inv :: "snake_state \<Rightarrow> bool" where
  "snake_inv s \<longleftrightarrow> length (body s) = 128 \<and> 3 \<le> unat (snake_length s) \<and> unat (snake_length s) \<le> 128 \<and> tick_count s < 3 \<and>
     distinct (segments s) \<and> list_all on_board (segments s) \<and> connected (segments s) \<and>
     on_board (food s) \<and> food s \<notin> set (segments s) \<and> \<not> is_opposite (direction s) (requested_direction s) \<and>
     (running s \<longrightarrow> segments s ! 0 = advance (direction s) (segments s ! 1))"

inductive snake_reach :: "snake_state \<Rightarrow> bool" where
  started: "length (body s) = 128 \<Longrightarrow> snake_start s v = Some (s', v') \<Longrightarrow> snake_reach s'"
| key: "snake_reach s \<Longrightarrow> snake_reach (handle_key c s)"
| ticked: "snake_reach s \<Longrightarrow> snake_tick s v = Some (r, s', v') \<Longrightarrow> snake_reach s'"
| stopped: "snake_reach s \<Longrightarrow> snake_reach (snake_stop s)"

section \<open>Moving the body\<close>

lemma shift_body_nth:
  "n \<le> length b \<Longrightarrow> length (shift_body n b) = length b \<and>
   (\<forall>i<length b. shift_body n b ! i = (if 1 \<le> i \<and> i < n then b ! (i - 1) else b ! i))"
proof (induction n arbitrary: b)
  case (Suc n)
  show ?case
  proof (cases "n = 0")
    case False
    let ?b = "b[n := b ! (n - 1)]"
    have s: "shift_body (Suc n) b = shift_body n ?b" using False by (simp add: shift_body_def)
    have ih: "length (shift_body n ?b) = length ?b" "\<And>i. i < length ?b \<Longrightarrow> shift_body n ?b ! i = (if 1 \<le> i \<and> i < n then ?b ! (i - 1) else ?b ! i)"
      using Suc.IH [of ?b] Suc.prems by simp_all
    show ?thesis unfolding s using ih Suc.prems False by (auto simp: nth_list_update less_Suc_eq)
  qed (simp add: shift_body_def)
qed (simp add: shift_body_def)

lemma moved_segments:
  assumes "length (body s) = 128" "1 \<le> unat n" "unat n \<le> 128" "body s' = (shift_body (unat n) (body s))[0 := p]" "snake_length s' = n"
  shows "segments s' = p # map (\<lambda>i. body s ! i) [0..<unat n - 1]"
proof (rule nth_equalityI)
  show "length (segments s') = length (p # map (\<lambda>i. body s ! i) [0..<unat n - 1])" using assms by (simp add: segments_def)
  fix i assume "i < length (segments s')"
  then have i: "i < unat n" using assms(5) by (simp add: segments_def)
  then show "segments s' ! i = (p # map (\<lambda>i. body s ! i) [0..<unat n - 1]) ! i"
    using assms shift_body_nth [of "unat n" "body s"] by (auto simp: segments_def nth_list_update nth_Cons')
qed

lemma segments_butlast: "map (\<lambda>i. body s ! i) [0..<unat (snake_length s) - 1] = butlast (segments s)"
  by (cases "unat (snake_length s)") (simp_all add: segments_def butlast_append)

lemma occupies_butlast:
  assumes "0 < unat (snake_length s)"
  shows "occupies p (snake_length s - 1) s \<longleftrightarrow> p \<in> set (butlast (segments s))"
proof -
  have "unat (snake_length s - 1) = unat (snake_length s) - 1" using assms by (simp add: unat_sub word_le_nat_alt Suc_le_eq)
  moreover have "pt_x q = pt_x p \<and> pt_y q = pt_y p \<longleftrightarrow> p = q" for q by (auto intro: Point.equality)
  ultimately show ?thesis unfolding segments_butlast [symmetric] by (auto simp: occupies_def list_ex_iff)
qed

lemma food_cell_on_board: "on_board (food_cell q)"
proof -
  have "uint (q mod 50) < 50" "uint (next_random q mod 17) < 17" by (simp_all add: uint_mod)
  then show ?thesis by (simp add: on_board_def food_cell_def BOARD_WIDTH_def BOARD_HEIGHT_def)
qed

section \<open>One tick\<close>

text \<open>The tick on the list of points, when the interval is over.\<close>

definition next_point :: "snake_state \<Rightarrow> Point" where
  "next_point s = advance (requested_direction s) (hd (segments s))"

definition trail :: "snake_state \<Rightarrow> Point list" where
  "trail s = (if next_point s = food s then segments s else butlast (segments s))"

definition moved :: "snake_state \<Rightarrow> snake_state" where
  "moved s =
     (let n = (if next_point s = food s \<and> snake_length s < MAX_SEGMENTS then snake_length s + 1 else snake_length s)
      in s\<lparr>tick_count := 0, direction := requested_direction s,
           body := (shift_body (unat n) (body s))[0 := next_point s], snake_length := n\<rparr>)"

lemma tick_cases:
  assumes "3 \<le> unat (snake_length s)" "running s" "tick_count s = 2"
  shows "snake_tick s v =
      (if \<not> on_board (next_point s) \<or> next_point s \<in> set (trail s)
       then Some (False, s\<lparr>tick_count := 0, direction := requested_direction s, running := False\<rparr>, v)
       else case (if next_point s = food s then spawn_food (moved s) else Some (moved s)) of None \<Rightarrow> None | Some s \<Rightarrow> Some (True, s, render s v))"
proof -
  let ?p = "next_point s"
  define t where "t = s\<lparr>tick_count := 0, direction := requested_direction s\<rparr>"
  have t: "occupies q n t = occupies q n s" "body t = body s" "snake_length t = snake_length s" "food t = food s"
    "direction t = requested_direction s" for q n
    by (simp_all add: t_def occupies_def)
  have "hd (segments s) = body s ! 0" using assms(1) by (simp add: segments_def hd_map upt_rec)
  then have p: "advance (direction t) (body t ! 0) = ?p" by (simp add: next_point_def t)
  have eat: "pt_x ?p = pt_x (food t) \<and> pt_y ?p = pt_y (food t) \<longleftrightarrow> ?p = food s" unfolding t by (auto intro: Point.equality)
  let ?c = "if ?p = food s then snake_length t else snake_length t - 1"
  have "occupies ?p ?c t \<longleftrightarrow> ?p \<in> set (trail s)"
    using occupies_segments [of _ s] occupies_butlast [of s] assms(1) by (auto simp: trail_def t)
  then have off: "(pt_x ?p < 1 \<or> pt_x ?p > int (unat BOARD_WIDTH) \<or> pt_y ?p < 1 \<or> pt_y ?p > int (unat BOARD_HEIGHT) \<or> occupies ?p ?c t) \<longleftrightarrow>
      \<not> on_board ?p \<or> ?p \<in> set (trail s)"
    by (auto simp: on_board_def BOARD_WIDTH_def BOARD_HEIGHT_def)
  let ?n = "if ?p = food s \<and> snake_length t < MAX_SEGMENTS then snake_length t + 1 else snake_length t"
  have m: "moved s = t\<lparr>body := (shift_body (unat ?n) (body t))[0 := ?p], snake_length := ?n\<rparr>"
    unfolding moved_def Let_def by (simp add: t_def)
  have d: "s\<lparr>tick_count := tick_count s + 1\<rparr>\<lparr>tick_count := 0, direction := requested_direction (s\<lparr>tick_count := tick_count s + 1\<rparr>)\<rparr> = t"
    "\<not> tick_count (s\<lparr>tick_count := tick_count s + 1\<rparr>) < MOVE_INTERVAL_TICKS"
    using assms(3) by (simp_all add: t_def MOVE_INTERVAL_TICKS_def)
  have r: "s\<lparr>tick_count := 0, direction := requested_direction s, running := False\<rparr> = t\<lparr>running := False\<rparr>" by (simp add: t_def)
  show ?thesis
    unfolding snake_tick_def Let_def d(1) if_not_P [OF d(2)] p eat off m r using assms(2) by simp
qed

lemma moved_result:
  assumes "snake_inv s"
  shows "segments (moved s) = next_point s # (if next_point s = food s \<and> length (segments s) < 128 then segments s else butlast (segments s))"
    "length (body (moved s)) = 128" "unat (snake_length (moved s)) = length (segments (moved s))" "unat (snake_length (moved s)) \<le> 128"
proof -
  let ?p = "next_point s"
  define n where "n = snake_length (moved s)"
  have len: "3 \<le> unat (snake_length s)" "unat (snake_length s) \<le> 128" "length (body s) = 128" using assms by (simp_all add: snake_inv_def)
  have lseg: "length (segments s) = unat (snake_length s)" by (simp add: segments_def)
  have n: "unat n = (if ?p = food s \<and> length (segments s) < 128 then unat (snake_length s) + 1 else unat (snake_length s))"
    using len by (auto simp: n_def moved_def Let_def lseg MAX_SEGMENTS_def word_less_nat_alt unat_word_ariths)
  have b: "body (moved s) = (shift_body (unat n) (body s))[0 := ?p]" by (simp add: n_def moved_def Let_def)
  have "segments (moved s) = ?p # map (\<lambda>i. body s ! i) [0..<unat n - 1]"
    by (rule moved_segments [OF len(3) _ _ b n_def [symmetric]]) (use len n lseg in auto)
  then show "segments (moved s) = ?p # (if ?p = food s \<and> length (segments s) < 128 then segments s else butlast (segments s))"
    unfolding n segments_butlast [symmetric] by (simp add: segments_def)
  show "unat (snake_length (moved s)) = length (segments (moved s))" by (simp add: segments_def)
  show "unat (snake_length (moved s)) \<le> 128" using n len lseg by (auto simp: n_def split: if_splits)
  then show "length (body (moved s)) = 128" using b shift_body_nth [of "unat n" "body s"] len(3) by (simp add: n_def)
qed

text \<open>What a tick leaves behind when the snake moves or the game ends.\<close>

definition tick_result :: "snake_state \<Rightarrow> bool \<Rightarrow> snake_state \<Rightarrow> bool" where
  "tick_result s r s' \<longleftrightarrow>
     (let p = next_point s in
      running s' = r \<and> tick_count s' = 0 \<and> direction s' = requested_direction s \<and> requested_direction s' = requested_direction s \<and>
      (if \<not> on_board p \<or> p \<in> set (trail s) then \<not> r \<and> segments s' = segments s \<and> food s' = food s
       else r \<and> segments s' = p # (if p = food s \<and> length (segments s) < 128 then segments s else butlast (segments s)) \<and>
         (if p = food s then on_board (food s') \<and> food s' \<notin> set (segments s') else food s' = food s)))"

lemma tick_due:
  assumes "snake_inv s" "running s" "tick_count s = 2"
  shows "\<exists>r s' v'. snake_tick s v = Some (r, s', v') \<and> tick_result s r s' \<and> length (body s') = 128 \<and> unat (snake_length s') \<le> 128"
proof -
  have len: "3 \<le> unat (snake_length s)" "unat (snake_length s) \<le> 128" "length (body s) = 128" using assms by (simp_all add: snake_inv_def)
  note tick = tick_cases [OF len(1) assms(2,3)] and m = moved_result [OF assms(1)]
  have f: "food (moved s) = food s" "direction (moved s) = requested_direction s" "requested_direction (moved s) = requested_direction s"
    "tick_count (moved s) = 0" "running (moved s)" using assms(2) by (simp_all add: moved_def Let_def)
  obtain q r where sp: "spawn_food (moved s) = Some (moved s\<lparr>random_state := r, food := food_cell q\<rparr>)" "food_cell q \<notin> set (segments (moved s))"
    using spawn_food_returns [OF m(4)] by blast
  have seg: "segments (moved s\<lparr>random_state := r, food := food_cell q\<rparr>) = segments (moved s)" by (simp add: segments_def)
  consider "\<not> on_board (next_point s) \<or> next_point s \<in> set (trail s)" | "on_board (next_point s)" "next_point s \<notin> set (trail s)" "next_point s = food s"
    | "on_board (next_point s)" "next_point s \<notin> set (trail s)" "next_point s \<noteq> food s" by blast
  then show ?thesis
  proof cases
    case 1
    then show ?thesis using len(2,3) unfolding tick by (auto simp: tick_result_def segments_def)
  next
    case 2
    then show ?thesis using m f sp seg food_cell_on_board unfolding tick by (auto simp: tick_result_def)
  next
    case 3
    then show ?thesis using m f unfolding tick by (auto simp: tick_result_def)
  qed
qed

section \<open>The invariant is kept\<close>

lemma segments_upd [simp]: "segments (s\<lparr>requested_direction := d\<rparr>) = segments s" "segments (s\<lparr>tick_count := c\<rparr>) = segments s"
  "segments (s\<lparr>running := b\<rparr>) = segments s"
  by (simp_all add: segments_def)

lemma hd_butlast: "2 \<le> length xs \<Longrightarrow> hd (butlast xs) = hd xs"
  by (cases xs) auto

lemma connected_butlast: "connected ps \<Longrightarrow> connected (butlast ps)"
  by (induction ps rule: connected.induct) auto

lemma connected_Cons: "connected ps \<Longrightarrow> ps \<noteq> [] \<Longrightarrow> connected (advance d (hd ps) # ps)"
  by (cases ps) auto

lemma no_self_opposite: "\<not> is_opposite d d"
  by (simp add: is_opposite_def)

lemma tick_keeps_inv:
  assumes "snake_inv s" "running s" "tick_count s = 2" "tick_result s r s'" "length (body s') = 128" "unat (snake_length s') \<le> 128"
  shows "snake_inv s'"
proof -
  let ?p = "next_point s"
  have inv: "3 \<le> length (segments s)" "distinct (segments s)" "list_all on_board (segments s)" "connected (segments s)"
    "on_board (food s)" "food s \<notin> set (segments s)"
    using assms(1) by (simp_all add: snake_inv_def segments_def)
  have len: "length (segments s') = unat (snake_length s')" by (simp add: segments_def)
  have c: "tick_count s' < 3" "direction s' = requested_direction s'" "running s' = r"
    using assms(4) by (simp_all add: tick_result_def Let_def)
  show ?thesis
  proof (cases "\<not> on_board ?p \<or> ?p \<in> set (trail s)")
    case True
    then have "\<not> r" "segments s' = segments s" "food s' = food s" using assms(4) by (auto simp: tick_result_def Let_def)
    then show ?thesis using inv len c assms(5,6) no_self_opposite by (simp add: snake_inv_def)
  next
    case False
    define ps where "ps = (if ?p = food s \<and> length (segments s) < 128 then segments s else butlast (segments s))"
    have s': "segments s' = ?p # ps" "if ?p = food s then on_board (food s') \<and> food s' \<notin> set (segments s') else food s' = food s"
      using assms(4) False by (auto simp: tick_result_def Let_def ps_def)
    have sub: "set (butlast (segments s)) \<subseteq> set (segments s)" by (auto dest: in_set_butlastD)
    have two: "2 \<le> length ps" using inv(1) by (auto simp: ps_def)
    then have "ps \<noteq> []" by auto
    then have ps: "distinct ps" "list_all on_board ps" "connected ps" "ps \<noteq> []" "2 \<le> length ps" "hd ps = hd (segments s)" "?p \<notin> set ps" "set ps \<subseteq> set (segments s)"
      using inv False sub two
      by (auto simp: ps_def trail_def distinct_butlast list_all_iff connected_butlast hd_butlast dest: in_set_butlastD split: if_splits)
    have p: "?p = advance (direction s') (ps ! 0)"
      using ps(4,6) assms(4) by (simp add: next_point_def hd_conv_nth tick_result_def Let_def)
    have "connected (?p # ps)" using connected_Cons [OF ps(3,4)] p ps(4) by (simp add: hd_conv_nth)
    moreover have "on_board (food s')" "food s' \<notin> set (segments s')" using s' inv ps(8) by (auto split: if_splits)
    ultimately show ?thesis using s' ps len c False p assms(5,6) no_self_opposite by (simp add: snake_inv_def)
  qed
qed

lemma tick_not_due:
  assumes "snake_inv s" "\<not> (running s \<and> tick_count s = 2)"
  shows "snake_tick s v = Some (running s, if running s then s\<lparr>tick_count := tick_count s + 1\<rparr> else s, v)"
    "snake_inv (s\<lparr>tick_count := tick_count s + 1\<rparr>) \<or> \<not> running s"
proof -
  have "unat (tick_count s) < 3" using assms(1) by (simp add: snake_inv_def word_less_nat_alt)
  moreover have "tick_count s \<noteq> 2 \<Longrightarrow> unat (tick_count s) \<noteq> 2" by (simp add: word_unat_eq_iff)
  ultimately have "running s \<Longrightarrow> unat (tick_count s + 1) < 3" using assms(2) by (auto simp: unat_word_ariths)
  then have lt: "running s \<Longrightarrow> tick_count s + 1 < 3" by (simp add: word_less_nat_alt)
  then show "snake_tick s v = Some (running s, if running s then s\<lparr>tick_count := tick_count s + 1\<rparr> else s, v)"
    by (simp add: snake_tick_def MOVE_INTERVAL_TICKS_def)
  show "snake_inv (s\<lparr>tick_count := tick_count s + 1\<rparr>) \<or> \<not> running s" using lt assms(1) by (auto simp: snake_inv_def)
qed

lemma start_returns:
  assumes "length (body s) = 128"
  shows "\<exists>s'. snake_start s v = Some (s', render s' v) \<and> snake_inv s' \<and> running s' \<and> tick_count s' = 0"
proof -
  define t where "t = s\<lparr>snake_length := 3, body := (body s)[0 := \<lparr>pt_x = 25, pt_y = 9\<rparr>, 1 := \<lparr>pt_x = 24, pt_y = 9\<rparr>, 2 := \<lparr>pt_x = 23, pt_y = 9\<rparr>],
      direction := Right, requested_direction := Right, tick_count := 0, running := True\<rparr>"
  have seg: "segments (t\<lparr>random_state := r, food := f\<rparr>) = [\<lparr>pt_x = 25, pt_y = 9\<rparr>, \<lparr>pt_x = 24, pt_y = 9\<rparr>, \<lparr>pt_x = 23, pt_y = 9\<rparr>]" for r f
  proof -
    have "[0..<unat (3 :: u32)] = [0, 1, 2]" by (simp add: upt_rec)
    then show ?thesis using assms by (simp add: segments_def t_def)
  qed
  obtain q r where sp: "spawn_food t = Some (t\<lparr>random_state := r, food := food_cell q\<rparr>)" "food_cell q \<notin> set (segments t)"
    using spawn_food_returns [of t] by (auto simp: t_def)
  let ?u = "t\<lparr>random_state := r, food := food_cell q\<rparr>"
  have "segments ?u = segments t" by (simp add: segments_def)
  then have new: "food_cell q \<notin> set [\<lparr>pt_x = 25, pt_y = 9\<rparr>, \<lparr>pt_x = 24, pt_y = 9\<rparr>, \<lparr>pt_x = 23, pt_y = 9\<rparr>]" using sp(2) seg by metis
  have f: "length (body ?u) = 128" "snake_length ?u = 3" "tick_count ?u = 0" "direction ?u = Right" "requested_direction ?u = Right" "running ?u" "food ?u = food_cell q"
    using assms by (simp_all add: t_def)
  have "snake_inv ?u"
    unfolding snake_inv_def seg f using new food_cell_on_board [of q] no_self_opposite by (auto simp: on_board_def advance_def intro!: exI [of _ Right])
  moreover have "snake_start s v = Some (?u, render ?u v)" unfolding snake_start_def Let_def using sp(1) by (simp add: t_def)
  ultimately show ?thesis by (auto simp: t_def)
qed

lemma handle_key_inv: "snake_inv s \<Longrightarrow> snake_inv (handle_key c s)"
  by (simp add: handle_key_def request_direction_def snake_inv_def)

lemma reach_inv: "snake_reach s \<Longrightarrow> snake_inv s"
proof (induction rule: snake_reach.induct)
  case (started s v s' v')
  then show ?case using start_returns [OF started(1), of v] by auto
next
  case (ticked s v r s' v')
  show ?case
  proof (cases "running s \<and> tick_count s = 2")
    case True
    then show ?thesis using tick_due [OF ticked.IH, of v] tick_keeps_inv [OF ticked.IH] ticked.hyps(2) by auto
  next
    case False
    then show ?thesis using tick_not_due [OF ticked.IH False] ticked.hyps(2) ticked.IH by (auto split: if_splits)
  qed
next
  case (stopped s)
  then show ?case by (auto simp: snake_stop_def snake_inv_def)
qed (rule handle_key_inv)

section \<open>Properties\<close>

text \<open>
  C39. From a start of the game on, after any sequence of ticks, keys and stops, the snake has between 3 and
  128 segments, all different, on the board and each next to the one before it; the food is on the board
  and not on the snake; the requested direction is never the opposite of the current one, and while the
  game runs the head is one step from its neck in the current direction, so that it cannot turn back into it.
\<close>

theorem snake_reach_inv:
  assumes "snake_reach s"
  shows "3 \<le> length (segments s) \<and> length (segments s) \<le> 128 \<and> length (body s) = 128 \<and> distinct (segments s) \<and>
    list_all on_board (segments s) \<and> connected (segments s) \<and> on_board (food s) \<and> food s \<notin> set (segments s) \<and>
    \<not> is_opposite (direction s) (requested_direction s) \<and>
    (running s \<longrightarrow> segments s ! 0 = advance (direction s) (segments s ! 1) \<and> advance (requested_direction s) (segments s ! 0) \<noteq> segments s ! 1)"
proof -
  have inv: "snake_inv s" using assms by (rule reach_inv)
  have "advance d (advance e p) \<noteq> p" if "\<not> is_opposite e d" for d e p
    using that by (cases d; cases e) (auto simp: advance_def is_opposite_def dest: arg_cong [of _ _ pt_x] arg_cong [of _ _ pt_y])
  then show ?thesis using inv by (auto simp: snake_inv_def segments_def)
qed

definition sample_game :: snake_state where
  "sample_game = \<lparr>body = replicate 128 \<lparr>pt_x = 0, pt_y = 0\<rparr>, food = \<lparr>pt_x = 0, pt_y = 0\<rparr>, snake_length = 0, tick_count = 0,
     random_state = 0x56E0BEEF, direction = Right, requested_direction = Right, running = False\<rparr>"

theorem snake_reach_inv_witness:
  "\<exists>s' v'. snake_start sample_game sample_screen = Some (s', v') \<and> 3 \<le> length (segments s') \<and> distinct (segments s')"
proof -
  have len: "length (body sample_game) = 128" by (simp add: sample_game_def)
  then obtain s' v' where s': "snake_start sample_game sample_screen = Some (s', v')" using start_returns by blast
  then show ?thesis using snake_reach_inv [OF snake_reach.started [OF len s']] by blast
qed

text \<open>
  C40. In every such state a tick returns, although the loop that places the food has no bound. If the game
  is running and the interval is over, the snake moves: the game ends exactly if the next point is off the
  board or on the part of the snake that stays (everything but the last segment, unless it eats);
  otherwise the next point is put in front, the last segment is dropped unless the snake has eaten and is
  shorter than 128, and food that was eaten reappears on the board outside the snake.
\<close>

theorem snake_tick_moves:
  assumes "snake_reach s"
  shows "\<exists>r s' v'. snake_tick s v = Some (r, s', v') \<and>
    (if running s \<and> tick_count s = 2 then tick_result s r s'
     else r = running s \<and> v' = v \<and> s' = (if running s then s\<lparr>tick_count := tick_count s + 1\<rparr> else s))"
proof -
  have inv: "snake_inv s" using assms by (rule reach_inv)
  show ?thesis
  proof (cases "running s \<and> tick_count s = 2")
    case True
    then show ?thesis using tick_due [OF inv] by simp blast
  next
    case False
    then show ?thesis unfolding if_not_P [OF False] tick_not_due(1) [OF inv False] by simp
  qed
qed

theorem snake_tick_moves_witness:
  "\<exists>s w s' v'. snake_start sample_game sample_screen = Some (s, w) \<and> snake_tick s w = Some (True, s', v') \<and> tick_count s' = 1"
proof -
  have len: "length (body sample_game) = 128" by (simp add: sample_game_def)
  then obtain s w where s: "snake_start sample_game sample_screen = Some (s, w)" "running s" "tick_count s = 0" using start_returns by blast
  then show ?thesis using snake_tick_moves [OF snake_reach.started [OF len s(1)], of w] s by auto
qed

end
