(* ===== verification/Shell.thy ===== *)
theory Shell
  imports Interrupts Snake Fat32 Process "HOL-Library.Monad_Syntax"
begin

text \<open>
  The command shell, \<^verbatim>\<open>kernel/shell.cpp\<close>, and the loop of \<^verbatim>\<open>kernel/kernel.cpp\<close> that feeds it. A command that
  does not return is \<open>None\<close>. The commands \<open>wait\<close> and \<open>sleep\<close> may suspend the shell's task in the middle of a
  command: the field \<open>blocked_in\<close> then says where, and \<open>resume_shell\<close> is the rest of the command, which the
  shell executes when it runs again. The entry points of the demonstration tasks, the functions that read
  and write the disk, the stale contents of the stack buffer of \<open>process::run\<close> and the stress test are arguments.
\<close>

section \<open>State\<close>

definition COMMAND_CAPACITY :: u32 where "COMMAND_CAPACITY = 80"

datatype shell_block = NotBlocked | InSleep | InWait

record ('d, 's) shell_state =
  command :: "u8 list"
  command_length :: u32
  arg_text :: "u8 list"
  game :: snake_state
  fat :: "'s fat_state"
  kern :: "('d, 's) kernel_state"
  blocked_in :: shell_block

record ('d, 's) shell_env =
  disk_read :: "'s reader"
  disk_write :: "'s writer"
  trampoline :: u64
  process_entry :: u64
  ring3_demo :: u64
  stack_overflow_demo :: u64
  counter_a :: u64
  counter_b :: u64
  stale_window :: "u8 list"
  stress_test :: "bool \<Rightarrow> ('d, 's) kernel_state \<Rightarrow> ('d, 's) kernel_state option"

definition say :: "(vga_state \<Rightarrow> vga_state) \<Rightarrow> ('d, 's) shell_state \<Rightarrow> ('d, 's) shell_state" where
  "say f s = s\<lparr>kern := on_screen f (kern s)\<rparr>"

definition on_mach :: "machine_state \<Rightarrow> ('d, 's) shell_state \<Rightarrow> ('d, 's) shell_state" where
  "on_mach m s = s\<lparr>kern := (kern s)\<lparr>mach := m\<rparr>\<rparr>"

text \<open>The bytes of an array up to the terminating zero.\<close>

definition c_string :: "u8 list \<Rightarrow> u8 list" where
  "c_string b = takeWhile ((\<noteq>) 0) b"

section \<open>Words and numbers\<close>

fun token_is_from :: "nat \<Rightarrow> u8 list \<Rightarrow> nat \<Rightarrow> u8 list \<Rightarrow> bool" where
  "token_is_from i full 0 word = (char_at word i = 0)"
| "token_is_from i full (Suc n) word =
     (if char_at word i = 0 \<or> char_at full i \<noteq> char_at word i then False else token_is_from (i + 1) full n word)"

definition token_is :: "u8 list \<Rightarrow> nat \<Rightarrow> string \<Rightarrow> bool" where
  "token_is full token_len word = token_is_from 0 full token_len (text_bytes word)"

text \<open>The digits are stored from the end of a buffer of 21 bytes.\<close>

function digits_of :: "u64 \<Rightarrow> u8 list \<Rightarrow> u8 list" where
  "digits_of v ds = (if v = 0 then ds else digits_of (v div 10) ((0x30 + ucast (v mod 10)) # ds))"
  by pat_completeness auto
termination
proof (relation "measure (\<lambda>(v, ds). unat v)")
  fix v :: u64
  fix ds :: "u8 list"
  assume "v \<noteq> 0"
  then show "((v div 10, (0x30 + ucast (v mod 10)) # ds), (v, ds)) \<in> measure (\<lambda>(v, ds). unat v)"
    by (simp add: unat_div unat_gt_0)
qed simp

declare digits_of.simps [simp del]

definition print_uint :: "u64 \<Rightarrow> vga_state \<Rightarrow> vga_state" where
  "print_uint v = vga_print (if v = 0 then [0x30] else digits_of v [])"

definition print_int :: "int \<Rightarrow> vga_state \<Rightarrow> vga_state" where
  "print_int v s = (if v < 0 then print_uint (word_of_int (- v)) (put_char 0x2D s) else print_uint (word_of_int v) s)"

definition prompt :: "vga_state \<Rightarrow> vga_state" where
  "prompt s = set_color White Black (print_text ''VenomOS> '' (set_color LightGreen Black s))"

fun state_name :: "task_State \<Rightarrow> string" where
  "state_name Dead = ''DEAD''"
| "state_name New = ''NEW''"
| "state_name Ready = ''READY''"
| "state_name Running = ''RUNNING''"
| "state_name Blocked = ''BLOCKED''"
| "state_name Sleeping = ''SLEEPING''"
| "state_name Zombie = ''ZOMBIE''"

fun parse_ticks :: "u8 list \<Rightarrow> u64 \<Rightarrow> u64" where
  "parse_ticks [] ticks = ticks"
| "parse_ticks (c # cs) ticks = (if 0x30 \<le> c \<and> c \<le> 0x39 then parse_ticks cs (ticks * 10 + ucast (c - 0x30)) else ticks)"

text \<open>A message in red, as the code prints failures.\<close>

definition print_failure :: "string \<Rightarrow> vga_state \<Rightarrow> vga_state" where
  "print_failure message s = set_color White Black (print_line message (set_color LightRed Black s))"

section \<open>Arguments of run\<close>

text \<open>
  The words are stored one after the other in \<open>arg_text\<close>, each with a terminating zero; \<open>run_argv\<close> are their
  positions. The first component says that there are too many or that they are too long.
\<close>

definition ARG_TEXT_SIZE :: nat where "ARG_TEXT_SIZE = 256"

fun copy_arg :: "u8 list \<Rightarrow> nat \<Rightarrow> u8 list \<Rightarrow> bool \<times> u8 list \<times> nat \<times> u8 list" where
  "copy_arg [] n buf = (False, [], n, buf)"
| "copy_arg (c # cs) n buf =
     (if c = 32 then (False, c # cs, n, buf)
      else if n + 1 \<ge> ARG_TEXT_SIZE then (True, c # cs, n, buf)
      else copy_arg cs (n + 1) (buf[n := c]))"

function split_args :: "u8 list \<Rightarrow> nat \<Rightarrow> nat \<Rightarrow> u8 list \<Rightarrow> bool \<times> nat list \<times> u8 list" where
  "split_args args argc n buf =
     (case dropWhile ((=) 32) args of
        [] \<Rightarrow> (False, [], buf)
      | c # cs \<Rightarrow>
          if argc \<ge> MAX_ARGS then (True, [], buf)
          else
            case copy_arg (c # cs) n buf of (too_long, rest, n', buf) \<Rightarrow>
              if too_long then (True, [n], buf)
              else case split_args rest (argc + 1) (n' + 1) (buf[n' := 0]) of (too_long, ps, buf) \<Rightarrow> (too_long, n # ps, buf))"
  by pat_completeness auto
termination
proof (relation "measure (\<lambda>(args, argc, n, buf). MAX_ARGS - argc)")
qed auto

declare split_args.simps [simp del]

definition argv_strings :: "nat list \<Rightarrow> u8 list \<Rightarrow> u8 list list" where
  "argv_strings ps buf = map (\<lambda>p. c_string (drop p buf)) ps"

section \<open>Commands\<close>

definition cmd_help :: "('d, 's) shell_state \<Rightarrow> ('d, 's) shell_state" where
  "cmd_help s =
     (let s = say (print_line ''Commands: help, clear, version, whoami, snake, meminfo, memtest,'') s;
          s = say (print_line ''          usermode, stackoverflow, tasks, ls, cat, write, rm, run, ps, wait, sleep,'') s
      in say (print_line ''          stress [full], fat ls [path], fat cat <path>'') s)"

definition cmd_meminfo :: "('d, 's) shell_state \<Rightarrow> ('d, 's) shell_state option" where
  "cmd_meminfo s =
     (let m = mach (kern s);
          s = say (print_text ''Physical frames : '') s;
          s = say (print_uint (used_frames m)) s;
          s = say (print_text '' used / '') s;
          s = say (print_uint (free_frames m)) s;
          s = say (print_text '' free / '') s;
          s = say (print_uint total_frames) s;
          s = say (print_line '' total (4KB each)'') s;
          s = say (print_text ''Kernel heap     : '') s
      in do {
        used_bytes \<leftarrow> bytes_in_use m;
        let s = say (print_text '' bytes used / '') (say (print_uint used_bytes) s);
        free_bytes \<leftarrow> bytes_free m;
        Some (say (print_line '' bytes free'') (say (print_uint free_bytes) s))
      })"

definition memtest_sizes :: "u64 list" where
  "memtest_sizes = [16, 200, 4100, 64, 1024]"

definition fill_bytes :: "u64 \<Rightarrow> u64 \<Rightarrow> u8 \<Rightarrow> machine_state \<Rightarrow> machine_state" where
  "fill_bytes ptr n pattern m =
     m\<lparr>phys_mem := fold (\<lambda>b mem. mem(ptr + of_nat b := pattern)) [0..<unat n] (phys_mem m)\<rparr>"

fun memtest_alloc :: "u64 list \<Rightarrow> u8 \<Rightarrow> machine_state \<Rightarrow> (bool \<times> u64 list \<times> machine_state) option" where
  "memtest_alloc [] i m = Some (True, [], m)"
| "memtest_alloc (n # ns) i m =
     do {
       (block, m) \<leftarrow> kmalloc n m;
       if block = 0 then Some (False, [], m)
       else do {
         let pattern = 0xA0 + i;
         let m = fill_bytes block n pattern m;
         if list_all (\<lambda>b. phys_mem m (block + of_nat b) = pattern) [0..<unat n] then do {
           (ok, blocks, m) \<leftarrow> memtest_alloc ns (i + 1) m;
           Some (ok, block # blocks, m)
         }
         else Some (False, [block], m)
       }
     }"

definition report_invalid_free :: "string \<Rightarrow> vga_state \<Rightarrow> vga_state" where
  "report_invalid_free reason s =
     (let s = print_colored (text_bytes ''heap: invalid kfree() rejected - '') LightRed Black s;
          s = print_colored (text_bytes reason) LightRed Black s
      in print_colored [10] LightRed Black s)"

fun memtest_free :: "u64 list \<Rightarrow> ('d, 's) shell_state \<Rightarrow> ('d, 's) shell_state option" where
  "memtest_free [] s = Some s"
| "memtest_free (block # blocks) s =
     do {
       (outcome, m) \<leftarrow> kfree block (mach (kern s));
       let s = on_mach m s;
       memtest_free blocks (case outcome of Rejected reason \<Rightarrow> say (report_invalid_free reason) s | _ \<Rightarrow> s)
     }"

definition run_memtest :: "('d, 's) shell_state \<Rightarrow> (bool \<times> ('d, 's) shell_state) option" where
  "run_memtest s =
     do {
       (ok, blocks, m) \<leftarrow> memtest_alloc memtest_sizes 0 (mach (kern s));
       s \<leftarrow> memtest_free blocks (on_mach m s);
       Some (ok, s)
     }"

definition cmd_memtest :: "('d, 's) shell_state \<Rightarrow> ('d, 's) shell_state option" where
  "cmd_memtest s =
     do {
       (ok, s) \<leftarrow> run_memtest (say (print_line ''Running kmalloc/kfree test...'') s);
       let s = (if ok then say (print_line ''PASS: all blocks allocated, verified, and freed correctly.'') (say (set_color LightGreen Black) s)
                else say (print_line ''FAIL: memory corruption or allocation failure detected.'') (say (set_color LightRed Black) s));
       Some (say (set_color White Black) s)
     }"

definition create_task :: "('d, 's) shell_env \<Rightarrow> u64 \<Rightarrow> string \<Rightarrow> ('d, 's) shell_state \<Rightarrow> (bool \<times> ('d, 's) shell_state) option" where
  "create_task env entry name s =
     do {
       (slot, m) \<leftarrow> create (trampoline env) entry name (mach (kern s));
       Some (slot \<noteq> None, on_mach m s)
     }"

definition cmd_usermode :: "('d, 's) shell_env \<Rightarrow> ('d, 's) shell_state \<Rightarrow> ('d, 's) shell_state option" where
  "cmd_usermode env s =
     do {
       let s = say (print_line ''Spawning the ring 3 demo as its own task. The shell keeps running -'') s;
       let s = say (print_line ''watch rows 20-21 disappear if 'tasks' is still going, and the ring 3'') s;
       let s = say (print_line ''output appear below, then control returns here when it finishes.'') s;
       (ok, s) \<leftarrow> create_task env (ring3_demo env) ''ring3-demo'' s;
       Some (if ok then s else say (print_failure ''Failed to create the ring 3 demo task (out of task slots or memory).'') s)
     }"

definition cmd_stackoverflow :: "('d, 's) shell_env \<Rightarrow> ('d, 's) shell_state \<Rightarrow> ('d, 's) shell_state option" where
  "cmd_stackoverflow env s =
     do {
       let s = say (print_line ''Spawning a ring 3 task that deliberately overflows its own stack.'') s;
       (ok, s) \<leftarrow> create_task env (stack_overflow_demo env) ''stackoverflow-demo'' s;
       Some (if ok then s else say (print_failure ''Failed to create the stack-overflow demo task (out of task slots or memory).'') s)
     }"

definition cmd_tasks :: "('d, 's) shell_env \<Rightarrow> ('d, 's) shell_state \<Rightarrow> ('d, 's) shell_state option" where
  "cmd_tasks env s =
     do {
       let s = say (print_line ''Spawning two counter tasks (rows 20 and 21). The shell stays fully'') s;
       let s = say (print_line ''usable while they run - this is real preemptive multitasking, driven'') s;
       let s = say (print_line ''by the timer interrupt, not the shell politely waiting for them.'') s;
       (a_ok, s) \<leftarrow> create_task env (counter_a env) ''counter-a'' s;
       (b_ok, s) \<leftarrow> create_task env (counter_b env) ''counter-b'' s;
       Some (if \<not> a_ok \<or> \<not> b_ok then say (print_failure ''Failed to create one or both demo tasks (out of task slots or memory).'') s else s)
     }"

text \<open>The two demonstration tasks; the delay loop between two numbers has no effect on the state.\<close>

definition demo_task_counter :: "u64 \<Rightarrow> u8 \<Rightarrow> Color \<Rightarrow> vga_state \<Rightarrow> vga_state" where
  "demo_task_counter row letter color s =
     (let s = fold (\<lambda>i s.
                let s = put_char_at row 0 letter color Black s;
                    s = put_char_at row 2 (0x30 + of_nat (i mod 10)) color Black s
                in put_char_at row 4 (0x30 + of_nat (i div 10 mod 10)) color Black s) [0..<100] s
      in fold (\<lambda>(col, c). put_char_at row col c DarkGrey Black)
           [(6, 0x28), (7, 0x64), (8, 0x6F), (9, 0x6E), (10, 0x65), (11, 0x29)] s)"

definition demo_task_counter_a :: "vga_state \<Rightarrow> vga_state" where
  "demo_task_counter_a = demo_task_counter 20 0x41 LightRed"

definition demo_task_counter_b :: "vga_state \<Rightarrow> vga_state" where
  "demo_task_counter_b = demo_task_counter 21 0x42 LightBlue"

section \<open>Commands on files\<close>

text \<open>Both file systems use the one disk.\<close>

definition on_fsys :: "'s fs_state \<Rightarrow> ('d, 's) shell_state \<Rightarrow> ('d, 's) shell_state" where
  "on_fsys f s = s\<lparr>kern := (kern s)\<lparr>fsys := f\<rparr>\<rparr>"

definition fat_now :: "('d, 's) shell_state \<Rightarrow> 's fat_state" where
  "fat_now s = (fat s)\<lparr>fat_dev := disk (fsys (kern s))\<rparr>"

definition on_fat :: "'s fat_state \<Rightarrow> ('d, 's) shell_state \<Rightarrow> ('d, 's) shell_state" where
  "on_fat f s = on_fsys ((fsys (kern s))\<lparr>disk := fat_dev f\<rparr>) (s\<lparr>fat := f\<rparr>)"

definition print_fat_entry :: "DirEntryInfo \<Rightarrow> vga_state \<Rightarrow> vga_state" where
  "print_fat_entry e s =
     (let s = vga_print (info_name e) s;
          s = (if info_is_dir e then print_text ''/'' s else print_text '' bytes'' (print_uint (ucast (info_size e)) (print_text ''  '' s)))
      in put_char 10 s)"

definition cmd_fat :: "u8 list \<Rightarrow> ('d, 's) shell_state \<Rightarrow> ('d, 's) shell_state" where
  "cmd_fat args s =
     (if \<not> mounted (fat s) then say (print_line ''No FAT32 volume is mounted (the disk image has none).'') s
      else if take 2 args = text_bytes ''ls'' \<and> (char_at args 2 = 0 \<or> char_at args 2 = 32) then
        let path = (if char_at args 2 = 32 then drop 3 args else text_bytes ''/'') in
        case fat_list path (fat_now s) of (ok, infos, f) \<Rightarrow>
          let s = say (fold print_fat_entry infos) (on_fat f s) in
          if ok then s else say (vga_print (text_bytes ''Not a directory or unreadable: '' @ path @ [10])) s
      else if take 4 args = text_bytes ''cat '' \<and> char_at args 4 \<noteq> 0 then
        case fat_read (drop 4 args) 1024 (fat_now s) of (ok, bs, f) \<Rightarrow>
          let s = on_fat f s in
          if ok then
            let s = say (vga_print (c_string bs)) s in
            if bs \<noteq> [] \<and> last bs \<noteq> 10 then say (put_char 10) s else s
          else say (vga_print (text_bytes ''Cannot read: '' @ drop 4 args @ [10])) s
      else say (print_line ''Usage: fat ls [path] | fat cat <path>   (8.3 names, read-only)'') s)"

definition print_file_entry :: "FileEntry \<Rightarrow> vga_state \<Rightarrow> vga_state" where
  "print_file_entry e s =
     (let s = vga_print (c_string (fe_name e)) s;
          s = print_uint (ucast (size_bytes e)) (print_text ''  ('' s)
      in print_line '' bytes)'' s)"

definition listed_files :: "'s fs_state \<Rightarrow> FileEntry list" where
  "listed_files f =
     List.map_filter (\<lambda>i. case entry_at (int i) f of Some e \<Rightarrow> if used e \<noteq> 0 then Some e else None | None \<Rightarrow> None) [0..<MAX_FILES]"

definition cmd_ls :: "('d, 's) shell_state \<Rightarrow> ('d, 's) shell_state" where
  "cmd_ls s =
     (let files = listed_files (fsys (kern s)); s = say (fold print_file_entry files) s
      in if files = [] then say (print_line ''(no files)'') s else s)"

definition cmd_cat :: "('d, 's) shell_env \<Rightarrow> u8 list \<Rightarrow> ('d, 's) shell_state \<Rightarrow> ('d, 's) shell_state" where
  "cmd_cat env args s =
     (if args = [] then say (print_line ''Usage: cat <filename>'') s
      else
        case fs_read (disk_read env) args 4095 (fsys (kern s)) of (ok, bs, f) \<Rightarrow>
          let s = on_fsys f s in
          if ok then say (put_char 10) (say (vga_print (c_string bs)) s)
          else say (vga_print (text_bytes ''File not found: '' @ args @ [10])) s)"

definition cmd_write :: "('d, 's) shell_env \<Rightarrow> u8 list \<Rightarrow> ('d, 's) shell_state \<Rightarrow> ('d, 's) shell_state" where
  "cmd_write env args s =
     (let filename_len = length (takeWhile ((\<noteq>) 32) args) in
      if filename_len = 0 then say (print_line ''Usage: write <filename> <text>'') s
      else
        let filename = take (min filename_len (MAX_FILENAME - 1)) args;
            text = drop (filename_len + 1) args in
        case fs_write (disk_write env) filename text (fsys (kern s)) of (ok, f) \<Rightarrow>
          let s = on_fsys f s in
          if ok then
            let s = say (print_text ''Wrote '') s;
                s = say (print_uint (of_nat (length text))) s
            in say (vga_print (text_bytes '' bytes to '' @ filename @ [10])) s
          else say (print_line ''Failed to write file (file table full or not enough contiguous disk space).'') s)"

definition cmd_rm :: "('d, 's) shell_env \<Rightarrow> u8 list \<Rightarrow> ('d, 's) shell_state \<Rightarrow> ('d, 's) shell_state" where
  "cmd_rm env args s =
     (if args = [] then say (print_line ''Usage: rm <filename>'') s
      else
        case fs_remove (disk_write env) args (fsys (kern s)) of (ok, f) \<Rightarrow>
          let s = on_fsys f s in
          if ok then say (vga_print (text_bytes ''Removed '' @ args @ [10])) s
          else say (vga_print (text_bytes ''File not found: '' @ args @ [10])) s)"

section \<open>Commands on processes\<close>

definition run_envp :: "u8 list list" where
  "run_envp = [text_bytes ''OS=VenomOS'', text_bytes ''SHELL=venomsh'']"

definition cmd_run :: "('d, 's) shell_env \<Rightarrow> u8 list \<Rightarrow> ('d, 's) shell_state \<Rightarrow> ('d, 's) shell_state option" where
  "cmd_run env args s =
     (if args = [] then Some (say (print_line ''Usage: run <filename> [args...]'') s)
      else
        case split_args args 0 0 (arg_text s) of (too_long, ps, buf) \<Rightarrow>
          let s = s\<lparr>arg_text := buf\<rparr> in
          if too_long \<or> ps = [] then Some (say (print_line ''Too many or too long arguments.'') s)
          else
            do {
              let argv = argv_strings ps buf;
              let s = say (vga_print (text_bytes ''Loading '' @ hd argv)) s;
              let s = say (print_line '' from VenomFS into its own isolated address space...'') s;
              (r, f, m) \<leftarrow> run (disk_read env) (trampoline env) (process_entry env) (stale_window env) (hd argv) argv run_envp
                            (fsys (kern s)) (mach (kern s));
              let s = on_mach m (on_fsys f s);
              Some (case r of
                  Inl message \<Rightarrow> say (print_failure message) s
                | Inr slot \<Rightarrow>
                    let s = say (set_color LightGreen Black) s;
                        s = say (print_line ''Process queued. The shell keeps running - output appears below'') s;
                        s = say (print_line ''when the scheduler gives it a turn.'') s
                    in say (set_color White Black) s)
            })"

text \<open>
  The name of a process is a pointer to \<open>arg_text\<close>, where \<open>cmd_run\<close> stored it: what is printed is what
  \<open>arg_text\<close> holds now. The names of all other tasks are literals.
\<close>

definition shown_name :: "('d, 's) shell_env \<Rightarrow> ('d, 's) shell_state \<Rightarrow> Task \<Rightarrow> u8 list" where
  "shown_name env s t = (if t_entry t = process_entry env then c_string (arg_text s) else text_bytes (t_name t))"

definition print_task :: "('d, 's) shell_env \<Rightarrow> ('d, 's) shell_state \<Rightarrow> Task \<Rightarrow> vga_state \<Rightarrow> vga_state" where
  "print_task env s t v =
     (let v = print_text ''    '' (print_uint (t_pid t) v);
          v = print_text ''    '' (print_uint (t_parent_pid t) v);
          v = print_text ''    '' (print_text (state_name (t_state t)) v);
          v = vga_print (shown_name env s t) v;
          v = (if t_state t = Zombie then print_text '')'' (print_int (t_exit_code t) (print_text '' (exit code '' v)) else v)
      in put_char 10 v)"

definition cmd_ps :: "('d, 's) shell_env \<Rightarrow> ('d, 's) shell_state \<Rightarrow> ('d, 's) shell_state" where
  "cmd_ps env s =
     (let s = say (print_line ''PID  PPID STATE     NAME'') s;
          live = filter (\<lambda>i. t_state (tasks (mach (kern s)) i) \<noteq> Dead) [0..<MAX_TASKS]
      in say (fold (\<lambda>i. print_task env s (tasks (mach (kern s)) i)) live) s)"

text \<open>What the shell does with the answer of \<open>wait_for_child\<close>; \<open>NoZombie\<close> means that it was suspended.\<close>

definition wait_answer :: "wait_result \<Rightarrow> ('d, 's) shell_state \<Rightarrow> ('d, 's) shell_state" where
  "wait_answer r s =
     (case r of
        Reaped child_pid exit_code \<Rightarrow>
          let s = say (print_text ''PID '') (say (set_color LightGreen Black) s);
              s = say (print_uint child_pid) s;
              s = say (print_text '' exited with code '') s;
              s = say (print_int exit_code) s;
              s = say (put_char 10) s
          in say (set_color White Black) s
      | NoChild \<Rightarrow> say (print_line ''No child processes to wait for (nothing spawned via 'run' or 'usermode' yet).'') s
      | NoZombie \<Rightarrow> s\<lparr>blocked_in := InWait\<rparr>)"

definition cmd_wait :: "('d, 's) shell_state \<Rightarrow> ('d, 's) shell_state option" where
  "cmd_wait s =
     do {
       let s = say (print_line ''Waiting for any child of the shell to exit (blocks until one does)...'') s;
       (r, m) \<leftarrow> wait_for_child (mach (kern s));
       Some (wait_answer r (on_mach m s))
     }"

definition cmd_stress :: "('d, 's) shell_env \<Rightarrow> u8 list \<Rightarrow> ('d, 's) shell_state \<Rightarrow> ('d, 's) shell_state option" where
  "cmd_stress env args s =
     (let full = (args = text_bytes ''full'') in
      if args \<noteq> [] \<and> \<not> full then
        Some (say (print_line ''Usage: stress [full]   (quick run by default; 'full' runs many more rounds)'') s)
      else
        do {
          let s = say (print_line ''Running the scheduler stress test. The shell is busy until it finishes;'') s;
          let s = say (print_line ''run it with no other tasks or processes active.'') s;
          k \<leftarrow> stress_test env full (kern s);
          Some (s\<lparr>kern := k\<rparr>)
        })"

definition cmd_sleep :: "u8 list \<Rightarrow> ('d, 's) shell_state \<Rightarrow> ('d, 's) shell_state option" where
  "cmd_sleep args s =
     (if args = [] then Some (say (print_line ''Usage: sleep <ticks> (about 18 ticks per second)'') s)
      else
        do {
          let ticks = parse_ticks args 0;
          let s = say (print_line ''Shell task sleeping - the prompt will pause, then resume on its own...'') s;
          m \<leftarrow> sleep_current ticks (mach (kern s));
          Some ((on_mach m s)\<lparr>blocked_in := InSleep\<rparr>)
        })"

section \<open>Execution\<close>

definition cmd_snake :: "('d, 's) shell_state \<Rightarrow> ('d, 's) shell_state option" where
  "cmd_snake s = do { (g, v) \<leftarrow> snake_start (game s) (scr (kern s)); Some (say (\<lambda>_. v) (s\<lparr>game := g\<rparr>)) }"

text \<open>The commands, by the first word of the line: \<open>is\<close> tells whether it is the given one.\<close>

definition choose_command ::
  "('d, 's) shell_env \<Rightarrow> (string \<Rightarrow> bool) \<Rightarrow> u8 list \<Rightarrow> u8 list \<Rightarrow> ('d, 's) shell_state \<Rightarrow> ('d, 's) shell_state option" where
  "choose_command env is line args s =
     (if is ''help'' then Some (cmd_help s)
      else if is ''clear'' then Some (say (clear_screen LightGrey Black) s)
      else if is ''version'' then Some (say (print_line ''VenomOS version 0.6.0 (x86_64)'') s)
      else if is ''whoami'' then Some (say (vga_print (text_bytes ''desktop-venomos'' @ [0x5C] @ text_bytes ''ghost user'' @ [10])) s)
      else if is ''snake'' then cmd_snake s
      else if is ''meminfo'' then cmd_meminfo s
      else if is ''memtest'' then cmd_memtest s
      else if is ''usermode'' then cmd_usermode env s
      else if is ''stackoverflow'' then cmd_stackoverflow env s
      else if is ''tasks'' then cmd_tasks env s
      else if is ''fat'' then Some (cmd_fat args s)
      else if is ''ls'' then Some (cmd_ls s)
      else if is ''cat'' then Some (cmd_cat env args s)
      else if is ''write'' then Some (cmd_write env args s)
      else if is ''rm'' then Some (cmd_rm env args s)
      else if is ''run'' then cmd_run env args s
      else if is ''ps'' then Some (cmd_ps env s)
      else if is ''wait'' then cmd_wait s
      else if is ''stress'' then cmd_stress env args s
      else if is ''sleep'' then cmd_sleep args s
      else Some (say (vga_print (text_bytes ''Unknown command: '' @ line @ [10])) s))"

definition execute :: "('d, 's) shell_env \<Rightarrow> ('d, 's) shell_state \<Rightarrow> ('d, 's) shell_state option" where
  "execute env s =
     (let s = s\<lparr>command := (command s)[unat (command_length s) := 0]\<rparr> in
      if command_length s = 0 then Some s
      else
        let line = c_string (command s);
            token_len = length (takeWhile ((\<noteq>) 32) line)
        in choose_command env (token_is line token_len) line (drop (token_len + 1) line) s)"

definition shell_init :: "('d, 's) shell_state \<Rightarrow> ('d, 's) shell_state" where
  "shell_init s = say prompt (s\<lparr>command_length := 0\<rparr>)"

text \<open>The end of a command line, unless the command is suspended.\<close>

definition finish_command :: "('d, 's) shell_state \<Rightarrow> ('d, 's) shell_state" where
  "finish_command s = (if blocked_in s = NotBlocked then say prompt (s\<lparr>command_length := 0\<rparr>) else s)"

definition resume_shell :: "('d, 's) shell_state \<Rightarrow> ('d, 's) shell_state option" where
  "resume_shell s =
     (case blocked_in s of
        NotBlocked \<Rightarrow> Some s
      | InSleep \<Rightarrow> Some (finish_command (say (print_line ''Awake.'') (s\<lparr>blocked_in := NotBlocked\<rparr>)))
      | InWait \<Rightarrow>
          do {
            (r, m) \<leftarrow> wait_round (mach (kern s));
            Some (finish_command (wait_answer r ((on_mach m s)\<lparr>blocked_in := NotBlocked\<rparr>)))
          })"

definition handle_char :: "('d, 's) shell_env \<Rightarrow> u8 \<Rightarrow> ('d, 's) shell_state \<Rightarrow> ('d, 's) shell_state option" where
  "handle_char env c s =
     (if snake_active (game s) then
        if c = 27 then
          let s = s\<lparr>game := snake_stop (game s)\<rparr>;
              s = say (vga_print (10 # text_bytes ''Game ended.'' @ [10])) s
          in Some (say prompt s)
        else Some (s\<lparr>game := handle_key c (game s)\<rparr>)
      else if c = 10 then map_option finish_command (execute env (say (put_char 10) s))
      else if c = 8 then
        if command_length s \<noteq> 0 then Some (say (put_char 8) (s\<lparr>command_length := command_length s - 1\<rparr>)) else Some s
      else if 32 \<le> c \<and> c \<le> 126 \<and> command_length s + 1 < COMMAND_CAPACITY then
        Some (say (put_char c) (s\<lparr>command := (command s)[unat (command_length s) := c], command_length := command_length s + 1\<rparr>))
      else Some s)"

definition shell_tick :: "('d, 's) shell_state \<Rightarrow> ('d, 's) shell_state option" where
  "shell_tick s =
     (if \<not> snake_active (game s) then Some s
      else
        do {
          (on, g, v) \<leftarrow> snake_tick (game s) (scr (kern s));
          let s = say (\<lambda>_. v) (s\<lparr>game := g\<rparr>);
          Some (if on then s else say prompt (say (print_line ''Game over.'') (say (set_color LightRed Black) s)))
        })"

section \<open>The main loop\<close>

text \<open>
  The characters that wait in the keyboard queue are handled in turn. The loop pauses when a command suspends the
  shell's task.
\<close>

partial_function (option) drain_keys :: "('d, 's) shell_env \<Rightarrow> ('d, 's) shell_state \<Rightarrow> ('d, 's) shell_state option" where
  "drain_keys env s =
     (if available (kbd (kern s)) \<and> blocked_in s = NotBlocked then
        case read_char (kbd (kern s)) of (c, q) \<Rightarrow>
          case handle_char env c (s\<lparr>kern := (kern s)\<lparr>kbd := q\<rparr>\<rparr>) of
            None \<Rightarrow> None
          | Some s \<Rightarrow> drain_keys env s
      else Some s)"

definition main_loop_round :: "'d port_io \<Rightarrow> ('d, 's) shell_env \<Rightarrow> ('d, 's) shell_state \<Rightarrow> ('d, 's) shell_state option" where
  "main_loop_round io env s =
     do {
       s \<leftarrow> shell_tick (s\<lparr>kern := (kern s)\<lparr>kbd := keyboard_poll io (kbd (kern s))\<rparr>\<rparr>);
       drain_keys env s
     }"

end
