(* ===== verification/Shell_Correct.thy ===== *)
theory Shell_Correct
  imports Shell Interrupts_Correct Snake_Correct
begin

text \<open>
  The shell executes the line that was typed: the editor refines a list of characters, a command is chosen
  by the first word of the line, the arguments of \<open>run\<close> are its words, and numbers are printed in decimal.
\<close>

section \<open>Numbers\<close>

fun decimal :: "nat \<Rightarrow> u8 list" where
  "decimal n = (if n < 10 then [0x30 + of_nat n] else decimal (n div 10) @ [0x30 + of_nat (n mod 10)])"

declare decimal.simps [simp del]

lemma digit_nat: "ucast (v mod 10) = (of_nat (unat v mod 10) :: u8)" for v :: u64
proof -
  have "ucast (v mod 10) = (of_nat (unat (v mod 10)) :: u8)" by simp
  then show ?thesis by (simp only: unat_mod) simp
qed

lemma digits_of_decimal: "v \<noteq> 0 \<Longrightarrow> digits_of v ds = decimal (unat v) @ ds"
proof (induction v ds rule: digits_of.induct)
  case (1 v ds)
  have d: "unat (v div 10) = unat v div 10" by (simp add: unat_div)
  show ?case
  proof (cases "v div 10 = 0")
    case True
    then have "unat v < 10" using d by simp
    then show ?thesis using 1(2) True by (simp add: digits_of.simps [of v] digits_of.simps [of 0] decimal.simps [of "unat v"] digit_nat)
  next
    case False
    then have "\<not> unat v < 10" using d by (metis div_less unat_eq_0)
    then show ?thesis using 1(1) [OF 1(2) False] 1(2) by (simp add: digits_of.simps [of v] decimal.simps [of "unat v"] digit_nat d)
  qed
qed

lemma decimal_length: "n < 10 ^ k \<Longrightarrow> 0 < k \<Longrightarrow> length (decimal n) \<le> k"
proof (induction n arbitrary: k rule: decimal.induct)
  case (1 n)
  show ?case
  proof (cases "n < 10")
    case False
    obtain j where k: "k = Suc j" using 1(3) by (cases k) auto
    have "0 < j" using False 1(2) k by (cases j) auto
    have "n div 10 < 10 ^ j" using 1(2) k by (simp add: less_mult_imp_div_less mult.commute)
    then show ?thesis using 1(1) [OF False, of j] k \<open>0 < j\<close> False by (simp add: decimal.simps [of n])
  qed (use 1(3) in \<open>simp add: decimal.simps [of n]\<close>)
qed

section \<open>The arguments of run\<close>

fun splits :: "u8 list \<Rightarrow> u8 list list" where
  "splits [] = [[]]"
| "splits (c # cs) = (if c = 32 then [] # splits cs else (c # hd (splits cs)) # tl (splits cs))"

text \<open>The words of a line: the non-empty pieces between spaces.\<close>

definition words :: "u8 list \<Rightarrow> u8 list list" where
  "words l = filter (\<lambda>w. w \<noteq> []) (splits l)"

lemma splits_nonempty: "splits l \<noteq> []"
  by (cases l) auto

lemma words_space: "words (32 # l) = words l"
  by (simp add: words_def)

lemma words_dropWhile: "words (dropWhile ((=) 32) l) = words l"
  by (induction l) (auto simp: words_space)

lemma splits_word: "32 \<notin> set w \<Longrightarrow> splits (w @ l) = (w @ hd (splits l)) # tl (splits l)"
  using splits_nonempty [of l] by (induction w) auto

lemma words_word:
  assumes "32 \<notin> set w" "w \<noteq> []" "l = [] \<or> hd l = 32"
  shows "words (w @ l) = w # words l"
  using assms splits_word [of w l] by (cases l) (auto simp: words_def)

lemma copy_arg_word:
  assumes "32 \<notin> set w" "l = [] \<or> hd l = 32" "n + length w < 256" "length buf = 256"
  shows "copy_arg (w @ l) n buf = (False, l, n + length w, take n buf @ w @ drop (n + length w) buf)"
  using assms
proof (induction w arbitrary: n buf)
  case Nil
  then show ?case by (cases l) auto
next
  case (Cons c w)
  have "take (Suc n) (buf[n := c]) = take n buf @ [c]" using Cons.prems by (simp add: take_Suc_conv_app_nth)
  then show ?case using Cons.IH [of "Suc n" "buf[n := c]"] Cons.prems by (simp add: ARG_TEXT_SIZE_def)
qed

lemma c_string_at:
  assumes "take (Suc (n + length w)) buf = xs @ w @ [0]" "length xs = n" "0 \<notin> set w"
  shows "c_string (drop n buf) = w"
proof -
  have "buf = xs @ w @ [0] @ drop (Suc (n + length w)) buf" using append_take_drop_id [of "Suc (n + length w)" buf] assms(1) by simp
  then have "drop n buf = w @ 0 # drop (Suc (n + length w)) buf" using assms(2)
    by (metis append_Cons append_Nil append_eq_conv_conj)
  moreover have "takeWhile ((\<noteq>) 0) w = w" using assms(3) by (auto simp: takeWhile_eq_all_conv)
  ultimately show ?thesis using assms(3) by (simp add: c_string_def takeWhile_append)
qed

lemma line_head:
  assumes "dropWhile ((=) 32) l = c # cs"
  obtains w r where "c # cs = w @ r" "32 \<notin> set w" "w \<noteq> []" "r = [] \<or> hd r = 32" "words l = w # words r"
proof
  let ?w = "takeWhile ((\<noteq>) 32) (c # cs)"
  let ?r = "dropWhile ((\<noteq>) 32) (c # cs)"
  have c: "c \<noteq> 32" using assms by (metis dropWhile_eq_Cons_conv)
  show eq: "c # cs = ?w @ ?r" by simp
  show w: "32 \<notin> set ?w" using set_takeWhileD by fastforce
  show n: "?w \<noteq> []" using c by simp
  show r: "?r = [] \<or> hd ?r = 32" using hd_dropWhile [of "(\<noteq>) 32" "c # cs"] by auto
  show "words l = ?w # words ?r" using words_word [OF w n r] words_dropWhile [of l] assms eq by simp
qed

lemma split_args_words:
  assumes "0 \<notin> set args" "n + 2 * length args < 255" "length buf = 256" "argc \<le> 16"
  shows "\<exists>ps buf'. split_args args argc n buf = (argc + length (words args) > 16, ps, buf') \<and> take n buf' = take n buf \<and> length buf' = 256 \<and>
    (argc + length (words args) \<le> 16 \<longrightarrow> argv_strings ps buf' = words args)"
  using assms
proof (induction "length args" arbitrary: args argc n buf rule: less_induct)
  case less
  show ?case
  proof (cases "dropWhile ((=) 32) args")
    case Nil
    have "words args = words []" using words_dropWhile [of args, unfolded Nil] by (rule sym)
    then have "words args = []" by (simp add: words_def)
    moreover have "split_args args argc n buf = (False, [], buf)" unfolding split_args.simps [of args] Nil by simp
    ultimately show ?thesis using less.prems by (simp add: argv_strings_def)
  next
    case (Cons c cs)
    then obtain w r where wr: "c # cs = w @ r" "32 \<notin> set w" "w \<noteq> []" "r = [] \<or> hd r = 32" "words args = w # words r" by (rule line_head)
    have sub: "set (c # cs) \<subseteq> set args" "length (c # cs) \<le> length args"
      using Cons set_dropWhileD [of _ "(=) 32" args] length_dropWhile_le [of "(=) 32" args] by (metis subsetI, simp)
    have len: "length w + length r \<le> length args" using arg_cong [OF wr(1), of length] sub(2) by simp
    show ?thesis
    proof (cases "argc = 16")
      case True
      then show ?thesis using Cons wr(5) less.prems by (simp add: split_args.simps [of args] MAX_ARGS_def)
    next
      case False
      define m where "m = n + length w"
      define b where "b = (take n buf @ w @ drop m buf)[m := 0]"
      have m: "m + 1 + 2 * length r < 255" using len wr(3) less.prems(2) by (cases w) (simp_all add: m_def)
      have c: "copy_arg (c # cs) n buf = (False, r, m, take n buf @ w @ drop m buf)"
        unfolding wr(1) m_def using m less.prems(3) by (intro copy_arg_word wr(2,4)) (simp_all add: m_def)
      have lb: "length b = 256" using less.prems(3) m by (simp add: b_def m_def)
      have tb: "take (Suc m) b = take n buf @ w @ [0]"
        using less.prems(3) m by (simp add: b_def m_def take_Suc_conv_app_nth nth_append)
      have zero: "0 \<notin> set w" "0 \<notin> set r" using sub(1) wr(1) less.prems(1) by auto
      have "length r < length args" using len wr(3) by (cases w) auto
      then obtain ps buf' where ih: "split_args r (argc + 1) (m + 1) b = (argc + 1 + length (words r) > 16, ps, buf')"
          "take (m + 1) buf' = take (m + 1) b" "length buf' = 256" "argc + 1 + length (words r) \<le> 16 \<longrightarrow> argv_strings ps buf' = words r"
        using less.hyps [of r "m + 1" b "argc + 1"] zero(2) m lb less.prems(4) False by auto
      have head: "c_string (drop n buf') = w"
        using ih(2) tb less.prems(3) zero(1) m by (intro c_string_at [of n w buf' "take n buf"]) (simp_all add: m_def)
      have "split_args args argc n buf = (argc + 1 + length (words r) > 16, n # ps, buf')"
        unfolding split_args.simps [of args] Cons list.case c prod.case b_def [symmetric] ih(1)
        using False less.prems(4) by (simp add: MAX_ARGS_def)
      moreover have "take n buf' = take n buf"
        using arg_cong [OF ih(2), of "take n"] arg_cong [OF tb, of "take n"] less.prems(3) m by (simp add: min_def m_def)
      ultimately show ?thesis using ih(3,4) head wr(5) by (simp add: argv_strings_def)
    qed
  qed
qed

section \<open>The line\<close>

definition line :: "('d, 's) shell_state \<Rightarrow> u8 list" where
  "line s = take (unat (command_length s)) (command s)"

definition printable :: "u8 \<Rightarrow> bool" where
  "printable c \<longleftrightarrow> 32 \<le> c \<and> c \<le> 126"

definition shell_ok :: "('d, 's) shell_state \<Rightarrow> bool" where
  "shell_ok s \<longleftrightarrow> length (command s) = 80 \<and> unat (command_length s) < 80 \<and> list_all printable (line s)"

text \<open>What a key does to the line: a backspace removes its last character, a printable character is appended while there is room.\<close>

definition edit :: "u8 \<Rightarrow> u8 list \<Rightarrow> u8 list" where
  "edit c l = (if c = 8 then butlast l else if printable c \<and> length l < 79 then l @ [c] else l)"

fun feed :: "('d, 's) shell_env \<Rightarrow> u8 list \<Rightarrow> ('d, 's) shell_state \<Rightarrow> ('d, 's) shell_state option" where
  "feed env [] s = Some s"
| "feed env (c # cs) s = Option.bind (handle_char env c s) (feed env cs)"

lemma feed_append: "feed env (cs @ ds) s = Option.bind (feed env cs s) (feed env ds)"
  by (induction cs arbitrary: s) (auto simp: Option.bind_assoc comp_def split: bind_splits)

text \<open>The states that differ from \<open>s\<close> in the line and in what the screen shows only.\<close>

definition edited :: "('d, 's) shell_state \<Rightarrow> ('d, 's) shell_state \<Rightarrow> bool" where
  "edited s s' \<longleftrightarrow> (\<exists>cmd n f. s' = s\<lparr>command := cmd, command_length := n, kern := on_screen f (kern s)\<rparr>)"

lemma on_screen_id: "on_screen (\<lambda>v. v) k = k"
  by (simp add: on_screen_def)

lemma on_screen_twice: "on_screen g (on_screen f k) = on_screen (\<lambda>v. g (f v)) k"
  by (simp add: on_screen_def)

lemma edited_refl: "edited s s"
  unfolding edited_def by (intro exI [of _ "command s"] exI [of _ "command_length s"] exI [of _ "\<lambda>v. v"]) (simp add: on_screen_id)

lemma edited_trans: "edited s t \<Longrightarrow> edited t u \<Longrightarrow> edited s u"
  unfolding edited_def by (elim exE) (rule exI, rule exI, rule exI, simp add: on_screen_twice)

lemma edited_game: "edited s s' \<Longrightarrow> game s' = game s" "edited s s' \<Longrightarrow> blocked_in s' = blocked_in s"
  unfolding edited_def by auto

lemma unat_length_bound:
  assumes "shell_ok s"
  shows "length (line s) = unat (command_length s)" "unat (command_length s) < 80" "unat (command_length s + 1) = unat (command_length s) + 1"
proof -
  show len: "unat (command_length s) < 80" using assms by (simp add: shell_ok_def)
  show "length (line s) = unat (command_length s)" using assms by (simp add: shell_ok_def line_def)
  show "unat (command_length s + 1) = unat (command_length s) + 1" using len by (simp add: unat_word_ariths)
qed

lemma handle_char_backspace:
  assumes "shell_ok s" "\<not> snake_active (game s)"
  shows "\<exists>s'. handle_char env 8 s = Some s' \<and> shell_ok s' \<and> line s' = butlast (line s) \<and> edited s s'"
proof (cases "command_length s = 0")
  case True
  then have "line s = []" by (simp add: line_def)
  then show ?thesis using assms True edited_refl by (auto simp: handle_char_def)
next
  case False
  define s' where "s' = say (put_char 8) (s\<lparr>command_length := command_length s - 1\<rparr>)"
  note b = unat_length_bound [OF assms(1)]
  have n: "unat (command_length s - 1) = unat (command_length s) - 1" using False by (simp add: unat_minus_one)
  have "line s' = butlast (line s)" unfolding s'_def line_def say_def using n assms(1) by (simp add: butlast_take shell_ok_def)
  moreover from this have "shell_ok s'" using assms(1) n b(2) unfolding shell_ok_def
    by (auto simp: s'_def say_def list_all_iff dest: in_set_butlastD)
  moreover have "edited s s'" unfolding edited_def s'_def say_def by (intro exI [of _ "command s"] exI [of _ "command_length s - 1"] exI [of _ "put_char 8"]) simp
  moreover have "handle_char env 8 s = Some s'" using assms(2) False by (simp add: handle_char_def s'_def)
  ultimately show ?thesis by blast
qed

lemma handle_char_printable:
  assumes "shell_ok s" "\<not> snake_active (game s)" "printable c"
  shows "\<exists>s'. handle_char env c s = Some s' \<and> shell_ok s' \<and> line s' = (if length (line s) < 79 then line s @ [c] else line s) \<and> edited s s'"
proof -
  note b = unat_length_bound [OF assms(1)]
  have room: "command_length s + 1 < COMMAND_CAPACITY \<longleftrightarrow> length (line s) < 79" using b by (simp add: word_less_nat_alt COMMAND_CAPACITY_def)
  have c: "c \<noteq> 10" "c \<noteq> 8" "32 \<le> c" "c \<le> 126" using assms(3) by (auto simp: printable_def)
  show ?thesis
  proof (cases "length (line s) < 79")
    case False
    then show ?thesis using assms c room edited_refl by (auto simp: handle_char_def)
  next
    case True
    define s' where "s' = say (put_char c) (s\<lparr>command := (command s)[unat (command_length s) := c], command_length := command_length s + 1\<rparr>)"
    have len: "length (command s) = 80" using assms(1) by (simp add: shell_ok_def)
    have "line s' = line s @ [c]" unfolding s'_def line_def say_def using b len True by (simp add: take_Suc_conv_app_nth)
    moreover from this have "shell_ok s'" using assms b len True unfolding shell_ok_def by (simp add: s'_def say_def)
    moreover have "edited s s'" unfolding edited_def s'_def say_def
      by (intro exI [of _ "(command s)[unat (command_length s) := c]"] exI [of _ "command_length s + 1"] exI [of _ "put_char c"]) simp
    moreover have "handle_char env c s = Some s'" using assms(2) c room True by (simp add: handle_char_def s'_def)
    ultimately show ?thesis using True by auto
  qed
qed

lemma handle_char_edit:
  assumes "shell_ok s" "\<not> snake_active (game s)" "c \<noteq> 10"
  shows "\<exists>s'. handle_char env c s = Some s' \<and> shell_ok s' \<and> line s' = edit c (line s) \<and> edited s s'"
proof (cases "c = 8 \<or> printable c")
  case True
  then show ?thesis using handle_char_backspace [OF assms(1,2)] handle_char_printable [OF assms(1,2)] by (auto simp: edit_def printable_def)
next
  case False
  then have "handle_char env c s = Some s" using assms by (auto simp: handle_char_def printable_def)
  then show ?thesis using False assms(1) edited_refl by (auto simp: edit_def)
qed

lemma feed_edit:
  assumes "shell_ok s" "\<not> snake_active (game s)" "10 \<notin> set cs"
  shows "\<exists>s'. feed env cs s = Some s' \<and> shell_ok s' \<and> line s' = fold edit cs (line s) \<and> edited s s'"
  using assms
proof (induction cs arbitrary: s)
  case Nil
  then show ?case using edited_refl by auto
next
  case (Cons c cs)
  then obtain t where t: "handle_char env c s = Some t" "shell_ok t" "line t = edit c (line s)" "edited s t"
    using handle_char_edit [of s c env] by auto
  then obtain u where "feed env cs t = Some u" "shell_ok u" "line u = fold edit cs (line t)" "edited t u"
    using Cons.IH [of t] Cons.prems edited_game(1) [OF t(4)] by auto
  then show ?case using t edited_trans [OF t(4)] by auto
qed

section \<open>Choosing the command\<close>

lemma command_words:
  "0 \<notin> set (text_bytes ''help'')"
  "0 \<notin> set (text_bytes ''clear'')"
  "0 \<notin> set (text_bytes ''version'')"
  "0 \<notin> set (text_bytes ''whoami'')"
  "0 \<notin> set (text_bytes ''snake'')"
  "0 \<notin> set (text_bytes ''meminfo'')"
  "0 \<notin> set (text_bytes ''memtest'')"
  "0 \<notin> set (text_bytes ''usermode'')"
  "0 \<notin> set (text_bytes ''stackoverflow'')"
  "0 \<notin> set (text_bytes ''tasks'')"
  "0 \<notin> set (text_bytes ''fat'')"
  "0 \<notin> set (text_bytes ''ls'')"
  "0 \<notin> set (text_bytes ''cat'')"
  "0 \<notin> set (text_bytes ''write'')"
  "0 \<notin> set (text_bytes ''rm'')"
  "0 \<notin> set (text_bytes ''run'')"
  "0 \<notin> set (text_bytes ''ps'')"
  "0 \<notin> set (text_bytes ''wait'')"
  "0 \<notin> set (text_bytes ''stress'')"
  "0 \<notin> set (text_bytes ''sleep'')"
  by (simp_all add: text_bytes_def)

lemma char_at_word: "0 \<notin> set w \<Longrightarrow> char_at w i = 0 \<longleftrightarrow> length w \<le> i"
  by (auto simp: char_at_def) (metis linorder_not_le nth_mem)

lemma token_is_from_take:
  assumes "0 \<notin> set w" "i + n \<le> length full" "i \<le> length w" "take i full = take i w"
  shows "token_is_from i full n w \<longleftrightarrow> take (i + n) full = w"
  using assms(2-)
proof (induction n arbitrary: i)
  case 0
  then show ?case using char_at_word [OF assms(1), of i] by auto
next
  case (Suc n)
  show ?case
  proof (cases "i < length w \<and> full ! i = w ! i")
    case True
    then have "take (Suc i) full = take (Suc i) w" using Suc.prems by (simp add: take_Suc_conv_app_nth)
    then show ?thesis using True Suc.IH [of "Suc i"] Suc.prems char_at_word [OF assms(1), of i] by (auto simp: char_at_def)
  next
    case False
    then have "take (i + Suc n) full \<noteq> w" using Suc.prems(1) by auto
    then show ?thesis using False Suc.prems(1) char_at_word [OF assms(1), of i] by (auto simp: char_at_def)
  qed
qed

lemma token_is_word:
  assumes "0 \<notin> set (text_bytes w)"
  shows "token_is l (length (takeWhile ((\<noteq>) 32) l)) w \<longleftrightarrow> takeWhile ((\<noteq>) 32) l = text_bytes w"
  using token_is_from_take [of "text_bytes w" 0 "length (takeWhile ((\<noteq>) 32) l)" l] assms
  by (simp add: token_is_def length_takeWhile_le takeWhile_eq_take [symmetric])

lemma choose_command_word:
  "choose_command env (token_is l (length (takeWhile ((\<noteq>) 32) l))) l args s = choose_command env (\<lambda>w. takeWhile ((\<noteq>) 32) l = text_bytes w) l args s"
  unfolding choose_command_def by (simp only: token_is_word command_words not_False_eq_True)

lemma c_string_line:
  assumes "shell_ok s"
  shows "c_string ((command s)[unat (command_length s) := 0]) = line s"
proof -
  note b = unat_length_bound [OF assms]
  have len: "length (command s) = 80" using assms by (simp add: shell_ok_def)
  have "0 \<notin> set (line s)" using assms by (auto simp: shell_ok_def list_all_iff printable_def)
  moreover have "take (Suc (unat (command_length s))) ((command s)[unat (command_length s) := 0]) = line s @ [0]"
    using b(2) len by (simp add: take_Suc_conv_app_nth line_def)
  ultimately show ?thesis using c_string_at [of 0 "line s" _ "[]"] b(1) by simp
qed

lemma execute_line:
  assumes "shell_ok s"
  shows "\<exists>s'. edited s s' \<and> execute env s =
    (if line s = [] then Some s'
     else choose_command env (\<lambda>w. takeWhile ((\<noteq>) 32) (line s) = text_bytes w) (line s) (drop (length (takeWhile ((\<noteq>) 32) (line s)) + 1) (line s)) s')"
proof (intro exI conjI)
  let ?s = "s\<lparr>command := (command s)[unat (command_length s) := 0]\<rparr>"
  show "edited s ?s" unfolding edited_def
    by (intro exI [of _ "(command s)[unat (command_length s) := 0]"] exI [of _ "command_length s"] exI [of _ "\<lambda>v. v"]) (simp add: on_screen_id)
  have "command_length s = 0 \<longleftrightarrow> line s = []" using unat_length_bound(1) [OF assms] by (metis length_0_conv unat_eq_0)
  then show "execute env s = (if line s = [] then Some ?s
     else choose_command env (\<lambda>w. takeWhile ((\<noteq>) 32) (line s) = text_bytes w) (line s) (drop (length (takeWhile ((\<noteq>) 32) (line s)) + 1) (line s)) ?s)"
    by (simp add: execute_def Let_def c_string_line [OF assms] choose_command_word [of env "line s", simplified])
qed

lemma shell_ok_say: "shell_ok (say f s) = shell_ok s" "line (say f s) = line s" "edited s (say f s)"
proof -
  show "line (say f s) = line s" by (simp add: line_def say_def)
  then show "shell_ok (say f s) = shell_ok s" by (simp add: shell_ok_def say_def)
  show "edited s (say f s)" unfolding edited_def say_def by (intro exI [of _ "command s"] exI [of _ "command_length s"] exI [of _ f]) simp
qed

section \<open>Properties\<close>

text \<open>
  C31. The shell executes the line that was typed. While no game runs, whatever keys come before the newline, with
  backspaces and more characters than fit, the command line never overflows, and the newline executes the line as
  edited: the command is the one whose name is the first word of the line, and its argument is what follows
  the first space. Until then only the line and the screen change.
\<close>

theorem typed_line_executes:
  assumes "shell_ok s" "\<not> snake_active (game s)" "10 \<notin> set keys"
  shows "let l = fold edit keys (line s); word = takeWhile ((\<noteq>) 32) l in
    length l < 80 \<and>
    (\<exists>s'. edited s s' \<and> feed env (keys @ [10]) s = map_option finish_command
       (if l = [] then Some s' else choose_command env (\<lambda>w. word = text_bytes w) l (drop (length word + 1) l) s'))"
proof -
  obtain t where t: "feed env keys s = Some t" "shell_ok t" "line t = fold edit keys (line s)" "edited s t"
    using feed_edit [OF assms] by blast
  obtain u where u: "edited (say (put_char 10) t) u" "execute env (say (put_char 10) t) =
      (if line t = [] then Some u
       else choose_command env (\<lambda>w. takeWhile ((\<noteq>) 32) (line t) = text_bytes w) (line t) (drop (length (takeWhile ((\<noteq>) 32) (line t)) + 1) (line t)) u)"
    using execute_line [of "say (put_char 10) t" env] t(2) unfolding shell_ok_say by blast
  have "handle_char env 10 t = map_option finish_command (execute env (say (put_char 10) t))"
    using assms(2) edited_game(1) [OF t(4)] by (simp add: handle_char_def)
  then have "feed env (keys @ [10]) s = map_option finish_command (execute env (say (put_char 10) t))"
    unfolding feed_append t(1) by (cases "execute env (say (put_char 10) t)") simp_all
  moreover have "edited s u" using edited_trans [OF t(4) edited_trans [OF shell_ok_say(3) u(1)]] .
  moreover have "length (fold edit keys (line s)) < 80" using unat_length_bound(1,2) [OF t(2)] t(3) by simp
  ultimately show ?thesis unfolding Let_def u(2) t(3) by blast
qed

definition sample_env :: "(unit, unit) shell_env" where
  "sample_env = \<lparr>disk_read = (\<lambda>_ _ d. (False, [], d)), disk_write = (\<lambda>_ _ _ d. (False, d)), trampoline = 0x1000, process_entry = 0x2000,
     ring3_demo = 0x3000, stack_overflow_demo = 0x4000, counter_a = 0x5000, counter_b = 0x6000, stale_window = [], stress_test = (\<lambda>_. Some)\<rparr>"

definition sample_shell :: "(unit, unit) shell_state" where
  "sample_shell = \<lparr>command = replicate 80 0, command_length = 0, arg_text = replicate 256 0, game = sample_game,
     fat = \<lparr>vol = no_volume, sector_buf = [], fat_cache = [], fat_cache_sector = 0, fat_dev = ()\<rparr>, kern = sample_kernel, blocked_in = NotBlocked\<rparr>"

text \<open>Typing \<^verbatim>\<open>lx\<close>, a backspace and \<^verbatim>\<open>s\<close> executes \<^verbatim>\<open>ls\<close>.\<close>

theorem typed_line_executes_witness:
  "\<exists>s'. edited sample_shell s' \<and> feed sample_env ([0x6C, 0x78, 8, 0x73] @ [10]) sample_shell = Some (finish_command (cmd_ls s'))"
proof -
  have l: "fold edit [0x6C, 0x78, 8, 0x73] (line sample_shell) = [0x6C, 0x73]" by (simp add: line_def sample_shell_def edit_def printable_def)
  have "shell_ok sample_shell" by (simp add: shell_ok_def sample_shell_def line_def)
  moreover have "\<not> snake_active (game sample_shell)" by (simp add: sample_shell_def sample_game_def snake_active_def)
  ultimately have "\<exists>s'. edited sample_shell s' \<and> feed sample_env ([0x6C, 0x78, 8, 0x73] @ [10]) sample_shell = map_option finish_command
       (choose_command sample_env (\<lambda>w. [0x6C, 0x73] = text_bytes w) [0x6C, 0x73] [] s')"
    using typed_line_executes [of sample_shell "[0x6C, 0x78, 8, 0x73]" sample_env] unfolding Let_def l by simp
  moreover have "choose_command sample_env (\<lambda>w. [0x6C, 0x73] = text_bytes w) [0x6C, 0x73] [] s' = Some (cmd_ls s')" for s'
    by (simp add: choose_command_def text_bytes_def)
  ultimately show ?thesis by simp
qed

text \<open>
  C35. The arguments of the run command are the words of the text after it, in order: the pieces between spaces,
  copied one after the other into the argument buffer with a zero behind each. Only more than 16 words are refused; the
  buffer always suffices.
\<close>

theorem run_arguments_words:
  assumes "0 \<notin> set args" "length args < 80" "length buf = 256"
  shows "\<exists>ps buf'. split_args args 0 0 buf = (length (words args) > 16, ps, buf') \<and> length buf' = 256 \<and>
    (length (words args) \<le> 16 \<longrightarrow> argv_strings ps buf' = words args)"
  using split_args_words [of args 0 buf 0] assms by auto

theorem run_arguments_words_witness:
  "\<exists>ps buf. split_args [0x61, 32, 32, 0x62, 0x63, 32] 0 0 (replicate 256 1) = (False, ps, buf) \<and> argv_strings ps buf = [[0x61], [0x62, 0x63]]"
proof -
  have "words [0x61, 32, 32, 0x62, 0x63, 32] = [[0x61], [0x62, 0x63]]" by (simp add: words_def)
  then show ?thesis using run_arguments_words [of "[0x61, 32, 32, 0x62, 0x63, 32]" "replicate 256 1"] by auto
qed

text \<open>
  A number is printed in decimal, without leading zeros, and its digits always fit into the 20 bytes of the buffer
  before the terminating zero.
\<close>

lemma print_uint_decimal:
  "print_uint v = vga_print (decimal (unat v)) \<and> length (decimal (unat v)) \<le> 20"
proof
  show "print_uint v = vga_print (decimal (unat v))"
    by (cases "v = 0") (simp_all add: print_uint_def digits_of_decimal decimal.simps [of 0])
  have "unat v < 10 ^ 20" by (rule less_trans [OF unat_u64_less]) simp
  then show "length (decimal (unat v)) \<le> 20" by (rule decimal_length) simp
qed

end
