(* ===== verification/Ring3.thy ===== *)
theory Ring3
  imports Interrupts Shell
begin

text \<open>
  Entering user mode, \<^verbatim>\<open>kernel/ring3.cpp\<close>: the task state segment, the two demonstration programs and the switch
  to ring 3. What the boot loader leaves at \<^verbatim>\<open>0x8FE0\<close> (the addresses of the segment and of its descriptor, and
  the selector) and the bytes of the demonstration programs are arguments. The kernel stack pointer in the
  segment is the field \<open>tss_rsp0\<close> of the task state. A copy that faults is \<open>None\<close>.
\<close>

section \<open>State\<close>

definition USER_CODE_SEL :: u16 where "USER_CODE_SEL = 0x20 OR 3"
definition USER_DATA_SEL :: u16 where "USER_DATA_SEL = 0x28 OR 3"
definition USER_CODE_VIRT :: u64 where "USER_CODE_VIRT = 0x40001000"
definition USER_STACK_VIRT :: u64 where "USER_STACK_VIRT = 0x40010000"
definition USER_STACK_SIZE :: u64 where "USER_STACK_SIZE = 4096"
definition STACK_OVERFLOW_CODE_VIRT :: u64 where "STACK_OVERFLOW_CODE_VIRT = 0x40021000"
definition STACK_OVERFLOW_STACK_VIRT :: u64 where "STACK_OVERFLOW_STACK_VIRT = 0x40030000"
definition STACK_OVERFLOW_STACK_SIZE :: u64 where "STACK_OVERFLOW_STACK_SIZE = 4096"
definition KERNEL_STACK_FOR_RSP0_SIZE :: u64 where "KERNEL_STACK_FOR_RSP0_SIZE = 8192"

record tss_info =
  info_tss :: u64
  info_gdt :: u64
  info_selector :: u16

record ring3_state =
  r3_mach :: machine_state
  r3_scr :: vga_state
  tss_ready :: bool
  task_register :: u16

text \<open>The words that \<open>enter\<close> pushes for \<^verbatim>\<open>iretq\<close>.\<close>

record iret_frame =
  ir_ss :: u64
  ir_rsp :: u64
  ir_rflags :: u64
  ir_cs :: u64
  ir_rip :: u64

datatype ring3_outcome = Aborted | Entered iret_frame

definition r3_say :: "(vga_state \<Rightarrow> vga_state) \<Rightarrow> ring3_state \<Rightarrow> ring3_state" where
  "r3_say f r = r\<lparr>r3_scr := f (r3_scr r)\<rparr>"

definition r3_on_mach :: "machine_state \<Rightarrow> ring3_state \<Rightarrow> ring3_state" where
  "r3_on_mach m r = r\<lparr>r3_mach := m\<rparr>"

section \<open>The task state segment\<close>

text \<open>The base address of the segment goes to the bytes 2, 3, 4, 7 and 8 to 11 of its descriptor.\<close>

definition write_tss_base :: "u64 \<Rightarrow> u64 \<Rightarrow> (u64 \<Rightarrow> u8) \<Rightarrow> u64 \<Rightarrow> u8" where
  "write_tss_base desc tss_addr mem =
     mem(desc + 2 := ucast tss_addr, desc + 3 := ucast (drop_bit 8 tss_addr), desc + 4 := ucast (drop_bit 16 tss_addr),
         desc + 7 := ucast (drop_bit 24 tss_addr), desc + 8 := ucast (drop_bit 32 tss_addr), desc + 9 := ucast (drop_bit 40 tss_addr),
         desc + 10 := ucast (drop_bit 48 tss_addr), desc + 11 := ucast (drop_bit 56 tss_addr))"

definition setup_tss :: "tss_info \<Rightarrow> ring3_state \<Rightarrow> ring3_state option" where
  "setup_tss info r =
     (if tss_ready r then Some r
      else
        do {
          (rsp0_stack, m) \<leftarrow> kmalloc KERNEL_STACK_FOR_RSP0_SIZE (r3_mach r);
          let m = set_kernel_stack (rsp0_stack + KERNEL_STACK_FOR_RSP0_SIZE) m;
          let m = m\<lparr>phys_mem := write_tss_base (info_gdt info) (info_tss info) (phys_mem m)\<rparr>;
          Some ((r3_on_mach m r)\<lparr>task_register := info_selector info, tss_ready := True\<rparr>)
        })"

definition enter :: "u64 \<Rightarrow> u64 \<Rightarrow> iret_frame" where
  "enter entry_virt stack_top =
     \<lparr>ir_ss = ucast USER_DATA_SEL, ir_rsp = stack_top, ir_rflags = 0x202, ir_cs = ucast USER_CODE_SEL, ir_rip = entry_virt\<rparr>"

section \<open>The demonstration programs\<close>

definition map_user :: "u64 \<Rightarrow> machine_state \<Rightarrow> bool \<times> machine_state" where
  "map_user virt m =
     (case alloc_frame m of (frame, m) \<Rightarrow>
        if frame = 0 then (False, m) else map_page virt frame (PAGE_PRESENT OR PAGE_WRITABLE OR PAGE_USER OR PAGE_NX) m)"

text \<open>
  Both demonstrations map a page for the code, copy the program into it, make the page executable and no longer
  writable, and map a page for the stack; they differ in the addresses and the messages.
\<close>

definition run_program ::
  "u64 \<Rightarrow> u64 \<Rightarrow> u64 \<Rightarrow> u8 list \<Rightarrow> string \<times> string \<times> string \<Rightarrow> (vga_state \<Rightarrow> vga_state) \<Rightarrow> ring3_state \<Rightarrow> (ring3_outcome \<times> ring3_state) option" where
  "run_program code_virt stack_virt stack_size program messages announce r =
     (case map_user code_virt (r3_mach r) of (ok, m) \<Rightarrow>
        if \<not> ok then Some (Aborted, r3_say (print_failure (fst messages)) (r3_on_mach m r))
        else
          do {
            m \<leftarrow> store_bytes code_virt program m;
            case protect_page code_virt (PAGE_PRESENT OR PAGE_USER) m of (ok, m) \<Rightarrow>
              if \<not> ok then Some (Aborted, r3_say (print_failure (fst (snd messages))) (r3_on_mach m r))
              else
                case map_user stack_virt m of (ok, m) \<Rightarrow>
                  if \<not> ok then Some (Aborted, r3_say (print_failure (snd (snd messages))) (r3_on_mach m r))
                  else Some (Entered (enter code_virt (stack_virt + stack_size)), r3_say announce (r3_on_mach m r))
          })"

definition announce_demo :: "vga_state \<Rightarrow> vga_state" where
  "announce_demo s =
     (let s = print_text ''Entering ring 3 now (CS=0x'' (set_color LightCyan Black s);
          s = fold (\<lambda>shift. put_char (text_bytes ''0123456789ABCDEF'' ! unat (drop_bit shift USER_CODE_SEL AND 0xF))) [4, 0] s
      in set_color White Black (print_line '')...'' s))"

definition run_demo :: "tss_info \<Rightarrow> u8 list \<Rightarrow> ring3_state \<Rightarrow> (ring3_outcome \<times> ring3_state) option" where
  "run_demo info user_program r =
     do {
       r \<leftarrow> setup_tss info r;
       let r = r3_say (print_text ''Mapping user program ('') r;
       let r = r3_say (print_uint (of_nat (length user_program))) r;
       let r = r3_say (print_line '' bytes) into a ring 3 page...'') r;
       run_program USER_CODE_VIRT USER_STACK_VIRT USER_STACK_SIZE user_program
         (''Failed to map the user code page. Aborting.'', ''Failed to re-protect the user code page. Aborting.'',
          ''Failed to map the user stack page. Aborting.'') announce_demo r
     }"

definition announce_overflow :: "vga_state \<Rightarrow> vga_state" where
  "announce_overflow s =
     set_color White Black (print_line ''Entering ring 3 now - this program will deliberately overflow its stack...'' (set_color LightCyan Black s))"

definition run_stack_overflow_demo :: "tss_info \<Rightarrow> u8 list \<Rightarrow> ring3_state \<Rightarrow> (ring3_outcome \<times> ring3_state) option" where
  "run_stack_overflow_demo info stack_overflow_program r =
     do {
       r \<leftarrow> setup_tss info r;
       run_program STACK_OVERFLOW_CODE_VIRT STACK_OVERFLOW_STACK_VIRT STACK_OVERFLOW_STACK_SIZE stack_overflow_program
         (''Failed to map the stack-overflow demo's code page. Aborting.'', ''Failed to re-protect the stack-overflow demo's code page. Aborting.'',
          ''Failed to map the stack-overflow demo's stack page. Aborting.'') announce_overflow r
     }"

text \<open>The entry function of a loaded process, in \<^verbatim>\<open>kernel/process.cpp\<close>.\<close>

definition enter_process :: "tss_info \<Rightarrow> ring3_state \<Rightarrow> (iret_frame \<times> ring3_state) option" where
  "enter_process info r =
     do {
       r \<leftarrow> setup_tss info r;
       self \<leftarrow> current (r3_mach r);
       Some (enter (t_user_entry (tasks (r3_mach r) self)) (t_user_stack_top (tasks (r3_mach r) self)), r)
     }"

end
