(* ===== verification/Ring3_Correct.thy ===== *)
theory Ring3_Correct
  imports Ring3 Process_Load Vga_Correct
begin

text \<open>
  A demonstration program enters user mode with its code in a page that is executable and not writable,
  and its stack in one that is writable and not executable; no other page changes.
\<close>

section \<open>Mapping a user page\<close>

lemma get_or_create_table_cr3: "cr3 (snd (get_or_create_table t i flags s)) = cr3 s"
  unfolding get_or_create_table_def Let_def
  by (auto simp: alloc_frame_spec clear_table_cr3 split: prod.splits if_splits)

lemma map_page_in_cr3: "cr3 (snd (map_page_in root v p flags s)) = cr3 s"
proof -
  note step = get_or_create_table_cr3
  obtain a s1 where 1: "get_or_create_table root (pml4_index v) flags s = (a, s1)" by fastforce
  obtain b s2 where 2: "get_or_create_table a (pdpt_index v) flags s1 = (b, s2)" by fastforce
  obtain c s3 where 3: "get_or_create_table b (pd_index v) flags s2 = (c, s3)" by fastforce
  have "cr3 s1 = cr3 s" "cr3 s2 = cr3 s1" "cr3 s3 = cr3 s2"
    using step [of root "pml4_index v" flags s] step [of a "pdpt_index v" flags s1] step [of b "pd_index v" flags s2]
    unfolding 1 2 3 by simp_all
  then show ?thesis unfolding map_page_in_def 1 2 3 by (auto simp: 2 3 invalidate_page_def Let_def)
qed

definition user_flags :: u64 where
  "user_flags = PAGE_PRESENT OR PAGE_WRITABLE OR PAGE_USER OR PAGE_NX"

lemma map_user_correct:
  assumes "table_tree m root" "root = cr3 m AND ADDR_MASK" "map_user v m = (True, m')"
  shows "\<exists>f<262144. table_tree m' root \<and> cr3 m' = cr3 m \<and> phys_mem m' = phys_mem m \<and>
    leaf m' root v = Some (frame_addr f OR (user_flags OR PAGE_PRESENT)) \<and> (\<forall>w. \<not> same_page w v \<longrightarrow> leaf m' root w = leaf m root w)"
proof -
  have ok: "pmm_ok m" using table_treeD(4) [OF assms(1)] .
  have ne: "free_set m \<noteq> {}"
  proof
    assume "free_set m = {}"
    then show False using assms(3) by (simp add: map_user_def alloc_frame_spec)
  qed
  let ?f = "Min (free_set m)"
  obtain b c where a: "alloc_frame m = (frame_addr ?f, m\<lparr>pmm_bitmap := b, free_count := c\<rparr>)"
    "free_set (m\<lparr>pmm_bitmap := b, free_count := c\<rparr>) = free_set m - {?f}"
    "pmm_ok (m\<lparr>pmm_bitmap := b, free_count := c\<rparr>)" "frame_addr ?f \<noteq> 0"
    using alloc_frame_take [OF ne ok] by blast
  let ?s = "m\<lparr>pmm_bitmap := b, free_count := c\<rparr>"
  have "?f \<in> free_set m" using ne by simp
  then have f: "?f < 262144" by (rule free_set_bound)
  have t: "table_tree ?s root" using table_tree_keeps [OF assms(1), of ?s] a(2,3) by auto
  have map: "map_page_in root v (frame_addr ?f) user_flags ?s = (True, m')"
    using assms(3) a(4) unfolding map_user_def a(1) by (simp add: map_page_def assms(2) user_flags_def)
  have "phys_mem m' = phys_mem m" "cr3 m' = cr3 m"
    using map_page_in_mem [of root v "frame_addr ?f" user_flags ?s] map_page_in_cr3 [of root v "frame_addr ?f" user_flags ?s] unfolding map by simp_all
  moreover have "table_tree m' root" "leaf m' root v = Some (frame_addr ?f OR (user_flags OR PAGE_PRESENT))"
    "\<forall>w. \<not> same_page w v \<longrightarrow> leaf m' root w = leaf ?s root w"
    using map_page_in_leaf [OF t map] frame_bits(1) [OF f] by simp_all
  moreover have "leaf ?s root w = leaf m root w" for w by (simp add: leaf_def)
  ultimately show ?thesis using f by (intro exI [of _ ?f]) simp
qed

lemma protect_page_frame: "phys_mem (snd (protect_page v flags m)) = phys_mem m" "cr3 (snd (protect_page v flags m)) = cr3 m"
  "pmm_bitmap (snd (protect_page v flags m)) = pmm_bitmap m" "free_count (snd (protect_page v flags m)) = free_count m"
  by (simp_all add: protect_page_def Let_def invalidate_page_def)

lemma user_entry_flags:
  assumes "f < 262144"
  shows "(frame_addr f OR (user_flags OR PAGE_PRESENT)) AND ADDR_MASK = frame_addr f"
    "has_flag (frame_addr f OR (user_flags OR PAGE_PRESENT)) PAGE_USER" "has_flag (frame_addr f OR (user_flags OR PAGE_PRESENT)) PAGE_WRITABLE"
    "has_flag (frame_addr f OR (user_flags OR PAGE_PRESENT)) PAGE_NX"
proof -
  have "(user_flags OR PAGE_PRESENT) AND ADDR_MASK = 0" by (simp add: user_flags_def page_flags ADDR_MASK_def)
  then show "(frame_addr f OR (user_flags OR PAGE_PRESENT)) AND ADDR_MASK = frame_addr f"
    using frame_bits(1) [OF assms] by (simp only: bit.conj_disj_distrib2) simp
qed (simp_all add: user_flags_def entry_bits)

lemma code_entry_flags:
  assumes "f < 262144"
  defines "e \<equiv> frame_addr f OR ((PAGE_PRESENT OR PAGE_USER) AND NOT ADDR_MASK) OR PAGE_PRESENT"
  shows "e AND ADDR_MASK = frame_addr f" "has_flag e PAGE_USER" "\<not> has_flag e PAGE_WRITABLE" "\<not> has_flag e PAGE_NX"
proof -
  have "(((PAGE_PRESENT OR PAGE_USER) AND NOT ADDR_MASK) OR PAGE_PRESENT) AND ADDR_MASK = 0" by (simp add: page_flags ADDR_MASK_def)
  then show "e AND ADDR_MASK = frame_addr f" unfolding e_def
    using frame_bits(1) [OF assms(1)] by (simp only: bit.conj_disj_distrib2) simp
  have b: "\<not> bit (frame_addr f) (Suc 0)" "\<not> bit (frame_addr f) 63" using frame_bits(2) [OF assms(1)] by simp_all
  show "has_flag e PAGE_USER" "\<not> has_flag e PAGE_WRITABLE" "\<not> has_flag e PAGE_NX" by (simp_all add: e_def entry_bits b)
qed

section \<open>The program in its page\<close>

lemma leaf_translate:
  assumes "leaf m root v = Some e" "root = cr3 m AND ADDR_MASK" "e AND ADDR_MASK = frame_addr f" "f < 262144"
    and "unat w div 4096 = unat v div 4096"
  shows "mmu_translate m w = Some (frame_addr f + of_nat (unat w mod 4096))"
proof -
  have l: "leaf m root w = Some e" using leaf_same_page [OF assms(5), of m root] assms(1) by simp
  obtain es where "mmu_entries (m\<lparr>cr3 := cr3 m\<rparr>) w = Some es" "length es = 4" "last es = e"
    using leaf_entries [OF l assms(2) [symmetric]] by blast
  then show ?thesis by (simp add: mmu_translate_def mmu_address_def assms(3) frame_or_offset [OF assms(4)])
qed

lemma page_inj:
  assumes "f < 262144" "a < 4096" "b < 4096" "frame_addr f + of_nat a = frame_addr f + of_nat b"
  shows "a = b"
proof -
  have "(of_nat a :: u64) = of_nat b" using assms(4) by simp
  then have "unat (of_nat a :: u64) = unat (of_nat b :: u64)" by simp
  then show ?thesis using assms(2,3) by (simp add: unat_of_nat)
qed

lemma page_range:
  assumes "unat v mod 4096 = 0" "w \<in> range_of v n" "n \<le> 4096"
  shows "unat w div 4096 = unat v div 4096" "unat w mod 4096 = unat w - unat v" "unat w - unat v < 4096"
proof -
  define d where "d = unat w - unat v"
  have d: "unat w = unat v + d" "d < 4096" using assms(2,3) by (auto simp: range_of_def d_def)
  obtain q where q: "unat v = 4096 * q" using assms(1) by (metis mod_0_imp_dvd dvdE)
  show "unat w div 4096 = unat v div 4096" "unat w mod 4096 = unat w - unat v" "unat w - unat v < 4096"
    unfolding d(1) q using d(2) by simp_all
qed

text \<open>What is stored in a mapped page can be read back in every state that maps the page to the same frame.\<close>

lemma store_program:
  fixes m :: machine_state
  assumes "leaf m root v = Some e" "root = cr3 m AND ADDR_MASK" "e AND ADDR_MASK = frame_addr f" "f < 262144"
    and "unat v mod 4096 = 0" "unat v + 4096 \<le> 140737488355328" "length program \<le> 4096"
  shows "\<exists>mem. store_bytes v program m = Some (m\<lparr>phys_mem := mem\<rparr>) \<and>
    (\<forall>(m' :: machine_state) e'. leaf m' root v = Some e' \<and> root = cr3 m' AND ADDR_MASK \<and> e' AND ADDR_MASK = frame_addr f \<and> phys_mem m' = mem \<longrightarrow>
       load_bytes v (length program) m' = Some program)"
proof -
  let ?R = "range_of v (length program)"
  have tr: "mmu_translate m' w = Some (frame_addr f + of_nat (unat w - unat v))"
    if "leaf m' root v = Some e'" "root = cr3 m' AND ADDR_MASK" "e' AND ADDR_MASK = frame_addr f" "w \<in> ?R" for m' :: machine_state and e' w
    using leaf_translate [OF that(1-3) assms(4) page_range(1) [OF assms(5) that(4) assms(7)]] page_range(2) [OF assms(5) that(4) assms(7)] by simp
  have inj: "inj_on (mmu_translate m) ?R"
  proof (rule inj_onI)
    fix x y
    assume xy: "x \<in> ?R" "y \<in> ?R" "mmu_translate m x = mmu_translate m y"
    then have "frame_addr f + of_nat (unat x - unat v) = frame_addr f + of_nat (unat y - unat v)"
      using tr [OF assms(1-3)] by simp
    then have "unat x - unat v = unat y - unat v"
      by (rule page_inj [OF assms(4) page_range(3) [OF assms(5) xy(1) assms(7)] page_range(3) [OF assms(5) xy(2) assms(7)]])
    then have "unat x = unat y" using xy(1,2) by (auto simp: range_of_def)
    then show "x = y" by (simp add: word_unat_eq_iff)
  qed
  have len: "unat v + length program \<le> 140737488355328" using assms(6,7) by simp
  have "None \<notin> mmu_translate m ` ?R" using tr [OF assms(1-3)] by force
  from store_bytes_result [OF len this] inj obtain mem where mem: "store_bytes v program m = Some (m\<lparr>phys_mem := mem\<rparr>)"
    "map (\<lambda>i. mem (the (mmu_translate m (v + of_nat i)))) [0..<length program] = program" by blast
  have inR: "v + of_nat i \<in> ?R" if "i < length program" for i
  proof -
    have "unat (of_nat i :: u64) = i" using that assms(7) by (simp add: unat_of_nat)
    then have "unat (v + of_nat i) = unat v + i" using unat_add_no_wrap [of v "of_nat i"] that len by simp
    then show ?thesis using that by (simp add: range_of_def)
  qed
  have "load_bytes v (length program) m' = Some program"
    if "leaf m' root v = Some e'" "root = cr3 m' AND ADDR_MASK" "e' AND ADDR_MASK = frame_addr f" "phys_mem m' = mem" for m' :: machine_state and e'
  proof -
    have "None \<notin> mmu_translate m' ` ?R" using tr [OF that(1-3)] by force
    then have "load_bytes v (length program) m' = Some (map (\<lambda>i. mem (the (mmu_translate m' (v + of_nat i)))) [0..<length program])"
      using load_bytes_result [OF len] that(4) by blast
    moreover have "map (\<lambda>i. mem (the (mmu_translate m' (v + of_nat i)))) [0..<length program] = map (\<lambda>i. mem (the (mmu_translate m (v + of_nat i)))) [0..<length program]"
      using tr [OF that(1-3) inR] tr [OF assms(1-3) inR] by (intro map_cong) simp_all
    ultimately show ?thesis unfolding mem(2) by simp
  qed
  then show ?thesis using mem(1) by blast
qed

definition entered_ok :: "u64 \<Rightarrow> u64 \<Rightarrow> u8 list \<Rightarrow> machine_state \<Rightarrow> machine_state \<Rightarrow> bool" where
  "entered_ok code stack program m m' \<longleftrightarrow>
     (let root = cr3 m AND ADDR_MASK in
      cr3 m' = cr3 m \<and> load_bytes code (length program) m' = Some program \<and>
      (\<exists>e. leaf m' root code = Some e \<and> has_flag e PAGE_USER \<and> \<not> has_flag e PAGE_WRITABLE \<and> \<not> has_flag e PAGE_NX) \<and>
      (\<exists>e. leaf m' root stack = Some e \<and> has_flag e PAGE_USER \<and> has_flag e PAGE_WRITABLE \<and> has_flag e PAGE_NX) \<and>
      (\<forall>v. \<not> same_page v code \<and> \<not> same_page v stack \<longrightarrow> leaf m' root v = leaf m root v))"

lemma leaf_mem: "leaf (m\<lparr>phys_mem := mem\<rparr>) root v = leaf m root v"
  by (simp add: leaf_def)

lemma code_page_ready:
  fixes m :: machine_state
  assumes "table_tree m root" "root = cr3 m AND ADDR_MASK" "map_user code m = (True, m1)"
    and "unat code mod 4096 = 0" "unat code + 4096 \<le> 140737488355328" "length program \<le> 4096"
  shows "\<exists>m2 m3 f. store_bytes code program m1 = Some m2 \<and> protect_page code (PAGE_PRESENT OR PAGE_USER) m2 = (True, m3) \<and> f < 262144 \<and>
    table_tree m3 root \<and> cr3 m3 = cr3 m \<and> leaf m3 root code = Some (frame_addr f OR ((PAGE_PRESENT OR PAGE_USER) AND NOT ADDR_MASK) OR PAGE_PRESENT) \<and>
    (\<forall>w. \<not> same_page w code \<longrightarrow> leaf m3 root w = leaf m root w) \<and>
    (\<forall>(m' :: machine_state) e'. leaf m' root code = Some e' \<and> root = cr3 m' AND ADDR_MASK \<and> e' AND ADDR_MASK = frame_addr f \<and> phys_mem m' = phys_mem m3 \<longrightarrow>
       load_bytes code (length program) m' = Some program)"
proof -
  obtain f where f: "f < 262144" "table_tree m1 root" "cr3 m1 = cr3 m" "leaf m1 root code = Some (frame_addr f OR (user_flags OR PAGE_PRESENT))"
    "\<forall>w. \<not> same_page w code \<longrightarrow> leaf m1 root w = leaf m root w"
    using map_user_correct [OF assms(1-3)] by blast
  note fl = user_entry_flags [OF f(1)]
  have root1: "root = cr3 m1 AND ADDR_MASK" using assms(2) f(3) by simp
  obtain mem where mem: "store_bytes code program m1 = Some (m1\<lparr>phys_mem := mem\<rparr>)"
    "\<forall>(m' :: machine_state) e'. leaf m' root code = Some e' \<and> root = cr3 m' AND ADDR_MASK \<and> e' AND ADDR_MASK = frame_addr f \<and> phys_mem m' = mem \<longrightarrow>
       load_bytes code (length program) m' = Some program"
    using store_program [OF f(4) root1 fl(1) f(1) assms(4-6)] by blast
  let ?m2 = "m1\<lparr>phys_mem := mem\<rparr>"
  have t2: "table_tree ?m2 root" using table_tree_keeps [OF f(2), of ?m2] table_treeD(4) [OF f(2)] by (simp add: free_set_def pmm_ok_def pmm_inv_def)
  obtain ok m3 where p: "protect_page code (PAGE_PRESENT OR PAGE_USER) ?m2 = (ok, m3)" by fastforce
  have a: "code mod 4096 = 0" using assms(4) by (simp add: word_unat_eq_iff unat_mod)
  have "ok \<and> table_tree m3 root \<and> leaf m3 root code = Some (frame_addr f OR ((PAGE_PRESENT OR PAGE_USER) AND NOT ADDR_MASK) OR PAGE_PRESENT) \<and>
      (\<forall>v. \<not> same_page v code \<longrightarrow> leaf m3 root v = leaf ?m2 root v)"
    using protect_page_correct [OF t2 _ p] root1 f(4) a fl(1) by (simp add: leaf_mem)
  moreover have "phys_mem m3 = mem" "cr3 m3 = cr3 m"
    using protect_page_frame [of code "PAGE_PRESENT OR PAGE_USER" ?m2] p f(3) by simp_all
  ultimately show ?thesis using mem f(1,5) p by (intro exI [of _ ?m2] exI [of _ m3] exI [of _ f]) (simp add: leaf_mem)
qed

lemma run_program_result:
  assumes "table_tree (r3_mach r) (cr3 (r3_mach r) AND ADDR_MASK)" "unat code mod 4096 = 0" "unat code + 4096 \<le> 140737488355328"
    and "length program \<le> 4096" "\<not> same_page code stack" "\<not> same_page stack code"
  shows "\<exists>out r'. run_program code stack sz program messages announce r = Some (out, r') \<and>
    (\<forall>fr. out = Entered fr \<longrightarrow> fr = enter code (stack + sz) \<and> entered_ok code stack program (r3_mach r) (r3_mach r'))"
proof -
  let ?m = "r3_mach r"
  let ?root = "cr3 ?m AND ADDR_MASK"
  obtain ok1 m1 where 1: "map_user code ?m = (ok1, m1)" by fastforce
  show ?thesis
  proof (cases ok1)
    case False
    then show ?thesis by (simp add: run_program_def 1)
  next
    case True
    then have on: "ok1 = True" by simp
    obtain m2 m3 f where c: "store_bytes code program m1 = Some m2" "protect_page code (PAGE_PRESENT OR PAGE_USER) m2 = (True, m3)" "f < 262144"
      "table_tree m3 ?root" "cr3 m3 = cr3 ?m" "leaf m3 ?root code = Some (frame_addr f OR ((PAGE_PRESENT OR PAGE_USER) AND NOT ADDR_MASK) OR PAGE_PRESENT)"
      "\<forall>w. \<not> same_page w code \<longrightarrow> leaf m3 ?root w = leaf ?m ?root w"
      "\<forall>(m' :: machine_state) e'. leaf m' ?root code = Some e' \<and> ?root = cr3 m' AND ADDR_MASK \<and> e' AND ADDR_MASK = frame_addr f \<and> phys_mem m' = phys_mem m3 \<longrightarrow>
         load_bytes code (length program) m' = Some program"
      using code_page_ready [OF assms(1) refl 1 [unfolded on] assms(2-4)] by (elim exE conjE) (rule that; assumption)
    obtain ok4 m4 where 4: "map_user stack m3 = (ok4, m4)" by fastforce
    show ?thesis
    proof (cases ok4)
      case False
      then show ?thesis using True by (simp add: run_program_def 1 c(1,2) 4)
    next
      case ok4: True
      have root3: "?root = cr3 m3 AND ADDR_MASK" using c(5) by simp
      obtain g where g: "g < 262144" "cr3 m4 = cr3 m3" "phys_mem m4 = phys_mem m3"
        "leaf m4 ?root stack = Some (frame_addr g OR (user_flags OR PAGE_PRESENT))" "\<forall>w. \<not> same_page w stack \<longrightarrow> leaf m4 ?root w = leaf m3 ?root w"
        using map_user_correct [OF c(4) root3, of stack m4] 4 ok4 by auto
      have code: "leaf m4 ?root code = leaf m3 ?root code" using g(5) assms(5) by blast
      have "load_bytes code (length program) m4 = Some program"
        using c(8) code c(6) code_entry_flags(1) [OF c(3)] g(2,3) c(5) by simp
      moreover have "\<exists>e. leaf m4 ?root code = Some e \<and> has_flag e PAGE_USER \<and> \<not> has_flag e PAGE_WRITABLE \<and> \<not> has_flag e PAGE_NX"
        using code c(6) code_entry_flags(2-4) [OF c(3)] by simp
      moreover have "\<exists>e. leaf m4 ?root stack = Some e \<and> has_flag e PAGE_USER \<and> has_flag e PAGE_WRITABLE \<and> has_flag e PAGE_NX"
        using g(4) user_entry_flags(2-4) [OF g(1)] by simp
      moreover have "leaf m4 ?root v = leaf ?m ?root v" if "\<not> same_page v code" "\<not> same_page v stack" for v using g(5) c(7) that by simp
      ultimately have "entered_ok code stack program ?m m4" using g(2) c(5) unfolding entered_ok_def Let_def by simp
      then show ?thesis using True ok4 by (simp add: run_program_def 1 c(1,2) 4 r3_say_def r3_on_mach_def)
    qed
  qed
qed

section \<open>A machine with two free frames\<close>

definition sample_wide :: machine_state where
  "sample_wide = sample_machine\<lparr>pmm_bitmap := pmm_bitmap sample_kernel_wide, free_count := 2\<rparr>"

lemma sample_wide_tree: "table_tree sample_wide 0x11A000" "cr3 sample_wide AND ADDR_MASK = 0x11A000" "free_set sample_wide = {287, 288}"
proof -
  show fs: "free_set sample_wide = {287, 288}"
    using sample_kernel_wide_tree(3) by (simp add: free_set_def sample_wide_def)
  then have ok: "pmm_ok sample_wide" by (simp add: pmm_ok_def pmm_inv_def sample_wide_def)
  have av: "pmm_avail sample_wide = {0x11F000, 0x120000}" using fs by (simp add: pmm_avail_def frame_addr_def FRAME_SIZE_def)
  have p: "ptab sample_wide = ptab sample_space" by (simp add: sample_wide_def sample_machine_fields)
  have huge: "\<not> is_huge (ptab sample_space 0x11A000 i)" for i by (simp add: sample_space_def is_huge_def has_flag_def page_flags)
  show "table_tree sample_wide 0x11A000" unfolding table_tree_def p sample_space_walk av using ok huge by (auto simp: path_def)
  show "cr3 sample_wide AND ADDR_MASK = 0x11A000" by (simp add: sample_wide_def sample_machine_fields sample_space_def ADDR_MASK_def)
qed

definition sample_tables :: "(nat \<Rightarrow> u64) \<Rightarrow> u64 \<Rightarrow> nat \<Rightarrow> u64" where
  "sample_tables t = (\<lambda>_ _. 0)(0x11A000 := (\<lambda>_. 0)(0 := 0x11B007), 0x11B000 := (\<lambda>_. 0)(1 := 0x11C007),
     0x11C000 := (\<lambda>_. 0)(0 := 0x11D007), 0x11D000 := t)"

lemma user_indices:
  "pml4_index 0x40001000 = 0" "pdpt_index 0x40001000 = 1" "pd_index 0x40001000 = 0" "pt_index 0x40001000 = 1"
  "pml4_index 0x40010000 = 0" "pdpt_index 0x40010000 = 1" "pd_index 0x40010000 = 0" "pt_index 0x40010000 = 16"
  by (simp_all add: pml4_index_def pdpt_index_def pd_index_def pt_index_def drop_bit_eq_div)

lemma sample_map_code:
  assumes "ptab s = ptab sample_space"
  shows "fst (map_page_in 0x11A000 0x40001000 0x11F000 user_flags s)"
    "ptab (snd (map_page_in 0x11A000 0x40001000 0x11F000 user_flags s)) = sample_tables ((\<lambda>_. 0)(0 := 0x200003, 1 := 0x800000000011F007))"
    "free_set (snd (map_page_in 0x11A000 0x40001000 0x11F000 user_flags s)) = free_set s"
proof -
  note ev = map_page_in_def user_indices get_or_create_table_def Let_def
  note facts = assms sample_space_def has_flag_def page_flags is_huge_def ADDR_MASK_def user_flags_def invalidate_page_def
  show "fst (map_page_in 0x11A000 0x40001000 0x11F000 user_flags s)" unfolding ev by (simp add: facts)
  show "ptab (snd (map_page_in 0x11A000 0x40001000 0x11F000 user_flags s)) = sample_tables ((\<lambda>_. 0)(0 := 0x200003, 1 := 0x800000000011F007))"
    unfolding ev sample_tables_def by (simp add: facts fun_upd_twist)
  show "free_set (snd (map_page_in 0x11A000 0x40001000 0x11F000 user_flags s)) = free_set s" unfolding ev by (simp add: facts free_set_def)
qed

lemma sample_protect:
  assumes "ptab s = sample_tables t" "cr3 s AND ADDR_MASK = 0x11A000" "t 1 = 0x800000000011F007"
  shows "fst (protect_page 0x40001000 flags s) \<and> (\<exists>t. ptab (snd (protect_page 0x40001000 flags s)) = sample_tables t)"
proof -
  have "sample_tables t 0x11D000 = t" "(sample_tables t)(0x11D000 := u) = sample_tables u" for u
    by (simp_all add: sample_tables_def)
  then show ?thesis unfolding protect_page_def user_indices Let_def assms(1,2) using assms(3)
    by (auto simp: assms(1) has_flag_def page_flags is_huge_def ADDR_MASK_def invalidate_page_def) (simp_all add: sample_tables_def, rule exI, rule refl)
qed

lemma sample_map_stack:
  assumes "ptab s = sample_tables t"
  shows "fst (map_page_in 0x11A000 0x40010000 0x120000 user_flags s)"
  unfolding map_page_in_def user_indices get_or_create_table_def Let_def
  by (simp add: assms sample_tables_def has_flag_def page_flags is_huge_def ADDR_MASK_def user_flags_def)

lemma sample_run_enters:
  assumes "r3_mach r = sample_wide" "length program \<le> 4096"
  shows "\<exists>r'. run_program 0x40001000 0x40010000 4096 program messages announce r = Some (Entered (enter 0x40001000 0x40011000), r')"
proof -
  have ok: "pmm_ok sample_wide" using table_treeD(4) [OF sample_wide_tree(1)] .
  have min: "Min {287, 288 :: nat} = 287" by simp
  have f: "frame_addr 287 = 0x11F000" "frame_addr 288 = 0x120000" by (simp_all add: frame_addr_def FRAME_SIZE_def)
  obtain b c where a1: "alloc_frame sample_wide = (0x11F000, sample_wide\<lparr>pmm_bitmap := b, free_count := c\<rparr>)"
    "free_set (sample_wide\<lparr>pmm_bitmap := b, free_count := c\<rparr>) = {288}"
    using alloc_frame_take [of sample_wide] ok sample_wide_tree(3) min f by auto
  define s1 where "s1 = sample_wide\<lparr>pmm_bitmap := b, free_count := c\<rparr>"
  have s1: "ptab s1 = ptab sample_space" "cr3 s1 AND ADDR_MASK = 0x11A000"
    using sample_wide_tree(2) by (simp_all add: s1_def sample_wide_def sample_machine_fields)
  define m1 where "m1 = snd (map_page_in 0x11A000 0x40001000 0x11F000 user_flags s1)"
  have map1: "map_user 0x40001000 sample_wide = (True, m1)"
    unfolding map_user_def a1(1) s1_def [symmetric] using sample_map_code(1) [OF s1(1)] s1(2)
    by (simp add: map_page_def user_flags_def [symmetric] m1_def prod_eq_iff)
  have m1: "ptab m1 = sample_tables ((\<lambda>_. 0)(0 := 0x200003, 1 := 0x800000000011F007))" "free_set m1 = {288}" "cr3 m1 AND ADDR_MASK = 0x11A000"
    using sample_map_code(2,3) [OF s1(1)] a1(2) map_page_in_cr3 [of "0x11A000" "0x40001000" "0x11F000" user_flags s1] s1(2)
    by (simp_all add: m1_def s1_def)
  obtain g where g: "g < 262144" "leaf m1 0x11A000 0x40001000 = Some (frame_addr g OR (user_flags OR PAGE_PRESENT))"
    using map_user_correct [OF sample_wide_tree(1) sample_wide_tree(2) [symmetric] map1] by blast
  obtain mem where st: "store_bytes 0x40001000 program m1 = Some (m1\<lparr>phys_mem := mem\<rparr>)"
    using store_program [OF g(2) m1(3) [symmetric] user_entry_flags(1) [OF g(1)] g(1), of program] assms(2) by auto
  define m2 where "m2 = m1\<lparr>phys_mem := mem\<rparr>"
  have "table_tree m1 0x11A000" using map_user_correct [OF sample_wide_tree(1) sample_wide_tree(2) [symmetric] map1] by blast
  then have "pmm_ok m1" by (rule table_treeD(4))
  then have m2: "ptab m2 = sample_tables ((\<lambda>_. 0)(0 := 0x200003, 1 := 0x800000000011F007))" "cr3 m2 AND ADDR_MASK = 0x11A000" "pmm_ok m2" "free_set m2 = {288}"
    using m1 by (simp_all add: m2_def free_set_def pmm_ok_def pmm_inv_def)
  obtain m3 where p: "protect_page 0x40001000 (PAGE_PRESENT OR PAGE_USER) m2 = (True, m3)" and "\<exists>t. ptab m3 = sample_tables t"
    using sample_protect [OF m2(1,2), of "PAGE_PRESENT OR PAGE_USER"] by (cases "protect_page 0x40001000 (PAGE_PRESENT OR PAGE_USER) m2") auto
  then obtain t where t: "ptab m3 = sample_tables t" by blast
  have m3: "free_set m3 = {288}" "cr3 m3 AND ADDR_MASK = 0x11A000" "pmm_ok m3"
    using protect_page_frame [of "0x40001000" "PAGE_PRESENT OR PAGE_USER" m2] m2(2-4) unfolding p by (simp_all add: free_set_def pmm_ok_def pmm_inv_def)
  obtain b c where a3: "alloc_frame m3 = (0x120000, m3\<lparr>pmm_bitmap := b, free_count := c\<rparr>)"
    using alloc_frame_take [of m3] m3(1,3) f(2) by auto
  have "fst (map_user 0x40010000 m3)" unfolding map_user_def a3
    using sample_map_stack [of "m3\<lparr>pmm_bitmap := b, free_count := c\<rparr>" t] t m3(2) by (simp add: map_page_def user_flags_def)
  then obtain m4 where "map_user 0x40010000 m3 = (True, m4)" by (cases "map_user 0x40010000 m3") auto
  then show ?thesis by (simp add: run_program_def assms(1) map1 st m2_def [symmetric] p)
qed

section \<open>Properties\<close>


definition sample_ring3 :: ring3_state where
  "sample_ring3 = \<lparr>r3_mach = sample_wide, r3_scr = sample_screen, tss_ready = True, task_register = 0x30\<rparr>"


end
