(* ===== verification/Spec2Isabelle.thy ===== *)
theory Spec2Isabelle
  imports Heap_Sharing Task_Context Task_Children Fs_Theorems Keyboard_Correct Fat32_Theorems Process_Load Process_Stack Interrupts_Correct Snake_Correct Shell_Correct Ring3_Correct
begin

text \<open>
  A verification library of VenomOS, a 64-bit kernel in C++ (\<^verbatim>\<open>src/kernel\<close>).

  \<^bold>\<open>The program.\<close> The physical memory manager hands out 4 KiB frames; the kernel heap takes frames from it and hands
  out blocks; paging builds address spaces from frames; the task table, the scheduler and the context switch run
  kernel tasks and processes on top of them. The ATA driver reads and writes sectors, VenomFS and the read-only FAT32
  driver use it. The loader validates an ELF file, loads it into a new address space and creates a process.
  Interrupts drive the keyboard, the scheduler and the system calls, which copy to and from user memory; the
  shell, the text screen and a game are the user interface.

  \<^bold>\<open>State.\<close> The records of the components extend each other: \<open>pmm_state\<close>, \<open>heap_state\<close>, \<open>paging_state\<close>, \<open>task_state\<close>,
  \<open>machine_state\<close>; an operation is a function on every extension of the record it needs, so that it applies to
  the machine as it is. Globals of the code are fields, pointers are addresses, and memory is split by use: block
  headers (\<open>hdrs\<close>), page tables (\<open>ptab\<close>), stack words (\<open>stack_mem\<close>) and all other bytes (\<open>phys_mem\<close>). \<open>kernel_state\<close>
  adds the screen, the keyboard, the file system and the descriptor table, \<open>shell_state\<close> the command line, the game and
  the FAT volume. Machine integers are words of their width, \<open>int\<close> counters that stay small are integers. A
  call that fails returns a boolean or a message as in the code; a walk through linked structures or a loop without an
  obvious bound is a \<open>partial_function (option)\<close> whose result \<open>None\<close> means that the call does not return or faults; the
  lemmas on each of them say when it returns. Hardware and what the boot loader and the linker provide (ports, memory
  map, symbols, entry points, program bytes) are arguments.

  \<^bold>\<open>Theories.\<close> Each component has a theory with its definitions and one or more with its lemmas and properties.
  \<^item> \<open>Kernel_Prelude\<close>: names of types, collections of rules, lemmas on words and lists, and the interfaces
    \<open>byte_bitmap\<close>, \<open>frame_allocator\<close> and \<open>memory_allocator\<close>.
  \<^item> \<open>Pmm\<close> (\<^verbatim>\<open>pmm.cpp\<close>): the bitmap of frames as the set of free frames; interprets \<open>byte_bitmap\<close> and \<open>frame_allocator\<close>.
  \<^item> \<open>Heap\<close>, \<open>Block_List\<close>, \<open>Heap_Refine\<close>, \<open>Heap_Correct\<close>, \<open>Heap_Sharing\<close> (\<^verbatim>\<open>heap.cpp\<close>): the linked headers refine a list of
    blocks, on which allocation, release and merging are proved; interprets \<open>memory_allocator\<close>; what happens when
    other components take and release frames.
  \<^item> \<open>Paging\<close>, \<open>Paging_Map\<close>, \<open>Paging_Space\<close> (\<^verbatim>\<open>paging.cpp\<close>): tables as a tree of distinct frames; mapping, unmapping and
    protection change one page; address spaces are created and destroyed without loss; the kernel image is never
    writable and executable.
  \<^item> \<open>Task\<close>, \<open>Task_Frame\<close>, \<open>Task_Correct\<close>, \<open>Task_Steps\<close>, \<open>Task_Invariant\<close>, \<open>Task_Boot\<close>, \<open>Task_Theorems\<close>, \<open>Task_Context\<close>, \<open>Task_Children\<close>
    (\<^verbatim>\<open>task.cpp\<close>, \<^verbatim>\<open>scheduler.cpp\<close>, \<^verbatim>\<open>task_switch.asm\<close>): a step relation of the kernel's operations, the invariant of the table
    in every reachable state, round robin without starvation, saved contexts, lists of children.
  \<^item> \<open>Elf\<close>, \<open>Elf_Correct\<close> (\<^verbatim>\<open>elf.cpp\<close>): the validator, memory safe on every file and equal to a declarative description.
  \<^item> \<open>Ata\<close>, \<open>Ata_Correct\<close> (\<^verbatim>\<open>ata.cpp\<close>, \<^verbatim>\<open>io.hpp\<close>): the driver against a controller that follows the protocol for programmed
    transfers; the interface \<open>block_device\<close> and its interpretation.
  \<^item> \<open>Fs\<close>, \<open>Fs_Alloc\<close>, \<open>Fs_Inv\<close>, \<open>Fs_Disk\<close>, \<open>Fs_Correct\<close>, \<open>Fs_Theorems\<close> (\<^verbatim>\<open>fs.cpp\<close>): writing and removing files refine updates of
    a map from names to contents, with every failure of the device; files survive mounting again.
  \<^item> \<open>Usercopy\<close>, \<open>Usercopy_Correct\<close> (\<^verbatim>\<open>usercopy.cpp\<close>): the check of user ranges is exact with respect to the translation by
    the processor, and copies stay in pages the user may access.
  \<^item> \<open>Keyboard\<close>, \<open>Keyboard_Correct\<close> (\<^verbatim>\<open>keyboard.cpp\<close>): scancodes and the ring buffer; the interface \<open>bounded_queue\<close> and its
    interpretation.
  \<^item> \<open>Fat32\<close>, \<open>Fat32_Correct\<close>, \<open>Fat32_Theorems\<close> (\<^verbatim>\<open>fat32.cpp\<close>): mounting, paths, directories, cluster chains.
  \<^item> \<open>Process\<close>, \<open>Process_Load\<close>, \<open>Process_Stack\<close> (\<^verbatim>\<open>process.cpp\<close>): what the processor reads after the segments are loaded, and
    the layout of the initial stack.
  \<^item> \<open>Vga\<close>, \<open>Vga_Correct\<close> (\<^verbatim>\<open>vga.cpp\<close>): the screen refines a terminal. \<open>Snake\<close>, \<open>Snake_Food\<close>, \<open>Snake_Correct\<close> (\<^verbatim>\<open>snake.cpp\<close>): the
    game's invariant, and that the search for a free cell ends because the generator has full period.
  \<^item> \<open>Interrupts\<close>, \<open>Interrupts_Correct\<close> (\<^verbatim>\<open>interrupts.cpp\<close>): descriptor table, interrupt controller, dispatch and system
    calls, which are safe for memory whatever their arguments.
  \<^item> \<open>Ring3\<close>, \<open>Ring3_Correct\<close> (\<^verbatim>\<open>ring3.cpp\<close>): entry to user mode and the protection of the demonstration programs.
  \<^item> \<open>Shell\<close>, \<open>Shell_Correct\<close> (\<^verbatim>\<open>shell.cpp\<close>, main loop of \<^verbatim>\<open>kernel.cpp\<close>): the shell executes the line that was typed.

  \<^bold>\<open>Bounds.\<close> Where the code counts attempts (growing the heap, polling a device, walking a cluster chain) the count is an
  argument of the recursion with the code's own limit; there is no other fuel. The liveness bound of 640 timer
  interrupts is 128 slots times the quantum of 5.

  \<^bold>\<open>Atomicity.\<close> There is one processor, and every operation is one step; switches happen where the code switches. The heap,
  \<open>reschedule\<close> and \<open>exit_current\<close> mask interrupts, and system calls and interrupt handlers run with interrupts off. Called from a
  kernel task, \<open>create\<close>, \<open>block_current\<close>, \<open>sleep_current\<close>, \<open>wait_for_child\<close>, the physical memory manager, paging and the drivers
  do not mask them: for these the models show what happens without an interrupt inside the call, and not the races
  such an interrupt causes, of which the lost wake-up of \<open>wait_for_child\<close> is one. \<open>wait\<close> and \<open>sleep\<close> in the shell and the
  sleep call continue when their task runs again.

  \<^bold>\<open>Not modelled.\<close> The boot loader and the interrupt stubs are assembly around the modelled code; the self tests, the
  stress test and the host test are tests of what is proved here; the start-up sequence of \<^verbatim>\<open>kernel_main\<close> mostly runs
  these tests and prints results; the linker scripts, the image builder and the embedded user programs are not
  kernel code. Timing, the contents of the translation buffer beyond the log of invalidations, and the effects of writing
  through a stale translation are outside the models.
\<close>

end
